(* ===== verification/Kaed_Prelude.thy ===== *)
theory Kaed_Prelude
  imports Complex_Main "HOL-Library.Char_ord" "HOL-Library.List_Lexorder" "HOL-Library.Sublist"
begin

text \<open>
  What every component shares: Rust strings as UTF-8 byte strings with the operations of
  \<open>str\<close> that the code uses (\<open>split\<close>, \<open>join\<close>, \<open>lines\<close>, \<open>trim\<close>, \<open>find\<close>,
  \<open>strip_prefix\<close>, \<open>chars().count()\<close>), the \<open>?\<close> operator on \<open>Result\<close>, folds that stop
  at the first error, and the \<open>BTreeMap\<close> interface with its sorted association list.
  A \<open>String\<close> is its list of bytes: \<open>length\<close> is Rust's \<open>len()\<close>, and a character
  beyond ASCII is several list elements, as it is several bytes in Rust.
\<close>

named_theorems text_simps \<open>facts on the string operations that component proofs rewrite with\<close>

type_synonym rstr = string

section \<open>The question mark operator\<close>

definition and_then :: "'e + 'a \<Rightarrow> ('a \<Rightarrow> 'e + 'b) \<Rightarrow> 'e + 'b" where
  "and_then r f = (case r of Inl e \<Rightarrow> Inl e | Inr x \<Rightarrow> f x)"

lemma and_then_simps [simp]:
  "and_then (Inl e) f = Inl e"
  "and_then (Inr x) f = f x"
  by (simp_all add: and_then_def)

lemma and_then_Inr [simp]:
  "and_then r f = Inr y \<longleftrightarrow> (\<exists>x. r = Inr x \<and> f x = Inr y)"
  by (cases r) auto

lemma and_then_Inl:
  "and_then r f = Inl e \<longleftrightarrow> r = Inl e \<or> (\<exists>x. r = Inr x \<and> f x = Inl e)"
  by (cases r) auto

definition map_err :: "('e \<Rightarrow> 'f) \<Rightarrow> 'e + 'a \<Rightarrow> 'f + 'a" where
  "map_err g r = (case r of Inl e \<Rightarrow> Inl (g e) | Inr x \<Rightarrow> Inr x)"

lemma map_err_simps [simp]:
  "map_err g (Inl e) = Inl (g e)"
  "map_err g (Inr x) = Inr x"
  "map_err g r = Inr x \<longleftrightarrow> r = Inr x"
  by (cases r; simp add: map_err_def)+

text \<open>A \<open>for\<close> loop whose body may return early with an error.\<close>

fun fold_res :: "('a \<Rightarrow> 's \<Rightarrow> 'e + 's) \<Rightarrow> 'a list \<Rightarrow> 's \<Rightarrow> 'e + 's" where
  "fold_res f [] s = Inr s"
| "fold_res f (x # xs) s = and_then (f x s) (fold_res f xs)"

lemma fold_res_invariant:
  assumes "fold_res f xs s = Inr t" and "P s"
    and "\<And>x s t. x \<in> set xs \<Longrightarrow> P s \<Longrightarrow> f x s = Inr t \<Longrightarrow> P t"
  shows "P t"
  using assms by (induction xs arbitrary: s) auto

lemma fold_res_append:
  "fold_res f (xs @ ys) s = and_then (fold_res f xs s) (fold_res f ys)"
  by (induction xs arbitrary: s) (auto simp: and_then_def split: sum.splits)

definition ok_or :: "'a option \<Rightarrow> 'e \<Rightarrow> 'e + 'a" where
  "ok_or x e = (case x of None \<Rightarrow> Inl e | Some y \<Rightarrow> Inr y)"

lemma ok_or_simps [simp]:
  "ok_or None e = Inl e" "ok_or (Some y) e = Inr y"
  "ok_or x e = Inr y \<longleftrightarrow> x = Some y"
  by (cases x; simp add: ok_or_def)+

section \<open>Searching a list\<close>

lemma find_SomeD: "find P xs = Some x \<Longrightarrow> x \<in> set xs \<and> P x"
  by (induction xs) (auto split: if_splits)

lemma find_eq_None: "find P xs = None \<longleftrightarrow> (\<forall>x\<in>set xs. \<not> P x)"
  by (induction xs) auto

lemma in_map_filter: "y \<in> set (List.map_filter f xs) \<longleftrightarrow> (\<exists>x\<in>set xs. f x = Some y)"
  by (induction xs) (auto simp: List.map_filter_simps split: option.splits)

lemma map_filter_eq_Nil: "List.map_filter f xs = [] \<longleftrightarrow> (\<forall>x\<in>set xs. f x = None)"
  by (induction xs) (auto simp: List.map_filter_simps split: option.splits)

section \<open>Characters\<close>

definition byte :: "char \<Rightarrow> nat" where
  "byte c = of_char c"

definition in_range :: "nat \<Rightarrow> nat \<Rightarrow> char \<Rightarrow> bool" where
  "in_range lo hi c \<longleftrightarrow> lo \<le> byte c \<and> byte c \<le> hi"

definition ascii_lower :: "char \<Rightarrow> bool" where
  "ascii_lower c \<longleftrightarrow> in_range 97 122 c"

definition ascii_upper :: "char \<Rightarrow> bool" where
  "ascii_upper c \<longleftrightarrow> in_range 65 90 c"

definition ascii_digit :: "char \<Rightarrow> bool" where
  "ascii_digit c \<longleftrightarrow> in_range 48 57 c"

definition ascii_alpha :: "char \<Rightarrow> bool" where
  "ascii_alpha c \<longleftrightarrow> ascii_lower c \<or> ascii_upper c"

definition ascii_alnum :: "char \<Rightarrow> bool" where
  "ascii_alnum c \<longleftrightarrow> ascii_alpha c \<or> ascii_digit c"

definition ascii_hexdigit :: "char \<Rightarrow> bool" where
  "ascii_hexdigit c \<longleftrightarrow> ascii_digit c \<or> in_range 97 102 c \<or> in_range 65 70 c"

lemmas ascii_defs = ascii_lower_def ascii_upper_def ascii_digit_def ascii_alpha_def
  ascii_alnum_def ascii_hexdigit_def in_range_def byte_def

abbreviation nl :: char where "nl \<equiv> CHR 0x0A"
abbreviation cr :: char where "cr \<equiv> CHR 0x0D"
abbreviation dquote :: char where "dquote \<equiv> CHR 0x22"
abbreviation squote :: char where "squote \<equiv> CHR 0x27"
abbreviation backslash :: char where "backslash \<equiv> CHR 0x5C"

text \<open>A UTF-8 continuation byte, and the bytes of a string grouped into its \<open>chars()\<close>.\<close>

definition is_cont :: "char \<Rightarrow> bool" where
  "is_cont c \<longleftrightarrow> in_range 128 191 c"

fun uchars :: "rstr \<Rightarrow> rstr list" where
  "uchars [] = []"
| "uchars (c # s) =
     (case uchars s of
        [] \<Rightarrow> [[c]]
      | u # us \<Rightarrow> if is_cont (hd u) then (c # u) # us else [c] # u # us)"

definition char_count :: "rstr \<Rightarrow> nat" where
  "char_count s = length (uchars s)"

lemma concat_uchars [simp, text_simps]: "concat (uchars s) = s"
  by (induction s) (auto split: list.splits)

lemma uchars_nonempty: "u \<in> set (uchars s) \<Longrightarrow> u \<noteq> []"
  by (induction s arbitrary: u) (fastforce split: list.splits if_splits)+

lemma uchars_Nil [simp]: "uchars s = [] \<longleftrightarrow> s = []"
  by (cases s) (auto split: list.splits)

lemma uchars_ascii: "\<forall>c\<in>set s. \<not> is_cont c \<Longrightarrow> uchars s = map (\<lambda>c. [c]) s"
  by (induction s) (auto split: list.splits)

lemma char_count_ascii: "\<forall>c\<in>set s. \<not> is_cont c \<Longrightarrow> char_count s = length s"
  by (simp add: char_count_def uchars_ascii)

lemma uchars_hd: "uchars s = u # us \<Longrightarrow> hd u = hd s"
  using uchars_nonempty[of u s] concat_uchars[of s]
  by (metis append_is_Nil_conv concat.simps(2) hd_append2 list.set_intros(1))

lemma char_count_append: "char_count (x @ y) \<le> char_count x + char_count y"
  unfolding char_count_def
proof (induction x)
  case (Cons c x)
  show ?case
  proof (cases "uchars x")
    case Nil
    then show ?thesis by (auto split: list.splits)
  next
    case (Cons u us)
    then have x: "x \<noteq> []" by auto
    with Cons.IH Cons obtain v vs where v: "uchars (x @ y) = v # vs"
      by (cases "uchars (x @ y)") auto
    from uchars_hd[OF v] uchars_hd[OF Cons] x have "hd v = hd u" by simp
    with Cons v Cons.IH show ?thesis by auto
  qed
qed simp

lemma char_count_concat:
  "(\<And>v. v \<in> set vs \<Longrightarrow> char_count v \<le> 1) \<Longrightarrow> char_count (concat vs) \<le> length vs"
proof (induction vs)
  case (Cons v vs)
  have "char_count (concat (v # vs)) \<le> char_count v + char_count (concat vs)"
    using char_count_append by simp
  with Cons show ?case by (fastforce intro: le_trans)
qed (simp add: char_count_def)

lemma uchars_uchar: "v \<in> set (uchars s) \<Longrightarrow> uchars v = [v]"
proof (induction s arbitrary: v)
  case (Cons c s)
  show ?case
  proof (cases "uchars s")
    case Nil
    with Cons.prems show ?thesis by simp
  next
    case (Cons u us)
    with Cons.IH have IH: "uchars u = [u]" "\<And>w. w \<in> set us \<Longrightarrow> uchars w = [w]" by auto
    show ?thesis
    proof (cases "is_cont (hd u)")
      case True
      with Cons Cons.prems have "v = c # u \<or> v \<in> set us" by simp
      with IH True show ?thesis by auto
    next
      case False
      with Cons Cons.prems have "v = [c] \<or> v = u \<or> v \<in> set us" by simp
      with IH show ?thesis by auto
    qed
  qed
qed simp

lemma char_count_uchar: "v \<in> set (uchars s) \<Longrightarrow> char_count v \<le> 1"
  by (simp add: char_count_def uchars_uchar)

section \<open>split, join and lines\<close>

fun split_on :: "char \<Rightarrow> rstr \<Rightarrow> rstr list" where
  "split_on c [] = [[]]"
| "split_on c (x # s) =
     (if x = c then [] # split_on c s
      else (case split_on c s of [] \<Rightarrow> [[x]] | w # ws \<Rightarrow> (x # w) # ws))"

fun join_with :: "rstr \<Rightarrow> rstr list \<Rightarrow> rstr" where
  "join_with sep [] = []"
| "join_with sep [w] = w"
| "join_with sep (w # ws) = w @ sep @ join_with sep ws"

lemma split_on_nonempty [simp]: "split_on c s \<noteq> []"
  by (induction s) (auto split: list.splits)

lemma length_split_on: "length (split_on c s) = Suc (count_list s c)"
  by (induction s) (auto split: list.splits)

lemma join_Cons: "ws \<noteq> [] \<Longrightarrow> join_with sep (w # ws) = w @ sep @ join_with sep ws"
  by (cases ws) auto

lemma join_Cons_hd: "join_with sep ((x # w) # ws) = x # join_with sep (w # ws)"
  by (cases ws) auto

lemma join_split [simp, text_simps]: "join_with [c] (split_on c s) = s"
proof (induction s)
  case (Cons x s)
  then show ?case
    by (cases "split_on c s") (auto simp: join_Cons join_Cons_hd)
qed simp

lemma split_on_free: "w \<in> set (split_on c s) \<Longrightarrow> c \<notin> set w"
  by (induction s arbitrary: w) (fastforce split: list.splits if_splits)+

lemma split_on_id: "c \<notin> set s \<Longrightarrow> split_on c s = [s]"
  by (induction s) auto

lemma split_on_append: "c \<notin> set w \<Longrightarrow> split_on c (w @ c # s) = w # split_on c s"
  by (induction w) auto

lemma split_join:
  "ws \<noteq> [] \<Longrightarrow> \<forall>w\<in>set ws. c \<notin> set w \<Longrightarrow> split_on c (join_with [c] ws) = ws"
proof (induction ws)
  case (Cons w ws)
  then show ?case
    by (cases ws) (auto simp: split_on_id split_on_append)
qed simp

lemma set_split_on_subset: "w \<in> set (split_on c s) \<Longrightarrow> set w \<subseteq> set s"
  by (induction s arbitrary: w) (fastforce split: list.splits if_splits)+

lemma join_last:
  "ws \<noteq> [] \<Longrightarrow> last ws \<noteq> [] \<Longrightarrow>
   join_with sep ws \<noteq> [] \<and> last (join_with sep ws) = last (last ws)"
proof (induction ws)
  case (Cons w ws)
  then show ?case by (cases ws) auto
qed simp

lemma count_list_append_local: "count_list (xs @ ys) c = count_list xs c + count_list ys c"
  by (induction xs) auto

lemma count_list_join:
  "ws \<noteq> [] \<Longrightarrow>
   count_list (join_with [c] ws) c = sum_list (map (\<lambda>w. count_list w c) ws) + (length ws - 1)"
proof (induction ws)
  case (Cons w ws)
  then show ?case
    by (cases ws) (auto simp: count_list_append_local)
qed simp

text \<open>
  \<open>str::split_inclusive('\n')\<close> and \<open>str::lines\<close>: a line ends at a line feed, a final line
  needs none, and a carriage return counts as part of the terminator only before a line feed.
\<close>

fun split_inclusive :: "rstr \<Rightarrow> rstr list" where
  "split_inclusive [] = []"
| "split_inclusive (x # s) =
     (if x = nl then [x] # split_inclusive s
      else (case split_inclusive s of [] \<Rightarrow> [[x]] | w # ws \<Rightarrow> (x # w) # ws))"

definition line_content :: "rstr \<Rightarrow> rstr" where
  "line_content w =
     (if w \<noteq> [] \<and> last w = nl
      then (let b = butlast w in if b \<noteq> [] \<and> last b = cr then butlast b else b)
      else w)"

definition str_lines :: "rstr \<Rightarrow> rstr list" where
  "str_lines s = map line_content (split_inclusive s)"

lemma concat_split_inclusive [simp, text_simps]: "concat (split_inclusive s) = s"
  by (induction s) (auto split: list.splits)

lemma split_inclusive_nonempty: "w \<in> set (split_inclusive s) \<Longrightarrow> w \<noteq> []"
  by (induction s arbitrary: w) (fastforce split: list.splits if_splits)+

lemma split_inclusive_Nil [simp]: "split_inclusive s = [] \<longleftrightarrow> s = []"
  by (cases s) (auto split: list.splits)

lemma split_inclusive_free:
  "nl \<notin> set w \<Longrightarrow> split_inclusive (w @ nl # s) = (w @ [nl]) # split_inclusive s"
  by (induction w) (auto split: list.splits)

lemma split_inclusive_last: "nl \<notin> set w \<Longrightarrow> w \<noteq> [] \<Longrightarrow> split_inclusive w = [w]"
proof (induction w)
  case (Cons a w)
  then show ?case by (cases w) auto
qed simp

lemma nl_in_line_content: "w \<in> set (split_inclusive s) \<Longrightarrow> nl \<notin> set (butlast w)"
  by (induction s arbitrary: w) (fastforce split: list.splits if_splits)+

section \<open>Prefixes, suffixes and substring search\<close>

definition strip_prefix :: "rstr \<Rightarrow> rstr \<Rightarrow> rstr option" where
  "strip_prefix p s = (if take (length p) s = p then Some (drop (length p) s) else None)"

definition strip_suffix :: "rstr \<Rightarrow> rstr \<Rightarrow> rstr option" where
  "strip_suffix p s =
     (if length p \<le> length s \<and> drop (length s - length p) s = p
      then Some (take (length s - length p) s) else None)"

definition starts_with :: "rstr \<Rightarrow> rstr \<Rightarrow> bool" where
  "starts_with p s \<longleftrightarrow> take (length p) s = p"

definition ends_with :: "rstr \<Rightarrow> rstr \<Rightarrow> bool" where
  "ends_with p s \<longleftrightarrow> strip_suffix p s \<noteq> None"

text \<open>\<open>str::find\<close>: the byte offset of the first match.\<close>

fun find_sub :: "rstr \<Rightarrow> rstr \<Rightarrow> nat option" where
  "find_sub p [] = (if p = [] then Some 0 else None)"
| "find_sub p (x # s) =
     (if take (length p) (x # s) = p then Some 0 else map_option Suc (find_sub p s))"

definition contains_sub :: "rstr \<Rightarrow> rstr \<Rightarrow> bool" where
  "contains_sub p s \<longleftrightarrow> find_sub p s \<noteq> None"

fun find_char :: "char \<Rightarrow> rstr \<Rightarrow> nat option" where
  "find_char c [] = None"
| "find_char c (x # s) = (if x = c then Some 0 else map_option Suc (find_char c s))"

definition split_once :: "char \<Rightarrow> rstr \<Rightarrow> (rstr \<times> rstr) option" where
  "split_once c s = map_option (\<lambda>i. (take i s, drop (Suc i) s)) (find_char c s)"

lemma strip_prefix_append [simp]: "strip_prefix p (p @ s) = Some s"
  by (simp add: strip_prefix_def)

lemma strip_prefix_Some: "strip_prefix p s = Some r \<longleftrightarrow> s = p @ r"
  by (auto simp: strip_prefix_def) (metis append_take_drop_id)

lemma strip_suffix_append [simp]: "strip_suffix p (s @ p) = Some s"
  by (simp add: strip_suffix_def)

lemma strip_suffix_Some: "strip_suffix p s = Some r \<longleftrightarrow> s = r @ p"
  by (auto simp: strip_suffix_def) (metis append_take_drop_id)

lemma find_sub_Some:
  "find_sub p s = Some i \<Longrightarrow> i + length p \<le> length s \<and> take (length p) (drop i s) = p"
proof (induction s arbitrary: i)
  case (Cons x s)
  show ?case
  proof (cases "take (length p) (x # s) = p")
    case True
    with Cons.prems have "i = 0" by simp
    moreover from True have "length p \<le> length (x # s)"
      by (metis length_take min.cobounded1)
    ultimately show ?thesis using True by simp
  next
    case False
    with Cons.prems obtain j where "find_sub p s = Some j" "i = Suc j" by auto
    with Cons.IH show ?thesis by auto
  qed
qed (auto split: if_splits)

lemma find_sub_least:
  "find_sub p s = Some i \<Longrightarrow> j < i \<Longrightarrow> take (length p) (drop j s) \<noteq> p"
proof (induction s arbitrary: i j)
  case (Cons x s)
  then show ?case
    by (cases j) (auto split: if_splits)
qed (auto split: if_splits)

lemma find_sub_None:
  "find_sub p s = None \<Longrightarrow> take (length p) (drop j s) \<noteq> p"
proof (induction s arbitrary: j)
  case (Cons x s)
  then show ?case by (cases j) (auto split: if_splits)
qed (auto split: if_splits)

lemma find_char_Some:
  "find_char c s = Some i \<Longrightarrow> i < length s \<and> s ! i = c \<and> c \<notin> set (take i s)"
  by (induction s arbitrary: i) (auto split: if_splits)

lemma find_char_None [simp]: "find_char c s = None \<longleftrightarrow> c \<notin> set s"
  by (induction s) auto

lemma find_char_append [simp]: "c \<notin> set w \<Longrightarrow> find_char c (w @ c # s) = Some (length w)"
  by (induction w) auto

lemma split_once_append: "c \<notin> set w \<Longrightarrow> split_once c (w @ c # s) = Some (w, s)"
  by (simp add: split_once_def)

lemma split_once_Some: "split_once c s = Some (a, b) \<Longrightarrow> s = a @ c # b \<and> c \<notin> set a"
  using find_char_Some by (fastforce simp: split_once_def id_take_nth_drop)

lemma split_once_None [simp]: "split_once c s = None \<longleftrightarrow> c \<notin> set s"
  by (simp add: split_once_def)

section \<open>White space and trimming\<close>

text \<open>
  \<open>char::is_whitespace\<close> is Unicode White_Space. \<open>ws_len s\<close> is the byte length of the white
  space character that \<open>s\<close> starts with (0 if it starts with none), \<open>ws_len_rev\<close> the same
  for a reversed string, so that trimming at the end peels whole characters too.
\<close>

definition ascii_ws :: "char \<Rightarrow> bool" where
  "ascii_ws a \<longleftrightarrow> in_range 9 13 a \<or> a = CHR '' ''"

definition ws2 :: "char \<Rightarrow> char \<Rightarrow> bool" where
  "ws2 a b \<longleftrightarrow> a = CHR 0xC2 \<and> (b = CHR 0x85 \<or> b = CHR 0xA0)"

definition ws3 :: "char \<Rightarrow> char \<Rightarrow> char \<Rightarrow> bool" where
  "ws3 a b c \<longleftrightarrow>
     (a = CHR 0xE1 \<and> b = CHR 0x9A \<and> c = CHR 0x80) \<or>
     (a = CHR 0xE2 \<and> b = CHR 0x80 \<and>
        (in_range 128 138 c \<or> c = CHR 0xA8 \<or> c = CHR 0xA9 \<or> c = CHR 0xAF)) \<or>
     (a = CHR 0xE2 \<and> b = CHR 0x81 \<and> c = CHR 0x9F) \<or>
     (a = CHR 0xE3 \<and> b = CHR 0x80 \<and> c = CHR 0x80)"

definition ws_len :: "rstr \<Rightarrow> nat" where
  "ws_len s = (case s of
      [] \<Rightarrow> 0
    | a # s' \<Rightarrow> if ascii_ws a then 1 else
        (case s' of
           [] \<Rightarrow> 0
         | b # s'' \<Rightarrow> if ws2 a b then 2 else
             (case s'' of [] \<Rightarrow> 0 | c # _ \<Rightarrow> if ws3 a b c then 3 else 0)))"

definition ws_len_rev :: "rstr \<Rightarrow> nat" where
  "ws_len_rev s = (case s of
      [] \<Rightarrow> 0
    | c # s' \<Rightarrow> if ascii_ws c then 1 else
        (case s' of
           [] \<Rightarrow> 0
         | b # s'' \<Rightarrow> if ws2 b c then 2 else
             (case s'' of [] \<Rightarrow> 0 | a # _ \<Rightarrow> if ws3 a b c then 3 else 0)))"

lemma ws_len_Nil [simp]: "ws_len [] = 0" "ws_len_rev [] = 0"
  by (simp_all add: ws_len_def ws_len_rev_def)

function trim_start :: "rstr \<Rightarrow> rstr" where
  "trim_start s = (if s = [] \<or> ws_len s = 0 then s else trim_start (drop (ws_len s) s))"
  by pat_completeness auto
termination
  by (relation "measure length") auto

function trim_start_rev :: "rstr \<Rightarrow> rstr" where
  "trim_start_rev s = (if s = [] \<or> ws_len_rev s = 0 then s else trim_start_rev (drop (ws_len_rev s) s))"
  by pat_completeness auto
termination
  by (relation "measure length") auto

declare trim_start.simps [simp del] trim_start_rev.simps [simp del]

definition trim_end :: "rstr \<Rightarrow> rstr" where
  "trim_end s = rev (trim_start_rev (rev s))"

definition trim :: "rstr \<Rightarrow> rstr" where
  "trim s = trim_end (trim_start s)"

text \<open>Whether some character of the string is white space.\<close>

fun has_ws :: "rstr \<Rightarrow> bool" where
  "has_ws [] = False"
| "has_ws (x # s) = (ws_len (x # s) \<noteq> 0 \<or> has_ws s)"

lemma trim_start_id: "ws_len s = 0 \<Longrightarrow> trim_start s = s"
  by (simp add: trim_start.simps)

lemma trim_start_rev_id: "ws_len_rev s = 0 \<Longrightarrow> trim_start_rev s = s"
  by (simp add: trim_start_rev.simps)

lemma trim_end_id: "ws_len_rev (rev s) = 0 \<Longrightarrow> trim_end s = s"
  by (simp add: trim_end_def trim_start_rev_id)

lemma suffix_trim_start: "suffix (trim_start s) s"
proof (induction s rule: trim_start.induct)
  case (1 s)
  then show ?case
    by (subst trim_start.simps) (auto intro: suffix_order.trans suffix_drop)
qed

lemma suffix_trim_start_rev: "suffix (trim_start_rev s) s"
proof (induction s rule: trim_start_rev.induct)
  case (1 s)
  then show ?case
    by (subst trim_start_rev.simps) (auto intro: suffix_order.trans suffix_drop)
qed

lemma prefix_trim_end: "prefix (trim_end s) s"
  using suffix_trim_start_rev[of "rev s"] by (simp add: trim_end_def suffix_to_prefix)

lemma set_trim: "set (trim s) \<subseteq> set s" "set (trim_start s) \<subseteq> set s" "set (trim_end s) \<subseteq> set s"
  using suffix_trim_start[of s] prefix_trim_end[of s] prefix_trim_end[of "trim_start s"]
  by (auto simp: trim_def dest!: set_mono_suffix set_mono_prefix)

lemma ws2_high: "ws2 a b \<Longrightarrow> 128 \<le> byte a \<and> 128 \<le> byte b"
  by (elim ws2_def[THEN iffD1, elim_format] conjE disjE) (simp_all add: byte_def)

lemma ws3_high: "ws3 a b c \<Longrightarrow> 128 \<le> byte a \<and> 128 \<le> byte b \<and> 128 \<le> byte c"
  unfolding ws3_def in_range_def by (elim conjE disjE) (simp_all add: byte_def)

lemma ws_len_start:
  assumes "\<not> ascii_ws x" and "byte x < 128"
  shows "ws_len (x # s) = 0"
proof -
  have "\<not> ws2 x b" "\<not> ws3 x b c" for b c
    using assms(2) ws2_high[of x b] ws3_high[of x b c] by auto
  with assms(1) show ?thesis by (simp add: ws_len_def split: list.splits)
qed

lemma ws_len_rev_start:
  assumes "\<not> ascii_ws x" and "byte x < 128"
  shows "ws_len_rev (x # s) = 0"
proof -
  have "\<not> ws2 b x" "\<not> ws3 c b x" for b c
    using assms(2) ws2_high[of b x] ws3_high[of c b x] by auto
  with assms(1) show ?thesis by (simp add: ws_len_rev_def split: list.splits)
qed

lemma has_ws_append: "has_ws s \<Longrightarrow> has_ws (r @ s)"
  by (induction r) auto

text \<open>A string with no white space character is not trimmed.\<close>

lemma ws_len_rev_has_ws: "ws_len_rev (rev s) \<noteq> 0 \<Longrightarrow> has_ws s"
proof -
  assume a: "ws_len_rev (rev s) \<noteq> 0"
  let ?n = "ws_len_rev (rev s)"
  have "\<exists>r w. s = r @ w \<and> w \<noteq> [] \<and> ws_len w \<noteq> 0"
  proof (cases "rev s")
    case Nil
    with a show ?thesis by simp
  next
    case (Cons c s')
    then have s: "s = rev s' @ [c]" by (metis rev.simps(2) rev_rev_ident)
    consider "ascii_ws c" | b s'' where "s' = b # s''" "ws2 b c"
      | b a s3 where "s' = b # a # s3" "ws3 a b c"
      using a Cons by (auto simp: ws_len_rev_def split: list.splits if_splits)
    then show ?thesis
    proof cases
      case 1
      then show ?thesis using s by (intro exI[of _ "rev s'"] exI[of _ "[c]"]) (simp add: ws_len_def)
    next
      case 2
      then show ?thesis using s
        by (intro exI[of _ "rev s''"] exI[of _ "[b, c]"]) (simp add: ws_len_def)
    next
      case 3
      then show ?thesis using s
        by (intro exI[of _ "rev s3"] exI[of _ "[a, b, c]"]) (simp add: ws_len_def)
    qed
  qed
  then obtain r w where "s = r @ w" "w \<noteq> []" "ws_len w \<noteq> 0" by blast
  then show "has_ws s" by (cases w) (auto intro: has_ws_append)
qed

lemma trim_no_ws: "\<not> has_ws s \<Longrightarrow> trim s = s"
proof -
  assume a: "\<not> has_ws s"
  then have "ws_len s = 0" by (cases s) auto
  moreover have "ws_len_rev (rev s) = 0" using a ws_len_rev_has_ws by blast
  ultimately show "trim s = s" by (simp add: trim_def trim_start_id trim_end_id)
qed

text \<open>Text between two visible ASCII characters is not trimmed.\<close>

lemma trim_delimited:
  assumes "\<not> ascii_ws x" "byte x < 128" "\<not> ascii_ws y" "byte y < 128"
  shows "trim (x # s @ [y]) = x # s @ [y]" "trim [x] = [x]"
  using assms by (simp_all add: trim_def trim_start_id trim_end_id ws_len_start ws_len_rev_start)

text \<open>A visible ASCII character is never trimmed away.\<close>

lemma ws_len_rev_visible:
  assumes "\<not> ascii_ws x" and "byte x < 128"
  shows "ws_len_rev (s @ [x]) \<le> length s"
proof -
  have 2: "\<not> ws2 b x" for b using assms(2) ws2_high[of b x] by auto
  have 3: "\<not> ws3 c b x" for b c using assms(2) ws3_high[of c b x] by auto
  have 4: "\<not> ws2 x b" for b using assms(2) ws2_high[of x b] by auto
  have 5: "\<not> ws3 x b c" for b c using assms(2) ws3_high[of x b c] by auto
  have 6: "\<not> ws3 c x b" for b c using assms(2) ws3_high[of c x b] by auto
  show ?thesis
  proof (cases s)
    case Nil
    with assms(1) show ?thesis by (simp add: ws_len_rev_def)
  next
    case (Cons a s')
    show ?thesis
    proof (cases s')
      case Nil
      with Cons 4 show ?thesis by (simp add: ws_len_rev_def)
    next
      case (Cons b s'')
      with \<open>s = a # s'\<close> 5 show ?thesis
        by (cases s'') (simp_all add: ws_len_rev_def)
    qed
  qed
qed

lemma trim_start_rev_visible:
  assumes "\<not> ascii_ws x" and "byte x < 128"
  shows "trim_start_rev (s @ [x]) \<noteq> []"
proof (induction "length s" arbitrary: s rule: less_induct)
  case less
  let ?n = "ws_len_rev (s @ [x])"
  show ?case
  proof (cases "?n = 0")
    case True
    then show ?thesis by (subst trim_start_rev.simps) simp
  next
    case False
    with ws_len_rev_visible[OF assms, of s] have "drop ?n (s @ [x]) = drop ?n s @ [x]"
      and "length (drop ?n s) < length s" by simp_all
    with False less show ?thesis by (subst trim_start_rev.simps) simp
  qed
qed

lemma trim_visible:
  assumes "\<not> ascii_ws x" and "byte x < 128"
  shows "trim (x # s) \<noteq> []"
  using trim_start_rev_visible[OF assms, of "rev s"] assms
  by (simp add: trim_def trim_end_def trim_start_id ws_len_start)

lemma trim_Nil [simp]: "trim [] = []" "trim_start [] = []" "trim_end [] = []"
  by (simp_all add: trim_def trim_start.simps trim_end_def trim_start_rev.simps)

end
