(* ===== verification/Kaed_Errors.thy ===== *)
theory Kaed_Errors
  imports Kaed_Prelude
begin

text \<open>
  \<open>src/errors.rs\<close>: the structured error \<open>{code, message, data}\<close>. The \<open>data\<close> payload is the
  JSON value the code builds, so what the callers read back out of it (the journal, the
  feedback invitation) is modelled on the payload itself. A message is the name of its
  \<open>format!\<close> template with the interpolated arguments; the English prose of the template
  is not modelled.
\<close>

datatype error_code =
    NotFound | OutsideRoot | Denied | VersionConflict | AmbiguousAnchor | AnchorNotFound
  | InvalidInput | TooLarge | IsBinary | ParseUnavailable | Internal | UnsupportedCapability

datatype refusal_reason =
    ServerDenylist | Kaedignore | InFileMarker | ClassifiedOpaque | KaedignoreProtected
  | RevealDisabled | NotReadableByServiceIdentity | NotWritableByServiceIdentity

text \<open>The wire names: serde's \<open>snake_case\<close> rename.\<close>

fun code_str :: "error_code \<Rightarrow> rstr" where
  "code_str NotFound = ''not_found''"
| "code_str OutsideRoot = ''outside_root''"
| "code_str Denied = ''denied''"
| "code_str VersionConflict = ''version_conflict''"
| "code_str AmbiguousAnchor = ''ambiguous_anchor''"
| "code_str AnchorNotFound = ''anchor_not_found''"
| "code_str InvalidInput = ''invalid_input''"
| "code_str TooLarge = ''too_large''"
| "code_str IsBinary = ''is_binary''"
| "code_str ParseUnavailable = ''parse_unavailable''"
| "code_str Internal = ''internal''"
| "code_str UnsupportedCapability = ''unsupported_capability''"

fun reason_str :: "refusal_reason \<Rightarrow> rstr" where
  "reason_str ServerDenylist = ''server_denylist''"
| "reason_str Kaedignore = ''kaedignore''"
| "reason_str InFileMarker = ''in_file_marker''"
| "reason_str ClassifiedOpaque = ''classified_opaque''"
| "reason_str KaedignoreProtected = ''kaedignore_protected''"
| "reason_str RevealDisabled = ''reveal_disabled''"
| "reason_str NotReadableByServiceIdentity = ''not_readable_by_service_identity''"
| "reason_str NotWritableByServiceIdentity = ''not_writable_by_service_identity''"

section \<open>JSON payloads\<close>

datatype json =
    JNull | JBool bool | JNum int | JStr rstr | JArr "json list" | JObj "(rstr \<times> json) list"

fun obj_insert :: "rstr \<Rightarrow> json \<Rightarrow> (rstr \<times> json) list \<Rightarrow> (rstr \<times> json) list" where
  "obj_insert k v [] = [(k, v)]"
| "obj_insert k v ((k', v') # m) = (if k' = k then (k, v) # m else (k', v') # obj_insert k v m)"

definition obj_extend :: "(rstr \<times> json) list \<Rightarrow> (rstr \<times> json) list \<Rightarrow> (rstr \<times> json) list" where
  "obj_extend m extra = fold (\<lambda>(k, v). obj_insert k v) extra m"

fun json_get :: "json \<Rightarrow> rstr \<Rightarrow> json option" where
  "json_get (JObj m) k = map_of m k"
| "json_get _ k = None"

fun as_str :: "json \<Rightarrow> rstr option" where
  "as_str (JStr s) = Some s"
| "as_str _ = None"

definition opt_str :: "rstr option \<Rightarrow> json" where
  "opt_str x = (case x of None \<Rightarrow> JNull | Some s \<Rightarrow> JStr s)"

lemma map_of_obj_insert [simp]: "map_of (obj_insert k v m) = (map_of m)(k \<mapsto> v)"
  by (induction k v m rule: obj_insert.induct) auto

lemma map_of_obj_extend: "map_of (obj_extend m extra) k =
    (case map_of (rev extra) k of None \<Rightarrow> map_of m k | Some v \<Rightarrow> Some v)"
  unfolding obj_extend_def
  by (induction extra arbitrary: m) (auto simp: map_add_def split: option.splits)

section \<open>The error record and its constructors\<close>

datatype msg = Msg (template: rstr) (args: "rstr list")

record kaed_error =
  code :: error_code
  message :: msg
  edata :: "json option"

type_synonym 'a res = "kaed_error + 'a"

definition new_error :: "error_code \<Rightarrow> msg \<Rightarrow> kaed_error" where
  "new_error c m = \<lparr>code = c, message = m, edata = None\<rparr>"

definition with_data :: "json \<Rightarrow> kaed_error \<Rightarrow> kaed_error" where
  "with_data d e = e\<lparr>edata := Some d\<rparr>"

definition merge_data :: "json \<Rightarrow> kaed_error \<Rightarrow> kaed_error" where
  "merge_data extra e =
     (case extra of
        JObj ex \<Rightarrow>
          (case edata e of
             Some (JObj m) \<Rightarrow> e\<lparr>edata := Some (JObj (obj_extend m ex))\<rparr>
           | None \<Rightarrow> e\<lparr>edata := Some (JObj ex)\<rparr>
           | Some _ \<Rightarrow> e)
      | _ \<Rightarrow> e)"

definition not_found :: "msg \<Rightarrow> kaed_error" where
  "not_found m = new_error NotFound m"

definition outside_root :: "msg \<Rightarrow> kaed_error" where
  "outside_root m = new_error OutsideRoot m"

definition invalid_input :: "msg \<Rightarrow> kaed_error" where
  "invalid_input m = new_error InvalidInput m"

definition too_large :: "msg \<Rightarrow> kaed_error" where
  "too_large m = new_error TooLarge m"

definition is_binary :: "msg \<Rightarrow> kaed_error" where
  "is_binary m = new_error IsBinary m"

definition refused :: "rstr \<Rightarrow> rstr \<Rightarrow> refusal_reason \<Rightarrow> rstr \<Rightarrow> kaed_error" where
  "refused path rule reason hint =
     with_data
       (JObj [(''path'', JStr path), (''rule'', JStr rule),
              (''reason'', JStr (reason_str reason)), (''hint'', JStr hint)])
       (new_error Denied (Msg ''refused'' [path, reason_str reason, rule, hint]))"

text \<open>
  \<open>internal\<close> classifies descriptor exhaustion on its way through. The code searches the whole
  message, whose fixed prose contains none of the phrases, so the arguments are searched.
\<close>

definition to_ascii_lower :: "rstr \<Rightarrow> rstr" where
  "to_ascii_lower s = map (\<lambda>c. if ascii_upper c then char_of (byte c + 32) else c) s"

definition is_descriptor_exhaustion :: "rstr \<Rightarrow> bool" where
  "is_descriptor_exhaustion m =
     (let l = to_ascii_lower m in
      contains_sub ''too many open files'' l \<or> contains_sub ''os error 24'' l
      \<or> contains_sub ''os error 23'' l \<or> contains_sub ''file table overflow'' l)"

definition exhaustion_hint :: rstr where
  "exhaustion_hint = ''retry once''"

definition internal_error :: "msg \<Rightarrow> kaed_error" where
  "internal_error m =
     (if \<exists>a\<in>set (args m). is_descriptor_exhaustion a
      then with_data
             (JObj [(''reason'', JStr ''resource_exhausted''), (''retryable'', JBool True),
                    (''hint'', JStr exhaustion_hint)])
             (new_error Internal m)
      else new_error Internal m)"

definition anchor_not_found :: "rstr \<Rightarrow> kaed_error" where
  "anchor_not_found path =
     with_data (JObj [(''path'', JStr path)]) (new_error AnchorNotFound (Msg ''anchor not found'' [path]))"

record version_conflict_data =
  vc_path :: rstr
  vc_expected :: rstr
  vc_actual :: rstr
  vc_delta :: rstr

definition version_conflict :: "version_conflict_data \<Rightarrow> kaed_error" where
  "version_conflict d =
     with_data
       (JObj [(''path'', JStr (vc_path d)), (''expected_version'', JStr (vc_expected d)),
              (''actual_version'', JStr (vc_actual d)), (''delta'', JStr (vc_delta d))])
       (new_error VersionConflict
          (Msg ''changed since it was read'' [vc_path d, vc_expected d, vc_actual d]))"

section \<open>The ambiguous anchor payload\<close>

definition ANCHOR_OCCURRENCE_MAX :: nat where
  "ANCHOR_OCCURRENCE_MAX = 20"

definition ANCHOR_LINE_MAX_CHARS :: nat where
  "ANCHOR_LINE_MAX_CHARS = 120"

record anchor_occurrence =
  ao_line :: nat
  ao_text :: rstr

record ambiguous_anchor_data =
  aa_path :: rstr
  aa_occurrences :: "anchor_occurrence list"
  aa_total :: nat
  aa_truncated :: bool
  aa_hint :: rstr

definition ellipsis :: rstr where
  "ellipsis = [CHR 0xE2, CHR 0x80, CHR 0xA6]"

definition clip_line :: "rstr \<Rightarrow> rstr" where
  "clip_line line =
     (if char_count line \<le> ANCHOR_LINE_MAX_CHARS then line
      else concat (take ANCHOR_LINE_MAX_CHARS (uchars line)) @ ellipsis)"

text \<open>\<open>lines.get(line - 1)\<close> with the line number at least 1, as \<open>line_of_offset\<close> returns it.\<close>

definition list_get :: "'a list \<Rightarrow> nat \<Rightarrow> 'a option" where
  "list_get xs i = (if i < length xs then Some (xs ! i) else None)"

definition ambiguous_anchor_data_new :: "rstr \<Rightarrow> rstr list \<Rightarrow> nat list \<Rightarrow> ambiguous_anchor_data" where
  "ambiguous_anchor_data_new path lines hit_lines =
     (let total = length hit_lines;
          truncated = ANCHOR_OCCURRENCE_MAX < total;
          occurrences =
            map (\<lambda>line. \<lparr>ao_line = line,
                          ao_text = (case list_get lines (line - 1) of
                                       Some l \<Rightarrow> clip_line (trim l) | None \<Rightarrow> [])\<rparr>)
              (take ANCHOR_OCCURRENCE_MAX hit_lines)
      in \<lparr>aa_path = path, aa_occurrences = occurrences, aa_total = total,
          aa_truncated = truncated,
          aa_hint = (if truncated then ''showing the first; narrow with search''
                     else ''pass occurrence to pick one'')\<rparr>)"

definition occurrence_json :: "anchor_occurrence \<Rightarrow> json" where
  "occurrence_json oc = JObj [(''line'', JNum (int (ao_line oc))), (''text'', JStr (ao_text oc))]"

definition ambiguous_anchor :: "ambiguous_anchor_data \<Rightarrow> kaed_error" where
  "ambiguous_anchor d =
     with_data
       (JObj [(''path'', JStr (aa_path d)),
              (''occurrences'', JArr (map occurrence_json (aa_occurrences d))),
              (''total'', JNum (int (aa_total d))),
              (''truncated'', JBool (aa_truncated d)),
              (''hint'', JStr (aa_hint d))])
       (new_error AmbiguousAnchor
          (Msg (if aa_truncated d then ''anchor matches first'' else ''anchor matches'') [aa_path d]))"

section \<open>The feedback invitation\<close>

definition invites_feedback :: "kaed_error \<Rightarrow> bool" where
  "invites_feedback e =
     (case code e of
        Denied \<Rightarrow> True | TooLarge \<Rightarrow> True | Internal \<Rightarrow> True
      | VersionConflict \<Rightarrow>
          (case Option.bind (Option.bind (edata e) (\<lambda>d. json_get d ''delta'')) as_str of
             None \<Rightarrow> True
           | Some delta \<Rightarrow> starts_with ''(content for the expected version'' delta)
      | _ \<Rightarrow> False)"

definition feedback_invite :: json where
  "feedback_invite =
     JObj [(''ask'', JStr ''was this refusal actionable''), (''tool'', JStr ''feedback''),
           (''required'', JArr [JStr ''summary''])]"

definition with_feedback_invite :: "kaed_error \<Rightarrow> kaed_error" where
  "with_feedback_invite e =
     (if \<not> invites_feedback e then e
      else (case edata e of
              Some (JObj m) \<Rightarrow> e\<lparr>edata := Some (JObj (obj_insert ''feedback_invite'' feedback_invite m))\<rparr>
            | None \<Rightarrow> e\<lparr>edata := Some (JObj [(''feedback_invite'', feedback_invite)])\<rparr>
            | Some _ \<Rightarrow> e))"

section \<open>IO errors\<close>

datatype io_kind = IoNotFound | IoPermissionDenied | IoOther

record io_error =
  io_kind :: io_kind
  io_text :: rstr

definition from_io :: "io_error \<Rightarrow> kaed_error" where
  "from_io e =
     (case io_kind e of
        IoNotFound \<Rightarrow> not_found (Msg ''io'' [io_text e])
      | _ \<Rightarrow> internal_error (Msg ''io'' [io_text e]))"

section \<open>Facts about errors\<close>

lemmas error_defs = new_error_def with_data_def not_found_def outside_root_def invalid_input_def
  too_large_def is_binary_def refused_def anchor_not_found_def version_conflict_def ambiguous_anchor_def

lemma error_codes [simp]:
  "code (new_error c m) = c"
  "code (with_data d e) = code e"
  "code (not_found m) = NotFound"
  "code (outside_root m) = OutsideRoot"
  "code (invalid_input m) = InvalidInput"
  "code (too_large m) = TooLarge"
  "code (is_binary m) = IsBinary"
  "code (refused p r rr h) = Denied"
  "code (internal_error m) = Internal"
  "code (anchor_not_found p) = AnchorNotFound"
  "code (version_conflict vd) = VersionConflict"
  "code (ambiguous_anchor a) = AmbiguousAnchor"
  by (simp_all add: error_defs internal_error_def)

lemma code_merge_data [simp]: "code (merge_data x e) = code e" "message (merge_data x e) = message e"
  by (simp_all add: merge_data_def split: json.splits option.splits)

lemma code_from_io: "code (from_io e) = (if io_kind e = IoNotFound then NotFound else Internal)"
  by (simp add: from_io_def split: io_kind.splits)

lemma merge_data_keeps:
  assumes "edata e = Some (JObj m)" and "map_of m k = Some v" and "k \<notin> fst ` set ex"
  shows "Option.bind (edata (merge_data (JObj ex) e)) (\<lambda>d. json_get d k) = Some v"
proof -
  have "map_of (rev ex) k = None" using assms(3) by (simp add: map_of_eq_None_iff)
  with assms show ?thesis by (simp add: merge_data_def map_of_obj_extend)
qed

lemma clip_line_bound: "char_count (clip_line line) \<le> Suc ANCHOR_LINE_MAX_CHARS"
proof (cases "char_count line \<le> ANCHOR_LINE_MAX_CHARS")
  case False
  have "char_count (clip_line line)
      \<le> char_count (concat (take ANCHOR_LINE_MAX_CHARS (uchars line))) + char_count ellipsis"
    using False char_count_append by (simp add: clip_line_def)
  also have "\<dots> \<le> ANCHOR_LINE_MAX_CHARS + 1"
  proof (rule add_mono)
    have "char_count (concat (take ANCHOR_LINE_MAX_CHARS (uchars line)))
        \<le> length (take ANCHOR_LINE_MAX_CHARS (uchars line))"
      by (rule char_count_concat) (meson in_set_takeD char_count_uchar)
    then show "char_count (concat (take ANCHOR_LINE_MAX_CHARS (uchars line))) \<le> ANCHOR_LINE_MAX_CHARS"
      by simp
    show "char_count ellipsis \<le> 1" by code_simp
  qed
  finally show ?thesis by simp
qed (simp add: clip_line_def)

text \<open>The payload of an ambiguous anchor lists the first hits, in order, and says when it cut.\<close>

lemma ambiguous_anchor_data_lines:
  "map ao_line (aa_occurrences (ambiguous_anchor_data_new path lines hits)) =
     take ANCHOR_OCCURRENCE_MAX hits"
  by (simp add: ambiguous_anchor_data_new_def Let_def comp_def)

lemma ambiguous_anchor_data_total:
  "aa_total (ambiguous_anchor_data_new path lines hits) = length hits"
  "aa_truncated (ambiguous_anchor_data_new path lines hits) \<longleftrightarrow>
     length (aa_occurrences (ambiguous_anchor_data_new path lines hits)) < length hits"
  by (auto simp: ambiguous_anchor_data_new_def Let_def)

end
