(* ===== verification/Kaed_Policy.thy ===== *)
theory Kaed_Policy
  imports Kaed_Errors
begin

text \<open>
  \<open>src/deny.rs\<close> and \<open>src/policy.rs\<close>: the deny list, the classifier, the \<open>.kaedignore\<close> chain
  with its per-call cache, and the in-file marker. An absolute path is the list of its
  components. The crates \<open>globset\<close> and \<open>ignore\<close> are parameters: \<open>globs g p\<close> says that
  pattern \<open>g\<close> matches path \<open>p\<close>, and a built \<open>.kaedignore\<close> is the function from a path and
  whether it is a directory to the original pattern of the rule that ignores it.
\<close>

type_synonym path = "rstr list"
type_synonym globs = "rstr \<Rightarrow> path \<Rightarrow> bool"

section \<open>Paths\<close>

text \<open>\<open>std::path::Component\<close> and the parsing of a path text into components.\<close>

datatype component = RootDir | CurDir | ParentDir | Normal rstr

definition to_component :: "rstr \<Rightarrow> component" where
  "to_component s = (if s = ''.'' then CurDir else if s = ''..'' then ParentDir else Normal s)"

definition is_absolute :: "rstr \<Rightarrow> bool" where
  "is_absolute s \<longleftrightarrow> starts_with ''/'' s"

definition components :: "rstr \<Rightarrow> component list" where
  "components s =
     (let segs = split_on (CHR ''/'') s in
      if is_absolute s
      then RootDir # map to_component (filter (\<lambda>w. w \<noteq> [] \<and> w \<noteq> ''.'') segs)
      else (if hd segs = ''.'' then [CurDir] else [])
           @ map to_component (filter (\<lambda>w. w \<noteq> [] \<and> w \<noteq> ''.'') segs))"

definition file_name :: "rstr \<Rightarrow> rstr option" where
  "file_name s =
     (if components s = [] then None
      else case last (components s) of Normal n \<Rightarrow> Some n | _ \<Rightarrow> None)"

text \<open>\<open>p\<close>, its parent, and so on up to the root directory.\<close>

definition ancestors :: "path \<Rightarrow> path list" where
  "ancestors p = map (\<lambda>n. take n p) (rev [0..<Suc (length p)])"

definition path_str :: "path \<Rightarrow> rstr" where
  "path_str p = ''/'' @ join_with ''/'' p"

section \<open>The deny list and the classifier\<close>

definition DEFAULT_DENY :: "rstr list" where
  "DEFAULT_DENY =
     [''**/.ssh'', ''**/.gnupg'', ''**/.aws'', ''**/.netrc'', ''**/.git-credentials'', ''**/.config/gh'']"

record deny_list =
  dn_builtin :: "(path \<times> rstr) list"
  dn_patterns :: "rstr list"

definition empty_deny :: deny_list where
  "empty_deny = \<lparr>dn_builtin = [], dn_patterns = []\<rparr>"

text \<open>The first pattern that matches the path, or else the nearest ancestor one matches.\<close>

fun walk_rules :: "globs \<Rightarrow> rstr list \<Rightarrow> path list \<Rightarrow> rstr option" where
  "walk_rules globs patterns [] = None"
| "walk_rules globs patterns (p # ps) =
     (case find (\<lambda>g. globs g p) patterns of
        Some g \<Rightarrow> Some g
      | None \<Rightarrow> walk_rules globs patterns ps)"

definition denied_by :: "globs \<Rightarrow> deny_list \<Rightarrow> path \<Rightarrow> rstr option" where
  "denied_by globs d ap =
     (case find (\<lambda>(dir, label). prefix dir ap) (dn_builtin d) of
        Some (dir, label) \<Rightarrow> Some label
      | None \<Rightarrow> walk_rules globs (dn_patterns d) (ancestors ap))"

definition is_denied :: "globs \<Rightarrow> deny_list \<Rightarrow> path \<Rightarrow> bool" where
  "is_denied globs d ap \<longleftrightarrow> denied_by globs d ap \<noteq> None"

definition describe_builtin :: "path \<times> rstr \<Rightarrow> rstr" where
  "describe_builtin b = path_str (fst b) @ '' ('' @ snd b @ '')''"

definition deny_describe :: "deny_list \<Rightarrow> rstr list" where
  "deny_describe d = map describe_builtin (dn_builtin d) @ dn_patterns d"

definition builtin_prefixes_within :: "deny_list \<Rightarrow> path \<Rightarrow> rstr list" where
  "builtin_prefixes_within d base =
     map describe_builtin (filter (\<lambda>(dir, _). prefix base dir) (dn_builtin d))"

definition DEFAULT_CLASSIFY :: "rstr list" where
  "DEFAULT_CLASSIFY =
     [''**/.env'', ''**/.env.*'', ''**/*.env'', ''**/*.pem'', ''**/*.p12'', ''**/id_rsa'',
      ''**/id_ecdsa'', ''**/id_ed25519'', ''**/credentials*'', ''**/*.kdbx'']"

definition classified_by :: "globs \<Rightarrow> rstr list \<Rightarrow> path \<Rightarrow> rstr option" where
  "classified_by globs patterns ap = walk_rules globs patterns (ancestors ap)"

section \<open>The kaedignore chain\<close>

definition KAEDIGNORE :: rstr where
  "KAEDIGNORE = ''.kaedignore''"

type_synonym gitignore = "path \<Rightarrow> bool \<Rightarrow> rstr option"

record kaedignore_match =
  km_file :: path
  km_pattern :: rstr

text \<open>The cache of one call: a directory maps to its matcher once it was looked up.\<close>

type_synonym ignore_cache = "path \<rightharpoonup> gitignore option"

definition matcher ::
  "(path \<Rightarrow> gitignore option) \<Rightarrow> path \<Rightarrow> ignore_cache \<Rightarrow> gitignore option \<times> ignore_cache" where
  "matcher build dir cache =
     (case cache dir of
        Some m \<Rightarrow> (m, cache)
      | None \<Rightarrow> (build dir, cache(dir \<mapsto> build dir)))"

fun push_dirs :: "path \<Rightarrow> rstr list \<Rightarrow> path list" where
  "push_dirs dir [] = [dir]"
| "push_dirs dir (c # cs) = dir # push_dirs (dir @ [c]) cs"

fun check_chain ::
  "(path \<Rightarrow> gitignore option) \<Rightarrow> path \<Rightarrow> bool \<Rightarrow> path list \<Rightarrow> ignore_cache
     \<Rightarrow> kaedignore_match option \<times> ignore_cache" where
  "check_chain build ap is_dir [] cache = (None, cache)"
| "check_chain build ap is_dir (d # ds) cache =
     (let (m, cache') = matcher build d cache in
      case m of
        None \<Rightarrow> check_chain build ap is_dir ds cache'
      | Some g \<Rightarrow>
          (case g ap is_dir of
             Some pat \<Rightarrow> (Some \<lparr>km_file = d @ [KAEDIGNORE], km_pattern = pat\<rparr>, cache')
           | None \<Rightarrow> check_chain build ap is_dir ds cache'))"

definition strip_root :: "path \<Rightarrow> path \<Rightarrow> path option" where
  "strip_root base ap = (if prefix base ap then Some (drop (length base) ap) else None)"

definition denied_cached ::
  "(path \<Rightarrow> gitignore option) \<Rightarrow> (path \<Rightarrow> bool) \<Rightarrow> path \<Rightarrow> path \<Rightarrow> ignore_cache
     \<Rightarrow> kaedignore_match option \<times> ignore_cache" where
  "denied_cached build is_dir base ap cache =
     (if ap \<noteq> [] \<and> last ap = KAEDIGNORE then (None, cache)
      else (case strip_root base ap of
              None \<Rightarrow> (None, cache)
            | Some rel \<Rightarrow>
                if rel = [] then (None, cache)
                else check_chain build ap (is_dir ap) (push_dirs base (butlast rel)) cache))"

definition kaedignore_denied ::
  "(path \<Rightarrow> gitignore option) \<Rightarrow> (path \<Rightarrow> bool) \<Rightarrow> path \<Rightarrow> path \<Rightarrow> kaedignore_match option" where
  "kaedignore_denied build is_dir base ap = fst (denied_cached build is_dir base ap Map.empty)"

definition is_kaedignore_path :: "rstr \<Rightarrow> bool" where
  "is_kaedignore_path rel \<longleftrightarrow> file_name rel = Some KAEDIGNORE"

section \<open>The in-file marker\<close>

definition MARKER_LINES :: nat where "MARKER_LINES = 5"

text \<open>The first of the leaders (closers) that the text starts (ends) with is removed.\<close>

fun strip_first :: "(rstr \<Rightarrow> rstr \<Rightarrow> rstr option) \<Rightarrow> rstr list \<Rightarrow> rstr \<Rightarrow> rstr" where
  "strip_first strip [] s = s"
| "strip_first strip (l # ls) s =
     (case strip l s of Some r \<Rightarrow> r | None \<Rightarrow> strip_first strip ls s)"

definition is_marker_line :: "rstr \<Rightarrow> bool" where
  "is_marker_line line \<longleftrightarrow>
     (let s = strip_first strip_prefix [''#'', ''//'', '';'', ''--'', ''/*'', ''<!--'', ''*''] (trim line);
          s' = strip_first strip_suffix [''-->'', ''*/''] (trim s)
      in trim s' = ''kaedignore'')"

definition has_ignore_marker :: "rstr \<Rightarrow> bool" where
  "has_ignore_marker content \<longleftrightarrow> (\<exists>l\<in>set (take MARKER_LINES (str_lines content)). is_marker_line l)"

section \<open>The git check\<close>

definition find_git_root :: "(path \<Rightarrow> bool) \<Rightarrow> path \<Rightarrow> path option" where
  "find_git_root path_exists start = find (\<lambda>dir. path_exists (dir @ [''.git''])) (ancestors start)"

text \<open>
  The exit status of \<open>git check-ignore\<close> is the parameter \<open>git_status\<close> (\<open>None\<close> when git could not
  be run or was killed).
\<close>

definition gitignore_warning ::
  "(path \<Rightarrow> bool) \<Rightarrow> (path \<Rightarrow> path \<Rightarrow> int option) \<Rightarrow> path \<Rightarrow> rstr \<Rightarrow> msg option" where
  "gitignore_warning path_exists git_status ap rel =
     (if ap = [] then None
      else if find_git_root path_exists (butlast ap) = None then None
      else if git_status (butlast ap) ap = Some 1
      then Some (Msg ''classified but NOT gitignored'' [rel])
      else None)"

section \<open>Layers that close downwards\<close>

text \<open>
  A rule that names a directory covers its tree. The deny list and the classifier are such
  layers; what the file system component needs of them is proved once here.
\<close>

locale closed_layer =
  fixes blocks :: "path \<Rightarrow> bool"
  assumes blocks_below: "blocks p \<Longrightarrow> blocks (p @ q)"
begin

lemma blocks_prefix: "prefix p q \<Longrightarrow> blocks p \<Longrightarrow> blocks q"
  using blocks_below by (auto elim!: prefixE)

lemma open_above: "prefix p q \<Longrightarrow> \<not> blocks q \<Longrightarrow> \<not> blocks p"
  using blocks_prefix by blast

lemma open_ancestors: "\<not> blocks q \<Longrightarrow> a \<in> set (ancestors q) \<Longrightarrow> \<not> blocks a"
  using open_above[OF take_is_prefix] by (auto simp: ancestors_def)

end

lemma walk_rules_None:
  "walk_rules globs patterns ps = None \<longleftrightarrow> (\<forall>p\<in>set ps. \<forall>g\<in>set patterns. \<not> globs g p)"
  by (induction ps) (auto simp: find_eq_None dest: find_SomeD split: option.splits)

lemma walk_rules_Some:
  "walk_rules globs patterns ps = Some g \<Longrightarrow> g \<in> set patterns \<and> (\<exists>p\<in>set ps. globs g p)"
  by (induction ps) (auto dest: find_SomeD split: option.splits)

lemma set_ancestors: "a \<in> set (ancestors p) \<longleftrightarrow> prefix a p"
proof
  assume "prefix a p"
  then have "a = take (length a) p" "length a \<le> length p"
    by (auto elim!: prefixE)
  then show "a \<in> set (ancestors p)" unfolding ancestors_def by (simp only: set_map set_rev set_upt) auto
qed (auto simp: ancestors_def take_is_prefix)

definition rule_blocks :: "globs \<Rightarrow> rstr list \<Rightarrow> path \<Rightarrow> bool" where
  "rule_blocks globs patterns p \<longleftrightarrow> (\<exists>a. prefix a p \<and> (\<exists>g\<in>set patterns. globs g a))"

lemma classified_by_iff: "classified_by globs patterns p \<noteq> None \<longleftrightarrow> rule_blocks globs patterns p"
  unfolding classified_by_def walk_rules_None rule_blocks_def
  by (auto simp: set_ancestors)

lemma is_denied_iff:
  "is_denied globs d p \<longleftrightarrow> (\<exists>b\<in>set (dn_builtin d). prefix (fst b) p) \<or> rule_blocks globs (dn_patterns d) p"
proof (cases "find (\<lambda>(dir, label). prefix dir p) (dn_builtin d)")
  case None
  then have "\<not> (\<exists>b\<in>set (dn_builtin d). prefix (fst b) p)" by (force simp: find_eq_None)
  with None show ?thesis
    using classified_by_iff[of globs "dn_patterns d" p]
    by (simp add: is_denied_def denied_by_def classified_by_def)
next
  case (Some b)
  then have "b \<in> set (dn_builtin d)" "prefix (fst b) p"
    by (auto dest!: find_SomeD split: prod.splits)
  with Some show ?thesis by (auto simp: is_denied_def denied_by_def split: prod.splits)
qed

interpretation deny: closed_layer "is_denied globs d" for globs d
  by unfold_locales (auto simp: is_denied_iff rule_blocks_def intro: prefix_prefix)

interpretation classify: closed_layer "\<lambda>p. classified_by globs patterns p \<noteq> None" for globs patterns
  by unfold_locales (unfold classified_by_iff rule_blocks_def, blast intro: prefix_prefix)

section \<open>The cache is transparent\<close>

definition coherent :: "(path \<Rightarrow> gitignore option) \<Rightarrow> ignore_cache \<Rightarrow> bool" where
  "coherent build cache \<longleftrightarrow> (\<forall>d m. cache d = Some m \<longrightarrow> m = build d)"

lemma coherent_empty [simp]: "coherent build Map.empty"
  by (simp add: coherent_def)

lemma matcher_coherent:
  assumes "coherent build cache"
  shows "fst (matcher build d cache) = build d" "coherent build (snd (matcher build d cache))"
  using assms by (auto simp: matcher_def coherent_def split: option.splits)

text \<open>The first directory of the chain whose own rules ignore the path.\<close>

definition chain_verdict :: "(path \<Rightarrow> gitignore option) \<Rightarrow> path \<Rightarrow> bool \<Rightarrow> path \<Rightarrow> kaedignore_match option" where
  "chain_verdict build ap is_dir d =
     Option.bind (build d) (\<lambda>g. map_option (\<lambda>pat. \<lparr>km_file = d @ [KAEDIGNORE], km_pattern = pat\<rparr>) (g ap is_dir))"

lemma check_chain_spec:
  assumes "coherent build cache"
  shows "fst (check_chain build ap is_dir ds cache) =
      (case List.map_filter (chain_verdict build ap is_dir) ds of [] \<Rightarrow> None | m # _ \<Rightarrow> Some m)
    \<and> coherent build (snd (check_chain build ap is_dir ds cache))"
  using assms
proof (induction ds arbitrary: cache)
  case (Cons d ds)
  obtain m cache' where mc: "matcher build d cache = (m, cache')" by (cases "matcher build d cache")
  with matcher_coherent[OF Cons.prems, of d] have "m = build d" "coherent build cache'" by auto
  with Cons.IH[of cache'] mc show ?case
    by (auto simp: List.map_filter_simps chain_verdict_def split: option.splits)
qed (simp add: List.map_filter_simps)

lemma denied_cached_transparent:
  assumes "coherent build cache"
  shows "fst (denied_cached build is_dir base ap cache) = kaedignore_denied build is_dir base ap
    \<and> coherent build (snd (denied_cached build is_dir base ap cache))"
  using assms check_chain_spec[OF assms] check_chain_spec[OF coherent_empty, of build]
  by (simp add: kaedignore_denied_def denied_cached_def split: option.splits)

lemma set_push_dirs: "set (push_dirs d cs) = {d @ c | c. prefix c cs}"
proof (induction cs arbitrary: d)
  case (Cons c cs)
  have "{d @ x | x. prefix x (c # cs)} = insert d {(d @ [c]) @ x | x. prefix x cs}"
    by (auto simp: prefix_Cons)
  with Cons show ?case by simp
qed simp

lemma prefix_butlast: "cs \<noteq> [] \<Longrightarrow> prefix x (butlast cs) \<longleftrightarrow> strict_prefix x cs"
  by (cases cs rule: rev_cases) (auto simp: strict_prefix_def)

lemma set_push_dirs_butlast:
  assumes "rel \<noteq> []"
  shows "d \<in> set (push_dirs base (butlast rel)) \<longleftrightarrow> prefix base d \<and> strict_prefix d (base @ rel)"
proof -
  have "d \<in> set (push_dirs base (butlast rel)) \<longleftrightarrow> (\<exists>c. d = base @ c \<and> strict_prefix c rel)"
    by (simp add: set_push_dirs prefix_butlast[OF assms])
  also have "\<dots> \<longleftrightarrow> prefix base d \<and> strict_prefix d (base @ rel)"
  proof
    assume "prefix base d \<and> strict_prefix d (base @ rel)"
    then obtain c where "d = base @ c" "strict_prefix (base @ c) (base @ rel)" by (auto elim: prefixE)
    then show "\<exists>c. d = base @ c \<and> strict_prefix c rel" by (simp add: strict_prefix_def)
  qed (auto simp: strict_prefix_def)
  finally show ?thesis .
qed

lemma kaedignore_denied_iff:
  assumes "ap \<noteq> []" "last ap \<noteq> KAEDIGNORE"
  shows "kaedignore_denied build is_dir base ap \<noteq> None \<longleftrightarrow>
    (\<exists>d. prefix base d \<and> strict_prefix d ap \<and> (\<exists>g. build d = Some g \<and> g ap (is_dir ap) \<noteq> None))"
proof (cases "prefix base ap \<and> base \<noteq> ap")
  case True
  then obtain rel where rel: "ap = base @ rel" "rel \<noteq> []" by (auto elim!: prefixE)
  let ?ds = "push_dirs base (butlast rel)"
  have "kaedignore_denied build is_dir base ap = fst (check_chain build ap (is_dir ap) ?ds Map.empty)"
    using assms rel by (simp add: kaedignore_denied_def denied_cached_def strip_root_def)
  then have "kaedignore_denied build is_dir base ap \<noteq> None \<longleftrightarrow>
      List.map_filter (chain_verdict build ap (is_dir ap)) ?ds \<noteq> []"
    using check_chain_spec[OF coherent_empty, of build ap "is_dir ap" ?ds]
    by (auto split: list.splits)
  also have "\<dots> \<longleftrightarrow> (\<exists>d\<in>set ?ds. chain_verdict build ap (is_dir ap) d \<noteq> None)"
    by (simp add: map_filter_eq_Nil)
  also have "\<dots> \<longleftrightarrow> (\<exists>d. prefix base d \<and> strict_prefix d ap \<and> chain_verdict build ap (is_dir ap) d \<noteq> None)"
    using set_push_dirs_butlast[OF rel(2), of _ base] rel(1) by blast
  also have "\<dots> \<longleftrightarrow> (\<exists>d. prefix base d \<and> strict_prefix d ap \<and> (\<exists>g. build d = Some g \<and> g ap (is_dir ap) \<noteq> None))"
    by (simp add: chain_verdict_def bind_eq_Some_conv) blast
  finally show ?thesis .
next
  case False
  then have "\<not> (\<exists>d. prefix base d \<and> strict_prefix d ap)"
    by (auto simp: strict_prefix_def dest: prefix_order.trans intro: prefix_order.antisym)
  then show ?thesis using False assms
    by (auto simp: kaedignore_denied_def denied_cached_def strip_root_def)
qed

section \<open>Properties\<close>

text \<open>The permanent policy closes downwards. A path is denied exactly when a built-in directory is one
  of its ancestors or a pattern matches it or an ancestor, so whatever lies below a denied or a
  classified path is denied or classified with it; classification has the same meaning.\<close>
theorem denial_closed_below:
  "(is_denied globs d p \<longleftrightarrow> (\<exists>b\<in>set (dn_builtin d). prefix (fst b) p) \<or>
      (\<exists>a. prefix a p \<and> (\<exists>g\<in>set (dn_patterns d). globs g a)))
   \<and> (classified_by globs patterns p \<noteq> None \<longleftrightarrow> (\<exists>a. prefix a p \<and> (\<exists>g\<in>set patterns. globs g a)))
   \<and> (is_denied globs d p \<longrightarrow> is_denied globs d (p @ q))
   \<and> (classified_by globs patterns p \<noteq> None \<longrightarrow> classified_by globs patterns (p @ q) \<noteq> None)"
  using is_denied_iff[of globs d p] classified_by_iff[of globs patterns p]
    deny.blocks_below[of globs d p q] classify.blocks_below[of globs patterns p q]
  by (simp add: rule_blocks_def)

theorem denial_closed_below_witness:
  "is_denied (\<lambda>g p. False) \<lparr>dn_builtin = [([''etc''], ''config'')], dn_patterns = []\<rparr> [''etc'', ''x'']"
  using denial_closed_below[of "\<lambda>g p. False" "\<lparr>dn_builtin = [([''etc''], ''config'')], dn_patterns = []\<rparr>" "[''etc'']"
      "[]" "[''x'']"]
  by simp

text \<open>C38: The cache of matchers is transparent: as long as it only holds what was built for a directory,
  the cached check answers what the uncached one does, and it keeps that property; the walk of a
  whole tree with one cache therefore denies the same paths.\<close>
theorem ignore_cache_refines:
  assumes "coherent build cache"
  shows "fst (denied_cached build is_dir base ap cache) = kaedignore_denied build is_dir base ap
    \<and> coherent build (snd (denied_cached build is_dir base ap cache))"
  using assms by (rule denied_cached_transparent)

theorem ignore_cache_refines_witness:
  "fst (denied_cached (\<lambda>_. Some (\<lambda>p d. Some ''x'')) (\<lambda>_. False) [''r''] [''r'', ''x'']
      (Map.empty([''r''] \<mapsto> Some (\<lambda>p d. Some ''x'')))) \<noteq> None"
proof -
  have "coherent (\<lambda>_. Some (\<lambda>p d. Some ''x'')) (Map.empty([''r''] \<mapsto> Some (\<lambda>p d. Some ''x'')))"
    by (simp add: coherent_def)
  note ignore_cache_refines[OF this, of "\<lambda>_. False" "[''r'']" "[''r'', ''x'']"]
  moreover have "kaedignore_denied (\<lambda>_. Some (\<lambda>p d. Some ''x'')) (\<lambda>_. False) [''r''] [''r'', ''x''] \<noteq> None"
    by code_simp
  ultimately show ?thesis by (simp only: not_False_eq_True)
qed

text \<open>A kaedignore file can only take away. A path (not itself such a file) is denied by the
  chain exactly when the file of some directory between the root and the path, the path's own
  directory included, matches it: no file of another directory, above or below, can lift that.\<close>
theorem kaedignore_only_restricts:
  assumes "ap \<noteq> []" "last ap \<noteq> KAEDIGNORE"
  shows "kaedignore_denied build is_dir base ap \<noteq> None \<longleftrightarrow>
    (\<exists>d. prefix base d \<and> strict_prefix d ap \<and> (\<exists>g. build d = Some g \<and> g ap (is_dir ap) \<noteq> None))"
  using assms by (rule kaedignore_denied_iff)

theorem kaedignore_only_restricts_witness:
  "kaedignore_denied (\<lambda>_. Some (\<lambda>p d. Some ''x'')) (\<lambda>_. False) [''r''] [''r'', ''x''] \<noteq> None"
proof -
  have "\<exists>d. prefix [''r''] d \<and> strict_prefix d [''r'', ''x''] \<and>
      (\<exists>g. Some (\<lambda>p d. Some ''x'') = Some g \<and> g [''r'', ''x''] False \<noteq> None)"
    by (rule exI[of _ "[''r'']"]) simp
  moreover have "last [''r'', ''x''] \<noteq> KAEDIGNORE" by (simp add: KAEDIGNORE_def)
  ultimately show ?thesis
    using kaedignore_only_restricts[of "[''r'', ''x'']" "\<lambda>_. Some (\<lambda>p d. Some ''x'')" "\<lambda>_. False" "[''r'']"]
    by blast
qed

end
