(* ===== verification/Kaed_Secrets.thy ===== *)
theory Kaed_Secrets
  imports Kaed_Errors
begin

text \<open>
  \<open>src/secrets.rs\<close>: placeholder identity, the entropy floor and the secret-shape detector.
  BLAKE3 is a third-party crate: every definition that hashes takes \<open>h\<close>, the hex digest of a
  byte string (\<open>blake3::hash(..).to_hex()\<close>). \<open>hex_hash h\<close> states what is documented of it:
  64 lower-case hex digits.
\<close>

type_synonym hasher = "rstr \<Rightarrow> rstr"

definition lower_hex :: "char \<Rightarrow> bool" where
  "lower_hex c \<longleftrightarrow> ascii_digit c \<or> in_range 97 102 c"

definition hex_hash :: "hasher \<Rightarrow> bool" where
  "hex_hash h \<longleftrightarrow> (\<forall>s. length (h s) = 64 \<and> (\<forall>c\<in>set (h s). lower_hex c))"

definition DIGEST_LEN :: nat where
  "DIGEST_LEN = 16"

definition angle_open :: rstr where
  "angle_open = [CHR 0xE2, CHR 0x9F, CHR 0xA8]"

definition angle_close :: rstr where
  "angle_close = [CHR 0xE2, CHR 0x9F, CHR 0xA9]"

definition PLACEHOLDER_OPEN :: rstr where
  "PLACEHOLDER_OPEN = angle_open @ ''kaed:''"

definition PLACEHOLDER_CLOSE :: rstr where
  "PLACEHOLDER_CLOSE = angle_close"

definition digest_of :: "hasher \<Rightarrow> rstr \<Rightarrow> rstr" where
  "digest_of h value = take DIGEST_LEN (h value)"

section \<open>The entropy floor\<close>

definition charset_size :: "rstr \<Rightarrow> nat" where
  "charset_size v =
     (if \<exists>c\<in>set v. ascii_lower c then 26 else 0)
     + (if \<exists>c\<in>set v. ascii_upper c then 26 else 0)
     + (if \<exists>c\<in>set v. ascii_digit c then 10 else 0)
     + (if \<exists>c\<in>set v. \<not> ascii_alnum c then 33 else 0)"

definition estimated_entropy_bits :: "rstr \<Rightarrow> real" where
  "estimated_entropy_bits v =
     (if v = [] then 0
      else if length (remdups (uchars v)) < 5 then 0
      else real (char_count v) * log 2 (real (charset_size v)))"

text \<open>
  The executable test \<open>entropy >= 80\<close>. No charset size is a power of two, so the product is
  never within rounding error of 80 and the code's \<open>f64\<close> comparison decides the same.
\<close>

definition clears_floor :: "rstr \<Rightarrow> bool" where
  "clears_floor v \<longleftrightarrow>
     v \<noteq> [] \<and> 5 \<le> length (remdups (uchars v)) \<and> 2 ^ 80 \<le> charset_size v ^ char_count v"

section \<open>Placeholders\<close>

definition placeholder :: "hasher \<Rightarrow> rstr \<Rightarrow> rstr \<Rightarrow> rstr" where
  "placeholder h key value =
     PLACEHOLDER_OPEN @ key @ (if clears_floor value then CHR ''@'' # digest_of h value else [])
     @ PLACEHOLDER_CLOSE"

record parsed_placeholder =
  ph_key :: rstr
  ph_digest :: "rstr option"

definition is_digest :: "rstr \<Rightarrow> bool" where
  "is_digest d \<longleftrightarrow> length d = DIGEST_LEN \<and> (\<forall>c\<in>set d. ascii_hexdigit c)"

definition parse_placeholder :: "rstr \<Rightarrow> parsed_placeholder option" where
  "parse_placeholder s =
     (case Option.bind (strip_prefix PLACEHOLDER_OPEN s) (strip_suffix PLACEHOLDER_CLOSE) of
        None \<Rightarrow> None
      | Some body \<Rightarrow>
          (let (key, digest) =
             (case split_once (CHR ''@'') body of
                Some (k, d) \<Rightarrow> (k, Some d) | None \<Rightarrow> (body, None))
           in if key = [] \<or> contains_sub angle_open key \<or> contains_sub angle_close key then None
              else if (case digest of Some d \<Rightarrow> \<not> is_digest d | None \<Rightarrow> False) then None
              else Some \<lparr>ph_key = key, ph_digest = digest\<rparr>))"

definition contains_placeholder_syntax :: "rstr \<Rightarrow> bool" where
  "contains_placeholder_syntax s = contains_sub PLACEHOLDER_OPEN s"

section \<open>Secret shapes\<close>

definition PROVIDER_PREFIXES :: "rstr list" where
  "PROVIDER_PREFIXES =
     [''sk-ant-'', ''sk-'', ''ghp_'', ''gho_'', ''ghu_'', ''ghs_'', ''github_pat_'', ''glpat-'',
      ''xoxb-'', ''xoxp-'', ''xoxa-'', ''xoxs-'', ''AKIA'', ''AIza'']"

definition is_token_char :: "char \<Rightarrow> bool" where
  "is_token_char c \<longleftrightarrow> ascii_alnum c \<or> c \<in> {CHR ''-'', CHR ''_'', CHR ''+'', CHR ''='', CHR ''.''}"

definition provider_prefix :: "rstr \<Rightarrow> rstr option" where
  "provider_prefix token =
     find (\<lambda>p. case strip_prefix p token of
                 None \<Rightarrow> False
               | Some rest \<Rightarrow> 8 \<le> length rest \<and> (\<forall>c\<in>set rest. is_token_char c))
       PROVIDER_PREFIXES"

definition looks_secret_shaped :: "rstr \<Rightarrow> bool" where
  "looks_secret_shaped token \<longleftrightarrow>
     provider_prefix token \<noteq> None
     \<or> 32 \<le> char_count token \<and> (\<forall>c\<in>set token. is_token_char c) \<and> clears_floor token"

text \<open>Length of the leading run of white space characters, and of the token that starts a text.\<close>

function skip_ws_len :: "rstr \<Rightarrow> nat" where
  "skip_ws_len s =
     (if s = [] \<or> ws_len s = 0 then 0 else ws_len s + skip_ws_len (drop (ws_len s) s))"
  by pat_completeness auto
termination
  by (relation "measure length") auto

declare skip_ws_len.simps [simp del]

fun token_len :: "rstr \<Rightarrow> nat" where
  "token_len [] = 0"
| "token_len (x # s) = (if ws_len (x # s) \<noteq> 0 then 0 else Suc (token_len s))"

definition redact_token :: "hasher \<Rightarrow> rstr \<Rightarrow> rstr" where
  "redact_token h token =
     (if looks_secret_shaped token
      then (if clears_floor token
            then PLACEHOLDER_OPEN @ CHR ''@'' # digest_of h token @ PLACEHOLDER_CLOSE
            else PLACEHOLDER_OPEN @ ''redacted'' @ PLACEHOLDER_CLOSE)
      else token)"

lemma ws_len_drop_skip: "ws_len (drop (skip_ws_len s) s) = 0"
proof (induction s rule: skip_ws_len.induct)
  case (1 s)
  then show ?case
    by (subst skip_ws_len.simps) (auto simp: add.commute)
qed

lemma token_len_pos: "s \<noteq> [] \<Longrightarrow> ws_len s = 0 \<Longrightarrow> 0 < token_len s"
  by (cases s) auto

function redact_free_text :: "hasher \<Rightarrow> rstr \<Rightarrow> rstr" where
  "redact_free_text h s =
     (let n = skip_ws_len s; tail = drop n s in
      if tail = [] then s
      else take n s @ redact_token h (take (token_len tail) tail)
           @ redact_free_text h (drop (token_len tail) tail))"
  by pat_completeness auto
termination
proof (relation "measure (\<lambda>(h, t). length t)", goal_cases)
  case (2 h s n tail)
  then have "0 < token_len tail" using ws_len_drop_skip token_len_pos by blast
  moreover have "length tail \<le> length s" "tail \<noteq> []" using 2 by simp_all
  moreover have "0 < length tail" using 2 by (metis length_greater_0_conv)
  ultimately have "length (drop (token_len tail) tail) < length s"
    unfolding length_drop by linarith
  then show ?case by simp
qed simp

declare redact_free_text.simps [simp del]

section \<open>Digests in a rendering\<close>

text \<open>
  \<open>extract_placeholder_digests\<close>: the scan restarts behind each closing bracket, and stops at an
  opening that is never closed.
\<close>

function extract_placeholder_digests :: "rstr \<Rightarrow> (rstr \<times> rstr) list" where
  "extract_placeholder_digests rendering =
     (case find_sub PLACEHOLDER_OPEN rendering of
        None \<Rightarrow> []
      | Some start \<Rightarrow>
          (let rest = drop (start + length PLACEHOLDER_OPEN) rendering in
           case find_sub PLACEHOLDER_CLOSE rest of
             None \<Rightarrow> []
           | Some stop \<Rightarrow>
               (case split_once (CHR ''@'') (take stop rest) of
                  Some (key, digest) \<Rightarrow> if is_digest digest then [(key, digest)] else []
                | None \<Rightarrow> [])
               @ extract_placeholder_digests (drop (stop + length PLACEHOLDER_CLOSE) rest)))"
  by pat_completeness auto
termination
proof (relation "measure length", goal_cases)
  case (2 rendering start rest stop)
  then have "start + length PLACEHOLDER_OPEN \<le> length rendering" using find_sub_Some by blast
  moreover have "0 < length PLACEHOLDER_OPEN" by (simp add: PLACEHOLDER_OPEN_def angle_open_def)
  ultimately have "length rendering - (start + length PLACEHOLDER_OPEN) - (stop + length PLACEHOLDER_CLOSE)
      < length rendering"
    by linarith
  with 2 show ?case by (simp add: add.commute)
qed simp

declare extract_placeholder_digests.simps [simp del]

section \<open>The disclosable shape\<close>

definition is_uuid_with :: "(char \<Rightarrow> bool) \<Rightarrow> rstr \<Rightarrow> bool" where
  "is_uuid_with hexd s =
     (let parts = split_on (CHR ''-'') s in
      length parts = 5
      \<and> list_all2 (\<lambda>len p. length p = len \<and> (\<forall>c\<in>set p. hexd c)) [8, 4, 4, 4, 12] parts)"

definition is_uuid :: "rstr \<Rightarrow> bool" where
  "is_uuid s = is_uuid_with ascii_hexdigit s"

definition trim_end_dashes :: "rstr \<Rightarrow> rstr" where
  "trim_end_dashes p = rev (dropWhile (\<lambda>c. c = CHR ''-'' \<or> c = CHR ''_'') (rev p))"

definition shape_of :: "rstr \<Rightarrow> rstr" where
  "shape_of v =
     (if v = [] then ''empty''
      else if is_uuid v then ''uuid''
      else (case provider_prefix v of
          Some p \<Rightarrow> ''prefixed:'' @ trim_end_dashes p
        | None \<Rightarrow>
            if 16 \<le> char_count v \<and> (\<forall>c\<in>set v. ascii_hexdigit c) then ''hex''
            else if 16 \<le> char_count v \<and>
                    (\<forall>c\<in>set v. ascii_alnum c \<or> c \<in> {CHR ''+'', CHR ''/'', CHR ''='', CHR ''-'', CHR ''_''})
            then ''base64''
            else ''text''))"

section \<open>Facts about placeholders\<close>

lemma clears_floor_iff: "clears_floor v \<longleftrightarrow> 80 \<le> estimated_entropy_bits v"
proof (cases "v = [] \<or> length (remdups (uchars v)) < 5")
  case False
  then obtain c where c: "c \<in> set v" by (cases v) auto
  have pos: "0 < charset_size v"
    using c by (auto simp: charset_size_def ascii_alnum_def ascii_alpha_def)
  have "80 \<le> real (char_count v) * log 2 (real (charset_size v))
      \<longleftrightarrow> 80 \<le> log 2 (real (charset_size v) ^ char_count v)"
    using pos by (simp add: log_nat_power)
  also have "\<dots> \<longleftrightarrow> (2::real) powr 80 \<le> real (charset_size v) ^ char_count v"
    using pos by (simp add: le_log_iff)
  also have "\<dots> \<longleftrightarrow> real ((2::nat) ^ 80) \<le> real (charset_size v ^ char_count v)"
    by (simp only: of_nat_power of_nat_numeral powr_numeral zero_less_numeral)
  also have "\<dots> \<longleftrightarrow> (2::nat) ^ 80 \<le> charset_size v ^ char_count v"
    by (rule of_nat_le_iff)
  finally show ?thesis
    using False by (simp add: clears_floor_def estimated_entropy_bits_def)
qed (auto simp: clears_floor_def estimated_entropy_bits_def)

lemma digest_of_hex:
  "hex_hash h \<Longrightarrow> length (digest_of h v) = DIGEST_LEN \<and> (\<forall>c\<in>set (digest_of h v). lower_hex c)"
  by (auto simp: hex_hash_def digest_of_def DIGEST_LEN_def dest: in_set_takeD)

lemma is_digest_digest_of: "hex_hash h \<Longrightarrow> is_digest (digest_of h v)"
  using digest_of_hex[of h v] by (auto simp: is_digest_def lower_hex_def ascii_hexdigit_def)

lemma find_sub_in_set: "contains_sub p s \<Longrightarrow> set p \<subseteq> set s"
  unfolding contains_sub_def using find_sub_Some
  by (metis (no_types, lifting) in_set_dropD in_set_takeD not_None_eq subsetI)

lemma no_angle:
  assumes "\<forall>c\<in>set s. byte c < 128"
  shows "\<not> contains_sub angle_open s" "\<not> contains_sub angle_close s"
    "\<not> contains_sub PLACEHOLDER_OPEN s" "\<not> contains_sub PLACEHOLDER_CLOSE s"
proof -
  have *: "CHR 0xE2 \<notin> set s"
  proof
    assume "CHR 0xE2 \<in> set s"
    with assms have "byte (CHR 0xE2) < 128" by blast
    then show False by (simp add: byte_def)
  qed
  show "\<not> contains_sub angle_open s" "\<not> contains_sub angle_close s"
    "\<not> contains_sub PLACEHOLDER_OPEN s" "\<not> contains_sub PLACEHOLDER_CLOSE s"
    using *
    by (auto dest!: find_sub_in_set simp: angle_open_def angle_close_def PLACEHOLDER_OPEN_def PLACEHOLDER_CLOSE_def)
qed

text \<open>A key the placeholder syntax can carry.\<close>

definition ph_safe :: "rstr \<Rightarrow> bool" where
  "ph_safe k \<longleftrightarrow> k \<noteq> [] \<and> (\<forall>c\<in>set k. byte c < 128) \<and> CHR ''@'' \<notin> set k"

lemma parse_placeholder_placeholder:
  assumes "ph_safe k" and "hex_hash h"
  shows "parse_placeholder (placeholder h k v) =
    Some \<lparr>ph_key = k, ph_digest = (if clears_floor v then Some (digest_of h v) else None)\<rparr>"
proof -
  let ?b = "k @ (if clears_floor v then CHR ''@'' # digest_of h v else [])"
  have "Option.bind (strip_prefix PLACEHOLDER_OPEN (placeholder h k v)) (strip_suffix PLACEHOLDER_CLOSE)
      = Some ?b"
    using strip_suffix_append[of PLACEHOLDER_CLOSE "k @ CHR ''@'' # digest_of h v"]
    by (simp add: placeholder_def)
  moreover have "split_once (CHR ''@'') ?b =
      (if clears_floor v then Some (k, digest_of h v) else None)"
    using assms(1) by (simp add: ph_safe_def split_once_append)
  ultimately show ?thesis
    using assms no_angle[of k] is_digest_digest_of[of h v]
    by (simp add: parse_placeholder_def ph_safe_def)
qed

section \<open>Facts about free-text redaction\<close>

text \<open>The white-space-delimited tokens of a text, as the loop of \<open>redact_free_text\<close> cuts them.\<close>

function tokens :: "rstr \<Rightarrow> rstr list" where
  "tokens s =
     (let tail = drop (skip_ws_len s) s in
      if tail = [] then []
      else take (token_len tail) tail # tokens (drop (token_len tail) tail))"
  by pat_completeness auto
termination
proof (relation "measure length", goal_cases)
  case (2 s tail)
  then have "0 < token_len tail" using ws_len_drop_skip token_len_pos by blast
  moreover have "length tail \<le> length s" "0 < length tail" using 2 by simp_all
  ultimately have "length (drop (token_len tail) tail) < length s"
    unfolding length_drop by linarith
  then show ?case by simp
qed simp

declare tokens.simps [simp del]

text \<open>What follows a token: nothing, or white space.\<close>

definition ws_or_end :: "rstr \<Rightarrow> bool" where
  "ws_or_end r \<longleftrightarrow> r = [] \<or> ws_len r \<noteq> 0"

lemma ws_len_le: "ws_len s \<le> length s"
  by (auto simp: ws_len_def split: list.splits)

lemma ws_len_take_append:
  "ws_len s \<noteq> 0 \<Longrightarrow> ws_len (take (ws_len s) s @ x) = ws_len s"
  by (auto simp: ws_len_def split: list.splits if_splits)

lemma ws_len_cong:
  assumes "ws_len r \<noteq> 0" and "take (ws_len r) r' = take (ws_len r) r" and "u \<noteq> []"
  shows "ws_len (u @ r') = ws_len (u @ r)"
proof -
  obtain a r1 where r: "r = a # r1" using assms(1) by (cases r) auto
  with assms obtain r1' where r': "r' = a # r1'"
    by (cases r') (auto simp: take_Cons' split: if_splits)
  have low: "ascii_ws a \<Longrightarrow> \<not> ws2 x a \<and> \<not> ws3 x a b \<and> \<not> ws3 x b a" for x b
    using ws2_high[of x a] ws3_high[of x b a] 
    by (auto simp: ascii_ws_def ws3_def in_range_def byte_def)
  consider x where "u = [x]" | x y where "u = [x, y]" | x y z w where "u = x # y # z # w"
    using assms(3) by (metis list.exhaust)
  note u_cases = this
  show ?thesis
  proof (cases "ascii_ws a")
    case True
    show ?thesis
      by (rule u_cases) (use r r' low True in \<open>auto simp: ws_len_def split: list.splits\<close>)
  next
    case False
    with assms r r' have "\<exists>b q q'. r = a # b # q \<and> r' = a # b # q'"
      by (cases r1; cases r1') (auto simp: ws_len_def split: list.splits if_splits)
    then show ?thesis
      by (rule_tac u_cases) (auto simp: ws_len_def split: list.splits)
  qed
qed

lemma skip_ws_len_append:
  "ws_len t = 0 \<Longrightarrow> skip_ws_len (take (skip_ws_len s) s @ t) = skip_ws_len s"
proof (induction s rule: skip_ws_len.induct)
  case (1 s)
  show ?case
  proof (cases "s = [] \<or> ws_len s = 0")
    case True
    then have "skip_ws_len s = 0" by (subst skip_ws_len.simps) auto
    with "1.prems" show ?thesis by (subst skip_ws_len.simps) auto
  next
    case False
    let ?d = "drop (ws_len s) s"
    let ?w = "take (ws_len s) s"
    have sk: "skip_ws_len s = ws_len s + skip_ws_len ?d"
      using False by (subst skip_ws_len.simps) simp
    have split: "take (skip_ws_len s) s @ t = ?w @ take (skip_ws_len ?d) ?d @ t"
      by (simp add: sk take_add)
    have "ws_len (?w @ x) = ws_len s" "drop (ws_len s) (?w @ x) = x" "?w @ x \<noteq> []" for x
      using False ws_len_take_append ws_len_le[of s] by auto
    then have "skip_ws_len (?w @ x) = ws_len s + skip_ws_len x" for x
      using False by (subst skip_ws_len.simps) simp
    with split sk "1.IH" False "1.prems" show ?thesis by simp
  qed
qed

lemma skip_ws_len_le: "skip_ws_len s \<le> length s"
proof (induction s rule: skip_ws_len.induct)
  case (1 s)
  then show ?case using ws_len_le[of s] by (subst skip_ws_len.simps) fastforce
qed

lemma token_len_le: "token_len s \<le> length s"
  by (induction s) auto

lemma after_token: "ws_or_end (drop (token_len s) s)"
  by (induction s) (auto simp: ws_or_end_def)

lemma token_len_append:
  assumes "ws_or_end r" and "\<And>u. suffix u t \<Longrightarrow> u \<noteq> [] \<Longrightarrow> ws_len (u @ r) = 0"
  shows "token_len (t @ r) = length t"
  using assms(2)
proof (induction t)
  case Nil
  show ?case using assms(1) by (cases r) (auto simp: ws_or_end_def)
next
  case (Cons x t)
  have "ws_len ((x # t) @ r) = 0" by (rule Cons.prems) simp_all
  moreover have "token_len (t @ r) = length t"
    by (rule Cons.IH) (auto intro: Cons.prems suffix_ConsI)
  ultimately show ?case by simp
qed

lemma token_len_suffix:
  "suffix u (take (token_len s) s) \<Longrightarrow> u \<noteq> [] \<Longrightarrow> ws_len (u @ drop (token_len s) s) = 0"
proof (induction s)
  case (Cons x s)
  show ?case
  proof (cases "ws_len (x # s) \<noteq> 0")
    case False
    with Cons show ?thesis by (auto simp: suffix_Cons)
  qed (use Cons in auto)
qed simp

text \<open>
  The bytes of a placeholder start no white space character, whatever follows: it is one token.
\<close>

definition ws_inert :: "rstr \<Rightarrow> bool" where
  "ws_inert t \<longleftrightarrow> (\<forall>u r. suffix u t \<longrightarrow> u \<noteq> [] \<longrightarrow> ws_len (u @ r) = 0)"

lemma ws_inert_append: "ws_inert s \<Longrightarrow> ws_inert t \<Longrightarrow> ws_inert (s @ t)"
  unfolding ws_inert_def by (auto simp: suffix_append)

lemma ws_inert_Cons: "\<not> ascii_ws x \<Longrightarrow> byte x < 128 \<Longrightarrow> ws_inert t \<Longrightarrow> ws_inert (x # t)"
  unfolding ws_inert_def by (auto simp: suffix_Cons ws_len_start)

lemma ws_inert_Nil [simp]: "ws_inert []"
  by (simp add: ws_inert_def)

lemma ws_inert_visible:
  "\<forall>c\<in>set t. \<not> ascii_ws c \<and> byte c < 128 \<Longrightarrow> ws_inert t"
  by (induction t) (simp_all add: ws_inert_Cons)

lemma ws_len_angle:
  "ws_len (CHR 0xE2 # CHR 0x9F # r) = 0" "ws_len (CHR 0x9F # r) = 0"
  "ws_len (CHR 0xA8 # r) = 0" "ws_len (CHR 0xA9 # r) = 0"
  by (auto simp: ws_len_def ascii_ws_def in_range_def byte_def ws2_def ws3_def split: list.splits)

lemma ws_inert_angle: "ws_inert angle_open" "ws_inert angle_close"
  unfolding ws_inert_def angle_open_def angle_close_def
  by (auto simp: suffix_Cons ws_len_angle)

lemma visible_lower_hex: "lower_hex c \<Longrightarrow> \<not> ascii_ws c \<and> byte c < 128"
  by (auto simp: lower_hex_def ascii_defs ascii_ws_def)

lemma ws_inert_OPEN: "ws_inert PLACEHOLDER_OPEN"
  unfolding PLACEHOLDER_OPEN_def
  by (rule ws_inert_append[OF ws_inert_angle(1)], rule ws_inert_visible)
    (simp add: ascii_ws_def in_range_def byte_def)

lemma ws_inert_placeholder:
  assumes "hex_hash h"
  shows "ws_inert (PLACEHOLDER_OPEN @ CHR ''@'' # digest_of h t @ PLACEHOLDER_CLOSE)"
    "ws_inert (PLACEHOLDER_OPEN @ ''redacted'' @ PLACEHOLDER_CLOSE)"
proof -
  have "ws_inert (CHR ''@'' # digest_of h t)"
    using digest_of_hex[OF assms, of t] visible_lower_hex
    by (intro ws_inert_Cons ws_inert_visible) (auto simp: ascii_ws_def in_range_def byte_def)
  from ws_inert_append[OF ws_inert_OPEN ws_inert_append[OF this ws_inert_angle(2)]]
  show "ws_inert (PLACEHOLDER_OPEN @ CHR ''@'' # digest_of h t @ PLACEHOLDER_CLOSE)"
    by (simp add: PLACEHOLDER_CLOSE_def)
  have "ws_inert ''redacted''"
    by (rule ws_inert_visible) (simp add: ascii_ws_def in_range_def byte_def)
  then show "ws_inert (PLACEHOLDER_OPEN @ ''redacted'' @ PLACEHOLDER_CLOSE)"
    unfolding PLACEHOLDER_CLOSE_def
    by (intro ws_inert_append[OF ws_inert_OPEN ws_inert_append[OF _ ws_inert_angle(2)]])
qed

lemma redact_token_plain: "\<not> looks_secret_shaped t \<Longrightarrow> redact_token h t = t"
  by (simp add: redact_token_def)

lemma redact_token_sealed: "looks_secret_shaped t \<Longrightarrow> \<exists>r. redact_token h t = PLACEHOLDER_OPEN @ r"
  by (auto simp: redact_token_def)

lemma redact_token_inert: "looks_secret_shaped t \<Longrightarrow> hex_hash h \<Longrightarrow> ws_inert (redact_token h t)"
  by (cases "clears_floor t")
    (simp_all only: redact_token_def if_True if_False ws_inert_placeholder)

lemma ws_len_OPEN: "ws_len (PLACEHOLDER_OPEN @ r) = 0"
  by (simp add: PLACEHOLDER_OPEN_def angle_open_def ws_len_angle)

text \<open>What redaction returns begins with the same white space character, or with none.\<close>

lemma skip_ws_len_ge: "ws_len s \<le> skip_ws_len s"
  by (subst skip_ws_len.simps) auto

lemma redact_keeps_leading_ws:
  assumes "ws_or_end s"
  shows "ws_or_end (redact_free_text h s)"
    "s \<noteq> [] \<Longrightarrow> take (ws_len s) (redact_free_text h s) = take (ws_len s) s"
proof -
  have *: "\<exists>x. redact_free_text h s = take (skip_ws_len s) s @ x"
    by (subst redact_free_text.simps) (auto simp: Let_def)
  have "\<exists>x. redact_free_text h s = take (ws_len s) s @ x"
  proof -
    have "take (skip_ws_len s) s = take (ws_len s) s @ drop (ws_len s) (take (skip_ws_len s) s)"
      using skip_ws_len_ge[of s] by (metis append_take_drop_id min.absorb1 take_take)
    with * show ?thesis by (metis append_assoc)
  qed
  then obtain x where x: "redact_free_text h s = take (ws_len s) s @ x" ..
  then show "s \<noteq> [] \<Longrightarrow> take (ws_len s) (redact_free_text h s) = take (ws_len s) s"
    using ws_len_le[of s] by simp
  show "ws_or_end (redact_free_text h s)"
  proof (cases "s = []")
    case True
    then show ?thesis
      by (simp add: ws_or_end_def redact_free_text.simps[of h "[]"] skip_ws_len.simps)
  next
    case False
    with assms x show ?thesis using ws_len_take_append[of s x] by (auto simp: ws_or_end_def)
  qed
qed

text \<open>The tokens of a redacted text are the redacted tokens.\<close>

lemma tokens_redact:
  assumes "hex_hash h"
  shows "tokens (redact_free_text h s) = map (redact_token h) (tokens s)"
  using assms
proof (induction h s rule: redact_free_text.induct)
  case (1 h s)
  let ?w = "take (skip_ws_len s) s" and ?tail = "drop (skip_ws_len s) s"
  show ?case
  proof (cases "?tail = []")
    case True
    then show ?thesis
      by (simp add: redact_free_text.simps[of h s] tokens.simps[of s] Let_def)
  next
    case False
    define t where "t = take (token_len ?tail) ?tail"
    define r where "r = drop (token_len ?tail) ?tail"
    define t' where "t' = redact_token h t"
    define R where "R = redact_free_text h r"
    have tr: "t @ r = ?tail" unfolding t_def r_def by (rule append_take_drop_id)
    have tne: "t \<noteq> []" using token_len_pos[OF False ws_len_drop_skip] False by (simp add: t_def)
    have red: "redact_free_text h s = ?w @ t' @ R"
      using False by (simp add: redact_free_text.simps[of h s] Let_def t'_def R_def t_def r_def)
    have rok: "ws_or_end r" unfolding r_def by (rule after_token)
    have Rok: "ws_or_end R" unfolding R_def using rok by (rule redact_keeps_leading_ws)
    have tR: "ws_len (u @ R) = 0" if "suffix u t" "u \<noteq> []" for u
    proof -
      have 0: "ws_len (u @ r) = 0" using token_len_suffix that unfolding t_def r_def by blast
      show ?thesis
      proof (cases "r = []")
        case True
        then have "R = []" by (simp add: R_def redact_free_text.simps[of h "[]"] skip_ws_len.simps)
        with 0 True show ?thesis by simp
      next
        case False
        with rok have "ws_len r \<noteq> 0" by (simp add: ws_or_end_def)
        from ws_len_cong[OF this _ that(2)] redact_keeps_leading_ws(2)[OF rok False] 0
        show ?thesis by (simp add: R_def)
      qed
    qed
    have len: "token_len (t' @ R) = length t'" and start: "ws_len (t' @ R) = 0"
      and t'ne: "t' \<noteq> []"
    proof (atomize (full), cases "looks_secret_shaped t")
      case False
      with tR tne token_len_append[OF Rok] show "token_len (t' @ R) = length t' \<and>
          ws_len (t' @ R) = 0 \<and> t' \<noteq> []"
        by (simp add: t'_def redact_token_plain)
    next
      case True
      then have "ws_inert t'" "t' \<noteq> []"
        using redact_token_inert[OF True "1.prems"] redact_token_sealed[OF True, of h]
        by (auto simp: t'_def PLACEHOLDER_OPEN_def)
      then show "token_len (t' @ R) = length t' \<and> ws_len (t' @ R) = 0 \<and> t' \<noteq> []"
        using token_len_append[OF Rok] by (auto simp: ws_inert_def)
    qed
    have "skip_ws_len (?w @ t' @ R) = skip_ws_len s" using start by (rule skip_ws_len_append)
    then have "drop (skip_ws_len (?w @ t' @ R)) (?w @ t' @ R) = t' @ R"
      using skip_ws_len_le[of s] by simp
    then have "tokens (?w @ t' @ R) = t' # tokens R"
      using t'ne len by (simp add: tokens.simps[of "?w @ t' @ R"] Let_def)
    moreover have "tokens R = map (redact_token h) (tokens r)"
      unfolding R_def r_def using "1.IH"[OF refl refl False "1.prems"] .
    moreover have "tokens s = t # tokens r"
      using False by (simp add: tokens.simps[of s] Let_def t_def r_def)
    ultimately show ?thesis by (simp add: red t'_def)
  qed
qed

lemma provider_prefix_Some:
  assumes "provider_prefix t = Some p"
  shows "\<exists>r. t = p @ r \<and> p \<in> set PROVIDER_PREFIXES \<and> 8 \<le> length r \<and> (\<forall>c\<in>set r. is_token_char c)"
  using assms unfolding provider_prefix_def find_Some_iff
  by (auto simp: strip_prefix_Some split: option.splits)

lemma provider_prefixes_token_chars:
  "p \<in> set PROVIDER_PREFIXES \<Longrightarrow> c \<in> set p \<Longrightarrow> is_token_char c"
proof -
  have "list_all (list_all is_token_char) PROVIDER_PREFIXES" by code_simp
  then show "p \<in> set PROVIDER_PREFIXES \<Longrightarrow> c \<in> set p \<Longrightarrow> is_token_char c"
    by (auto simp: list_all_iff)
qed

lemma secret_shaped_token_chars:
  "looks_secret_shaped t \<Longrightarrow> c \<in> set t \<Longrightarrow> is_token_char c"
  unfolding looks_secret_shaped_def
  using provider_prefix_Some provider_prefixes_token_chars by fastforce

lemma not_secret_shaped_high:
  assumes "t = CHR 0xE2 # r"
  shows "\<not> looks_secret_shaped t"
proof
  assume "looks_secret_shaped t"
  then have "is_token_char (CHR 0xE2)" using assms secret_shaped_token_chars by auto
  then show False by (simp add: is_token_char_def ascii_defs)
qed

lemma redact_token_not_secret: "\<not> looks_secret_shaped (redact_token h t)"
proof (cases "looks_secret_shaped t")
  case True
  then obtain r where "redact_token h t = PLACEHOLDER_OPEN @ r" using redact_token_sealed by blast
  then show ?thesis
    by (intro not_secret_shaped_high) (simp add: PLACEHOLDER_OPEN_def angle_open_def)
qed (simp add: redact_token_plain)

text \<open>Redaction without a secret-shaped token changes nothing.\<close>

lemma redact_free_text_id:
  "\<forall>t\<in>set (tokens s). \<not> looks_secret_shaped t \<Longrightarrow> redact_free_text h s = s"
proof (induction h s rule: redact_free_text.induct)
  case (1 h s)
  let ?tail = "drop (skip_ws_len s) s"
  show ?case
  proof (cases "?tail = []")
    case True
    then show ?thesis by (simp add: redact_free_text.simps[of h s] Let_def)
  next
    case False
    have tk: "tokens s = take (token_len ?tail) ?tail # tokens (drop (token_len ?tail) ?tail)"
      using False by (simp add: tokens.simps[of s] Let_def)
    with "1.prems" have "\<forall>t\<in>set (tokens (drop (token_len ?tail) ?tail)). \<not> looks_secret_shaped t"
      by simp
    note IH = "1.IH"[OF refl refl False this]
    have "redact_token h (take (token_len ?tail) ?tail) = take (token_len ?tail) ?tail"
      by (rule redact_token_plain) (use "1.prems" tk in simp)
    then have "redact_free_text h s
        = take (skip_ws_len s) s @ take (token_len ?tail) ?tail @ drop (token_len ?tail) ?tail"
      unfolding redact_free_text.simps[of h s] Let_def using False IH by simp
    then show ?thesis by (simp only: append_take_drop_id)
  qed
qed

text \<open>Redaction keeps the number of line feeds: a rendering stays line for line.\<close>

lemma count_list_take_drop: "count_list (take n s) c + count_list (drop n s) c = count_list s c"
  by (metis append_take_drop_id count_list_append_local)

lemma token_no_nl: "nl \<notin> set (take (token_len s) s)"
  by (induction s) (auto simp: ws_len_def ascii_ws_def in_range_def byte_def split: if_splits)

lemma redact_token_no_nl:
  assumes "hex_hash h" and "nl \<notin> set t"
  shows "nl \<notin> set (redact_token h t)"
proof -
  have "nl \<notin> set (digest_of h t)"
    using digest_of_hex[OF assms(1), of t] by (auto simp: lower_hex_def ascii_defs)
  then show ?thesis using assms(2)
    by (simp add: redact_token_def PLACEHOLDER_OPEN_def PLACEHOLDER_CLOSE_def
        angle_open_def angle_close_def)
qed

lemma count_nl_redact: "hex_hash h \<Longrightarrow> count_list (redact_free_text h s) nl = count_list s nl"
proof (induction h s rule: redact_free_text.induct)
  case (1 h s)
  let ?tail = "drop (skip_ws_len s) s"
  show ?case
  proof (cases "?tail = []")
    case False
    let ?t = "take (token_len ?tail) ?tail"
    have "count_list ?t nl = 0" "count_list (redact_token h ?t) nl = 0"
      using token_no_nl redact_token_no_nl[OF "1.prems"] by (simp_all add: count_list_0_iff)
    with False "1.IH"[OF refl refl False "1.prems"] show ?thesis
      unfolding redact_free_text.simps[of h s] Let_def
      using count_list_take_drop[of "skip_ws_len s" s nl] count_list_take_drop[of "token_len ?tail" ?tail nl]
      by (simp add: count_list_append_local del: drop_drop)
  qed (simp add: redact_free_text.simps[of h s] Let_def)
qed

section \<open>Properties\<close>

lemma below_floor_zero: "estimated_entropy_bits [] = 0 \<and> \<not> clears_floor []"
  by (simp add: estimated_entropy_bits_def clears_floor_def)

text \<open>The executable integer test of the entropy floor is the real-valued one: a value clears the
  floor exactly when its estimate, the number of its characters times the logarithm of the size of
  the character classes it uses, is at least 80 bits; and no value of fewer than five distinct
  characters clears it.\<close>
theorem entropy_floor_exact:
  "(clears_floor v \<longleftrightarrow> 80 \<le> estimated_entropy_bits v)
   \<and> (length (remdups (uchars v)) < 5 \<longrightarrow> \<not> clears_floor v)"
  using clears_floor_iff[of v] by (simp add: clears_floor_def)

theorem entropy_floor_exact_witness: "\<not> clears_floor ''aaaa''"
proof -
  have "length (remdups (uchars ''aaaa'')) < 5" by code_simp
  then show ?thesis using entropy_floor_exact by blast
qed

text \<open>Placeholders are read back as they are written: the placeholder of a key (without angle
  brackets or an at-sign) parses to that key, and carries the digest of the value exactly when the
  value clears the entropy floor, so a guessable value's digest is never published.\<close>
theorem placeholder_roundtrip:
  assumes "ph_safe k" and "hex_hash h"
  shows "parse_placeholder (placeholder h k v)
    = Some \<lparr>ph_key = k, ph_digest = (if clears_floor v then Some (digest_of h v) else None)\<rparr>"
  using assms by (rule parse_placeholder_placeholder)

definition zero_hash :: hasher where
  "zero_hash s = replicate 64 (CHR ''0'')"

lemma hex_zero_hash: "hex_hash zero_hash"
  by (simp add: hex_hash_def zero_hash_def lower_hex_def ascii_defs)

theorem placeholder_roundtrip_witness:
  "parse_placeholder (placeholder zero_hash ''K'' ''aaaa'') = Some \<lparr>ph_key = ''K'', ph_digest = None\<rparr>"
proof -
  have "ph_safe ''K''" by code_simp
  from placeholder_roundtrip[OF this hex_zero_hash, of "''aaaa''"] below_floor_zero
  show ?thesis by (simp add: clears_floor_def)
qed

text \<open>Free text is redacted token by token: the white-space separated tokens of the result are those
  of the text with each secret-shaped one sealed, no token of the result is secret-shaped, line
  breaks stay where they were, and text without a secret-shaped token is returned unchanged.\<close>
theorem free_text_redacted:
  assumes "hex_hash h"
  shows "tokens (redact_free_text h s) = map (redact_token h) (tokens s)
    \<and> (\<forall>t\<in>set (tokens (redact_free_text h s)). \<not> looks_secret_shaped t)
    \<and> count_list (redact_free_text h s) nl = count_list s nl
    \<and> ((\<forall>t\<in>set (tokens s). \<not> looks_secret_shaped t) \<longrightarrow> redact_free_text h s = s)"
  using tokens_redact[OF assms] redact_token_not_secret count_nl_redact[OF assms] redact_free_text_id by auto

theorem free_text_redacted_witness: "count_list (redact_free_text zero_hash (''a'' @ nl # ''b'')) nl = 1"
  using free_text_redacted[OF hex_zero_hash, of "''a'' @ nl # ''b''"] by simp

text \<open>The reach of the redaction is limited to whole tokens: a token with any character outside the
  token alphabet, such as the comment sign or a quote, is never taken for a secret, so a comment
  that glues a key to its marker keeps it.\<close>
theorem redaction_reach:
  assumes "c \<in> set t" "\<not> is_token_char c"
  shows "redact_token h t = t"
  using assms secret_shaped_token_chars by (auto intro: redact_token_plain)

theorem redaction_reach_witness:
  "redact_token zero_hash ''#KEY=ghp_0123456789abcdef'' = ''#KEY=ghp_0123456789abcdef''"
proof -
  have "\<not> is_token_char (CHR ''#'')" by code_simp
  from redaction_reach[OF _ this] show ?thesis by simp
qed

end
