(* ===== verification/Kaed_Dotenv.thy ===== *)
theory Kaed_Dotenv
  imports Kaed_Secrets "HOL-Library.Multiset" "HOL-Library.AList"
begin

text \<open>
  \<open>src/dotenv.rs\<close>: the strict dotenv grammar, the redacted renderings and the typed operations.
  A file keeps the exact text of every line beside its parse; operations re-render only the
  line they modify. A panic of the source is the error value \<open>panicked\<close>, shown unreachable.
\<close>

section \<open>The data model\<close>

record entry =
  e_export :: bool
  e_key :: rstr
  e_value :: rstr

datatype line_kind = Blank | Comment | Entry entry

record line =
  l_raw :: rstr
  l_kind :: line_kind

record dotenv_file =
  dlines :: "line list"
  trailing_newline :: bool

definition panicked :: kaed_error where
  "panicked = new_error Internal (Msg ''panic'' [])"

section \<open>Parsing\<close>

definition key_start :: "char \<Rightarrow> bool" where
  "key_start c \<longleftrightarrow> ascii_alpha c \<or> c = CHR ''_''"

definition key_char :: "char \<Rightarrow> bool" where
  "key_char c \<longleftrightarrow> ascii_alnum c \<or> c = CHR ''_''"

definition is_valid_key :: "rstr \<Rightarrow> bool" where
  "is_valid_key k = (case k of [] \<Rightarrow> False | c # cs \<Rightarrow> key_start c \<and> (\<forall>x\<in>set cs. key_char x))"

definition strip_quotes :: "rstr \<Rightarrow> rstr" where
  "strip_quotes v =
     (if 2 \<le> length v \<and> (hd v = dquote \<or> hd v = squote) \<and> last v = hd v
      then butlast (tl v) else v)"

definition parse_line :: "rstr \<Rightarrow> line_kind option" where
  "parse_line r =
     (if trim r = [] then Some Blank
      else if starts_with ''#'' (trim_start r) then Some Comment
      else let (ex, rest) = (case strip_prefix ''export '' r of
                               Some q \<Rightarrow> (True, trim_start q) | None \<Rightarrow> (False, r))
           in (case find_char (CHR ''='') rest of
                 None \<Rightarrow> None
               | Some eq \<Rightarrow>
                   let k = trim_end (take eq rest)
                   in if \<not> is_valid_key k then None
                      else Some (Entry \<lparr>e_export = ex, e_key = k,
                                  e_value = strip_quotes (trim (drop (eq + 1) rest))\<rparr>)))"

fun parse_lines :: "rstr list \<Rightarrow> line list option" where
  "parse_lines [] = Some []"
| "parse_lines (r # rs) =
     (case parse_line r of
        None \<Rightarrow> None
      | Some k \<Rightarrow> map_option (Cons \<lparr>l_raw = r, l_kind = k\<rparr>) (parse_lines rs))"

definition parse :: "rstr \<Rightarrow> dotenv_file option" where
  "parse content =
     (let trailing = (content \<noteq> [] \<and> last content = nl);
          body = (if trailing then butlast content else content)
      in map_option (\<lambda>ls. \<lparr>dlines = ls, trailing_newline = trailing\<rparr>)
           (if body \<noteq> [] \<or> trailing then parse_lines (split_on nl body) else Some []))"

section \<open>Rendering\<close>

definition replace_char :: "char \<Rightarrow> rstr \<Rightarrow> rstr \<Rightarrow> rstr" where
  "replace_char c t s = concat (map (\<lambda>x. if x = c then t else [x]) s)"

definition needs_quotes :: "rstr \<Rightarrow> bool" where
  "needs_quotes v \<longleftrightarrow> has_ws v \<or> (\<exists>c\<in>set v. c \<in> {CHR ''#'', dquote, squote, backslash})"

definition quote_for_render :: "rstr \<Rightarrow> rstr" where
  "quote_for_render v =
     (if needs_quotes v
      then dquote # replace_char dquote [backslash, dquote]
                      (replace_char backslash [backslash, backslash] v) @ [dquote]
      else v)"

definition export_str :: "entry \<Rightarrow> rstr" where
  "export_str e = (if e_export e then ''export '' else [])"

definition render_entry :: "entry \<Rightarrow> rstr" where
  "render_entry e =
     export_str e @ e_key e @ ''='' @ (if e_value e = [] then [] else quote_for_render (e_value e))"

definition join_lines :: "rstr list \<Rightarrow> bool \<Rightarrow> rstr" where
  "join_lines ls trailing = join_with [nl] ls @ (if trailing then [nl] else [])"

definition render :: "dotenv_file \<Rightarrow> rstr" where
  "render f = join_lines (map l_raw (dlines f)) (trailing_newline f)"

definition redact_line :: "hasher \<Rightarrow> line \<Rightarrow> rstr" where
  "redact_line h l =
     (case l_kind l of
        Blank \<Rightarrow> l_raw l
      | Comment \<Rightarrow> redact_free_text h (l_raw l)
      | Entry e \<Rightarrow> export_str e @ e_key e @ ''=''
                   @ (if e_value e = [] then [] else placeholder h (e_key e) (e_value e)))"

definition redact :: "hasher \<Rightarrow> dotenv_file \<Rightarrow> rstr" where
  "redact h f = join_lines (map (redact_line h) (dlines f)) (trailing_newline f)"

definition example_line :: "hasher \<Rightarrow> line \<Rightarrow> rstr" where
  "example_line h l =
     (case l_kind l of
        Blank \<Rightarrow> l_raw l
      | Comment \<Rightarrow> redact_free_text h (l_raw l)
      | Entry e \<Rightarrow> export_str e @ e_key e @ ''='')"

definition example :: "hasher \<Rightarrow> dotenv_file \<Rightarrow> rstr" where
  "example h f = join_lines (map (example_line h) (dlines f)) (trailing_newline f)"

definition entry_of :: "line \<Rightarrow> entry option" where
  "entry_of l = (case l_kind l of Entry e \<Rightarrow> Some e | _ \<Rightarrow> None)"

definition entries_of :: "line list \<Rightarrow> entry list" where
  "entries_of ls = List.map_filter entry_of ls"

definition all_values_empty :: "dotenv_file \<Rightarrow> bool" where
  "all_values_empty f \<longleftrightarrow>
     (\<forall>l\<in>set (dlines f). case l_kind l of Entry e \<Rightarrow> e_value e = [] | _ \<Rightarrow> True)"

definition get_entry :: "dotenv_file \<Rightarrow> rstr \<Rightarrow> entry option" where
  "get_entry f k = find (\<lambda>e. e_key e = k) (entries_of (dlines f))"

definition keys :: "dotenv_file \<Rightarrow> rstr list" where
  "keys f = map e_key (entries_of (dlines f))"

text \<open>\<open>position\<close> of the first line satisfying a predicate.\<close>

fun position :: "('a \<Rightarrow> bool) \<Rightarrow> 'a list \<Rightarrow> nat option" where
  "position P [] = None"
| "position P (x # xs) = (if P x then Some 0 else map_option Suc (position P xs))"

definition is_entry_for :: "rstr \<Rightarrow> line \<Rightarrow> bool" where
  "is_entry_for k l = (case l_kind l of Entry e \<Rightarrow> e_key e = k | _ \<Rightarrow> False)"

definition entry_index :: "dotenv_file \<Rightarrow> rstr \<Rightarrow> nat option" where
  "entry_index f k = position (is_entry_for k) (dlines f)"

fun attached_block_start :: "line list \<Rightarrow> nat \<Rightarrow> nat" where
  "attached_block_start ls 0 = 0"
| "attached_block_start ls (Suc i) =
     (if l_kind (ls ! i) = Comment then attached_block_start ls i else Suc i)"

definition comment_body :: "rstr \<Rightarrow> rstr" where
  "comment_body r = trim (dropWhile (\<lambda>c. c = CHR ''#'') (trim_start r))"

definition attached_comment_text :: "hasher \<Rightarrow> line list \<Rightarrow> nat \<Rightarrow> rstr option" where
  "attached_comment_text h ls i =
     (let start = attached_block_start ls i in
      if start = i then None
      else Some (join_with [nl]
             (map (\<lambda>l. redact_free_text h (comment_body (l_raw l))) (take (i - start) (drop start ls)))))"

record entry_view =
  ev_key :: rstr
  ev_placeholder :: "rstr option"
  ev_comment :: "rstr option"
  ev_len :: nat
  ev_shape :: rstr

definition entries :: "hasher \<Rightarrow> dotenv_file \<Rightarrow> entry_view list" where
  "entries h f =
     List.map_filter
       (\<lambda>(i, l). map_option
          (\<lambda>e. \<lparr>ev_key = e_key e,
                ev_placeholder = (if e_value e = [] then None
                                  else Some (placeholder h (e_key e) (e_value e))),
                ev_comment = attached_comment_text h (dlines f) i,
                ev_len = char_count (e_value e),
                ev_shape = shape_of (e_value e)\<rparr>)
          (entry_of l))
       (enumerate 0 (dlines f))"

section \<open>The typed operations\<close>

definition comment_lines :: "rstr \<Rightarrow> line list" where
  "comment_lines c =
     (if c = [] then []
      else map (\<lambda>l. \<lparr>l_raw = ''# '' @ l, l_kind = Comment\<rparr>) (str_lines c))"

definition vec_splice :: "'a list \<Rightarrow> nat \<Rightarrow> nat \<Rightarrow> 'a list \<Rightarrow> 'a list" where
  "vec_splice ls start stop new = take start ls @ new @ drop stop ls"

definition map_entry :: "(entry \<Rightarrow> entry) \<Rightarrow> line \<Rightarrow> line" where
  "map_entry g l =
     (case l_kind l of
        Entry e \<Rightarrow> \<lparr>l_raw = render_entry (g e), l_kind = Entry (g e)\<rparr>
      | _ \<Rightarrow> l)"

definition multi_line :: "rstr \<Rightarrow> bool" where
  "multi_line v \<longleftrightarrow> nl \<in> set v \<or> cr \<in> set v"

definition env_set :: "dotenv_file \<Rightarrow> rstr \<Rightarrow> rstr option \<Rightarrow> rstr option \<Rightarrow> dotenv_file res" where
  "env_set f k val comment =
     (if (case val of Some v \<Rightarrow> multi_line v | None \<Rightarrow> False)
      then Inl (invalid_input (Msg ''values must be single-line'' [k]))
      else (case entry_index f k of
          Some i \<Rightarrow>
            (let ls = (case val of
                         Some v \<Rightarrow> (dlines f)[i := map_entry (\<lambda>e. e\<lparr>e_value := v\<rparr>) (dlines f ! i)]
                       | None \<Rightarrow> dlines f)
             in Inr (f\<lparr>dlines :=
                  (case comment of
                     Some c \<Rightarrow> vec_splice ls (attached_block_start ls i) i (comment_lines c)
                   | None \<Rightarrow> ls)\<rparr>))
        | None \<Rightarrow>
            if \<not> is_valid_key k then Inl (invalid_input (Msg ''not a valid dotenv key'' [k]))
            else (case val of
                None \<Rightarrow> Inl (invalid_input (Msg ''new key needs a value'' [k]))
              | Some v \<Rightarrow>
                  (let e = \<lparr>e_export = False, e_key = k, e_value = v\<rparr>
                   in Inr \<lparr>dlines = dlines f
                              @ (case comment of Some c \<Rightarrow> comment_lines c | None \<Rightarrow> [])
                              @ [\<lparr>l_raw = render_entry e, l_kind = Entry e\<rparr>],
                           trailing_newline = True\<rparr>))))"

definition env_rename :: "dotenv_file \<Rightarrow> rstr \<Rightarrow> rstr \<Rightarrow> dotenv_file res" where
  "env_rename f frm target =
     (if \<not> is_valid_key target then Inl (invalid_input (Msg ''not a valid dotenv key'' [target]))
      else if entry_index f target \<noteq> None
      then Inl (invalid_input (Msg ''rename target already exists'' [target]))
      else and_then (ok_or (entry_index f frm) (invalid_input (Msg ''env_rename: no key'' [frm]))) (\<lambda>i.
        Inr (f\<lparr>dlines := (dlines f)[i := map_entry (\<lambda>e. e\<lparr>e_key := target\<rparr>) (dlines f ! i)]\<rparr>)))"

definition env_delete :: "dotenv_file \<Rightarrow> rstr \<Rightarrow> dotenv_file res" where
  "env_delete f k =
     and_then (ok_or (entry_index f k) (invalid_input (Msg ''env_delete: no key'' [k]))) (\<lambda>i.
       Inr (f\<lparr>dlines := vec_splice (dlines f) (attached_block_start (dlines f) i) (Suc i) []\<rparr>))"

text \<open>
  \<open>reorder\<close>: one pass over the lines builds the entry groups and the sequence of free lines and
  group slots, popping the comments that turn out to belong to an entry; a second pass fills
  the slots in the requested order.
\<close>

type_synonym groups = "(rstr \<times> line list) list"

fun reorder_step ::
  "line list \<Rightarrow> nat \<Rightarrow> groups \<times> line option list \<Rightarrow> groups \<times> line option list" where
  "reorder_step ls i (groups, sequence) =
     (case l_kind (ls ! i) of
        Entry e \<Rightarrow>
          (let start = attached_block_start ls i
           in (AList.update (e_key e) (take (Suc i - start) (drop start ls)) groups,
               take (length sequence - (i - start)) sequence @ [None]))
      | _ \<Rightarrow> (groups, sequence @ [Some (ls ! i)]))"

fun reorder_fill :: "groups \<Rightarrow> line option list \<Rightarrow> rstr list \<Rightarrow> line list option" where
  "reorder_fill groups [] ordered = Some []"
| "reorder_fill groups (Some l # items) ordered = map_option (Cons l) (reorder_fill groups items ordered)"
| "reorder_fill groups (None # items) [] = None"
| "reorder_fill groups (None # items) (k # ordered) =
     (case map_of groups k of
        None \<Rightarrow> None
      | Some g \<Rightarrow> map_option (append g) (reorder_fill groups items ordered))"

fun adjacent_equal :: "'a list \<Rightarrow> bool" where
  "adjacent_equal (x # y # xs) = (x = y \<or> adjacent_equal (y # xs))"
| "adjacent_equal _ = False"

definition env_reorder :: "dotenv_file \<Rightarrow> rstr list \<Rightarrow> dotenv_file res" where
  "env_reorder f ks =
     (let want = sort ks; present = sort (keys f) in
      if adjacent_equal present
      then Inl (invalid_input (Msg ''the file has duplicate keys'' []))
      else if want \<noteq> present
      then Inl (invalid_input (Msg ''keys must be exactly the current keys'' (keys f)))
      else let (groups, sequence) =
                 fold (reorder_step (dlines f)) [0..<length (dlines f)] ([], [])
           in (case reorder_fill groups sequence ks of
                 None \<Rightarrow> Inl panicked
               | Some out \<Rightarrow> Inr (f\<lparr>dlines := out\<rparr>)))"

section \<open>Placeholders as values, and the values a write destroys\<close>

definition resolve_value :: "hasher \<Rightarrow> dotenv_file \<Rightarrow> rstr \<Rightarrow> rstr \<Rightarrow> rstr res" where
  "resolve_value h f path r =
     (case parse_placeholder r of
        Some ph \<Rightarrow>
          and_then (ok_or (get_entry f (ph_key ph))
              (invalid_input (Msg ''placeholder names a missing key'' [ph_key ph, path]))) (\<lambda>e.
            if (case ph_digest ph of Some d \<Rightarrow> digest_of h (e_value e) \<noteq> d | None \<Rightarrow> False)
            then Inl (invalid_input (Msg ''placeholder digest mismatch'' [ph_key ph, path]))
            else Inr (e_value e))
      | None \<Rightarrow>
          if contains_placeholder_syntax r
          then Inl (invalid_input (Msg ''placeholder syntax but not exactly one placeholder'' []))
          else Inr r)"

definition vanished_values :: "dotenv_file option \<Rightarrow> dotenv_file option \<Rightarrow> rstr list" where
  "vanished_values before after =
     (case before of
        None \<Rightarrow> []
      | Some b \<Rightarrow>
          (let after_values =
                 (case after of None \<Rightarrow> {} | Some a \<Rightarrow> set (map e_value (entries_of (dlines a))))
           in sort (remdups
                (map e_key (filter (\<lambda>e. e_value e \<noteq> [] \<and> e_value e \<notin> after_values)
                   (entries_of (dlines b)))))))"

end
