(* ===== verification/Kaed_Addr.thy ===== *)
theory Kaed_Addr
  imports Kaed_Errors
begin

text \<open>
  \<open>src/addr.rs\<close>: content anchors and line ranges. Lines are 1-based, ranges inclusive; offsets
  are byte offsets. The lemmas show that splitting and joining round-trips byte-exact, that
  \<open>find_anchor\<close> reports the leftmost non-overlapping matches and every other match overlaps
  one of them, and that replacing a range leaves every line outside of it alone.
\<close>

record lines_t =
  ls_lines :: "rstr list"
  ls_trailing :: bool

definition body_of :: "rstr \<Rightarrow> rstr" where
  "body_of content = (if content \<noteq> [] \<and> last content = nl then butlast content else content)"

definition lines_split :: "rstr \<Rightarrow> lines_t" where
  "lines_split content =
     (if content = [] then \<lparr>ls_lines = [], ls_trailing = False\<rparr>
      else \<lparr>ls_lines = split_on nl (body_of content), ls_trailing = (last content = nl)\<rparr>)"

definition lines_join :: "lines_t \<Rightarrow> rstr" where
  "lines_join l = join_with [nl] (ls_lines l) @ (if ls_trailing l then [nl] else [])"

definition lines_count :: "lines_t \<Rightarrow> nat" where
  "lines_count l = length (ls_lines l)"

definition check_range :: "lines_t \<Rightarrow> nat \<Rightarrow> nat \<Rightarrow> unit res" where
  "check_range l start stop =
     (if start = 0 \<or> stop < start then Inl (invalid_input (Msg ''invalid range'' []))
      else if lines_count l < stop then Inl (invalid_input (Msg ''range exceeds file length'' []))
      else Inr ())"

definition replacement_lines :: "rstr \<Rightarrow> rstr list" where
  "replacement_lines new_text =
     (if new_text = [] then []
      else split_on nl (case strip_suffix [nl] new_text of Some b \<Rightarrow> b | None \<Rightarrow> new_text))"

definition replace_range :: "lines_t \<Rightarrow> nat \<Rightarrow> nat \<Rightarrow> rstr \<Rightarrow> lines_t res" where
  "replace_range l start stop new_text =
     and_then (check_range l start stop) (\<lambda>_.
       Inr (l\<lparr>ls_lines := take (start - 1) (ls_lines l) @ replacement_lines new_text
                          @ drop stop (ls_lines l)\<rparr>))"

record anchor_hit =
  byte_offset :: nat
  hit_line :: nat

definition line_of_offset :: "rstr \<Rightarrow> nat \<Rightarrow> nat" where
  "line_of_offset content offset = count_list (take offset content) nl + 1"

function find_anchor_from :: "rstr \<Rightarrow> rstr \<Rightarrow> nat \<Rightarrow> anchor_hit list" where
  "find_anchor_from content anchor frm =
     (if anchor = [] then []
      else (case find_sub anchor (drop frm content) of
              None \<Rightarrow> []
            | Some pos \<Rightarrow>
                \<lparr>byte_offset = frm + pos, hit_line = line_of_offset content (frm + pos)\<rparr>
                # find_anchor_from content anchor (frm + pos + length anchor)))"
  by pat_completeness auto
termination
proof (relation "measure (\<lambda>(c, a, f). length c - f)")
  fix content anchor :: rstr and frm pos :: nat
  assume "anchor \<noteq> []" and "find_sub anchor (drop frm content) = Some pos"
  moreover from this have "pos + length anchor \<le> length content - frm" and "0 < length anchor"
    using find_sub_Some by fastforce+
  then have "length content - (frm + pos + length anchor) < length content - frm" by linarith
  ultimately show "((content, anchor, frm + pos + length anchor), content, anchor, frm)
      \<in> measure (\<lambda>(c, a, f). length c - f)"
    by simp
qed simp

declare find_anchor_from.simps [simp del]

definition find_anchor :: "rstr \<Rightarrow> rstr \<Rightarrow> anchor_hit list" where
  "find_anchor content anchor = find_anchor_from content anchor 0"

definition resolve_anchor :: "rstr \<Rightarrow> rstr \<Rightarrow> nat option \<Rightarrow> rstr \<Rightarrow> anchor_hit res" where
  "resolve_anchor content anchor occurrence path =
     (if anchor = [] then Inl (invalid_input (Msg ''anchor text must be non-empty'' []))
      else let hits = find_anchor content anchor in
        if hits = [] then Inl (anchor_not_found path)
        else (case occurrence of
                None \<Rightarrow>
                  if length hits = 1 then Inr (hits ! 0)
                  else Inl (ambiguous_anchor
                         (ambiguous_anchor_data_new path (ls_lines (lines_split content))
                            (map hit_line hits)))
              | Some n \<Rightarrow>
                  if n = 0 \<or> length hits < n
                  then Inl (invalid_input (Msg ''occurrence out of range'' [path]))
                  else Inr (hits ! (n - 1))))"

section \<open>Splitting and joining\<close>

lemma body_of_join: "body_of c @ (if c \<noteq> [] \<and> last c = nl then [nl] else []) = c"
  by (cases c rule: rev_cases) (auto simp: body_of_def)

lemma lines_join_split_id: "lines_join (lines_split c) = c"
  using body_of_join[of c] by (auto simp: lines_split_def lines_join_def)

lemma lines_split_no_nl: "w \<in> set (ls_lines (lines_split c)) \<Longrightarrow> nl \<notin> set w"
  by (auto simp: lines_split_def split: if_splits dest: split_on_free)

lemma replacement_lines_no_nl: "w \<in> set (replacement_lines t) \<Longrightarrow> nl \<notin> set w"
  by (auto simp: replacement_lines_def split: if_splits option.splits dest: split_on_free)

lemma butlast_join_snoc: "body_of (s @ [nl]) = s" "last (s @ [nl]) = nl"
  by (simp_all add: body_of_def)

text \<open>A line structure with lines free of line feeds is what splitting its text gives.\<close>

lemma lines_split_join:
  assumes "ls_lines l \<noteq> []" and "\<forall>w\<in>set (ls_lines l). nl \<notin> set w"
    and "ls_trailing l \<or> last (ls_lines l) \<noteq> []"
  shows "lines_split (lines_join l) = l"
proof -
  let ?j = "join_with [nl] (ls_lines l)"
  have sp: "split_on nl ?j = ls_lines l" using assms(1,2) by (rule split_join)
  show ?thesis
  proof (cases "ls_trailing l")
    case True
    then show ?thesis using sp
      by (simp add: lines_join_def lines_split_def butlast_join_snoc)
  next
    case False
    with assms(3) have ne: "last (ls_lines l) \<noteq> []" by simp
    have "?j \<noteq> [] \<and> last ?j = last (last (ls_lines l))"
      using assms(1) ne by (rule join_last)
    moreover have "last (last (ls_lines l)) \<noteq> nl"
      using assms(1,2) ne by (metis last_in_set)
    ultimately show ?thesis using sp False
      by (simp add: lines_join_def lines_split_def body_of_def)
  qed
qed

section \<open>Replacing a range\<close>

lemma replace_range_Inr:
  "replace_range l start stop t = Inr l' \<longleftrightarrow>
     1 \<le> start \<and> start \<le> stop \<and> stop \<le> lines_count l \<and>
     l' = l\<lparr>ls_lines := take (start - 1) (ls_lines l) @ replacement_lines t @ drop stop (ls_lines l)\<rparr>"
  by (auto simp: replace_range_def check_range_def)

lemma replace_range_Inl_code:
  "replace_range l start stop t = Inl e \<Longrightarrow> code e = InvalidInput"
  by (auto simp: replace_range_def check_range_def and_then_Inl split: if_splits)

lemma replace_range_before:
  "replace_range l start stop t = Inr l' \<Longrightarrow> i < start - 1 \<Longrightarrow> ls_lines l' ! i = ls_lines l ! i"
  by (auto simp: replace_range_Inr nth_append lines_count_def)

lemma replace_range_after:
  assumes "replace_range l start stop t = Inr l'" and "stop \<le> i" and "i < lines_count l"
  shows "ls_lines l' ! (start - 1 + length (replacement_lines t) + (i - stop)) = ls_lines l ! i"
  using assms by (auto simp: replace_range_Inr nth_append lines_count_def)

section \<open>Anchor search\<close>

lemma find_anchor_from_Nil [simp]: "find_anchor_from c [] i = []"
  by (simp add: find_anchor_from.simps)

text \<open>Every hit is a match at or after the scan position, with the line its offset is on.\<close>

lemma find_anchor_from_sound:
  "h \<in> set (find_anchor_from c a i) \<Longrightarrow>
     a \<noteq> [] \<and> i \<le> byte_offset h \<and> take (length a) (drop (byte_offset h) c) = a
     \<and> hit_line h = line_of_offset c (byte_offset h)"
proof (induction c a i rule: find_anchor_from.induct)
  case (1 c a i)
  from "1.prems" have a: "a \<noteq> []" by auto
  with "1.prems" obtain pos where pos: "find_sub a (drop i c) = Some pos"
    by (cases "find_sub a (drop i c)") (auto simp: find_anchor_from.simps[of c a i])
  from "1.prems" a pos
  consider "h = \<lparr>byte_offset = i + pos, hit_line = line_of_offset c (i + pos)\<rparr>"
    | "h \<in> set (find_anchor_from c a (i + pos + length a))"
    by (auto simp: find_anchor_from.simps[of c a i])
  then show ?case
  proof cases
    case 1
    with a find_sub_Some[OF pos] show ?thesis by (simp add: add.commute)
  next
    case 2
    from "1.IH"[OF a pos 2] show ?thesis by simp
  qed
qed

text \<open>Hits do not overlap: each starts where the one before has ended, or later.\<close>

lemma find_anchor_from_disjoint:
  "sorted_wrt (\<lambda>h k. byte_offset h + length a \<le> byte_offset k) (find_anchor_from c a i)"
proof (induction c a i rule: find_anchor_from.induct)
  case (1 c a i)
  show ?case
  proof (cases "a = []")
    case False
    show ?thesis
    proof (cases "find_sub a (drop i c)")
      case (Some pos)
      with 1[OF False Some] False show ?thesis
        by (auto simp: find_anchor_from.simps[of c a i] dest: find_anchor_from_sound)
    qed (use False in \<open>simp add: find_anchor_from.simps[of c a i]\<close>)
  qed simp
qed

text \<open>No match is missed: every occurrence overlaps a reported hit that starts no later.\<close>

lemma find_anchor_from_complete:
  assumes "a \<noteq> []" and "take (length a) (drop k c) = a" and "i \<le> k"
  shows "\<exists>h\<in>set (find_anchor_from c a i). byte_offset h \<le> k \<and> k < byte_offset h + length a"
  using assms
proof (induction c a i rule: find_anchor_from.induct)
  case (1 c a i)
  have k: "take (length a) (drop (k - i) (drop i c)) = a" using "1.prems" by simp
  then obtain pos where pos: "find_sub a (drop i c) = Some pos"
    using find_sub_None by fastforce
  have le: "pos \<le> k - i" using find_sub_least[OF pos] k by (meson not_less)
  show ?case
  proof (cases "k < i + pos + length a")
    case True
    with le "1.prems" pos show ?thesis
      by (simp add: find_anchor_from.simps[of c a i]) linarith
  next
    case False
    then have "i + pos + length a \<le> k" by simp
    from "1.IH"[OF "1.prems"(1) pos "1.prems"(1,2) this] pos "1.prems"(1) show ?thesis
      by (auto simp: find_anchor_from.simps[of c a i])
  qed
qed

lemmas find_anchor_sound = find_anchor_from_sound[of _ c a 0 for c a, folded find_anchor_def]
lemmas find_anchor_complete =
  find_anchor_from_complete[of a k c 0 for a k c, folded find_anchor_def, OF _ _ le0]

lemma anchor_split:
  assumes "h \<in> set (find_anchor c a)"
  shows "c = take (byte_offset h) c @ a @ drop (byte_offset h + length a) c"
  using find_anchor_sound[OF assms] by (metis append_take_drop_id drop_drop add.commute)

lemma resolve_anchor_mem: "resolve_anchor c a occ p = Inr h \<Longrightarrow> h \<in> set (find_anchor c a)"
  by (auto simp: resolve_anchor_def Let_def split: if_splits option.splits)

lemma resolve_anchor_code:
  "resolve_anchor c a occ p = Inl e \<Longrightarrow> code e \<in> {InvalidInput, AnchorNotFound, AmbiguousAnchor}"
  by (auto simp: resolve_anchor_def Let_def split: if_splits option.splits)

text \<open>The line of an offset inside of the text is one of its lines.\<close>

lemma length_split_inclusive:
  "length (split_inclusive s) = count_list s nl + (if s \<noteq> [] \<and> last s \<noteq> nl then 1 else 0)"
  by (induction s) (auto split: list.splits)

lemma line_of_offset_bound:
  assumes "k < length c"
  shows "line_of_offset c k \<le> length (split_inclusive c)"
proof -
  have "count_list c nl = count_list (take k c) nl + count_list (drop k c) nl"
    by (metis append_take_drop_id count_list_append_local)
  moreover have "drop k c \<noteq> []" "last (drop k c) = last c" using assms by simp_all
  moreover have "count_list (drop k c) nl \<noteq> 0" if "last c = nl"
    using that calculation by (metis count_list_0_iff last_in_set)
  ultimately show ?thesis
    using assms by (auto simp: line_of_offset_def length_split_inclusive)
qed

section \<open>Properties\<close>

text \<open>Splitting a text into its lines and joining them again gives the text back byte for byte,
  final newline included, and the split text is determined by its join: a list of lines without
  newlines, not ending in an unterminated empty line, is what its join splits into.\<close>
theorem lines_roundtrip:
  "lines_join (lines_split c) = c \<and>
   (ls_lines l \<noteq> [] \<and> (\<forall>w\<in>set (ls_lines l). nl \<notin> set w) \<and> (ls_trailing l \<or> last (ls_lines l) \<noteq> [])
      \<longrightarrow> lines_split (lines_join l) = l)"
  using lines_join_split_id lines_split_join by blast

theorem lines_roundtrip_witness:
  "lines_split (lines_join \<lparr>ls_lines = [''a'', [], ''b''], ls_trailing = True\<rparr>)
     = \<lparr>ls_lines = [''a'', [], ''b''], ls_trailing = True\<rparr>"
  using lines_roundtrip[of "''a''" "\<lparr>ls_lines = [''a'', [], ''b''], ls_trailing = True\<rparr>"] by simp

text \<open>A range replacement that succeeds was asked for lines that exist; it puts the lines of the
  new text in their place, keeps every line before and after them, leaves whether the file ends
  in a newline alone, and changes the number of lines by exactly the difference. No line of the
  result holds a newline, so its line numbers mean what the next reader takes them to mean.\<close>
theorem replace_range_effect:
  assumes "replace_range (lines_split c) start stop t = Inr l'"
  shows "1 \<le> start \<and> start \<le> stop \<and> stop \<le> lines_count (lines_split c)
    \<and> (\<forall>i<start - 1. ls_lines l' ! i = ls_lines (lines_split c) ! i)
    \<and> (\<forall>i<length (replacement_lines t). ls_lines l' ! (start - 1 + i) = replacement_lines t ! i)
    \<and> (\<forall>i. stop \<le> i \<and> i < lines_count (lines_split c) \<longrightarrow>
          ls_lines l' ! (start - 1 + length (replacement_lines t) + (i - stop)) = ls_lines (lines_split c) ! i)
    \<and> lines_count l' + (stop - (start - 1)) = lines_count (lines_split c) + length (replacement_lines t)
    \<and> ls_trailing l' = ls_trailing (lines_split c)
    \<and> (\<forall>w\<in>set (ls_lines l'). nl \<notin> set w)"
proof -
  note r = assms[unfolded replace_range_Inr]
  have "\<forall>w\<in>set (ls_lines l'). nl \<notin> set w"
    using r by (auto dest: lines_split_no_nl replacement_lines_no_nl in_set_takeD in_set_dropD)
  with r replace_range_after[OF assms] replace_range_before[OF assms] show ?thesis
    by (auto simp: nth_append lines_count_def)
qed

theorem replace_range_effect_witness:
  "ls_lines \<lparr>ls_lines = [''a'', ''x'', ''y'', ''c''], ls_trailing = True\<rparr> ! 3 = ''c''"
  using replace_range_effect[of "''a'' @ nl # ''b'' @ nl # ''c'' @ [nl]" 2 2 "''x'' @ nl # ''y''"
      "\<lparr>ls_lines = [''a'', ''x'', ''y'', ''c''], ls_trailing = True\<rparr>"]
  by (simp add: replace_range_def check_range_def lines_count_def lines_split_def body_of_def replacement_lines_def and_then_def)

text \<open>The anchor search reports exactly the places where the anchor occurs, up to overlap. Every
  reported hit is an occurrence with its line number, hits do not overlap, and every occurrence
  overlaps a hit that starts no later. An anchor that resolves without an occurrence number is
  unique in this sense: every occurrence overlaps the one hit.\<close>
theorem anchor_search_exact:
  "(\<forall>h\<in>set (find_anchor c a). take (length a) (drop (byte_offset h) c) = a
        \<and> hit_line h = line_of_offset c (byte_offset h))
   \<and> sorted_wrt (\<lambda>h k. byte_offset h + length a \<le> byte_offset k) (find_anchor c a)
   \<and> (a \<noteq> [] \<and> take (length a) (drop k c) = a \<longrightarrow>
        (\<exists>h\<in>set (find_anchor c a). byte_offset h \<le> k \<and> k < byte_offset h + length a))
   \<and> (a \<noteq> [] \<and> take (length a) (drop k c) = a \<and> resolve_anchor c a None p = Inr h \<longrightarrow>
        byte_offset h \<le> k \<and> k < byte_offset h + length a)"
proof -
  have "byte_offset h \<le> k \<and> k < byte_offset h + length a"
    if a: "a \<noteq> []" "take (length a) (drop k c) = a" and r: "resolve_anchor c a None p = Inr h"
  proof -
    from r have "find_anchor c a = [h]"
      by (auto simp: resolve_anchor_def Let_def length_Suc_conv split: if_splits list.splits)
    with find_anchor_complete[OF a] show ?thesis by simp
  qed
  then show ?thesis
    using find_anchor_sound find_anchor_complete find_anchor_from_disjoint[of a c 0] by (auto simp: find_anchor_def)
qed

theorem anchor_search_exact_witness:
  "\<exists>h\<in>set (find_anchor ''abcab'' ''ab''). byte_offset h \<le> 3 \<and> (3 :: nat) < byte_offset h + 2"
  using anchor_search_exact[of "''abcab''" "''ab''" 3] by simp

end
