(* ===== verification/Kaed_Shapes.thy ===== *)
theory Kaed_Shapes
  imports Kaed_Secrets "HOL-Library.Word"
begin

text \<open>
  \<open>src/shapes.rs\<close>: the closed grammar of mintable secret shapes. OS entropy is the parameter
  \<open>entropy n\<close>: the bytes \<open>getrandom::fill\<close> puts into a buffer of length \<open>n\<close>, or its failure.
  Bytes are 8-bit words and the encoders work on them with the code's masks and shifts.
\<close>

unbundle bit_operations_syntax

definition MIN_HEX_CHARS :: nat where "MIN_HEX_CHARS = 24"
definition MAX_HEX_CHARS :: nat where "MAX_HEX_CHARS = 128"
definition MIN_B64_CHARS :: nat where "MIN_B64_CHARS = 16"
definition MAX_B64_CHARS :: nat where "MAX_B64_CHARS = 128"
definition MAX_PREFIX_LEN :: nat where "MAX_PREFIX_LEN = 24"

datatype shape = Hex nat | Base64Url nat | Uuid4 | Prefixed rstr shape

section \<open>Decimal numbers\<close>

definition digit_char :: "nat \<Rightarrow> char" where
  "digit_char d = char_of (48 + d)"

fun show_nat :: "nat \<Rightarrow> rstr" where
  "show_nat n = (if n < 10 then [digit_char n] else show_nat (n div 10) @ [digit_char (n mod 10)])"

declare show_nat.simps [simp del]

definition dec_value :: "rstr \<Rightarrow> nat" where
  "dec_value s = foldl (\<lambda>a c. 10 * a + (byte c - 48)) 0 s"

text \<open>\<open>str::parse::<usize>\<close>: an optional plus sign, at least one digit, no overflow of 64 bits.\<close>

definition parse_usize :: "rstr \<Rightarrow> nat option" where
  "parse_usize s =
     (let d = (case strip_prefix ''+'' s of Some r \<Rightarrow> r | None \<Rightarrow> s) in
      if d \<noteq> [] \<and> (\<forall>c\<in>set d. ascii_digit c) \<and> dec_value d < 2 ^ 64 then Some (dec_value d) else None)"

section \<open>The grammar\<close>

fun shape_str :: "shape \<Rightarrow> rstr" where
  "shape_str (Hex n) = ''hex('' @ show_nat n @ '')''"
| "shape_str (Base64Url n) = ''base64url('' @ show_nat n @ '')''"
| "shape_str Uuid4 = ''uuid4''"
| "shape_str (Prefixed tag inner) = ''prefixed('' @ tag @ '','' @ shape_str inner @ '')''"

definition grammar_err :: "rstr \<Rightarrow> rstr \<Rightarrow> kaed_error" where
  "grammar_err s detail = invalid_input (Msg detail [s])"

definition arg_of :: "rstr \<Rightarrow> rstr \<Rightarrow> rstr option" where
  "arg_of s name =
     map_option trim
       (Option.bind (Option.bind (strip_prefix name s) (strip_prefix ''('')) (strip_suffix '')''))"

definition tag_char :: "char \<Rightarrow> bool" where
  "tag_char c \<longleftrightarrow> ascii_alnum c \<or> c = CHR ''-'' \<or> c = CHR ''_''"

definition valid_tag :: "rstr \<Rightarrow> bool" where
  "valid_tag t \<longleftrightarrow> t \<noteq> [] \<and> length t \<le> MAX_PREFIX_LEN \<and> (\<forall>c\<in>set t. tag_char c)"

definition sized :: "rstr \<Rightarrow> rstr \<Rightarrow> nat \<Rightarrow> nat \<Rightarrow> (nat \<Rightarrow> shape) \<Rightarrow> shape res" where
  "sized s n lo hi mk =
     and_then (ok_or (parse_usize n) (grammar_err s ''N is not a number'')) (\<lambda>chars.
       if \<not> (lo \<le> chars \<and> chars \<le> hi) then Inl (grammar_err s ''N outside the allowed range'')
       else Inr (mk chars))"

definition parse_leaf :: "rstr \<Rightarrow> shape res" where
  "parse_leaf s =
     (if s = ''uuid4'' then Inr Uuid4
      else (case arg_of s ''hex'' of
        Some n \<Rightarrow> sized s n MIN_HEX_CHARS MAX_HEX_CHARS Hex
      | None \<Rightarrow> (case arg_of s ''base64url'' of
          Some n \<Rightarrow> sized s n MIN_B64_CHARS MAX_B64_CHARS Base64Url
        | None \<Rightarrow> (case arg_of s ''prefixed'' of
            Some _ \<Rightarrow> Inl (grammar_err s ''prefixed cannot nest'')
          | None \<Rightarrow> Inl (grammar_err s ''not a known shape'')))))"

text \<open>
  \<open>parse_inner\<close>: the recursion of the source passes \<open>allow_prefixed = false\<close> and so is one level
  deep; \<open>parse_leaf\<close> is \<open>parse_inner(_, false)\<close>.
\<close>

definition parse_inner :: "rstr \<Rightarrow> bool \<Rightarrow> shape res" where
  "parse_inner s allow_prefixed =
     (if \<not> allow_prefixed then parse_leaf s
      else if s = ''uuid4'' \<or> arg_of s ''hex'' \<noteq> None \<or> arg_of s ''base64url'' \<noteq> None then parse_leaf s
      else (case arg_of s ''prefixed'' of
        None \<Rightarrow> parse_leaf s
      | Some as \<Rightarrow>
          and_then (ok_or (split_once (CHR '','') as) (grammar_err s ''prefixed takes (tag, inner)''))
            (\<lambda>(tag, inner).
              if \<not> valid_tag (trim tag) then Inl (grammar_err s ''tag must be 1-24 chars'')
              else map_sum id (Prefixed (trim tag)) (parse_leaf (trim inner)))))"

definition parse_spec :: "rstr \<Rightarrow> shape res" where
  "parse_spec s = parse_inner (trim s) True"

section \<open>Minting\<close>

type_synonym entropy = "nat \<Rightarrow> 8 word list option"

definition random_bytes :: "entropy \<Rightarrow> nat \<Rightarrow> 8 word list res" where
  "random_bytes entropy n = ok_or (entropy n) (internal_error (Msg ''OS entropy unavailable'' []))"

definition hex_digit :: "nat \<Rightarrow> char" where
  "hex_digit d = (if d < 10 then char_of (48 + d) else char_of (87 + d))"

definition hex_byte :: "8 word \<Rightarrow> rstr" where
  "hex_byte b = [hex_digit (unat b div 16), hex_digit (unat b mod 16)]"

definition hex :: "8 word list \<Rightarrow> rstr" where
  "hex bytes = concat (map hex_byte bytes)"

definition B64URL :: rstr where
  "B64URL = ''ABCDEFGHIJKLMNOPQRSTUVWXYZabcdefghijklmnopqrstuvwxyz0123456789-_''"

definition b64_idx :: "8 word \<Rightarrow> 8 word \<Rightarrow> 8 word \<Rightarrow> 8 word list" where
  "b64_idx b0 b1 b2 =
     [drop_bit 2 b0,
      push_bit 4 (b0 AND 0x03) OR drop_bit 4 b1,
      push_bit 2 (b1 AND 0x0f) OR drop_bit 6 b2,
      b2 AND 0x3f]"

definition b64_char :: "8 word \<Rightarrow> char" where
  "b64_char i = B64URL ! unat i"

fun base64url :: "8 word list \<Rightarrow> rstr" where
  "base64url [] = []"
| "base64url [b0] = map b64_char (take 2 (b64_idx b0 0 0))"
| "base64url [b0, b1] = map b64_char (take 3 (b64_idx b0 b1 0))"
| "base64url (b0 # b1 # b2 # bs) = map b64_char (b64_idx b0 b1 b2) @ base64url bs"

definition div_ceil :: "nat \<Rightarrow> nat \<Rightarrow> nat" where
  "div_ceil a b = (a + b - 1) div b"

definition str_slice :: "nat \<Rightarrow> nat \<Rightarrow> 'a list \<Rightarrow> 'a list" where
  "str_slice a b xs = take (b - a) (drop a xs)"

definition uuid_layout :: "rstr \<Rightarrow> rstr" where
  "uuid_layout h =
     join_with ''-'' [str_slice 0 8 h, str_slice 8 12 h, str_slice 12 16 h, str_slice 16 20 h, str_slice 20 32 h]"

fun mint :: "entropy \<Rightarrow> shape \<Rightarrow> rstr res" where
  "mint entropy (Hex chars) =
     and_then (random_bytes entropy (div_ceil chars 2)) (\<lambda>bytes. Inr (take chars (hex bytes)))"
| "mint entropy (Base64Url chars) =
     and_then (random_bytes entropy (div_ceil chars 4 * 3 + 3)) (\<lambda>bytes.
       Inr (take chars (base64url bytes)))"
| "mint entropy Uuid4 =
     and_then (random_bytes entropy 16) (\<lambda>b0.
       let b1 = b0[6 := (b0 ! 6 AND 0x0f) OR 0x40];
           b2 = b1[8 := (b1 ! 8 AND 0x3f) OR 0x80]
       in Inr (uuid_layout (hex b2)))"
| "mint entropy (Prefixed tag inner) = map_sum id (append tag) (mint entropy inner)"

fun minted_len :: "shape \<Rightarrow> nat" where
  "minted_len (Hex n) = n"
| "minted_len (Base64Url n) = n"
| "minted_len Uuid4 = 36"
| "minted_len (Prefixed tag inner) = length tag + minted_len inner"

section \<open>Detection\<close>

definition is_uuid4 :: "rstr \<Rightarrow> bool" where
  "is_uuid4 s \<longleftrightarrow> is_uuid_with lower_hex s \<and> starts_with ''4'' (split_on (CHR ''-'') s ! 2)"

definition detect :: "rstr \<Rightarrow> shape option" where
  "detect v =
     (let n = char_count v in
      if provider_prefix v \<noteq> None then None
      else if is_uuid4 v then Some Uuid4
      else if MIN_HEX_CHARS \<le> n \<and> n \<le> MAX_HEX_CHARS \<and> (\<forall>c\<in>set v. lower_hex c) then Some (Hex n)
      else if MIN_B64_CHARS \<le> n \<and> n \<le> MAX_B64_CHARS \<and> (\<forall>c\<in>set v. tag_char c) then Some (Base64Url n)
      else None)"

section \<open>Facts about the grammar\<close>

fun valid_leaf :: "shape \<Rightarrow> bool" where
  "valid_leaf (Hex n) = (MIN_HEX_CHARS \<le> n \<and> n \<le> MAX_HEX_CHARS)"
| "valid_leaf (Base64Url n) = (MIN_B64_CHARS \<le> n \<and> n \<le> MAX_B64_CHARS)"
| "valid_leaf Uuid4 = True"
| "valid_leaf (Prefixed _ _) = False"

fun valid_shape :: "shape \<Rightarrow> bool" where
  "valid_shape (Prefixed tag inner) = (valid_tag tag \<and> valid_leaf inner)"
| "valid_shape s = valid_leaf s"

lemma parse_leaf_valid: "parse_leaf s = Inr sh \<Longrightarrow> valid_leaf sh"
  by (auto simp: parse_leaf_def sized_def split: if_splits option.splits)

lemma valid_leaf_shape: "valid_leaf sh \<Longrightarrow> valid_shape sh"
  by (cases sh) auto

lemma parse_inner_valid: "parse_inner s b = Inr sh \<Longrightarrow> valid_shape sh"
  by (auto simp: parse_inner_def valid_leaf_shape parse_leaf_valid map_sum_def and_then_def
      split: if_splits option.splits sum.splits)

lemma parse_spec_code: "parse_spec s = Inl e \<Longrightarrow> code e = InvalidInput"
  by (auto simp: parse_spec_def parse_inner_def parse_leaf_def sized_def grammar_err_def ok_or_def
      and_then_Inl map_sum_def and_then_def split: if_splits option.splits sum.splits)

lemma digit_char_facts:
  assumes "d < 10"
  shows "byte (digit_char d) = 48 + d" "ascii_digit (digit_char d)"
proof -
  show "byte (digit_char d) = 48 + d" using assms by (simp add: byte_def digit_char_def)
  then show "ascii_digit (digit_char d)" using assms by (simp add: ascii_digit_def in_range_def)
qed

lemma show_nat_digits: "c \<in> set (show_nat n) \<Longrightarrow> ascii_digit c"
  by (induction n rule: show_nat.induct)
    (subst (asm) (2) show_nat.simps, auto simp: digit_char_facts split: if_splits)

lemma show_nat_nonempty: "show_nat n \<noteq> []"
  by (subst show_nat.simps) simp

lemma dec_value_show: "dec_value (show_nat n) = n"
proof (induction n rule: show_nat.induct)
  case (1 n)
  show ?case
  proof (cases "n < 10")
    case True
    then show ?thesis
      by (subst show_nat.simps) (simp add: dec_value_def digit_char_facts)
  next
    case False
    with 1 have "dec_value (show_nat (n div 10)) = n div 10" by simp
    then show ?thesis using False
      by (subst show_nat.simps) (simp add: dec_value_def digit_char_facts)
  qed
qed

lemma visible_tag_char: "tag_char c \<Longrightarrow> \<not> ascii_ws c \<and> byte c < 128"
  by (auto simp: tag_char_def ascii_defs ascii_ws_def)

lemma digit_tag_char: "ascii_digit c \<Longrightarrow> tag_char c"
  by (simp add: tag_char_def ascii_alnum_def)

text \<open>A string of visible ASCII characters is not trimmed.\<close>

lemma has_ws_visible: "\<forall>c\<in>set s. \<not> ascii_ws c \<and> byte c < 128 \<Longrightarrow> \<not> has_ws s"
  by (induction s) (simp_all add: ws_len_start)

lemmas trim_visible_id = trim_no_ws[OF has_ws_visible]

lemma parse_usize_show: "n < 2 ^ 64 \<Longrightarrow> parse_usize (show_nat n) = Some n"
proof -
  assume n: "n < 2 ^ 64"
  have "strip_prefix ''+'' (show_nat n) = None"
  proof (rule ccontr)
    assume "strip_prefix ''+'' (show_nat n) \<noteq> None"
    then have "CHR ''+'' \<in> set (show_nat n)" by (auto simp: strip_prefix_Some)
    then have "ascii_digit (CHR ''+'')" by (rule show_nat_digits)
    then show False by (simp add: ascii_defs)
  qed
  then show ?thesis
    using n show_nat_nonempty show_nat_digits dec_value_show by (simp add: parse_usize_def)
qed

lemma trim_show_nat: "trim (show_nat n) = show_nat n"
  using show_nat_digits digit_tag_char visible_tag_char by (intro trim_visible_id) blast

lemma arg_of_call: "arg_of (name @ ''('' @ a @ '')'') name = Some (trim a)"
  by (simp add: arg_of_def) (metis bind.bind_lunit option.simps(9) strip_prefix_append strip_suffix_append append_Cons append_Nil)

definition visible :: "rstr \<Rightarrow> bool" where
  "visible s \<longleftrightarrow> (\<forall>c\<in>set s. \<not> ascii_ws c \<and> byte c < 128)"

lemma visible_simps [simp]:
  "visible []" "visible (c # s) \<longleftrightarrow> \<not> ascii_ws c \<and> byte c < 128 \<and> visible s"
  "visible (s @ t) \<longleftrightarrow> visible s \<and> visible t"
  by (auto simp: visible_def)

lemma visible_trim: "visible s \<Longrightarrow> trim s = s"
  unfolding visible_def by (rule trim_visible_id)

lemma visible_show_nat: "visible (show_nat n)"
  unfolding visible_def using show_nat_digits digit_tag_char visible_tag_char by blast

lemma visible_tag: "valid_tag t \<Longrightarrow> visible t"
  unfolding visible_def valid_tag_def using visible_tag_char by blast

lemma visible_leaf: "valid_leaf sh \<Longrightarrow> visible (shape_str sh)"
  by (cases sh) (simp_all add: visible_show_nat ascii_ws_def in_range_def byte_def)

lemma arg_of_other:
  "arg_of (''base64url('' @ x) ''hex'' = None"
  "arg_of (''prefixed('' @ x) ''hex'' = None"
  "arg_of (''prefixed('' @ x) ''base64url'' = None"
  by (simp_all add: arg_of_def strip_prefix_def)

lemma parse_leaf_shape_str:
  assumes "valid_leaf sh"
  shows "parse_leaf (shape_str sh) = Inr sh"
proof (cases sh)
  case (Hex n)
  then have n: "parse_usize (show_nat n) = Some n"
    using assms by (intro parse_usize_show) (simp add: MAX_HEX_CHARS_def)
  have "arg_of (''hex('' @ show_nat n @ '')'') ''hex'' = Some (show_nat n)"
    using arg_of_call[of "''hex''" "show_nat n"] by (simp add: trim_show_nat)
  with Hex n assms show ?thesis by (simp add: parse_leaf_def sized_def)
next
  case (Base64Url n)
  then have n: "parse_usize (show_nat n) = Some n"
    using assms by (intro parse_usize_show) (simp add: MAX_B64_CHARS_def)
  have "arg_of (''base64url('' @ show_nat n @ '')'') ''base64url'' = Some (show_nat n)"
    using arg_of_call[of "''base64url''" "show_nat n"] by (simp add: trim_show_nat)
  with Base64Url n assms arg_of_other(1)[of "show_nat n @ '')''"] show ?thesis
    by (simp add: parse_leaf_def sized_def)
qed (use assms in \<open>simp_all add: parse_leaf_def\<close>)

lemma parse_inner_leaf:
  assumes "valid_leaf sh"
  shows "parse_inner (shape_str sh) b = Inr sh"
proof -
  have "shape_str sh = ''uuid4'' \<or> arg_of (shape_str sh) ''hex'' \<noteq> None
      \<or> arg_of (shape_str sh) ''base64url'' \<noteq> None"
    using assms arg_of_call[of "''hex''"] arg_of_call[of "''base64url''"] by (cases sh) simp_all
  then show ?thesis using parse_leaf_shape_str[OF assms] by (auto simp: parse_inner_def)
qed

lemma parse_spec_shape_str:
  assumes "valid_shape sh"
  shows "parse_spec (shape_str sh) = Inr sh"
proof (cases "valid_leaf sh")
  case True
  then show ?thesis
    using visible_trim[OF visible_leaf[OF True]] parse_inner_leaf[OF True] by (simp add: parse_spec_def)
next
  case False
  with assms obtain tag inner where sh: "sh = Prefixed tag inner" "valid_tag tag" "valid_leaf inner"
    by (cases sh) auto
  let ?args = "tag @ '','' @ shape_str inner"
  have vis: "visible ?args" "visible (shape_str sh)"
    using sh visible_tag visible_leaf by (simp_all add: ascii_ws_def in_range_def byte_def)
  have "arg_of (shape_str sh) ''prefixed'' = Some ?args"
    using arg_of_call[of "''prefixed''" ?args] visible_trim[OF vis(1)] sh(1) by simp
  moreover have "arg_of (shape_str sh) ''hex'' = None" "arg_of (shape_str sh) ''base64url'' = None"
    using sh(1) arg_of_other(2,3)[of "?args @ '')''"] by simp_all
  moreover have "CHR '','' \<notin> set tag"
    using sh(2) by (auto simp: valid_tag_def tag_char_def ascii_defs)
  moreover have "trim tag = tag" "trim (shape_str inner) = shape_str inner"
    using sh visible_tag visible_leaf visible_trim by blast+
  ultimately show ?thesis
    using sh parse_leaf_shape_str[OF sh(3)] visible_trim[OF vis(2)]
    by (simp add: parse_spec_def parse_inner_def split_once_append)
qed

section \<open>Facts about minted values\<close>

text \<open>What \<open>getrandom::fill\<close> documents: it fills the whole buffer it is given.\<close>

definition fills :: "entropy \<Rightarrow> bool" where
  "fills entropy \<longleftrightarrow> (\<forall>n bs. entropy n = Some bs \<longrightarrow> length bs = n)"

lemma length_hex: "length (hex bs) = 2 * length bs"
  by (induction bs) (simp_all add: hex_def hex_byte_def)

lemma unat_byte: "unat (b :: 8 word) < 256"
proof -
  have "(unsigned b :: nat) < 2 ^ LENGTH(8)" by (rule unsigned_less)
  then show ?thesis by simp
qed

lemma hex_digit_lower: "d < 16 \<Longrightarrow> lower_hex (hex_digit d)"
  by (auto simp: hex_digit_def lower_hex_def ascii_defs)

lemma hex_chars: "c \<in> set (hex bs) \<Longrightarrow> lower_hex c"
proof -
  have "unat b div 16 < 16" "unat b mod 16 < 16" for b :: "8 word"
    using unat_byte[of b] by simp_all
  then show "c \<in> set (hex bs) \<Longrightarrow> lower_hex c"
    using hex_digit_lower by (auto simp: hex_def hex_byte_def)
qed

lemma length_base64url: "length bs mod 3 = 0 \<Longrightarrow> length (base64url bs) = length bs div 3 * 4"
  by (induction bs rule: base64url.induct) (simp_all add: b64_idx_def)

lemma b64_idx_bound: "i \<in> set (b64_idx b0 b1 b2) \<Longrightarrow> unat i < 64"
proof -
  have "unat (drop_bit 2 b0) < 64" using unat_byte[of b0] by (simp add: unat_drop_bit_eq) (simp add: drop_bit_eq_div)
  moreover have m: "x AND 0x3f = x \<Longrightarrow> unat x < 64" for x :: "8 word"
  proof -
    assume "x AND 0x3f = x"
    moreover have "x AND 0x3f \<le> 0x3f" by (rule word_and_le1)
    ultimately have "x \<le> 0x3f" by simp
    then show "unat x < 64" by (simp add: word_le_nat_alt)
  qed
  moreover have "(push_bit 4 (b0 AND 0x03) OR drop_bit 4 b1) AND 0x3f = push_bit 4 (b0 AND 0x03) OR drop_bit 4 b1"
    "(push_bit 2 (b1 AND 0x0f) OR drop_bit 6 b2) AND 0x3f = push_bit 2 (b1 AND 0x0f) OR drop_bit 6 b2"
    "(b2 AND 0x3f) AND 0x3f = b2 AND 0x3f"
    by (rule bit_word_eqI; auto simp: bit_simps less_Suc_eq numeral_eq_Suc dest: bit_imp_le_length)+
  ultimately show "i \<in> set (b64_idx b0 b1 b2) \<Longrightarrow> unat i < 64"
    unfolding b64_idx_def by auto
qed

lemma b64_alphabet: "list_all tag_char B64URL" "length B64URL = 64"
  by code_simp+

lemma b64_char_tag: "unat i < 64 \<Longrightarrow> tag_char (b64_char i)"
  using b64_alphabet by (simp add: list_all_length b64_char_def)

lemma base64url_chars: "c \<in> set (base64url bs) \<Longrightarrow> tag_char c"
  by (induction bs rule: base64url.induct)
    (auto dest!: in_set_takeD b64_idx_bound intro: b64_char_tag)

lemma lower_hex_tag_char: "lower_hex c \<Longrightarrow> tag_char c"
  by (auto simp: lower_hex_def tag_char_def ascii_defs)

lemma div_ceil_bound: "0 < b \<Longrightarrow> n \<le> div_ceil n b * b"
proof -
  assume b: "0 < b"
  have "n + b - 1 = (n + b - 1) div b * b + (n + b - 1) mod b" by simp
  moreover have "(n + b - 1) mod b < b" using b by simp
  ultimately show ?thesis unfolding div_ceil_def using b by linarith
qed

lemma mint_Hex:
  assumes "fills en" and "mint en (Hex n) = Inr v"
  shows "length v = n" "\<forall>c\<in>set v. lower_hex c"
proof -
  from assms obtain bs where bs: "length bs = div_ceil n 2" "v = take n (hex bs)"
    by (auto simp: random_bytes_def fills_def)
  then show "length v = n" using div_ceil_bound[of 2 n] by (simp add: length_hex)
  show "\<forall>c\<in>set v. lower_hex c" using bs(2) hex_chars by (auto dest: in_set_takeD)
qed

lemma mint_Base64Url:
  assumes "fills en" and "mint en (Base64Url n) = Inr v"
  shows "length v = n" "\<forall>c\<in>set v. tag_char c"
proof -
  from assms obtain bs where bs: "length bs = div_ceil n 4 * 3 + 3" "v = take n (base64url bs)"
    by (auto simp: random_bytes_def fills_def)
  have "length (base64url bs) = div_ceil n 4 * 4 + 4"
    using bs(1) length_base64url[of bs] by simp
  with bs(2) div_ceil_bound[of 4 n] show "length v = n" by simp
  show "\<forall>c\<in>set v. tag_char c" using bs(2) base64url_chars by (auto dest: in_set_takeD)
qed

lemma hex_nth: "i < length bs \<Longrightarrow> hex bs ! (2 * i) = hex_digit (unat (bs ! i) div 16)"
proof (induction bs arbitrary: i)
  case (Cons b bs)
  then show ?case by (cases i) (simp_all add: hex_def hex_byte_def)
qed simp

lemma version_nibble: "unat ((x AND 0x0f) OR 0x40 :: 8 word) div 16 = 4"
proof -
  have "drop_bit 4 ((x AND 0x0f) OR 0x40 :: 8 word) = 4"
    by (rule bit_word_eqI) (auto simp: bit_simps less_Suc_eq numeral_eq_Suc)
  then have "unat (drop_bit 4 ((x AND 0x0f) OR 0x40 :: 8 word)) = 4" by simp
  then have "drop_bit 4 (unat ((x AND 0x0f) OR 0x40)) = 4" by (simp only: unat_drop_bit_eq)
  then show ?thesis by (simp only: drop_bit_eq_div) simp
qed

lemma set_slice: "set (str_slice a b xs) \<subseteq> set xs"
  by (auto simp: str_slice_def dest!: in_set_takeD in_set_dropD)

lemma length_slice: "b \<le> length xs \<Longrightarrow> length (str_slice a b xs) = b - a"
  by (simp add: str_slice_def)

lemma uuid_layout_split:
  assumes "length h = 32" and "\<forall>c\<in>set h. lower_hex c"
  shows "split_on (CHR ''-'') (uuid_layout h) =
      [str_slice 0 8 h, str_slice 8 12 h, str_slice 12 16 h, str_slice 16 20 h, str_slice 20 32 h]"
    "length (uuid_layout h) = 36"
proof -
  have "CHR ''-'' \<notin> set h" using assms(2) by (auto simp: lower_hex_def ascii_defs)
  then have "CHR ''-'' \<notin> set (str_slice a b h)" for a b using set_slice[of a b h] by blast
  then show "split_on (CHR ''-'') (uuid_layout h) =
      [str_slice 0 8 h, str_slice 8 12 h, str_slice 12 16 h, str_slice 16 20 h, str_slice 20 32 h]"
    unfolding uuid_layout_def by (intro split_join) simp_all
  show "length (uuid_layout h) = 36"
    using assms(1) by (simp add: uuid_layout_def length_slice)
qed

lemma set_uuid_layout: "set (uuid_layout h) \<subseteq> set h \<union> {CHR ''-''}"
  using set_slice[of _ _ h] by (simp add: uuid_layout_def) blast

lemma hex_digit_4: "hex_digit 4 = CHR ''4''"
  by code_simp

lemma mint_Uuid4:
  assumes "fills en" and "mint en Uuid4 = Inr v"
  obtains h where "v = uuid_layout h" "length h = 32" "\<forall>c\<in>set h. lower_hex c" "h ! 12 = CHR ''4''"
proof -
  from assms obtain b0 where b0: "length b0 = 16"
    "v = uuid_layout (hex ((b0[6 := (b0 ! 6 AND 0x0f) OR 0x40])
      [8 := (b0[6 := (b0 ! 6 AND 0x0f) OR 0x40] ! 8 AND 0x3f) OR 0x80]))"
    by (auto simp: random_bytes_def fills_def Let_def)
  let ?b = "(b0[6 := (b0 ! 6 AND 0x0f) OR 0x40])
      [8 := (b0[6 := (b0 ! 6 AND 0x0f) OR 0x40] ! 8 AND 0x3f) OR 0x80]"
  have "hex ?b ! (2 * 6) = hex_digit (unat (?b ! 6) div 16)"
    using b0(1) by (intro hex_nth) simp
  also have "\<dots> = hex_digit 4" using b0(1) version_nibble[of "b0 ! 6"] by simp
  finally have "hex ?b ! 12 = CHR ''4''" by (simp add: hex_digit_4)
  then show thesis using that[OF b0(2)] b0(1) hex_chars by (simp add: length_hex)
qed

lemma no_provider_prefix:
  assumes "\<forall>c\<in>set v. lower_hex c \<or> c = CHR ''-''"
  shows "provider_prefix v = None"
proof (rule ccontr)
  have heads: "list_all (\<lambda>p. p \<noteq> [] \<and> \<not> lower_hex (hd p) \<and> hd p \<noteq> CHR ''-'') PROVIDER_PREFIXES"
    by code_simp
  assume "provider_prefix v \<noteq> None"
  then obtain p r where "v = p @ r" "p \<in> set PROVIDER_PREFIXES" using provider_prefix_Some by blast
  with heads assms show False by (cases p) (auto simp: list_all_iff)
qed

lemma low_not_cont: "byte c < 128 \<Longrightarrow> \<not> is_cont c"
  by (simp add: is_cont_def in_range_def)

lemma detect_mint_Hex:
  assumes "fills en" "mint en (Hex n) = Inr v" "valid_shape (Hex n)"
  shows "detect v = Some (Hex n)"
proof -
  note v = mint_Hex[OF assms(1,2)]
  have "\<not> is_uuid4 v"
  proof
    assume u: "is_uuid4 v"
    have "CHR ''-'' \<notin> set v" using v(2) by (auto simp: lower_hex_def ascii_defs)
    with u show False by (simp add: is_uuid4_def is_uuid_with_def split_on_id)
  qed
  moreover have "char_count v = n"
    using v visible_lower_hex low_not_cont by (subst char_count_ascii) auto
  ultimately show ?thesis
    using v assms(3) no_provider_prefix[of v] by (simp add: detect_def)
qed

lemma detect_mint_Uuid4:
  assumes "fills en" "mint en Uuid4 = Inr v"
  shows "detect v = Some Uuid4"
proof -
  obtain h where h: "v = uuid_layout h" "length h = 32" "\<forall>c\<in>set h. lower_hex c" "h ! 12 = CHR ''4''"
    using mint_Uuid4[OF assms] .
  have "\<forall>c\<in>set (str_slice a b h). lower_hex c" for a b using h(3) set_slice[of a b h] by blast
  then have u: "is_uuid_with lower_hex v"
    using h uuid_layout_split[OF h(2,3)] by (simp add: is_uuid_with_def length_slice)
  have "starts_with ''4'' (str_slice 12 16 h)"
    using h(2,4) by (simp add: starts_with_def str_slice_def take_Suc hd_drop_conv_nth)
  with u h(1) uuid_layout_split[OF h(2,3)] have "is_uuid4 v" by (simp add: is_uuid4_def)
  moreover have "provider_prefix v = None"
    using h(1,3) set_uuid_layout[of h] by (intro no_provider_prefix) auto
  ultimately show ?thesis by (simp add: detect_def)
qed

lemma minted_len:
  assumes "fills en"
  shows "mint en sh = Inr v \<Longrightarrow> length v = minted_len sh"
proof (induction sh arbitrary: v)
  case (Hex n)
  then show ?case using mint_Hex(1)[OF assms Hex] by simp
next
  case (Base64Url n)
  then show ?case using mint_Base64Url(1)[OF assms Base64Url] by simp
next
  case Uuid4
  obtain h where "v = uuid_layout h" "length h = 32" "\<forall>c\<in>set h. lower_hex c"
    by (rule mint_Uuid4[OF assms Uuid4])
  then show ?case using uuid_layout_split(2)[of h] by (simp only: minted_len.simps)
next
  case (Prefixed tag inner)
  then obtain w where "mint en inner = Inr w" "v = tag @ w"
    by (auto simp: map_sum_def split: sum.splits)
  with Prefixed.IH show ?case by simp
qed

lemma mint_chars:
  assumes "fills en"
  shows "mint en sh = Inr v \<Longrightarrow> valid_shape sh \<Longrightarrow> c \<in> set v \<Longrightarrow> tag_char c"
proof (induction sh arbitrary: v)
  case (Hex n)
  then show ?case using mint_Hex(2)[OF assms] lower_hex_tag_char by blast
next
  case (Base64Url n)
  then show ?case using mint_Base64Url(2)[OF assms] by blast
next
  case Uuid4
  obtain h where h: "v = uuid_layout h" "\<forall>c\<in>set h. lower_hex c"
    by (rule mint_Uuid4[OF assms Uuid4.prems(1)])
  then have "lower_hex c \<or> c = CHR ''-''" using Uuid4.prems(3) set_uuid_layout[of h] by auto
  then show ?case using lower_hex_tag_char by (auto simp: tag_char_def)
next
  case (Prefixed tag inner)
  then obtain w where w: "mint en inner = Inr w" "v = tag @ w"
    by (auto simp: map_sum_def split: sum.splits)
  with Prefixed show ?case
    using valid_leaf_shape by (auto simp: valid_tag_def)
qed

text \<open>A minted hex value of both classes and enough variety clears the floor; one without need not.\<close>

lemma hex_clears_floor:
  assumes "\<forall>c\<in>set v. lower_hex c" "MIN_HEX_CHARS \<le> length v"
    "\<exists>c\<in>set v. ascii_digit c" "\<exists>c\<in>set v. ascii_lower c" "5 \<le> card (set v)"
  shows "clears_floor v"
proof -
  have nc: "\<forall>c\<in>set v. \<not> is_cont c" using assms(1) visible_lower_hex low_not_cont by blast
  have cs: "charset_size v = 36"
    using assms(1,3,4)
    by (auto simp: charset_size_def lower_hex_def ascii_defs)
  have "(2::nat) ^ 80 \<le> 36 ^ 24" by simp
  also have "\<dots> \<le> 36 ^ length v" using assms(2) by (intro power_increasing) (simp_all add: MIN_HEX_CHARS_def)
  finally have "2 ^ 80 \<le> charset_size v ^ char_count v" using cs char_count_ascii[OF nc] by simp
  moreover have "5 \<le> length (remdups (uchars v))"
    using assms(5) uchars_ascii[OF nc] by (simp add: length_remdups_card_conv card_image inj_on_def)
  ultimately show ?thesis using assms(3) by (auto simp: clears_floor_def)
qed

section \<open>Properties\<close>

lemma mint_defined:
  assumes "\<And>n. en n \<noteq> None"
  shows "\<exists>v. mint en sh = Inr v"
proof (induction sh)
  case (Prefixed tag inner)
  then show ?case by auto
qed (use assms in \<open>auto simp: random_bytes_def ok_or_def and_then_def Let_def split: option.splits\<close>)

text \<open>The shape grammar and the display of shapes are inverse to each other on valid shapes; what
  the grammar accepts is a valid shape, lengths within their bounds and at most one prefix, and
  everything else is refused as invalid input.\<close>
theorem shape_grammar_roundtrip:
  "(valid_shape sh \<longrightarrow> parse_spec (shape_str sh) = Inr sh)
   \<and> (parse_spec s = Inr sh \<longrightarrow> valid_shape sh)
   \<and> (parse_spec s = Inl e \<longrightarrow> code e = InvalidInput)"
  using parse_spec_shape_str parse_inner_valid parse_spec_code by (auto simp: parse_spec_def)

theorem shape_grammar_roundtrip_witness:
  "parse_spec (shape_str (Prefixed ''sk-'' (Hex 32))) = Inr (Prefixed ''sk-'' (Hex 32))"
proof -
  have "valid_shape (Prefixed ''sk-'' (Hex 32))" by code_simp
  then show ?thesis using shape_grammar_roundtrip by blast
qed

text \<open>Minting always succeeds when the operating system gives entropy, and the value has exactly the
  length the shape announces and only characters of the tag alphabet, so it is one token that
  survives every file and every URL.\<close>
theorem mint_bounds:
  assumes "fills en"
  shows "((\<forall>n. en n \<noteq> None) \<longrightarrow> (\<exists>v. mint en sh = Inr v))
    \<and> (mint en sh = Inr v \<longrightarrow> length v = minted_len sh)
    \<and> (mint en sh = Inr v \<and> valid_shape sh \<longrightarrow> (\<forall>c\<in>set v. tag_char c))"
  using mint_defined[of en sh] minted_len[OF assms] mint_chars[OF assms] by blast

definition digits_entropy :: entropy where
  "digits_entropy n = Some (take n (concat (replicate n [0x12, 0x34, 0x56, 0x78, 0x90])))"

lemma fills_digits: "fills digits_entropy"
proof -
  have "length (concat (replicate n [0x12, 0x34, 0x56, 0x78, 0x90 :: 8 word])) = 5 * n" for n
    by (induction n) auto
  then show ?thesis by (simp add: fills_def digits_entropy_def)
qed

theorem mint_bounds_witness: "\<exists>v. mint digits_entropy (Hex 24) = Inr v \<and> length v = 24"
proof -
  have "\<forall>n. digits_entropy n \<noteq> None" by (simp add: digits_entropy_def)
  with mint_bounds[OF fills_digits] obtain v where v: "mint digits_entropy (Hex 24) = Inr v" by blast
  with mint_bounds[OF fills_digits, of "Hex 24" v] have "length v = minted_len (Hex 24)" by blast
  with v show ?thesis by (intro exI conjI) (assumption, simp)
qed

text \<open>A minted value is recognised as what it is, so rotating a secret keeps its shape: a minted
  hexadecimal value of a valid length detects as that length of hexadecimal, a minted UUID as a
  version 4 UUID.\<close>
theorem mint_detect:
  assumes "fills en"
  shows "(valid_shape (Hex n) \<and> mint en (Hex n) = Inr v \<longrightarrow> detect v = Some (Hex n))
    \<and> (mint en Uuid4 = Inr v \<longrightarrow> detect v = Some Uuid4)"
  using detect_mint_Hex[OF assms] detect_mint_Uuid4[OF assms] by blast

theorem mint_detect_witness:
  "\<exists>v. mint digits_entropy (Hex 24) = Inr v \<and> detect v = Some (Hex 24)"
proof -
  obtain v where "mint digits_entropy (Hex 24) = Inr v"
    using mint_defined[of digits_entropy "Hex 24"] by (auto simp: digits_entropy_def)
  moreover have "valid_shape (Hex 24)" by code_simp
  ultimately show ?thesis using mint_detect[OF fills_digits, of 24 v] by blast
qed

text \<open>Not every minted value clears the entropy floor. A minted 24-digit hexadecimal value that
  happens to hold decimal digits only has an estimate below 80 bits, although its shape is valid;
  with a letter among five distinct digits it does clear.\<close>
theorem mint_may_miss_floor:
  "(\<exists>v. mint digits_entropy (Hex 24) = Inr v \<and> valid_shape (Hex 24) \<and> \<not> clears_floor v)
   \<and> ((\<forall>c\<in>set v. lower_hex c) \<and> MIN_HEX_CHARS \<le> length v \<and> (\<exists>c\<in>set v. ascii_digit c)
        \<and> (\<exists>c\<in>set v. ascii_lower c) \<and> 5 \<le> card (set v) \<longrightarrow> clears_floor v)"
proof -
  have "take 12 (concat (replicate 12 [0x12, 0x34, 0x56, 0x78, 0x90 :: 8 word]))
      = [0x12, 0x34, 0x56, 0x78, 0x90, 0x12, 0x34, 0x56, 0x78, 0x90, 0x12, 0x34]"
    by (simp add: numeral_eq_Suc)
  moreover have "char_of (48 :: nat) = CHR ''0''" "char_of (49 :: nat) = CHR ''1''" "char_of (50 :: nat) = CHR ''2''"
    "char_of (51 :: nat) = CHR ''3''" "char_of (52 :: nat) = CHR ''4''" "char_of (53 :: nat) = CHR ''5''"
    "char_of (54 :: nat) = CHR ''6''" "char_of (55 :: nat) = CHR ''7''" "char_of (56 :: nat) = CHR ''8''"
    "char_of (57 :: nat) = CHR ''9''"
    by code_simp+
  ultimately have m: "mint digits_entropy (Hex 24) = Inr ''123456789012345678901234''"
    by (simp add: digits_entropy_def random_bytes_def div_ceil_def hex_def hex_byte_def hex_digit_def)
  have size: "charset_size ''123456789012345678901234'' = 10" "char_count ''123456789012345678901234'' = 24"
    by code_simp+
  have "\<not> (2 :: nat) ^ 80 \<le> 10 ^ 24" by simp
  then have "\<not> clears_floor ''123456789012345678901234''" unfolding clears_floor_def size by blast
  moreover have "valid_shape (Hex 24)" by code_simp
  ultimately have "\<exists>v. mint digits_entropy (Hex 24) = Inr v \<and> valid_shape (Hex 24) \<and> \<not> clears_floor v"
    using m by blast
  then show ?thesis using hex_clears_floor[of v] by blast
qed

theorem mint_may_miss_floor_witness: "clears_floor ''0123456789abcdef01234567''"
proof -
  have "\<forall>c\<in>set ''0123456789abcdef01234567''. lower_hex c" "\<exists>c\<in>set ''0123456789abcdef01234567''. ascii_digit c"
    "\<exists>c\<in>set ''0123456789abcdef01234567''. ascii_lower c" "MIN_HEX_CHARS \<le> length ''0123456789abcdef01234567''"
    by code_simp+
  moreover have "5 \<le> card (set ''0123456789abcdef01234567'')"
    unfolding length_remdups_card_conv[symmetric] by code_simp
  ultimately show ?thesis using mint_may_miss_floor[of "''0123456789abcdef01234567''"] by blast
qed

end
