(* ===== verification/Kaed_Fs.thy ===== *)
theory Kaed_Fs
  imports Kaed_Policy Kaed_Dotenv Kaed_Addr Kaed_Leak
begin

text \<open>
  \<open>src/fsops.rs\<close> and \<open>src/perm.rs\<close>: the path jail, permissions, and loading text through every
  policy layer. The file system is a map from absolute paths to nodes; the kernel's path walk
  (symbolic links followed at most 40 times, search permission on every directory) is written
  out in \<open>canon\<close>, since the jail is about nothing else. Permissions are predicates of the
  service identity. The crates are gathered in the record \<open>crates\<close>.
\<close>

section \<open>The world outside: file system, crates, roots\<close>

datatype node = FileN rstr nat | DirN | LinkN rstr

record fsys =
  fs_nodes :: "path \<rightharpoonup> node"
  fs_search :: "path \<Rightarrow> bool"
  fs_read :: "path \<Rightarrow> bool"
  fs_write :: "path \<Rightarrow> bool"
  fs_owner :: "path \<Rightarrow> json option"
  fs_identity :: json

record crates =
  cr_h :: hasher
  cr_globs :: globs
  cr_gitignore :: "rstr \<Rightarrow> path \<Rightarrow> gitignore option"
  cr_git_status :: "path \<Rightarrow> path \<Rightarrow> int option"
  cr_inserted :: line_diff
  cr_diffstat :: "rstr \<Rightarrow> rstr \<Rightarrow> int \<times> int"
  cr_udiff :: "rstr \<Rightarrow> rstr \<Rightarrow> rstr \<Rightarrow> rstr"

record limits =
  lim_read_bytes :: nat
  lim_file_bytes :: nat
  lim_search_results :: nat

definition default_limits :: limits where
  "default_limits = \<lparr>lim_read_bytes = 262144, lim_file_bytes = 8388608, lim_search_results = 50\<rparr>"

record rroot =
  rr_name :: rstr
  rr_local :: rstr
  rr_host :: rstr
  rr_path :: path
  rr_description :: "rstr option"
  rr_deny :: deny_list
  rr_classify :: "rstr list"
  rr_leak_checks :: leak_checks

definition node_at :: "fsys \<Rightarrow> path \<Rightarrow> node option" where
  "node_at fs p = (if p = [] then Some DirN else fs_nodes fs p)"

definition io_not_found :: io_error where
  "io_not_found = \<lparr>io_kind = IoNotFound, io_text = ''os error 2''\<rparr>"

definition io_denied :: io_error where
  "io_denied = \<lparr>io_kind = IoPermissionDenied, io_text = ''os error 13''\<rparr>"

definition io_other :: "rstr \<Rightarrow> io_error" where
  "io_other t = \<lparr>io_kind = IoOther, io_text = t\<rparr>"

text \<open>
  The walk of \<open>realpath\<close>: \<open>cur\<close> is resolved already, the components are still to do, \<open>n\<close> more
  symbolic links may be followed.
\<close>

fun canon :: "fsys \<Rightarrow> nat \<Rightarrow> path \<Rightarrow> component list \<Rightarrow> io_error + path" where
  "canon fs n cur [] = Inr cur"
| "canon fs n cur (RootDir # cs) = canon fs n [] cs"
| "canon fs n cur (CurDir # cs) = canon fs n cur cs"
| "canon fs n cur (ParentDir # cs) = canon fs n (butlast cur) cs"
| "canon fs n cur (Normal c # cs) =
     (if \<not> fs_search fs cur then Inl io_denied
      else (case node_at fs (cur @ [c]) of
          None \<Rightarrow> Inl io_not_found
        | Some DirN \<Rightarrow> canon fs n (cur @ [c]) cs
        | Some (FileN bytes mode) \<Rightarrow> if cs = [] then Inr (cur @ [c]) else Inl (io_other ''os error 20'')
        | Some (LinkN t) \<Rightarrow>
            (case n of
               0 \<Rightarrow> Inl (io_other ''os error 40'')
             | Suc m \<Rightarrow> canon fs m cur (components t @ cs))))"

definition MAX_SYMLINKS :: nat where "MAX_SYMLINKS = 40"

definition canonicalize :: "fsys \<Rightarrow> path \<Rightarrow> io_error + path" where
  "canonicalize fs p = canon fs MAX_SYMLINKS [] (map Normal p)"

definition path_exists :: "fsys \<Rightarrow> path \<Rightarrow> bool" where
  "path_exists fs p \<longleftrightarrow> (case canonicalize fs p of Inl _ \<Rightarrow> False | Inr _ \<Rightarrow> True)"

definition is_dir :: "fsys \<Rightarrow> path \<Rightarrow> bool" where
  "is_dir fs p \<longleftrightarrow> (case canonicalize fs p of Inl _ \<Rightarrow> False | Inr q \<Rightarrow> node_at fs q = Some DirN)"

text \<open>\<open>symlink_metadata\<close>: the parent is walked, the last component is not followed.\<close>

definition lstat :: "fsys \<Rightarrow> path \<Rightarrow> io_error + node" where
  "lstat fs p =
     (if p = [] then Inr DirN
      else and_then (canonicalize fs (butlast p)) (\<lambda>d.
        if node_at fs d \<noteq> Some DirN then Inl (io_other ''os error 20'')
        else if \<not> fs_search fs d then Inl io_denied
        else ok_or (node_at fs (d @ [last p])) io_not_found))"

section \<open>Permissions\<close>

definition dir_is_writable :: "fsys \<Rightarrow> path \<Rightarrow> bool" where
  "dir_is_writable fs dir \<longleftrightarrow> (case lstat fs dir of Inl e \<Rightarrow> io_kind e \<noteq> IoPermissionDenied | Inr _ \<Rightarrow> fs_write fs dir \<and> fs_search fs dir)"

definition dir_is_readable :: "fsys \<Rightarrow> path \<Rightarrow> bool" where
  "dir_is_readable fs dir \<longleftrightarrow>
     (case lstat fs dir of
        Inl e \<Rightarrow> io_kind e \<noteq> IoPermissionDenied
      | Inr _ \<Rightarrow> fs_read fs dir \<and> fs_search fs dir)"

definition evidence :: "fsys \<Rightarrow> rroot \<Rightarrow> path \<Rightarrow> rstr \<Rightarrow> json" where
  "evidence fs base subject label =
     JObj (obj_extend
       (obj_insert label
          (JStr (case strip_root (rr_path base) subject of
                   Some r \<Rightarrow> join_with ''/'' r | None \<Rightarrow> path_str subject))
          [(''service_identity'', fs_identity fs)])
       ((case fs_owner fs subject of None \<Rightarrow> [] | Some ow \<Rightarrow> [(''owner'', ow)])
        @ (case rr_description base of None \<Rightarrow> [] | Some d \<Rightarrow> [(''root_advisory'', JStr d)])))"

definition not_readable :: "fsys \<Rightarrow> rroot \<Rightarrow> rstr \<Rightarrow> path \<Rightarrow> kaed_error" where
  "not_readable fs base rel ap =
     merge_data (evidence fs base ap ''path'')
       (refused rel ''unix permissions'' NotReadableByServiceIdentity ''cannot open this file'')"

definition not_writable :: "fsys \<Rightarrow> rroot \<Rightarrow> rstr \<Rightarrow> path \<Rightarrow> kaed_error" where
  "not_writable fs base rel dir =
     merge_data (evidence fs base dir ''directory'')
       (refused rel ''unix permissions'' NotWritableByServiceIdentity ''needs the containing directory'')"

definition map_read_io :: "fsys \<Rightarrow> rroot \<Rightarrow> rstr \<Rightarrow> path \<Rightarrow> io_error \<Rightarrow> kaed_error" where
  "map_read_io fs base rel ap e =
     (if io_kind e = IoPermissionDenied then not_readable fs base rel ap else from_io e)"

section \<open>Content versions\<close>

definition version_of :: "hasher \<Rightarrow> rstr \<Rightarrow> rstr" where
  "version_of h bytes = take 16 (h bytes)"

definition BINARY_SNIFF_LEN :: nat where "BINARY_SNIFF_LEN = 8192"

definition looks_binary :: "rstr \<Rightarrow> bool" where
  "looks_binary bytes \<longleftrightarrow> CHR 0x00 \<in> set (take BINARY_SNIFF_LEN bytes)"

text \<open>\<open>str::from_utf8\<close>: well-formed UTF-8, without surrogates or overlong forms.\<close>

definition lead3 :: "char \<Rightarrow> char \<Rightarrow> bool" where
  "lead3 a b \<longleftrightarrow>
     (a = CHR 0xE0 \<and> in_range 160 191 b) \<or> (in_range 225 236 a \<and> is_cont b)
     \<or> (a = CHR 0xED \<and> in_range 128 159 b) \<or> (in_range 238 239 a \<and> is_cont b)"

definition lead4 :: "char \<Rightarrow> char \<Rightarrow> bool" where
  "lead4 a b \<longleftrightarrow>
     (a = CHR 0xF0 \<and> in_range 144 191 b) \<or> (in_range 241 243 a \<and> is_cont b)
     \<or> (a = CHR 0xF4 \<and> in_range 128 143 b)"

fun valid_utf8 :: "rstr \<Rightarrow> bool" where
  "valid_utf8 [] = True"
| "valid_utf8 (a # s) =
     (if byte a < 128 then valid_utf8 s
      else (case s of
          [] \<Rightarrow> False
        | b # s1 \<Rightarrow>
            if in_range 194 223 a then is_cont b \<and> valid_utf8 s1
            else (case s1 of
                [] \<Rightarrow> False
              | c # s2 \<Rightarrow>
                  if lead3 a b then is_cont c \<and> valid_utf8 s2
                  else (case s2 of
                      [] \<Rightarrow> False
                    | d # s3 \<Rightarrow> lead4 a b \<and> is_cont c \<and> is_cont d \<and> valid_utf8 s3))))"

section \<open>The jail\<close>

fun clean_components :: "rstr \<Rightarrow> component list \<Rightarrow> path \<Rightarrow> path res" where
  "clean_components rel [] acc = Inr acc"
| "clean_components rel (Normal s # cs) acc = clean_components rel cs (acc @ [s])"
| "clean_components rel (CurDir # cs) acc = clean_components rel cs acc"
| "clean_components rel (_ # cs) acc = Inl (outside_root (Msg ''path escapes its root'' [rel]))"

definition clean_rel :: "rstr \<Rightarrow> path res" where
  "clean_rel rel =
     (if is_absolute rel then Inl (outside_root (Msg ''absolute paths are not accepted'' [rel]))
      else clean_components rel (components rel) [])"

text \<open>The matcher that a directory's \<open>.kaedignore\<close> builds, when there is such a file.\<close>

definition build_ignore :: "crates \<Rightarrow> fsys \<Rightarrow> path \<Rightarrow> gitignore option" where
  "build_ignore ck fs dir =
     (case canonicalize fs (dir @ [KAEDIGNORE]) of
        Inl _ \<Rightarrow> None
      | Inr q \<Rightarrow>
          (case node_at fs q of
             Some (FileN bytes mode) \<Rightarrow> cr_gitignore ck (if fs_read fs q then bytes else []) dir
           | _ \<Rightarrow> None))"

definition check_denied :: "crates \<Rightarrow> fsys \<Rightarrow> rroot \<Rightarrow> rstr \<Rightarrow> path \<Rightarrow> unit res" where
  "check_denied ck fs base rel ap =
     (case denied_by (cr_globs ck) (rr_deny base) ap of
        Some rule \<Rightarrow> Inl (refused rel rule ServerDenylist ''permanent server policy'')
      | None \<Rightarrow>
          (case kaedignore_denied (build_ignore ck fs) (is_dir fs) (rr_path base) ap of
             Some m \<Rightarrow>
               Inl (refused rel (km_pattern m) Kaedignore
                 (''denied by '' @ (case strip_root (rr_path base) (km_file m) of
                                      Some r \<Rightarrow> join_with ''/'' r | None \<Rightarrow> path_str (km_file m))))
           | None \<Rightarrow> Inr ()))"

definition deepest_existing :: "fsys \<Rightarrow> path \<Rightarrow> path" where
  "deepest_existing fs p =
     (case find (\<lambda>a. case lstat fs a of Inl _ \<Rightarrow> False | Inr _ \<Rightarrow> True) (ancestors p) of
        Some a \<Rightarrow> a | None \<Rightarrow> p)"

definition resolves_outside :: "rroot \<Rightarrow> rstr \<Rightarrow> kaed_error" where
  "resolves_outside base rel = outside_root (Msg ''resolves outside root'' [rel, rr_name base])"

definition resolve_existing :: "crates \<Rightarrow> fsys \<Rightarrow> rroot \<Rightarrow> rstr \<Rightarrow> path res" where
  "resolve_existing ck fs base rel =
     and_then (clean_rel rel) (\<lambda>cleaned.
     let joined = rr_path base @ cleaned in
     and_then (check_denied ck fs base rel joined) (\<lambda>_.
     and_then
       (map_err
          (\<lambda>e. case io_kind e of
             IoNotFound \<Rightarrow> not_found (Msg ''not found'' [rel])
           | IoPermissionDenied \<Rightarrow> not_readable fs base rel (deepest_existing fs joined)
           | IoOther \<Rightarrow> internal_error (Msg ''io'' [rel, io_text e]))
          (canonicalize fs joined)) (\<lambda>canonical.
     if \<not> prefix (rr_path base) canonical then Inl (resolves_outside base rel)
     else and_then (check_denied ck fs base rel canonical) (\<lambda>_. Inr canonical))))"

text \<open>
  The loop of \<open>resolve_creatable\<close>: climb to the deepest ancestor that exists, collecting the
  names on the way (innermost first, as the code pushes them). The root directory exists, so
  the climb ends.
\<close>

function climb :: "fsys \<Rightarrow> path \<Rightarrow> rstr list \<Rightarrow> path \<times> rstr list" where
  "climb fs existing tl_names =
     (if existing = [] \<or> path_exists fs existing then (existing, tl_names)
      else climb fs (butlast existing) (tl_names @ [last existing]))"
  by pat_completeness auto
termination
  by (relation "measure (\<lambda>(fs, p, s). length p)") (auto simp: length_greater_0_conv[symmetric] simp del: length_greater_0_conv)

declare climb.simps [simp del]

definition resolve_creatable :: "crates \<Rightarrow> fsys \<Rightarrow> rroot \<Rightarrow> rstr \<Rightarrow> path res" where
  "resolve_creatable ck fs base rel =
     and_then (clean_rel rel) (\<lambda>cleaned.
     if cleaned = [] then Inl (invalid_input (Msg ''path must name a file, not the root'' []))
     else
       let joined = rr_path base @ cleaned;
           (existing, tl_names) = climb fs (butlast joined) [last joined]
       in
       and_then (map_err (\<lambda>e. internal_error (Msg ''io'' [rel, io_text e])) (canonicalize fs existing))
         (\<lambda>canonical.
       if \<not> prefix (rr_path base) canonical then Inl (resolves_outside base rel)
       else
         let out = canonical @ rev tl_names in
         and_then (check_denied ck fs base rel out) (\<lambda>_. Inr out)))"

section \<open>Loading text\<close>

datatype secrecy = Plain | ClassifiedDotenv rstr dotenv_file

record loaded =
  ld_abs :: path
  ld_content :: rstr
  ld_version :: rstr
  ld_mode :: nat
  ld_secrecy :: secrecy

definition classified_opaque :: "rstr \<Rightarrow> rstr \<Rightarrow> kaed_error" where
  "classified_opaque rel rule = refused rel rule ClassifiedOpaque ''no redacted surface''"

definition as_text :: "rstr \<Rightarrow> rstr \<Rightarrow> rstr res" where
  "as_text rel bytes =
     (if looks_binary bytes then Inl (is_binary (Msg ''binary file'' [rel]))
      else if \<not> valid_utf8 bytes then Inl (is_binary (Msg ''not valid UTF-8'' [rel]))
      else Inr bytes)"

definition secrecy_of :: "rstr \<Rightarrow> rstr option \<Rightarrow> rstr \<Rightarrow> secrecy res" where
  "secrecy_of rel classified content =
     (case classified of
        None \<Rightarrow> Inr Plain
      | Some rule \<Rightarrow>
          (case Kaed_Dotenv.parse content of
             Some f \<Rightarrow> Inr (ClassifiedDotenv rule f)
           | None \<Rightarrow> Inl (classified_opaque rel rule)))"

definition load_text :: "crates \<Rightarrow> fsys \<Rightarrow> rroot \<Rightarrow> rstr \<Rightarrow> limits \<Rightarrow> loaded res" where
  "load_text ck fs base rel limits =
     and_then (resolve_existing ck fs base rel) (\<lambda>ap.
     case node_at fs ap of
       Some DirN \<Rightarrow> Inl (invalid_input (Msg ''is a directory'' [rel]))
     | Some (FileN bytes mode) \<Rightarrow>
         if lim_file_bytes limits < length bytes
         then Inl (too_large (Msg ''exceeds max_file_bytes'' [rel]))
         else if \<not> fs_read fs ap then Inl (map_read_io fs base rel ap io_denied)
         else
           let classified = classified_by (cr_globs ck) (rr_classify base) ap in
           and_then
             (case (as_text rel bytes, classified) of
                (Inr c, _) \<Rightarrow> Inr c
              | (Inl _, Some rule) \<Rightarrow> Inl (classified_opaque rel rule)
              | (Inl e, None) \<Rightarrow> Inl e) (\<lambda>content.
           if has_ignore_marker content
           then Inl (refused rel ''in-file `kaedignore` marker'' InFileMarker ''opts out of kaed'')
           else and_then (secrecy_of rel classified content) (\<lambda>s.
             Inr \<lparr>ld_abs = ap, ld_content = content, ld_version = version_of (cr_h ck) bytes,
                  ld_mode = mode, ld_secrecy = s\<rparr>))
     | _ \<Rightarrow> Inl (map_read_io fs base rel ap io_not_found))"

end
