(* ===== verification/Kaed_Fs_Facts.thy ===== *)
theory Kaed_Fs_Facts
  imports Kaed_Fs
begin

text \<open>
  The jail: a path that resolves lies under the root with every symbolic link gone, and passed
  the deny list and every \<open>.kaedignore\<close> both as it was written and as it resolved. Loading
  text is the choke point behind it: what is loaded is plain only where no rule classifies it.
\<close>

section \<open>The path walk\<close>

text \<open>A real path: its ancestors are directories and it names a file or a directory itself.\<close>

definition real_dir :: "fsys \<Rightarrow> path \<Rightarrow> bool" where
  "real_dir fs p \<longleftrightarrow> (\<forall>q. prefix q p \<longrightarrow> node_at fs q = Some DirN)"

definition real :: "fsys \<Rightarrow> path \<Rightarrow> bool" where
  "real fs p \<longleftrightarrow>
     (\<forall>q. strict_prefix q p \<longrightarrow> node_at fs q = Some DirN) \<and>
     (node_at fs p = Some DirN \<or> (\<exists>bytes mode. node_at fs p = Some (FileN bytes mode)))"

lemma real_dir_Nil [simp]: "real_dir fs []"
  by (simp add: real_dir_def node_at_def)

lemma real_dir_real: "real_dir fs p \<Longrightarrow> real fs p"
  by (auto simp: real_dir_def real_def strict_prefix_def)

lemma real_dir_snoc: "real_dir fs p \<Longrightarrow> node_at fs (p @ [c]) = Some DirN \<Longrightarrow> real_dir fs (p @ [c])"
  by (auto simp: real_dir_def)

lemma real_dir_butlast: "real_dir fs p \<Longrightarrow> real_dir fs (butlast p)"
  unfolding real_dir_def by (meson prefixeq_butlast prefix_order.trans)

lemma real_file_snoc: "real_dir fs p \<Longrightarrow> node_at fs (p @ [c]) = Some (FileN b m) \<Longrightarrow> real fs (p @ [c])"
  by (auto simp: real_dir_def real_def strict_prefix_def)

lemma canon_real:
  "canon fs n cur cs = Inr p \<Longrightarrow> real_dir fs cur \<Longrightarrow> real fs p"
proof (induction fs n cur cs rule: canon.induct)
  case (1 fs n cur)
  then show ?case by (simp add: real_dir_real)
next
  case (4 fs n cur cs)
  then show ?case by (simp add: real_dir_butlast)
next
  case (5 fs n cur c cs)
  show ?case
  proof (cases "node_at fs (cur @ [c])")
    case None
    with 5 show ?thesis by (simp split: if_splits)
  next
    case (Some nd)
    show ?thesis
    proof (cases nd)
      case (FileN b m)
      with 5 Some real_file_snoc show ?thesis by (auto split: if_splits)
    next
      case DirN
      with 5 Some real_dir_snoc show ?thesis by (auto split: if_splits)
    next
      case (LinkN t)
      with 5 Some show ?thesis by (cases n) (auto split: if_splits)
    qed
  qed
qed simp_all

lemma canonicalize_real: "canonicalize fs p = Inr q \<Longrightarrow> real fs q"
  using canon_real real_dir_Nil by (simp add: canonicalize_def)

text \<open>A path of real directories with search permission canonicalizes to itself.\<close>

lemma canon_id:
  assumes "real_dir fs (cur @ p)" and "\<forall>q. prefix q (cur @ p) \<longrightarrow> fs_search fs q"
  shows "canon fs n cur (map Normal p) = Inr (cur @ p)"
  using assms
proof (induction p arbitrary: cur)
  case (Cons c p)
  have "node_at fs (cur @ [c]) = Some DirN" "fs_search fs cur"
    using Cons.prems by (auto simp: real_dir_def)
  with Cons.IH[of "cur @ [c]"] Cons.prems show ?case by simp
qed simp

section \<open>The jail\<close>

lemma check_denied_Inr:
  "check_denied ck fs base rel p = Inr u \<longleftrightarrow>
     \<not> is_denied (cr_globs ck) (rr_deny base) p \<and>
     kaedignore_denied (build_ignore ck fs) (is_dir fs) (rr_path base) p = None"
  by (auto simp: check_denied_def is_denied_def split: option.splits)

lemma check_denied_code: "check_denied ck fs base rel p = Inl e \<Longrightarrow> code e = Denied"
  by (auto simp: check_denied_def split: option.splits)

definition permitted :: "crates \<Rightarrow> fsys \<Rightarrow> rroot \<Rightarrow> path \<Rightarrow> bool" where
  "permitted ck fs base p \<longleftrightarrow>
     prefix (rr_path base) p \<and> \<not> is_denied (cr_globs ck) (rr_deny base) p \<and>
     kaedignore_denied (build_ignore ck fs) (is_dir fs) (rr_path base) p = None"

lemma resolve_existing_Inr:
  assumes "resolve_existing ck fs base rel = Inr p"
  obtains cleaned where "clean_rel rel = Inr cleaned" "canonicalize fs (rr_path base @ cleaned) = Inr p"
    "permitted ck fs base (rr_path base @ cleaned)" "permitted ck fs base p" "real fs p"
proof -
  from assms obtain cleaned where c: "clean_rel rel = Inr cleaned"
    "check_denied ck fs base rel (rr_path base @ cleaned) = Inr ()"
    "canonicalize fs (rr_path base @ cleaned) = Inr p" "prefix (rr_path base) p"
    "check_denied ck fs base rel p = Inr ()"
    by (auto simp: resolve_existing_def Let_def split: if_splits)
  then show thesis using that canonicalize_real by (simp add: permitted_def check_denied_Inr)
qed

lemma climb_spec:
  "climb fs p names = (q, names') \<Longrightarrow>
     \<exists>k. k \<le> length p \<and> q = take k p \<and> names' = names @ rev (drop k p) \<and> (q = [] \<or> path_exists fs q)"
proof (induction fs p names rule: climb.induct)
  case (1 fs p names)
  show ?case
  proof (cases "p = [] \<or> path_exists fs p")
    case True
    then have "q = p" "names' = names" using "1.prems" by (simp_all add: climb.simps[of fs p names])
    with True show ?thesis by (intro exI[of _ "length p"]) auto
  next
    case False
    then have "climb fs (butlast p) (names @ [last p]) = (q, names')"
      using "1.prems" by (simp add: climb.simps[of fs p names])
    from "1.IH"[OF False this] obtain k where k: "k \<le> length (butlast p)" "q = take k (butlast p)"
      "names' = (names @ [last p]) @ rev (drop k (butlast p))" "q = [] \<or> path_exists fs q" by blast
    have p: "p = butlast p @ [last p]" using False by simp
    have "take k p = take k (butlast p)" "drop k p = drop k (butlast p) @ [last p]"
      using k(1) by (subst p, simp)+
    with k show ?thesis by (intro exI[of _ k]) auto
  qed
qed

lemma resolve_creatable_Inr:
  assumes "resolve_creatable ck fs base rel = Inr p"
  obtains cleaned canonical names where "clean_rel rel = Inr cleaned" "cleaned \<noteq> []"
    "p = canonical @ names" "names \<noteq> []" "suffix names (rr_path base @ cleaned)"
    "real fs canonical" "prefix (rr_path base) canonical" "permitted ck fs base p"
proof -
  from assms obtain cleaned where c: "clean_rel rel = Inr cleaned" "cleaned \<noteq> []"
    by (auto simp: resolve_creatable_def split: if_splits)
  let ?joined = "rr_path base @ cleaned"
  obtain existing names where cl: "climb fs (butlast ?joined) [last ?joined] = (existing, names)"
    by (cases "climb fs (butlast ?joined) [last ?joined]")
  from assms c cl obtain canonical where r: "canonicalize fs existing = Inr canonical"
    "prefix (rr_path base) canonical" "p = canonical @ rev names"
    "check_denied ck fs base rel p = Inr ()"
    by (auto simp: resolve_creatable_def Let_def split: if_splits)
  from climb_spec[OF cl] obtain k where k: "k \<le> length (butlast ?joined)"
    "names = last ?joined # rev (drop k (butlast ?joined))" by auto
  have j: "?joined = butlast ?joined @ [last ?joined]"
    using c(2) by (intro append_butlast_last_id[symmetric]) simp
  have rn: "rev names = drop k (butlast ?joined) @ [last ?joined]" using k(2) by simp
  have "drop k ?joined = rev names"
    unfolding rn using k(1) by (subst j) simp
  then have "suffix (rev names) ?joined" using suffix_drop by metis
  moreover have "permitted ck fs base p"
    using r(2-4) by (auto simp: permitted_def check_denied_Inr)
  ultimately show thesis
    using that[OF c r(3)] canonicalize_real[OF r(1)] r(2) k(2) by simp
qed

section \<open>Loading text\<close>

lemma as_text_Inr: "as_text rel bytes = Inr c \<longleftrightarrow> c = bytes \<and> \<not> looks_binary bytes \<and> valid_utf8 bytes"
  by (auto simp: as_text_def)

lemma load_text_Inr:
  assumes "load_text ck fs base rel lm = Inr l"
  obtains mode where "resolve_existing ck fs base rel = Inr (ld_abs l)"
    "node_at fs (ld_abs l) = Some (FileN (ld_content l) mode)" "ld_mode l = mode"
    "length (ld_content l) \<le> lim_file_bytes lm" "fs_read fs (ld_abs l)"
    "ld_version l = version_of (cr_h ck) (ld_content l)"
    "\<not> looks_binary (ld_content l)" "valid_utf8 (ld_content l)" "\<not> has_ignore_marker (ld_content l)"
    "secrecy_of rel (classified_by (cr_globs ck) (rr_classify base) (ld_abs l)) (ld_content l) = Inr (ld_secrecy l)"
proof -
  from assms obtain ap where ap: "resolve_existing ck fs base rel = Inr ap"
    by (auto simp: load_text_def)
  from assms ap obtain bytes mode where n: "node_at fs ap = Some (FileN bytes mode)"
    by (auto simp: load_text_def split: option.splits node.splits)
  let ?cl = "classified_by (cr_globs ck) (rr_classify base) ap"
  from assms ap n obtain content s where l: "\<not> lim_file_bytes lm < length bytes" "fs_read fs ap"
    "as_text rel bytes = Inr content" "\<not> has_ignore_marker content"
    "secrecy_of rel ?cl content = Inr s"
    "l = \<lparr>ld_abs = ap, ld_content = content, ld_version = version_of (cr_h ck) bytes,
          ld_mode = mode, ld_secrecy = s\<rparr>"
    by (auto simp: load_text_def Let_def split: if_splits sum.splits option.splits)
  from l(3) have "content = bytes" "\<not> looks_binary bytes" "valid_utf8 bytes" by (simp_all add: as_text_Inr)
  with l ap n show thesis by (intro that) simp_all
qed

lemma secrecy_of_Plain: "secrecy_of rel cl c = Inr s \<Longrightarrow> s = Plain \<longleftrightarrow> cl = None"
  by (auto simp: secrecy_of_def split: option.splits)

lemma secrecy_of_Classified:
  "secrecy_of rel cl c = Inr (ClassifiedDotenv rule f) \<longleftrightarrow> cl = Some rule \<and> Kaed_Dotenv.parse c = Some f"
  by (auto simp: secrecy_of_def split: option.splits)

text \<open>The choke point: what a caller holding a loaded file may rely on.\<close>

lemma load_text_guard:
  assumes "load_text ck fs base rel lm = Inr l"
  shows "permitted ck fs base (ld_abs l)" "real fs (ld_abs l)"
    "ld_secrecy l = Plain \<longleftrightarrow> \<not> rule_blocks (cr_globs ck) (rr_classify base) (ld_abs l)"
    "ld_secrecy l = ClassifiedDotenv rule f \<Longrightarrow> Kaed_Dotenv.parse (ld_content l) = Some f"
proof -
  obtain mode where r: "resolve_existing ck fs base rel = Inr (ld_abs l)"
    and s: "secrecy_of rel (classified_by (cr_globs ck) (rr_classify base) (ld_abs l)) (ld_content l)
      = Inr (ld_secrecy l)"
    by (rule load_text_Inr[OF assms])
  from r show "permitted ck fs base (ld_abs l)" by (rule resolve_existing_Inr)
  from r show "real fs (ld_abs l)" by (rule resolve_existing_Inr)
  from secrecy_of_Plain[OF s]
  show "ld_secrecy l = Plain \<longleftrightarrow> \<not> rule_blocks (cr_globs ck) (rr_classify base) (ld_abs l)"
    using classified_by_iff[of "cr_globs ck" "rr_classify base" "ld_abs l"] by blast
  show "Kaed_Dotenv.parse (ld_content l) = Some f" if "ld_secrecy l = ClassifiedDotenv rule f"
    using s unfolding that secrecy_of_Classified by blast
qed

section \<open>A small world\<close>

text \<open>A root with a text file and a classified dotenv file, for the concrete instances.\<close>

definition demo_ck :: crates where
  "demo_ck =
     \<lparr>cr_h = zero_hash, cr_globs = (\<lambda>g p. p \<noteq> [] \<and> last p = g), cr_gitignore = (\<lambda>_ _. None),
      cr_git_status = (\<lambda>_ _. None), cr_inserted = (\<lambda>_ _. []), cr_diffstat = (\<lambda>_ _. (0, 0)),
      cr_udiff = (\<lambda>_ _ _. [])\<rparr>"

definition demo_fs :: fsys where
  "demo_fs =
     \<lparr>fs_nodes = [[''r''] \<mapsto> DirN, [''r'', ''a''] \<mapsto> FileN ''hi'' 420, [''r'', ''.env''] \<mapsto> FileN (''K=v'' @ [nl]) 384],
      fs_search = (\<lambda>_. True), fs_read = (\<lambda>_. True), fs_write = (\<lambda>_. True), fs_owner = (\<lambda>_. None),
      fs_identity = JNull\<rparr>"

definition demo_root :: rroot where
  "demo_root =
     \<lparr>rr_name = ''r'', rr_local = ''r'', rr_host = ''h'', rr_path = [''r''], rr_description = None,
      rr_deny = empty_deny, rr_classify = [''.env''], rr_leak_checks = LcRefuse\<rparr>"

lemma demo_resolve: "resolve_existing demo_ck demo_fs demo_root ''a'' = Inr [''r'', ''a'']"
  by code_simp

lemma demo_creatable: "resolve_creatable demo_ck demo_fs demo_root ''d/n'' = Inr [''r'', ''d'', ''n'']"
  by code_simp

lemma demo_text: "as_text rel ''hi'' = Inr ''hi''" "\<not> has_ignore_marker ''hi''"
proof -
  have "valid_utf8 ''hi''" by code_simp
  moreover have "\<not> looks_binary ''hi''" by (simp add: looks_binary_def BINARY_SNIFF_LEN_def)
  ultimately show "as_text rel ''hi'' = Inr ''hi''" by (simp add: as_text_def)
  show "\<not> has_ignore_marker ''hi''" by code_simp
qed

lemma demo_a:
  "node_at demo_fs [''r'', ''a''] = Some (FileN ''hi'' 420)" "fs_read demo_fs p"
  "classified_by (cr_globs demo_ck) (rr_classify demo_root) [''r'', ''a''] = None" "cr_h demo_ck = zero_hash"
  by (simp add: node_at_def demo_fs_def, simp add: demo_fs_def, code_simp, simp add: demo_ck_def)

lemma demo_load:
  "load_text demo_ck demo_fs demo_root ''a'' default_limits =
     Inr \<lparr>ld_abs = [''r'', ''a''], ld_content = ''hi'', ld_version = version_of zero_hash ''hi'', ld_mode = 420,
          ld_secrecy = Plain\<rparr>"
  by (simp add: load_text_def demo_resolve demo_a demo_text secrecy_of_def default_limits_def)

section \<open>Properties\<close>

text \<open>C34: The jail on existing paths. A path that resolves is relative and climbs nowhere; the canonical
  path it resolves to, every symbolic link followed, lies under the root, and neither it nor the
  path as it was written is denied by the permanent policy or by a kaedignore chain. No
  symbolic link is left in it.\<close>
theorem jail_existing:
  assumes "resolve_existing ck fs base rel = Inr p"
  shows "prefix (rr_path base) p \<and> permitted ck fs base p \<and> real fs p \<and>
    (\<exists>cleaned. clean_rel rel = Inr cleaned \<and> canonicalize fs (rr_path base @ cleaned) = Inr p
       \<and> permitted ck fs base (rr_path base @ cleaned))"
proof -
  obtain cleaned where "clean_rel rel = Inr cleaned" "canonicalize fs (rr_path base @ cleaned) = Inr p"
    "permitted ck fs base (rr_path base @ cleaned)" "permitted ck fs base p" "real fs p"
    by (rule resolve_existing_Inr[OF assms])
  then show ?thesis by (auto simp: permitted_def)
qed

theorem jail_existing_witness: "permitted demo_ck demo_fs demo_root [''r'', ''a'']"
  using jail_existing[OF demo_resolve] by blast

text \<open>The jail on paths to be created. The result is a real existing directory or file under the root
  with a non-empty tail of the names that do not exist yet, none of them a link, and the result is
  permitted; so what is created lies strictly below a place that was checked, never outside the
  root.\<close>
theorem jail_creatable:
  assumes "resolve_creatable ck fs base rel = Inr p"
  shows "\<exists>canonical names. p = canonical @ names \<and> names \<noteq> [] \<and> real fs canonical
    \<and> prefix (rr_path base) canonical \<and> strict_prefix (rr_path base) p \<and> permitted ck fs base p"
proof -
  obtain cleaned canonical names where "clean_rel rel = Inr cleaned" "cleaned \<noteq> []"
    "p = canonical @ names" "names \<noteq> []" "suffix names (rr_path base @ cleaned)"
    "real fs canonical" "prefix (rr_path base) canonical" "permitted ck fs base p"
    by (rule resolve_creatable_Inr[OF assms])
  then show ?thesis by (intro exI[of _ canonical] exI[of _ names]) (auto simp: prefix_def strict_prefix_def)
qed

theorem jail_creatable_witness: "permitted demo_ck demo_fs demo_root [''r'', ''d'', ''n'']"
  using jail_creatable[OF demo_creatable] by blast

text \<open>C22: The choke point of all reading. A file that loads is permitted and within the size limit, its
  bytes are exactly the ones on disk, valid UTF-8, not binary and without an opt-out marker, its
  version is the hash of exactly these bytes; and it loads as plain text only where no rule
  classifies it, otherwise with the parse its redacted renderings are made from.\<close>
theorem load_choke_point:
  assumes "load_text ck fs base rel lm = Inr l"
  shows "permitted ck fs base (ld_abs l)
    \<and> node_at fs (ld_abs l) = Some (FileN (ld_content l) (ld_mode l))
    \<and> length (ld_content l) \<le> lim_file_bytes lm
    \<and> ld_version l = version_of (cr_h ck) (ld_content l)
    \<and> valid_utf8 (ld_content l) \<and> \<not> looks_binary (ld_content l) \<and> \<not> has_ignore_marker (ld_content l)
    \<and> (ld_secrecy l = Plain \<longleftrightarrow> \<not> rule_blocks (cr_globs ck) (rr_classify base) (ld_abs l))
    \<and> (\<forall>rule f. ld_secrecy l = ClassifiedDotenv rule f \<longrightarrow> Kaed_Dotenv.parse (ld_content l) = Some f)"
proof -
  obtain mode where "node_at fs (ld_abs l) = Some (FileN (ld_content l) mode)" "ld_mode l = mode"
    "length (ld_content l) \<le> lim_file_bytes lm" "ld_version l = version_of (cr_h ck) (ld_content l)"
    "\<not> looks_binary (ld_content l)" "valid_utf8 (ld_content l)" "\<not> has_ignore_marker (ld_content l)"
    using load_text_Inr[OF assms] by metis
  then show ?thesis using load_text_guard[OF assms] by blast
qed

theorem load_choke_point_witness: "\<not> rule_blocks (cr_globs demo_ck) (rr_classify demo_root) [''r'', ''a'']"
  using load_choke_point[OF demo_load] by (metis loaded.select_convs(1,5))

end
