(* ===== verification/Kaed_Ordmap.thy ===== *)
theory Kaed_Ordmap
  imports Kaed_Prelude
begin

text \<open>
  The ordered map interface: what the code relies on of \<open>BTreeMap\<close>. The locale states the
  laws, the lemmas the engine needs are proved once inside it, and the association list sorted
  by key provides it.
\<close>

locale ordered_map =
  fixes inv :: "'m \<Rightarrow> bool"
    and om_new :: 'm
    and om_get :: "'m \<Rightarrow> 'k::linorder \<Rightarrow> 'v option"
    and om_ins :: "'k \<Rightarrow> 'v \<Rightarrow> 'm \<Rightarrow> 'm"
    and om_entries :: "'m \<Rightarrow> ('k \<times> 'v) list"
  assumes inv_new: "inv om_new"
    and inv_ins: "inv m \<Longrightarrow> inv (om_ins k v m)"
    and get_new: "om_get om_new k = None"
    and get_ins: "inv m \<Longrightarrow> om_get (om_ins k v m) k' = (if k' = k then Some v else om_get m k')"
    and get_entries: "inv m \<Longrightarrow> om_get m k = Some v \<longleftrightarrow> (k, v) \<in> set (om_entries m)"
    and entries_sorted: "inv m \<Longrightarrow> sorted_wrt (<) (map fst (om_entries m))"
begin

lemma distinct_keys: "inv m \<Longrightarrow> distinct (map fst (om_entries m))"
  using entries_sorted strict_sorted_iff by blast

lemma entries_ins:
  "inv m \<Longrightarrow> set (om_entries (om_ins k v m)) = insert (k, v) {e \<in> set (om_entries m). fst e \<noteq> k}"
  using get_entries[OF inv_ins, of m k v] get_entries[of m] get_ins[of m k v]
  by (auto split: if_splits) (metis option.inject)+

lemma all_ins:
  "inv m \<Longrightarrow> (\<forall>e\<in>set (om_entries m). P e) \<Longrightarrow> P (k, v) \<Longrightarrow> \<forall>e\<in>set (om_entries (om_ins k v m)). P e"
  by (auto simp: entries_ins)

lemma get_dom: "inv m \<Longrightarrow> om_get m k \<noteq> None \<longleftrightarrow> k \<in> fst ` set (om_entries m)"
  using get_entries by force

end

section \<open>The sorted association list\<close>

fun om_insert :: "'k::linorder \<Rightarrow> 'v \<Rightarrow> ('k \<times> 'v) list \<Rightarrow> ('k \<times> 'v) list" where
  "om_insert k v [] = [(k, v)]"
| "om_insert k v ((k', v') # m) =
     (if k = k' then (k, v) # m
      else if k < k' then (k, v) # (k', v') # m
      else (k', v') # om_insert k v m)"

definition om_sorted :: "('k::linorder \<times> 'v) list \<Rightarrow> bool" where
  "om_sorted m \<longleftrightarrow> sorted_wrt (<) (map fst m)"

lemma om_insert_keys: "fst ` set (om_insert k v m) = insert k (fst ` set m)"
  by (induction k v m rule: om_insert.induct) auto

lemma om_sorted_insert: "om_sorted m \<Longrightarrow> om_sorted (om_insert k v m)"
proof (induction k v m rule: om_insert.induct)
  case (2 k v k' v' m)
  have keys: "set (map fst (om_insert k v m)) = insert k (set (map fst m))"
    using om_insert_keys[of k v m] by simp
  from 2(2) have rest: "\<forall>x\<in>set (map fst m). k' < x" "om_sorted m" by (simp_all add: om_sorted_def)
  consider "k = k'" | "k < k'" | "k' < k" by fastforce
  then show ?case
  proof cases
    case 3
    then have "om_sorted (om_insert k v m)" using 2(1) rest(2) by simp
    with 3 rest(1) keys show ?thesis by (auto simp: om_sorted_def)
  qed (use rest in \<open>auto simp: om_sorted_def\<close>)
qed (simp add: om_sorted_def)

lemma map_of_om_insert: "map_of (om_insert k v m) = (map_of m)(k \<mapsto> v)"
  by (induction k v m rule: om_insert.induct) auto

interpretation om: ordered_map om_sorted "[]" map_of om_insert "\<lambda>m. m"
proof unfold_locales
  fix m :: "('a \<times> 'b) list" and k v
  assume "om_sorted m"
  then have "distinct (map fst m)" by (simp add: om_sorted_def strict_sorted_iff)
  then show "map_of m k = Some v \<longleftrightarrow> (k, v) \<in> set m" by simp
next
  fix m :: "('a \<times> 'b) list" and k v
  show "om_sorted m \<Longrightarrow> om_sorted (om_insert k v m)" by (rule om_sorted_insert)
qed (simp_all add: map_of_om_insert om_sorted_def)

end
