(* ===== verification/Kaed_Txn.thy ===== *)
theory Kaed_Txn
  imports Kaed_Fs_Facts Kaed_Ordmap
begin

text \<open>
  \<open>src/txn.rs\<close>: the edit engine. A transaction runs in the order of the source: refuse policy
  files, load and verify every base version, run the operations over buffers, the vanish
  guard, the leak scan, the delete acknowledgement, the writability probe, and then, unless it
  is a dry run, stage, journal, promote, unlink, complete. The file system, the journal and the
  injected IO faults are one explicit world; the transaction lock makes appliers sequential.
\<close>

definition CREATE_MODE :: nat where "CREATE_MODE = 420"
definition CREATE_MODE_EXEC :: nat where "CREATE_MODE_EXEC = 493"

section \<open>Requests and outcomes\<close>

record base_version =
  bv_path :: rstr
  bv_version :: rstr

record value_from =
  vf_root :: "rstr option"
  vf_path :: rstr
  vf_key :: rstr
  vf_digest :: "rstr option"

datatype edit_op =
    AnchorReplace rstr rstr rstr "nat option"
  | RangeReplace rstr nat nat rstr
  | Delete rstr
  | Create rstr rstr bool bool
  | EnvSet rstr rstr "rstr option" "value_from option" "rstr option"
  | EnvRename rstr rstr rstr
  | EnvDelete rstr rstr
  | EnvReorder rstr "rstr list"
  | EnvSyncExample rstr "rstr option"

fun op_path :: "edit_op \<Rightarrow> rstr" where
  "op_path (AnchorReplace p _ _ _) = p"
| "op_path (RangeReplace p _ _ _) = p"
| "op_path (Delete p) = p"
| "op_path (Create p _ _ _) = p"
| "op_path (EnvSet p _ _ _ _) = p"
| "op_path (EnvRename p _ _) = p"
| "op_path (EnvDelete p _) = p"
| "op_path (EnvReorder p _) = p"
| "op_path (EnvSyncExample p _) = p"

record edit_request =
  er_base :: "base_version list"
  er_ops :: "edit_op list"
  er_dry_run :: bool
  er_return_diff :: bool
  er_intent :: "rstr option"
  er_drop_keys :: "rstr list"
  er_allow_secrets :: "rstr list"
  er_drop_paths :: "rstr list"

record file_change =
  fc_path :: rstr
  fc_old_version :: "rstr option"
  fc_new_version :: "rstr option"
  fc_deleted :: bool
  fc_recoverable :: "bool option"
  fc_unrecoverable_because :: "rstr option"

record edit_outcome =
  eo_txn_id :: "int option"
  eo_files :: "file_change list"
  eo_diff :: "rstr option"
  eo_applied :: bool
  eo_warnings :: "msg list"

record file_buf =
  fb_abs :: path
  fb_content :: rstr
  fb_old_content :: "rstr option"
  fb_old_version :: "rstr option"
  fb_mode :: nat
  fb_touched :: bool
  fb_classified :: "rstr option"
  fb_deleted :: bool

type_synonym bufs = "(rstr \<times> file_buf) list"

section \<open>The journal hook\<close>

record file_txn_record =
  ft_path :: rstr
  ft_old_version :: "rstr option"
  ft_new_version :: rstr
  ft_lines_added :: int
  ft_lines_removed :: int
  ft_blob_old :: "rstr option"
  ft_blob_new :: "rstr option"
  ft_redacted :: bool

record failed_txn =
  fx_author :: rstr
  fx_intent :: "rstr option"
  fx_root :: rroot
  fx_paths :: "rstr list"
  fx_error :: kaed_error

record leak_event =
  le_action :: rstr
  le_path :: rstr
  le_kind :: rstr
  le_detail :: rstr
  le_digest :: "rstr option"
  le_source_key :: "rstr option"
  le_txn_id :: "int option"
  le_intent :: "rstr option"

text \<open>The trait \<open>TxnRecorder\<close>: its methods over the recorder's own state.\<close>

record 'j recorder =
  rec_begin :: "rstr \<Rightarrow> rstr option \<Rightarrow> rroot \<Rightarrow> file_txn_record list \<Rightarrow> 'j \<Rightarrow> int res \<times> 'j"
  rec_complete :: "int \<Rightarrow> 'j \<Rightarrow> unit res \<times> 'j"
  rec_blob :: "rstr \<Rightarrow> 'j \<Rightarrow> (rstr \<times> bool) option"
  rec_fail :: "failed_txn \<Rightarrow> 'j \<Rightarrow> 'j"
  rec_known_digests :: "rstr list \<Rightarrow> 'j \<Rightarrow> digest_location option list"
  rec_leak_events :: "rstr \<Rightarrow> rroot \<Rightarrow> leak_event list \<Rightarrow> 'j \<Rightarrow> 'j"

definition noop_recorder :: "'j recorder" where
  "noop_recorder =
     \<lparr>rec_begin = (\<lambda>author intent base files j. (Inr 0, j)),
      rec_complete = (\<lambda>txn_id j. (Inr (), j)),
      rec_blob = (\<lambda>version j. None),
      rec_fail = (\<lambda>r j. j),
      rec_known_digests = (\<lambda>ds j. map (\<lambda>_. None) ds),
      rec_leak_events = (\<lambda>author base events j. j)\<rparr>"

section \<open>The world and its IO steps\<close>

text \<open>
  \<open>w_faults\<close> lists, per IO step still to come, the fault the environment injects there; past
  its end nothing fails but for the file system's own reasons.
\<close>

record 'j world =
  w_fs :: fsys
  w_faults :: "io_error option list"
  w_pid :: rstr
  w_seq :: nat
  w_journal :: 'j

type_synonym ('j, 'a) step = "'j world \<Rightarrow> 'a res \<times> 'j world"

definition bind_step :: "('j, 'a) step \<Rightarrow> ('a \<Rightarrow> ('j, 'b) step) \<Rightarrow> ('j, 'b) step" where
  "bind_step m f w = (case m w of (Inl e, w') \<Rightarrow> (Inl e, w') | (Inr x, w') \<Rightarrow> f x w')"

definition ret :: "'a \<Rightarrow> ('j, 'a) step" where
  "ret x w = (Inr x, w)"

definition tick :: "'j world \<Rightarrow> io_error option \<times> 'j world" where
  "tick w = (case w_faults w of [] \<Rightarrow> (None, w) | f # fs \<Rightarrow> (f, w\<lparr>w_faults := fs\<rparr>))"

text \<open>One system call: the injected fault, or its effect on the file system.\<close>

definition io_call :: "(fsys \<Rightarrow> io_error option \<times> fsys) \<Rightarrow> 'j world \<Rightarrow> io_error option \<times> 'j world" where
  "io_call act w =
     (let (fault, w1) = tick w in
      case fault of
        Some e \<Rightarrow> (Some e, w1)
      | None \<Rightarrow> (let (r, fs) = act (w_fs w1) in (r, w1\<lparr>w_fs := fs\<rparr>)))"

definition io_step :: "(fsys \<Rightarrow> io_error option \<times> fsys) \<Rightarrow> ('j, unit) step" where
  "io_step act w =
     (let (r, w1) = io_call act w in
      case r of Some e \<Rightarrow> (Inl (from_io e), w1) | None \<Rightarrow> (Inr (), w1))"

definition set_node :: "path \<Rightarrow> node \<Rightarrow> fsys \<Rightarrow> fsys" where
  "set_node p nd fs = fs\<lparr>fs_nodes := (fs_nodes fs)(p \<mapsto> nd)\<rparr>"

definition remove_node :: "path \<Rightarrow> fsys \<Rightarrow> fsys" where
  "remove_node p fs = fs\<lparr>fs_nodes := (fs_nodes fs)(p := None)\<rparr>"

definition new_dir :: "path \<Rightarrow> fsys \<Rightarrow> fsys" where
  "new_dir p fs = (set_node p DirN fs)
     \<lparr>fs_search := (fs_search fs)(p := True), fs_read := (fs_read fs)(p := True),
      fs_write := (fs_write fs)(p := True)\<rparr>"

text \<open>\<open>create_dir_all\<close>: the directories made before a failure stay.\<close>

fun mkdirs :: "path \<Rightarrow> rstr list \<Rightarrow> fsys \<Rightarrow> io_error option \<times> fsys" where
  "mkdirs d [] fs = (None, fs)"
| "mkdirs d (c # cs) fs =
     (case node_at fs (d @ [c]) of
        Some DirN \<Rightarrow> mkdirs (d @ [c]) cs fs
      | Some _ \<Rightarrow> (Some (io_other ''os error 17''), fs)
      | None \<Rightarrow>
          if fs_write fs d then mkdirs (d @ [c]) cs (new_dir (d @ [c]) fs)
          else (Some io_denied, fs))"

text \<open>The temp is opened with \<open>create_new\<close>; its first mode is what a umask of 022 leaves.\<close>

definition open_new :: "path \<Rightarrow> fsys \<Rightarrow> io_error option \<times> fsys" where
  "open_new p fs =
     (if node_at fs p \<noteq> None then (Some (io_other ''os error 17''), fs)
      else if \<not> fs_write fs (butlast p) then (Some io_denied, fs)
      else (None, set_node p (FileN [] CREATE_MODE) fs))"

definition write_all :: "path \<Rightarrow> rstr \<Rightarrow> fsys \<Rightarrow> io_error option \<times> fsys" where
  "write_all p content fs =
     (case node_at fs p of
        Some (FileN _ mode) \<Rightarrow> (None, set_node p (FileN content mode) fs)
      | _ \<Rightarrow> (None, fs))"

definition set_permissions :: "path \<Rightarrow> nat \<Rightarrow> fsys \<Rightarrow> io_error option \<times> fsys" where
  "set_permissions p mode fs =
     (case node_at fs p of
        Some (FileN content _) \<Rightarrow> (None, set_node p (FileN content mode) fs)
      | _ \<Rightarrow> (None, fs))"

definition no_effect :: "fsys \<Rightarrow> io_error option \<times> fsys" where
  "no_effect fs = (None, fs)"

definition rename_node :: "path \<Rightarrow> path \<Rightarrow> fsys \<Rightarrow> io_error option \<times> fsys" where
  "rename_node src dest fs =
     (case node_at fs src of
        None \<Rightarrow> (Some io_not_found, fs)
      | Some nd \<Rightarrow>
          if node_at fs dest = Some DirN then (Some (io_other ''os error 21''), fs)
          else if \<not> fs_write fs (butlast dest) then (Some io_denied, fs)
          else (None, set_node dest nd (remove_node src fs)))"

definition unlink :: "path \<Rightarrow> fsys \<Rightarrow> io_error option \<times> fsys" where
  "unlink p fs =
     (case node_at fs p of
        None \<Rightarrow> (Some io_not_found, fs)
      | Some DirN \<Rightarrow> (Some (io_other ''os error 21''), fs)
      | Some _ \<Rightarrow> if fs_write fs (butlast p) then (None, remove_node p fs) else (Some io_denied, fs))"

section \<open>Staging\<close>

record staged_file =
  st_tmp :: path
  st_dest :: path

definition tmp_name :: "rstr \<Rightarrow> rstr \<Rightarrow> nat \<Rightarrow> rstr" where
  "tmp_name name pid sq = ''.'' @ name @ ''.kaed-tmp.'' @ pid @ ''.'' @ show_nat sq"

text \<open>Naming the temp takes the next value of the process-wide \<open>STAGE_SEQ\<close>.\<close>

definition next_tmp :: "path \<Rightarrow> ('j, path) step" where
  "next_tmp dest w =
     (Inr (butlast dest @ [tmp_name (last dest) (w_pid w) (w_seq w)]), w\<lparr>w_seq := w_seq w + 1\<rparr>)"

definition stage :: "path \<Rightarrow> rstr \<Rightarrow> nat \<Rightarrow> ('j, staged_file) step" where
  "stage dest content mode =
     (if dest = [] then (\<lambda>w. (Inl (internal_error (Msg ''no parent'' [])), w))
      else
        bind_step (io_step (mkdirs [] (butlast dest))) (\<lambda>_.
        bind_step (next_tmp dest) (\<lambda>tmp.
        bind_step (io_step (open_new tmp)) (\<lambda>_.
        bind_step (io_step (write_all tmp content)) (\<lambda>_.
        bind_step (io_step (set_permissions tmp mode)) (\<lambda>_.
        bind_step (io_step no_effect) (\<lambda>_.
        ret \<lparr>st_tmp = tmp, st_dest = dest\<rparr>)))))))"

definition promote :: "staged_file \<Rightarrow> ('j, unit) step" where
  "promote s =
     bind_step (io_step (rename_node (st_tmp s) (st_dest s))) (\<lambda>_. io_step no_effect)"

definition discard :: "staged_file \<Rightarrow> 'j world \<Rightarrow> 'j world" where
  "discard s w = snd (io_call (unlink (st_tmp s)) w)"

end
