(* ===== verification/Kaed_Engine.thy ===== *)
theory Kaed_Engine
  imports Kaed_Txn
begin

text \<open>
  \<open>src/txn.rs\<close>, \<open>apply\<close> and \<open>apply_inner\<close>: one definition per phase of the function, composed in
  its order by \<open>apply_inner\<close>.
\<close>

definition VERSION_ABSENT :: rstr where "VERSION_ABSENT = ''absent''"

section \<open>Redacted views\<close>

definition try_redact :: "hasher \<Rightarrow> rstr \<Rightarrow> rstr option" where
  "try_redact h content = map_option (redact h) (Kaed_Dotenv.parse content)"

definition withheld_marker :: rstr where
  "withheld_marker = ''(content withheld: classified and not dotenv-shaped)'' @ [nl]"

definition redact_view :: "hasher \<Rightarrow> rstr \<Rightarrow> rstr" where
  "redact_view h content = (case try_redact h content of Some r \<Rightarrow> r | None \<Rightarrow> withheld_marker)"

section \<open>Verifying the declared bases\<close>

definition conflict_delta :: "crates \<Rightarrow> (rstr \<times> bool) option \<Rightarrow> loaded \<Rightarrow> rstr \<Rightarrow> rstr" where
  "conflict_delta ck blob l path =
     (case blob of
        Some (expected, was_redacted) \<Rightarrow>
          (case ld_secrecy l of
             Plain \<Rightarrow> cr_udiff ck expected (ld_content l) path
           | ClassifiedDotenv rule f \<Rightarrow>
               cr_udiff ck (if was_redacted then expected else redact_view (cr_h ck) expected)
                 (redact (cr_h ck) f) path)
      | None \<Rightarrow> ''(content for the expected version is not retained; re-read the file)'')"

definition buf_of_loaded :: "loaded \<Rightarrow> file_buf" where
  "buf_of_loaded l =
     \<lparr>fb_abs = ld_abs l, fb_content = ld_content l, fb_old_content = Some (ld_content l),
      fb_old_version = Some (ld_version l), fb_mode = ld_mode l, fb_touched = False,
      fb_classified = (case ld_secrecy l of Plain \<Rightarrow> None | ClassifiedDotenv rule _ \<Rightarrow> Some rule),
      fb_deleted = False\<rparr>"

definition load_base ::
  "crates \<Rightarrow> (rstr \<Rightarrow> (rstr \<times> bool) option) \<Rightarrow> fsys \<Rightarrow> rroot \<Rightarrow> limits \<Rightarrow> base_version \<Rightarrow> bufs \<Rightarrow> bufs res" where
  "load_base ck blob fs base lm b bufs =
     (if map_of bufs (bv_path b) \<noteq> None
      then Inl (invalid_input (Msg ''duplicate base entry'' [bv_path b]))
      else
        and_then
          (map_err
             (\<lambda>e. if code e = NotFound
                  then version_conflict
                         \<lparr>vc_path = bv_path b, vc_expected = bv_version b, vc_actual = VERSION_ABSENT,
                          vc_delta = ''(file no longer exists)''\<rparr>
                  else e)
             (load_text ck fs base (bv_path b) lm)) (\<lambda>l.
        if ld_version l \<noteq> bv_version b
        then Inl (version_conflict
               \<lparr>vc_path = bv_path b, vc_expected = bv_version b, vc_actual = ld_version l,
                vc_delta = conflict_delta ck (blob (bv_version b)) l (bv_path b)\<rparr>)
        else Inr (om_insert (bv_path b) (buf_of_loaded l) bufs)))"

section \<open>The operations\<close>

definition declared_any :: "bufs \<Rightarrow> rstr \<Rightarrow> file_buf res" where
  "declared_any bufs path = ok_or (map_of bufs path) (invalid_input (Msg ''not declared in base'' [path]))"

definition declared :: "bufs \<Rightarrow> rstr \<Rightarrow> file_buf res" where
  "declared bufs path =
     and_then (declared_any bufs path) (\<lambda>buf.
       if fb_deleted buf then Inl (invalid_input (Msg ''an earlier op in this transaction deleted it'' [path]))
       else Inr buf)"

definition refuse_text_op_on_classified :: "rstr \<Rightarrow> file_buf \<Rightarrow> unit res" where
  "refuse_text_op_on_classified path buf =
     (case fb_classified buf of
        Some rule \<Rightarrow> Inl (invalid_input (Msg ''is classified and served redacted'' [path, rule]))
      | None \<Rightarrow> Inr ())"

definition parse_dotenv_buf :: "rstr \<Rightarrow> file_buf \<Rightarrow> dotenv_file res" where
  "parse_dotenv_buf path buf =
     ok_or (Kaed_Dotenv.parse (fb_content buf)) (invalid_input (Msg ''not dotenv-shaped'' [path]))"

definition with_path :: "rstr \<Rightarrow> kaed_error \<Rightarrow> kaed_error" where
  "with_path path e = new_error (code e) (Msg (template (message e)) (path # args (message e)))"

definition write_buf :: "rstr \<Rightarrow> file_buf \<Rightarrow> rstr \<Rightarrow> bufs \<Rightarrow> bufs" where
  "write_buf path buf content bufs =
     om_insert path (buf\<lparr>fb_content := content, fb_touched := True\<rparr>) bufs"

definition op_delete :: "crates \<Rightarrow> fsys \<Rightarrow> rroot \<Rightarrow> rstr \<Rightarrow> bufs \<Rightarrow> bufs res" where
  "op_delete ck fs base path bufs =
     and_then (resolve_creatable ck fs base path) (\<lambda>ap.
     if is_dir fs ap
     then Inl (with_data (JObj [(''reason'', JStr ''delete_is_files_only''), (''path'', JStr path)])
                 (invalid_input (Msg ''is a directory; delete removes files'' [path])))
     else and_then (declared_any bufs path) (\<lambda>buf.
       if fb_old_version buf = None
       then Inl (invalid_input (Msg ''this transaction created it'' [path]))
       else Inr (om_insert path (buf\<lparr>fb_deleted := True, fb_touched := True\<rparr>) bufs)))"

definition op_create ::
  "crates \<Rightarrow> fsys \<Rightarrow> rroot \<Rightarrow> limits \<Rightarrow> rstr \<Rightarrow> rstr \<Rightarrow> bool \<Rightarrow> bool \<Rightarrow> bufs \<Rightarrow> bufs res" where
  "op_create ck fs base lm path content executable overwrite bufs =
     (case map_of bufs path of
        Some buf \<Rightarrow>
          if \<not> overwrite then Inl (invalid_input (Msg ''already exists; pass overwrite'' [path]))
          else Inr (om_insert path
                 (buf\<lparr>fb_content := content, fb_touched := True,
                      fb_mode := (if executable then CREATE_MODE_EXEC else fb_mode buf)\<rparr>) bufs)
      | None \<Rightarrow>
          and_then (resolve_creatable ck fs base path) (\<lambda>ap.
          let mode = (if executable then CREATE_MODE_EXEC else CREATE_MODE);
              classified = classified_by (cr_globs ck) (rr_classify base) ap
          in if path_exists fs ap
             then (if \<not> overwrite
                   then Inl (invalid_input (Msg ''already exists; pass overwrite or declare it'' [path]))
                   else and_then (load_text ck fs base path lm) (\<lambda>l.
                     Inr (om_insert path
                       \<lparr>fb_abs = ld_abs l, fb_content = content, fb_old_content = Some (ld_content l),
                        fb_old_version = Some (ld_version l), fb_mode = mode, fb_touched = True,
                        fb_classified = classified, fb_deleted = False\<rparr> bufs)))
             else Inr (om_insert path
                    \<lparr>fb_abs = ap, fb_content = content, fb_old_content = None, fb_old_version = None,
                     fb_mode = mode, fb_touched = True, fb_classified = classified,
                     fb_deleted = False\<rparr> bufs)))"

definition op_anchor_replace :: "rstr \<Rightarrow> rstr \<Rightarrow> rstr \<Rightarrow> nat option \<Rightarrow> bufs \<Rightarrow> bufs res" where
  "op_anchor_replace path old_text new_text occurrence bufs =
     and_then (declared bufs path) (\<lambda>buf.
     and_then (refuse_text_op_on_classified path buf) (\<lambda>_.
     and_then (resolve_anchor (fb_content buf) old_text occurrence path) (\<lambda>hit.
       Inr (write_buf path buf
         (take (byte_offset hit) (fb_content buf) @ new_text
          @ drop (byte_offset hit + length old_text) (fb_content buf)) bufs))))"

definition op_range_replace :: "rstr \<Rightarrow> nat \<Rightarrow> nat \<Rightarrow> rstr \<Rightarrow> bufs \<Rightarrow> bufs res" where
  "op_range_replace path start stop new_text bufs =
     and_then (declared bufs path) (\<lambda>buf.
     and_then (refuse_text_op_on_classified path buf) (\<lambda>_.
     and_then (map_err (with_path path) (replace_range (lines_split (fb_content buf)) start stop new_text)) (\<lambda>l.
       Inr (write_buf path buf (lines_join l) bufs))))"

definition digest_mismatch :: "rstr \<Rightarrow> rstr \<Rightarrow> rstr \<Rightarrow> rstr \<Rightarrow> kaed_error" where
  "digest_mismatch target path key d =
     with_data (JObj [(''reason'', JStr ''digest_mismatch''), (''path'', JStr path),
                      (''key'', JStr key), (''expected_digest'', JStr d)])
       (invalid_input (Msg ''value_from digest mismatch'' [target, key, path]))"

definition resolve_value_from ::
  "crates \<Rightarrow> fsys \<Rightarrow> rroot \<Rightarrow> value_from \<Rightarrow> bufs \<Rightarrow> limits \<Rightarrow> rstr \<Rightarrow> rstr res" where
  "resolve_value_from ck fs base vf bufs lm target =
     (if (case vf_root vf of Some r \<Rightarrow> r \<noteq> rr_name base | None \<Rightarrow> False)
      then Inl (invalid_input (Msg ''value_from names another root'' [target, rr_name base]))
      else
        and_then (case map_of bufs (vf_path vf) of
                    Some buf \<Rightarrow> Inr (fb_content buf)
                  | None \<Rightarrow> map_sum id ld_content (load_text ck fs base (vf_path vf) lm)) (\<lambda>content.
        and_then (ok_or (Kaed_Dotenv.parse content)
                   (invalid_input (Msg ''value_from source is not dotenv-shaped'' [target, vf_path vf]))) (\<lambda>f.
        and_then (ok_or (get_entry f (vf_key vf))
                   (not_found (Msg ''value_from source has no key'' [target, vf_path vf, vf_key vf]))) (\<lambda>e.
        case vf_digest vf of
          Some d \<Rightarrow>
            if digest_of (cr_h ck) (e_value e) \<noteq> d
            then Inl (digest_mismatch target (vf_path vf) (vf_key vf) d)
            else Inr (e_value e)
        | None \<Rightarrow> Inr (e_value e)))))"

definition op_env_set ::
  "crates \<Rightarrow> fsys \<Rightarrow> rroot \<Rightarrow> limits \<Rightarrow> rstr \<Rightarrow> rstr \<Rightarrow> rstr option \<Rightarrow> value_from option \<Rightarrow> rstr option
     \<Rightarrow> bufs \<Rightarrow> bufs res" where
  "op_env_set ck fs base lm path key val vfrom comment bufs =
     (if val \<noteq> None \<and> vfrom \<noteq> None
      then Inl (invalid_input (Msg ''takes value or value_from, not both'' [path, key]))
      else
        and_then (case vfrom of
                    None \<Rightarrow> Inr None
                  | Some vf \<Rightarrow> map_sum id Some (resolve_value_from ck fs base vf bufs lm path)) (\<lambda>from_value.
        and_then (declared bufs path) (\<lambda>buf.
        and_then (parse_dotenv_buf path buf) (\<lambda>f.
        and_then (case (from_value, val) of
                    (Some v, _) \<Rightarrow> Inr (Some v)
                  | (None, Some v) \<Rightarrow> map_sum id Some (resolve_value (cr_h ck) f path v)
                  | (None, None) \<Rightarrow> Inr None) (\<lambda>resolved.
        and_then (map_err (with_path path) (env_set f key resolved comment)) (\<lambda>f'.
          Inr (write_buf path buf (render f') bufs)))))))"

text \<open>\<open>EnvRename\<close>, \<open>EnvDelete\<close> and \<open>EnvReorder\<close> have one shape: parse, apply, render.\<close>

definition op_env_edit :: "rstr \<Rightarrow> (dotenv_file \<Rightarrow> dotenv_file res) \<Rightarrow> bufs \<Rightarrow> bufs res" where
  "op_env_edit path edit bufs =
     and_then (declared bufs path) (\<lambda>buf.
     and_then (parse_dotenv_buf path buf) (\<lambda>f.
     and_then (map_err (with_path path) (edit f)) (\<lambda>f'.
       Inr (write_buf path buf (render f') bufs))))"

definition op_env_sync_example ::
  "crates \<Rightarrow> fsys \<Rightarrow> rroot \<Rightarrow> rstr \<Rightarrow> rstr option \<Rightarrow> bufs \<Rightarrow> bufs res" where
  "op_env_sync_example ck fs base path example_path bufs =
     (let example_rel = (case example_path of Some p \<Rightarrow> p | None \<Rightarrow> path @ ''.example'') in
      if example_rel = path
      then Inl (invalid_input (Msg ''env_sync_example cannot target the live file itself'' [path]))
      else
        and_then (declared bufs path) (\<lambda>source.
        and_then (parse_dotenv_buf path source) (\<lambda>f.
        let content = example (cr_h ck) f in
        case map_of bufs example_rel of
          Some buf \<Rightarrow> Inr (write_buf example_rel buf content bufs)
        | None \<Rightarrow>
            and_then (resolve_creatable ck fs base example_rel) (\<lambda>ap.
            if path_exists fs ap
            then Inl (invalid_input (Msg ''already exists - declare it in base'' [example_rel]))
            else Inr (om_insert example_rel
                   \<lparr>fb_abs = ap, fb_content = content, fb_old_content = None, fb_old_version = None,
                    fb_mode = CREATE_MODE, fb_touched = True,
                    fb_classified = classified_by (cr_globs ck) (rr_classify base) ap,
                    fb_deleted = False\<rparr> bufs)))))"

fun dispatch_op :: "crates \<Rightarrow> fsys \<Rightarrow> rroot \<Rightarrow> limits \<Rightarrow> edit_op \<Rightarrow> bufs \<Rightarrow> bufs res" where
  "dispatch_op ck fs base lm (Delete path) bufs = op_delete ck fs base path bufs"
| "dispatch_op ck fs base lm (Create path content ex ow) bufs = op_create ck fs base lm path content ex ow bufs"
| "dispatch_op ck fs base lm (AnchorReplace path old new occ) bufs = op_anchor_replace path old new occ bufs"
| "dispatch_op ck fs base lm (RangeReplace path start stop new) bufs = op_range_replace path start stop new bufs"
| "dispatch_op ck fs base lm (EnvSet path key val vfrom comment) bufs =
     op_env_set ck fs base lm path key val vfrom comment bufs"
| "dispatch_op ck fs base lm (EnvRename path frm target) bufs = op_env_edit path (\<lambda>f. env_rename f frm target) bufs"
| "dispatch_op ck fs base lm (EnvDelete path key) bufs = op_env_edit path (\<lambda>f. env_delete f key) bufs"
| "dispatch_op ck fs base lm (EnvReorder path ks) bufs = op_env_edit path (\<lambda>f. env_reorder f ks) bufs"
| "dispatch_op ck fs base lm (EnvSyncExample path ep) bufs = op_env_sync_example ck fs base path ep bufs"

definition run_op :: "crates \<Rightarrow> fsys \<Rightarrow> rroot \<Rightarrow> limits \<Rightarrow> edit_op \<Rightarrow> bufs \<Rightarrow> bufs res" where
  "run_op ck fs base lm op bufs =
     and_then (dispatch_op ck fs base lm op bufs) (\<lambda>bufs'.
     case map_of bufs' (op_path op) of
       None \<Rightarrow> Inl panicked
     | Some buf \<Rightarrow>
         if \<not> fb_deleted buf \<and> lim_file_bytes lm < length (fb_content buf)
         then Inl (too_large (Msg ''edit result exceeds max_file_bytes'' [op_path op]))
         else Inr bufs')"

section \<open>The guards over the touched files\<close>

definition touched_of :: "bufs \<Rightarrow> bufs" where
  "touched_of bufs = filter (\<lambda>(p, b). fb_touched b) bufs"

definition vanished_in :: "edit_request \<Rightarrow> file_buf \<Rightarrow> rstr list" where
  "vanished_in req buf =
     filter (\<lambda>k. k \<notin> set (er_drop_keys req))
       (vanished_values (Option.bind (fb_old_content buf) Kaed_Dotenv.parse) (Kaed_Dotenv.parse (fb_content buf)))"

definition vanish_guard :: "edit_request \<Rightarrow> bufs \<Rightarrow> unit res" where
  "vanish_guard req touched =
     fold_res
       (\<lambda>(path, buf) _.
          if fb_classified buf = None \<or> fb_deleted buf then Inr ()
          else if vanished_in req buf \<noteq> []
          then Inl (with_data
                 (JObj [(''reason'', JStr ''secret_would_vanish''), (''path'', JStr path),
                        (''keys'', JArr (map JStr (vanished_in req buf)))])
                 (invalid_input (Msg ''this write destroys values'' (path # vanished_in req buf))))
          else Inr ())
       touched ()"

definition leak_describe :: "leak_match \<Rightarrow> rstr list" where
  "leak_describe m =
     (case (lm_kind m, lm_source m) of
        (KnownDigest, Some s) \<Rightarrow>
          if dl_key s \<noteq> [] then [dl_key s, dl_root s, dl_path s, lm_detail m]
          else [dl_root s, dl_path s, lm_detail m]
      | _ \<Rightarrow> [lm_detail m])"

definition leak_warning :: "rstr \<Rightarrow> leak_match \<Rightarrow> bool \<Rightarrow> msg" where
  "leak_warning path m overridden =
     Msg (if overridden then ''written under its allow_secrets override''
          else ''in a file nothing classifies or redacts'')
       (path # show_nat (lm_line m) # leak_describe m)"

record leak_findings =
  lf_refused :: "(rstr \<times> leak_match) list"
  lf_applied :: "(rstr \<times> rstr \<times> leak_match) list"
  lf_warnings :: "msg list"

definition leak_one :: "edit_request \<Rightarrow> rroot \<Rightarrow> rstr \<Rightarrow> leak_match \<Rightarrow> leak_findings \<Rightarrow> leak_findings" where
  "leak_one req base path m lf =
     (let overridden = lm_detail m \<in> set (er_allow_secrets req) in
      if refuses (lm_kind m) \<and> rr_leak_checks base = LcRefuse \<and> \<not> overridden
      then lf\<lparr>lf_refused := lf_refused lf @ [(path, m)]\<rparr>
      else lf\<lparr>lf_warnings := lf_warnings lf @ [leak_warning path m overridden],
              lf_applied := lf_applied lf
                @ [(path, if overridden then ''leak_allowed'' else ''leak_flagged'', m)]\<rparr>)"

definition leak_phase ::
  "crates \<Rightarrow> (rstr list \<Rightarrow> digest_location option list) \<Rightarrow> rroot \<Rightarrow> edit_request \<Rightarrow> bufs \<Rightarrow> leak_findings" where
  "leak_phase ck known base req touched =
     (let none = \<lparr>lf_refused = [], lf_applied = [], lf_warnings = []\<rparr> in
      if rr_leak_checks base = LcOff then none
      else fold
        (\<lambda>(path, buf) lf.
           if fb_classified buf \<noteq> None \<or> fb_deleted buf then lf
           else fold (leak_one req base path)
                  (scan (cr_h ck) (cr_inserted ck) (fb_old_content buf) (fb_content buf) known) lf)
        touched none)"

definition mk_leak_event :: "rstr \<Rightarrow> rstr \<Rightarrow> leak_match \<Rightarrow> int option \<Rightarrow> rstr option \<Rightarrow> leak_event" where
  "mk_leak_event path action m txn_id intent =
     \<lparr>le_action = action, le_path = path, le_kind = leak_kind_str (lm_kind m), le_detail = lm_detail m,
      le_digest = (if lm_kind m = KnownDigest then Some (lm_detail m) else None),
      le_source_key = map_option dl_key (lm_source m), le_txn_id = txn_id, le_intent = intent\<rparr>"

fun dedup :: "'a list \<Rightarrow> 'a list" where
  "dedup (x # y # xs) = (if x = y then dedup (y # xs) else x # dedup (y # xs))"
| "dedup xs = xs"

definition location_json :: "digest_location option \<Rightarrow> json" where
  "location_json s =
     (case s of None \<Rightarrow> JNull
      | Some s \<Rightarrow> JObj [(''root'', JStr (dl_root s)), (''path'', JStr (dl_path s)), (''key'', JStr (dl_key s))])"

definition leak_refusal :: "(rstr \<times> leak_match) list \<Rightarrow> kaed_error" where
  "leak_refusal refused_list =
     (let overrides = dedup (map (lm_detail \<circ> snd) refused_list) in
      with_data
        (JObj [(''reason'', JStr ''secret_leak''),
               (''matches'', JArr (map (\<lambda>(p, m).
                   JObj [(''path'', JStr p), (''line'', JNum (int (lm_line m))),
                         (''kind'', JStr (leak_kind_str (lm_kind m))), (''detail'', JStr (lm_detail m)),
                         (''source'', location_json (lm_source m))]) refused_list)),
               (''allow_secrets'', JArr (map JStr overrides))])
        (invalid_input (Msg ''this write would put secret content into plain files''
           (concat (map (\<lambda>(p, m). p # show_nat (lm_line m) # leak_describe m) refused_list) @ overrides))))"

definition delete_unrecoverable_reason :: "file_buf \<Rightarrow> rstr option" where
  "delete_unrecoverable_reason buf =
     (if fb_classified buf \<noteq> None then Some ''classified: the journal would hold a redacted rendering''
      else if fb_old_content buf = None then Some ''no pre-image was loaded for this path''
      else None)"

definition delete_guard :: "edit_request \<Rightarrow> bufs \<Rightarrow> unit res" where
  "delete_guard req touched =
     (let unacknowledged =
            List.map_filter
              (\<lambda>(path, buf).
                 if fb_deleted buf \<and> path \<notin> set (er_drop_paths req)
                 then map_option (\<lambda>why. (path, why)) (delete_unrecoverable_reason buf) else None)
              touched
      in if unacknowledged = [] then Inr ()
         else Inl (with_data
                (JObj [(''reason'', JStr ''delete_would_be_unrecoverable''),
                       (''paths'', JArr (map (\<lambda>(p, why).
                           JObj [(''path'', JStr p), (''why'', JStr why)]) unacknowledged))])
                (invalid_input (Msg ''this transaction deletes unrecoverably'' (map fst unacknowledged)))))"

section \<open>The outcome\<close>

definition change_of :: "hasher \<Rightarrow> rstr \<times> file_buf \<Rightarrow> file_change" where
  "change_of h pb =
     (let (path, buf) = pb in
      if fb_deleted buf
      then \<lparr>fc_path = path, fc_old_version = fb_old_version buf, fc_new_version = None, fc_deleted = True,
            fc_recoverable = Some (delete_unrecoverable_reason buf = None),
            fc_unrecoverable_because = delete_unrecoverable_reason buf\<rparr>
      else \<lparr>fc_path = path, fc_old_version = fb_old_version buf,
            fc_new_version = Some (version_of h (fb_content buf)), fc_deleted = False,
            fc_recoverable = None, fc_unrecoverable_because = None\<rparr>)"

definition diff_one :: "crates \<Rightarrow> rstr \<times> file_buf \<Rightarrow> rstr" where
  "diff_one ck pb =
     (let (path, buf) = pb; after = (if fb_deleted buf then [] else fb_content buf) in
      if fb_classified buf \<noteq> None
      then cr_udiff ck
             (case fb_old_content buf of Some old \<Rightarrow> redact_view (cr_h ck) old | None \<Rightarrow> [])
             (if fb_deleted buf then [] else redact_view (cr_h ck) after) path
      else cr_udiff ck (case fb_old_content buf of Some old \<Rightarrow> old | None \<Rightarrow> []) after path)"

definition git_warnings :: "crates \<Rightarrow> fsys \<Rightarrow> bufs \<Rightarrow> msg list" where
  "git_warnings ck fs touched =
     List.map_filter
       (\<lambda>(path, buf).
          if fb_classified buf \<noteq> None
             \<and> \<not> (case Kaed_Dotenv.parse (fb_content buf) of Some f \<Rightarrow> all_values_empty f | None \<Rightarrow> False)
          then gitignore_warning (path_exists fs) (cr_git_status ck) (fb_abs buf) path else None)
       touched"

definition probe_dir :: "fsys \<Rightarrow> file_buf \<Rightarrow> path" where
  "probe_dir fs buf = deepest_existing fs (if fb_abs buf = [] then fb_abs buf else butlast (fb_abs buf))"

definition probe_writable :: "fsys \<Rightarrow> rroot \<Rightarrow> bufs \<Rightarrow> unit res" where
  "probe_writable fs base touched =
     fold_res
       (\<lambda>(path, buf) _.
          if \<not> dir_is_writable fs (probe_dir fs buf)
          then Inl (not_writable fs base path (probe_dir fs buf)) else Inr ())
       touched ()"

definition record_of :: "crates \<Rightarrow> rstr \<times> file_buf \<Rightarrow> file_txn_record" where
  "record_of ck pb =
     (let (path, buf) = pb;
          after = (if fb_deleted buf then [] else fb_content buf);
          (added, removed) = cr_diffstat ck (case fb_old_content buf of Some old \<Rightarrow> old | None \<Rightarrow> []) after;
          redacted = (fb_classified buf \<noteq> None);
          (blob_old, blob_new) =
            (if fb_deleted buf
             then (if delete_unrecoverable_reason buf = None then fb_old_content buf else None, None)
             else if redacted
             then (Option.bind (fb_old_content buf) (try_redact (cr_h ck)), try_redact (cr_h ck) (fb_content buf))
             else (fb_old_content buf, Some (fb_content buf)))
      in \<lparr>ft_path = path, ft_old_version = fb_old_version buf,
          ft_new_version = (case fc_new_version (change_of (cr_h ck) pb) of
                              Some v \<Rightarrow> v | None \<Rightarrow> VERSION_ABSENT),
          ft_lines_added = added, ft_lines_removed = removed,
          ft_blob_old = blob_old, ft_blob_new = blob_new, ft_redacted = redacted\<rparr>)"

section \<open>The phases before anything is written\<close>

text \<open>Everything the transaction decided before its first effect.\<close>

record plan =
  pl_touched :: bufs
  pl_leaks :: leak_findings
  pl_files :: "file_change list"
  pl_diff :: "rstr option"
  pl_warnings :: "msg list"

definition check_ops :: "edit_request \<Rightarrow> unit res" where
  "check_ops req =
     (if er_ops req = [] then Inl (invalid_input (Msg ''edit requires at least one op'' []))
      else fold_res
        (\<lambda>op _. if is_kaedignore_path (op_path op)
                then Inl (refused (op_path op) ''policy file'' KaedignoreProtected ''edit them outside kaed'')
                else Inr ())
        (er_ops req) ())"

definition run_ops ::
  "crates \<Rightarrow> 'j recorder \<Rightarrow> 'j world \<Rightarrow> rroot \<Rightarrow> limits \<Rightarrow> edit_request \<Rightarrow> bufs res" where
  "run_ops ck rc w base lm req =
     and_then (fold_res (load_base ck (\<lambda>v. rec_blob rc v (w_journal w)) (w_fs w) base lm) (er_base req) [])
       (fold_res (run_op ck (w_fs w) base lm) (er_ops req))"

text \<open>
  A refused leak leaves one effect, the audit event, so this phase returns the journal too.
\<close>

definition refuse_leaks ::
  "'j recorder \<Rightarrow> rstr \<Rightarrow> rroot \<Rightarrow> edit_request \<Rightarrow> leak_findings \<Rightarrow> ('j, unit) step" where
  "refuse_leaks rc author base req lf w =
     (if lf_refused lf = [] then (Inr (), w)
      else (Inl (leak_refusal (lf_refused lf)),
            if er_dry_run req then w
            else w\<lparr>w_journal :=
                 rec_leak_events rc author base
                   (map (\<lambda>(p, m). mk_leak_event p ''leak_refused'' m None (er_intent req)) (lf_refused lf))
                   (w_journal w)\<rparr>))"

definition lift_res :: "'a res \<Rightarrow> ('j, 'a) step" where
  "lift_res r w = (r, w)"

definition plan_of :: "crates \<Rightarrow> fsys \<Rightarrow> edit_request \<Rightarrow> leak_findings \<Rightarrow> bufs \<Rightarrow> plan" where
  "plan_of ck fs req lf touched =
     \<lparr>pl_touched = touched, pl_leaks = lf, pl_files = map (change_of (cr_h ck)) touched,
      pl_diff = (if er_return_diff req then Some (concat (map (diff_one ck) touched)) else None),
      pl_warnings = lf_warnings lf @ git_warnings ck fs touched\<rparr>"

definition prepare ::
  "crates \<Rightarrow> 'j recorder \<Rightarrow> rroot \<Rightarrow> limits \<Rightarrow> rstr \<Rightarrow> edit_request \<Rightarrow> ('j, plan) step" where
  "prepare ck rc base lm author req =
     bind_step (lift_res (check_ops req)) (\<lambda>_ w.
     bind_step (lift_res (run_ops ck rc w base lm req)) (\<lambda>bufs.
     let touched = touched_of bufs in
     bind_step (lift_res (vanish_guard req touched)) (\<lambda>_ w.
     let lf = leak_phase ck (\<lambda>ds. rec_known_digests rc ds (w_journal w)) base req touched in
     bind_step (refuse_leaks rc author base req lf) (\<lambda>_.
     bind_step (lift_res (delete_guard req touched)) (\<lambda>_ w.
     bind_step (lift_res (probe_writable (w_fs w) base touched)) (\<lambda>_.
     ret (plan_of ck (w_fs w) req lf touched)) w)) w)) w)"

section \<open>Committing\<close>

text \<open>The mode that is written keeps the permission bits only.\<close>

definition perm_bits :: "nat \<Rightarrow> nat" where
  "perm_bits mode = mode mod 4096"

text \<open>The backstop: a staging failure in a directory that is not writable is named as such.\<close>

definition stage_error :: "rroot \<Rightarrow> rstr \<Rightarrow> file_buf \<Rightarrow> kaed_error \<Rightarrow> fsys \<Rightarrow> kaed_error" where
  "stage_error base path buf e fs =
     (if code e = Internal \<and> \<not> dir_is_writable fs (probe_dir fs buf)
      then not_writable fs base path (probe_dir fs buf) else e)"

fun stage_all :: "rroot \<Rightarrow> bufs \<Rightarrow> staged_file list \<Rightarrow> ('j, staged_file list) step" where
  "stage_all base [] staged w = (Inr staged, w)"
| "stage_all base ((path, buf) # touched) staged w =
     (if fb_deleted buf then stage_all base touched staged w
      else (case stage (fb_abs buf) (fb_content buf) (perm_bits (fb_mode buf)) w of
              (Inr s, w') \<Rightarrow> stage_all base touched (staged @ [s]) w'
            | (Inl e, w') \<Rightarrow>
                (let w'' = fold discard staged w'
                 in (Inl (stage_error base path buf e (w_fs w'')), w''))))"

definition begin_txn ::
  "'j recorder \<Rightarrow> rstr \<Rightarrow> edit_request \<Rightarrow> rroot \<Rightarrow> file_txn_record list \<Rightarrow> staged_file list \<Rightarrow> ('j, int) step" where
  "begin_txn rc author req base records staged w =
     (case rec_begin rc author (er_intent req) base records (w_journal w) of
        (Inr txn_id, j) \<Rightarrow> (Inr txn_id, w\<lparr>w_journal := j\<rparr>)
      | (Inl e, j) \<Rightarrow> (Inl e, fold discard staged (w\<lparr>w_journal := j\<rparr>)))"

fun promote_all :: "staged_file list \<Rightarrow> ('j, unit) step" where
  "promote_all [] w = (Inr (), w)"
| "promote_all (s # staged) w = bind_step (promote s) (\<lambda>_. promote_all staged) w"

fun unlink_all :: "bufs \<Rightarrow> ('j, unit) step" where
  "unlink_all [] w = (Inr (), w)"
| "unlink_all ((path, buf) # touched) w =
     (if \<not> fb_deleted buf then unlink_all touched w
      else (case io_call (unlink (fb_abs buf)) w of
              (None, w') \<Rightarrow> unlink_all touched w'
            | (Some e, w') \<Rightarrow>
                if io_kind e = IoNotFound then unlink_all touched w'
                else (Inl (internal_error (Msg ''removing'' [path, io_text e])), w')))"

definition complete_txn :: "'j recorder \<Rightarrow> int \<Rightarrow> ('j, unit) step" where
  "complete_txn rc txn_id w =
     (let (r, j) = rec_complete rc txn_id (w_journal w) in (r, w\<lparr>w_journal := j\<rparr>))"

definition journal_leaks ::
  "'j recorder \<Rightarrow> rstr \<Rightarrow> rroot \<Rightarrow> edit_request \<Rightarrow> leak_findings \<Rightarrow> int \<Rightarrow> 'j world \<Rightarrow> 'j world" where
  "journal_leaks rc author base req lf txn_id w =
     (if lf_applied lf = [] then w
      else w\<lparr>w_journal :=
           rec_leak_events rc author base
             (map (\<lambda>(p, action, m). mk_leak_event p action m (Some txn_id) (er_intent req)) (lf_applied lf))
             (w_journal w)\<rparr>)"

definition commit ::
  "crates \<Rightarrow> 'j recorder \<Rightarrow> rroot \<Rightarrow> rstr \<Rightarrow> edit_request \<Rightarrow> plan \<Rightarrow> ('j, int) step" where
  "commit ck rc base author req pl =
     bind_step (stage_all base (pl_touched pl) []) (\<lambda>staged.
     bind_step (begin_txn rc author req base (map (record_of ck) (pl_touched pl)) staged) (\<lambda>txn_id.
     bind_step (promote_all staged) (\<lambda>_.
     bind_step (unlink_all (pl_touched pl)) (\<lambda>_.
     bind_step (complete_txn rc txn_id) (\<lambda>_ w.
     (Inr txn_id, journal_leaks rc author base req (pl_leaks pl) txn_id w))))))"

definition outcome_of :: "plan \<Rightarrow> int option \<Rightarrow> edit_outcome" where
  "outcome_of pl txn_id =
     \<lparr>eo_txn_id = txn_id, eo_files = pl_files pl, eo_diff = pl_diff pl, eo_applied = (txn_id \<noteq> None),
      eo_warnings = pl_warnings pl\<rparr>"

definition apply_inner ::
  "crates \<Rightarrow> 'j recorder \<Rightarrow> rroot \<Rightarrow> edit_request \<Rightarrow> limits \<Rightarrow> rstr \<Rightarrow> ('j, edit_outcome) step" where
  "apply_inner ck rc base req lm author =
     bind_step (prepare ck rc base lm author req) (\<lambda>pl.
     if er_dry_run req then ret (outcome_of pl None)
     else bind_step (commit ck rc base author req pl) (\<lambda>txn_id. ret (outcome_of pl (Some txn_id))))"

definition apply_txn ::
  "crates \<Rightarrow> 'j recorder \<Rightarrow> rroot \<Rightarrow> edit_request \<Rightarrow> limits \<Rightarrow> rstr \<Rightarrow> ('j, edit_outcome) step" where
  "apply_txn ck rc base req lm author w =
     (case apply_inner ck rc base req lm author w of
        (Inr out, w') \<Rightarrow> (Inr out, w')
      | (Inl e, w') \<Rightarrow>
          (Inl e,
           if er_dry_run req then w'
           else w'\<lparr>w_journal :=
                rec_fail rc
                  \<lparr>fx_author = author, fx_intent = er_intent req, fx_root = base,
                   fx_paths = map op_path (er_ops req), fx_error = e\<rparr>
                  (w_journal w')\<rparr>))"

end
