(* ===== verification/Kaed_Engine_Facts.thy ===== *)
theory Kaed_Engine_Facts
  imports Kaed_Engine
begin

text \<open>
  What a transaction can touch. Facts on the IO steps come first (what each leaves alone), then
  the shape every operation has on the buffers, then the phases: preparing changes nothing,
  staging only adds, and every path that is ever written lies strictly under the root.
\<close>

section \<open>Steps\<close>

lemma bind_step_Inr:
  "bind_step m f w = (Inr y, w'') \<longleftrightarrow> (\<exists>x w'. m w = (Inr x, w') \<and> f x w' = (Inr y, w''))"
  by (auto simp: bind_step_def split: prod.splits sum.splits)

lemma bind_step_Inl:
  "bind_step m f w = (Inl e, w'') \<longleftrightarrow>
     m w = (Inl e, w'') \<or> (\<exists>x w'. m w = (Inr x, w') \<and> f x w' = (Inl e, w''))"
  by (auto simp: bind_step_def split: prod.splits sum.splits)

lemma bind_step_lift [simp]:
  "bind_step (lift_res (Inl e)) f w = (Inl e, w)"
  "bind_step (lift_res (Inr x)) f w = f x w"
  by (simp_all add: bind_step_def lift_res_def)

text \<open>A relation between the worlds before and after that steps keep whatever they return.\<close>

definition keeps :: "('j world \<Rightarrow> 'j world \<Rightarrow> bool) \<Rightarrow> ('j, 'a) step \<Rightarrow> bool" where
  "keeps R m \<longleftrightarrow> (\<forall>w. R w (snd (m w)))"

lemma keeps_bind:
  assumes "transp R" "keeps R m" "\<And>x. keeps R (f x)"
  shows "keeps R (bind_step m f)"
  unfolding keeps_def
proof
  fix w
  obtain r w' where m: "m w = (r, w')" by (cases "m w")
  with assms(2) have "R w w'" by (metis keeps_def snd_conv)
  moreover have "R w' (snd (f x w'))" for x using assms(3) by (simp add: keeps_def)
  ultimately show "R w (snd (bind_step m f w))"
    using assms(1) m by (cases r) (auto simp: bind_step_def dest: transpD)
qed

section \<open>Which nodes change\<close>

text \<open>Only nodes strictly below \<open>d\<close> differ, and none of the directories above changed.\<close>

definition below :: "path \<Rightarrow> 'j world \<Rightarrow> 'j world \<Rightarrow> bool" where
  "below d w w' \<longleftrightarrow> (\<forall>p. \<not> strict_prefix d p \<longrightarrow> fs_nodes (w_fs w') p = fs_nodes (w_fs w) p)"

lemma below_refl [simp]: "below d w w"
  by (simp add: below_def)

lemma below_trans: "below d w w' \<Longrightarrow> below d w' w'' \<Longrightarrow> below d w w''"
  by (simp add: below_def)

lemma transp_below: "transp (below d)"
  by (rule transpI) (rule below_trans)

lemma below_real_dir: "below d w w' \<Longrightarrow> real_dir (w_fs w) d \<Longrightarrow> real_dir (w_fs w') d"
  unfolding real_dir_def below_def node_at_def
  by (metis prefix_order.dual_order.strict_trans1 prefix_order.less_irrefl)

text \<open>Every node there was is still there, as it was.\<close>

definition extends :: "'j world \<Rightarrow> 'j world \<Rightarrow> bool" where
  "extends w w' \<longleftrightarrow> (\<forall>p nd. fs_nodes (w_fs w) p = Some nd \<longrightarrow> fs_nodes (w_fs w') p = Some nd)"

lemma extends_refl [simp]: "extends w w"
  by (simp add: extends_def)

lemma extends_trans: "extends w w' \<Longrightarrow> extends w' w'' \<Longrightarrow> extends w w''"
  by (simp add: extends_def)

lemma set_node_at: "p \<noteq> [] \<Longrightarrow> node_at (set_node p nd fs) q = (if q = p then Some nd else node_at fs q)"
  by (simp add: node_at_def set_node_def)

lemma fs_nodes_simps [simp]:
  "fs_nodes (set_node p nd fs) = (fs_nodes fs)(p \<mapsto> nd)"
  "fs_nodes (remove_node p fs) = (fs_nodes fs)(p := None)"
  "fs_nodes (new_dir p fs) = (fs_nodes fs)(p \<mapsto> DirN)"
  by (simp_all add: set_node_def remove_node_def new_dir_def)

lemma io_call_cases:
  assumes "io_call act w = (r, w')"
  obtains e where "r = Some e" "w_fs w' = w_fs w" "w_journal w' = w_journal w"
  | fs' where "act (w_fs w) = (r, fs')" "w_fs w' = fs'" "w_journal w' = w_journal w"
  using assms by (auto simp: io_call_def tick_def split: list.splits prod.splits option.splits)

lemma io_step_cases:
  assumes "io_step act w = (r, w')"
  obtains e where "r = Inl e" "w_fs w' = w_fs w" "w_journal w' = w_journal w"
  | e fs' where "r = Inl (from_io e)" "act (w_fs w) = (Some e, fs')" "w_fs w' = fs'" "w_journal w' = w_journal w"
  | fs' where "r = Inr ()" "act (w_fs w) = (None, fs')" "w_fs w' = fs'" "w_journal w' = w_journal w"
proof -
  obtain x w1 where c: "io_call act w = (x, w1)" by (cases "io_call act w")
  with assms have r: "r = (case x of Some e \<Rightarrow> Inl (from_io e) | None \<Rightarrow> Inr ())" "w' = w1"
    by (auto simp: io_step_def split: option.splits)
  from c show thesis
  proof (cases rule: io_call_cases)
    case (1 e)
    with r that(1) show thesis by simp
  next
    case (2 fs')
    with r that(2,3) show thesis by (cases x) auto
  qed
qed

lemma mkdirs_nodes:
  "mkdirs d cs fs = (r, fs') \<Longrightarrow>
     (\<forall>p. fs_nodes fs p \<noteq> None \<longrightarrow> fs_nodes fs' p = fs_nodes fs p) \<and>
     (\<forall>p. fs_nodes fs' p \<noteq> fs_nodes fs p \<longrightarrow> prefix p (d @ cs) \<and> strict_prefix d p \<and> fs_nodes fs' p = Some DirN)"
proof (induction d cs fs arbitrary: r fs' rule: mkdirs.induct)
  case (2 d c cs fs)
  have sub: "prefix p ((d @ [c]) @ cs) \<and> strict_prefix (d @ [c]) p \<Longrightarrow> prefix p (d @ c # cs) \<and> strict_prefix d p" for p
    by (auto simp: strict_prefix_def dest: append_prefixD)
  show ?case
  proof (cases "node_at fs (d @ [c])")
    case None
    show ?thesis
    proof (cases "fs_write fs d")
      case True
      with 2(3) None have "mkdirs (d @ [c]) cs (new_dir (d @ [c]) fs) = (r, fs')" by simp
      from "2.IH"(1)[OF None True this]
      have I: "\<forall>p. fs_nodes (new_dir (d @ [c]) fs) p \<noteq> None \<longrightarrow> fs_nodes fs' p = fs_nodes (new_dir (d @ [c]) fs) p"
        "\<forall>p. fs_nodes fs' p \<noteq> fs_nodes (new_dir (d @ [c]) fs) p \<longrightarrow> prefix p ((d @ [c]) @ cs) \<and> strict_prefix (d @ [c]) p
          \<and> fs_nodes fs' p = Some DirN"
        by blast+
      have none: "fs_nodes fs (d @ [c]) = None" using None by (simp add: node_at_def)
      have made: "fs_nodes fs' (d @ [c]) = Some DirN" using I(1) by simp
      show ?thesis
      proof (intro conjI allI impI)
        fix p assume "fs_nodes fs p \<noteq> None"
        with none have "p \<noteq> d @ [c]" by auto
        with I(1) \<open>fs_nodes fs p \<noteq> None\<close> show "fs_nodes fs' p = fs_nodes fs p" by simp
      next
        fix p assume "fs_nodes fs' p \<noteq> fs_nodes fs p"
        then have "p = d @ [c] \<or> fs_nodes fs' p \<noteq> fs_nodes (new_dir (d @ [c]) fs) p" by auto
        with I(2) sub[of p] made show "prefix p (d @ c # cs)" "strict_prefix d p" "fs_nodes fs' p = Some DirN"
          by (auto simp: strict_prefix_def)
      qed
    next
      case False
      with 2(3) None show ?thesis by simp
    qed
  next
    case (Some nd)
    with 2(3) "2.IH"(2)[OF Some] sub show ?thesis by (cases nd) auto
  qed
qed simp

text \<open>
  Staging: whatever happens, every node there was stays, and what is new lies below a real
  directory that the destination lies strictly below. When it succeeds the temp holds the
  content and was not there before.
\<close>

lemma open_new_nodes:
  "open_new p fs = (r, fs') \<Longrightarrow>
     (r = None \<longrightarrow> p \<noteq> [] \<and> fs_nodes fs p = None \<and> fs_nodes fs' = (fs_nodes fs)(p \<mapsto> FileN [] CREATE_MODE)) \<and>
     (r \<noteq> None \<longrightarrow> fs' = fs)"
  by (auto simp: open_new_def node_at_def split: if_splits)

lemma write_all_nodes:
  assumes "write_all p c fs = (r, fs')" "p \<noteq> []" "fs_nodes fs p = Some (FileN b m)"
  shows "r = None \<and> fs_nodes fs' = (fs_nodes fs)(p \<mapsto> FileN c m)"
  using assms by (auto simp: write_all_def node_at_def)

lemma set_permissions_nodes:
  assumes "set_permissions p md fs = (r, fs')" "p \<noteq> []" "fs_nodes fs p = Some (FileN b m)"
  shows "r = None \<and> fs_nodes fs' = (fs_nodes fs)(p \<mapsto> FileN b md)"
  using assms by (auto simp: set_permissions_def node_at_def)

text \<open>The world in which the temp is open: everything old is there, the temp is a new file.\<close>

definition opened :: "path \<Rightarrow> path \<Rightarrow> 'j world \<Rightarrow> 'j world \<Rightarrow> bool" where
  "opened dest tmp w w' \<longleftrightarrow>
     extends w w' \<and> w_journal w' = w_journal w \<and>
     fs_nodes (w_fs w) tmp = None \<and> (\<exists>b m. fs_nodes (w_fs w') tmp = Some (FileN b m)) \<and>
     (\<forall>p. fs_nodes (w_fs w') p \<noteq> fs_nodes (w_fs w) p \<longrightarrow> p = tmp \<or> (prefix p (butlast dest) \<and> p \<noteq> [] \<and> fs_nodes (w_fs w') p = Some DirN))"

lemma opened_update:
  assumes "opened dest tmp w w'" "fs_nodes (w_fs w'') = (fs_nodes (w_fs w'))(tmp \<mapsto> FileN b m)"
    "w_journal w'' = w_journal w'"
  shows "opened dest tmp w w''"
  using assms by (auto simp: opened_def extends_def)

lemma opened_same:
  "opened dest tmp w w' \<Longrightarrow> w_fs w'' = w_fs w' \<Longrightarrow> w_journal w'' = w_journal w' \<Longrightarrow> opened dest tmp w w''"
  by (simp add: opened_def extends_def)

definition tmp_of :: "path \<Rightarrow> 'j world \<Rightarrow> path" where
  "tmp_of dest w = butlast dest @ [tmp_name (last dest) (w_pid w) (w_seq w)]"

lemma io_call_frame: "io_call act w = (r, w') \<Longrightarrow> w_pid w' = w_pid w \<and> w_seq w' = w_seq w"
  by (auto simp: io_call_def tick_def split: list.splits prod.splits option.splits)

lemma io_step_frame: "io_step act w = (r, w') \<Longrightarrow> w_pid w' = w_pid w \<and> w_seq w' = w_seq w"
  using io_call_frame by (fastforce simp: io_step_def split: prod.splits option.splits)

text \<open>The part of staging up to the open temp.\<close>

definition stage_open :: "path \<Rightarrow> ('j, path) step" where
  "stage_open dest =
     bind_step (io_step (mkdirs [] (butlast dest))) (\<lambda>_.
     bind_step (next_tmp dest) (\<lambda>tmp.
     bind_step (io_step (open_new tmp)) (\<lambda>_. ret tmp)))"

lemma bind_assoc: "bind_step (bind_step m f) g = bind_step m (\<lambda>x. bind_step (f x) g)"
  by (auto simp: bind_step_def fun_eq_iff split: prod.splits sum.splits)

lemma bind_ret [simp]: "bind_step (ret x) f = f x"
  by (simp add: bind_step_def ret_def fun_eq_iff)

lemma stage_alt:
  "dest \<noteq> [] \<Longrightarrow> stage dest content mode =
     bind_step (stage_open dest) (\<lambda>tmp.
     bind_step (io_step (write_all tmp content)) (\<lambda>_.
     bind_step (io_step (set_permissions tmp mode)) (\<lambda>_.
     bind_step (io_step no_effect) (\<lambda>_. ret \<lparr>st_tmp = tmp, st_dest = dest\<rparr>))))"
  by (simp add: stage_def stage_open_def bind_assoc)

definition only_dirs :: "path \<Rightarrow> 'j world \<Rightarrow> 'j world \<Rightarrow> bool" where
  "only_dirs dest w w' \<longleftrightarrow>
     extends w w' \<and> w_journal w' = w_journal w \<and>
     (\<forall>p. fs_nodes (w_fs w') p \<noteq> fs_nodes (w_fs w) p \<longrightarrow>
        prefix p (butlast dest) \<and> p \<noteq> [] \<and> fs_nodes (w_fs w') p = Some DirN)"

lemma mkdirs_step:
  assumes "io_step (mkdirs [] (butlast dest)) w = (r, w')"
  shows "only_dirs dest w w'"
  using assms
proof (cases rule: io_step_cases)
  case 1
  then show ?thesis by (simp add: only_dirs_def extends_def)
next
  case (2 e fs')
  then show ?thesis using mkdirs_nodes[OF 2(2)]
    by (auto simp: only_dirs_def extends_def strict_prefix_def)
next
  case (3 fs')
  then show ?thesis using mkdirs_nodes[OF 3(2)]
    by (auto simp: only_dirs_def extends_def strict_prefix_def)
qed

lemma stage_open_cases:
  assumes "stage_open dest w = (r, w')"
  obtains e where "r = Inl e" "only_dirs dest w w'"
  | tmp where "r = Inr tmp" "tmp = tmp_of dest w" "opened dest tmp w w'" "tmp \<noteq> []" "w_seq w' = Suc (w_seq w)"
proof -
  obtain r1 w1 where m: "io_step (mkdirs [] (butlast dest)) w = (r1, w1)"
    by (cases "io_step (mkdirs [] (butlast dest)) w")
  note d = mkdirs_step[OF m] and fr = io_step_frame[OF m]
  show thesis
  proof (cases r1)
    case (Inl e)
    with assms m d that(1) show thesis by (auto simp: stage_open_def bind_step_def)
  next
    case (Inr u)
    let ?tmp = "tmp_of dest w"
    let ?w2 = "w1\<lparr>w_seq := Suc (w_seq w)\<rparr>"
    have nt: "next_tmp dest w1 = (Inr ?tmp, ?w2)" using fr by (simp add: next_tmp_def tmp_of_def)
    obtain r3 w3 where o: "io_step (open_new ?tmp) ?w2 = (r3, w3)" by (cases "io_step (open_new ?tmp) ?w2")
    have res: "(r, w') = (case r3 of Inl e \<Rightarrow> (Inl e, w3) | Inr _ \<Rightarrow> (Inr ?tmp, w3))"
      using assms m Inr nt o by (auto simp: stage_open_def bind_step_def ret_def split: sum.splits)
    from o show thesis
    proof (cases rule: io_step_cases)
      case (1 e)
      with res d that(1) show thesis by (simp add: only_dirs_def extends_def)
    next
      case (2 e fs')
      with open_new_nodes[OF 2(2)] res d that(1) show thesis by (simp add: only_dirs_def extends_def)
    next
      case (3 fs')
      with open_new_nodes[OF 3(2)] have "?tmp \<noteq> []" "fs_nodes (w_fs w1) ?tmp = None"
        "fs_nodes (w_fs w3) = (fs_nodes (w_fs w1))(?tmp \<mapsto> FileN [] CREATE_MODE)" by auto
      moreover from d this have "fs_nodes (w_fs w) ?tmp = None"
        by (cases "fs_nodes (w_fs w) ?tmp") (auto simp: only_dirs_def extends_def)
      ultimately have "opened dest ?tmp w w3" using d 3(4)
        by (auto simp: opened_def only_dirs_def extends_def)
      with res 3(1) that(2) \<open>?tmp \<noteq> []\<close> io_step_frame[OF o] show thesis by simp
    qed
  qed
qed

lemma write_step_opened:
  assumes "opened dest tmp w w1" "tmp \<noteq> []"
    and "io_step (write_all tmp c) w1 = (r, w2) \<or> io_step (set_permissions tmp md) w1 = (r, w2)
      \<or> io_step no_effect w1 = (r, w2)"
  shows "opened dest tmp w w2"
proof -
  from assms(1) obtain b m where f: "fs_nodes (w_fs w1) tmp = Some (FileN b m)" by (auto simp: opened_def)
  from assms(3) obtain act where act: "io_step act w1 = (r, w2)"
    "act = write_all tmp c \<or> act = set_permissions tmp md \<or> act = no_effect" by auto
  from act(1) show ?thesis
  proof (cases rule: io_step_cases)
    case 1
    with assms(1) opened_same show ?thesis by blast
  next
    case (2 e fs')
    have "e \<noteq> e'" if "act (w_fs w1) = (Some e', fs')" for e'
      using act(2) that write_all_nodes[OF _ assms(2) f, of c "Some e'" fs']
        set_permissions_nodes[OF _ assms(2) f, of md "Some e'" fs']
      by (auto simp: no_effect_def)
    with 2(2) show ?thesis by blast
  next
    case (3 fs')
    then consider "fs_nodes (w_fs w2) = (fs_nodes (w_fs w1))(tmp \<mapsto> FileN c m)"
      | "fs_nodes (w_fs w2) = (fs_nodes (w_fs w1))(tmp \<mapsto> FileN b md)" | "w_fs w2 = w_fs w1"
      using act(2) write_all_nodes[OF _ assms(2) f, of c None fs']
        set_permissions_nodes[OF _ assms(2) f, of md None fs']
      by (auto simp: no_effect_def)
    then show ?thesis using opened_update[OF assms(1)] opened_same[OF assms(1)] 3(4) by cases auto
  qed
qed

lemma no_effect_step: "io_step no_effect w = (r, w') \<Longrightarrow> w_fs w' = w_fs w \<and> w_journal w' = w_journal w"
  by (erule io_step_cases) (auto simp: no_effect_def)

lemma write_step_Inr:
  assumes "io_step (write_all tmp c) w1 = (Inr (), w2)" "tmp \<noteq> []" "fs_nodes (w_fs w1) tmp = Some (FileN b m)"
  shows "fs_nodes (w_fs w2) tmp = Some (FileN c m)"
  using assms(1)
proof (cases rule: io_step_cases)
  case (3 fs')
  with write_all_nodes[OF 3(2) assms(2,3)] show ?thesis by simp
qed simp_all

lemma perm_step_Inr:
  assumes "io_step (set_permissions tmp md) w1 = (Inr (), w2)" "tmp \<noteq> []" "fs_nodes (w_fs w1) tmp = Some (FileN c m)"
  shows "fs_nodes (w_fs w2) tmp = Some (FileN c md)"
  using assms(1)
proof (cases rule: io_step_cases)
  case (3 fs')
  with set_permissions_nodes[OF 3(2) assms(2,3)] show ?thesis by simp
qed simp_all

text \<open>What a staging that stopped may have left: directories above the destination, and its temp.\<close>

definition staged_traces :: "path \<Rightarrow> 'j world \<Rightarrow> 'j world \<Rightarrow> bool" where
  "staged_traces dest w w' \<longleftrightarrow>
     extends w w' \<and> w_journal w' = w_journal w \<and>
     (\<forall>p. fs_nodes (w_fs w') p \<noteq> fs_nodes (w_fs w) p \<longrightarrow>
        p = tmp_of dest w \<or> (prefix p (butlast dest) \<and> p \<noteq> [] \<and> fs_nodes (w_fs w') p = Some DirN))"

lemma opened_traces: "opened dest (tmp_of dest w) w w' \<Longrightarrow> staged_traces dest w w'"
  by (simp add: opened_def staged_traces_def)

lemma stage_cases:
  assumes "stage dest c md w = (r, w')"
  obtains e where "r = Inl e" "staged_traces dest w w'"
  | "r = Inr \<lparr>st_tmp = tmp_of dest w, st_dest = dest\<rparr>" "staged_traces dest w w'" "dest \<noteq> []"
    "fs_nodes (w_fs w) (tmp_of dest w) = None" "fs_nodes (w_fs w') (tmp_of dest w) = Some (FileN c md)"
proof (cases "dest = []")
  case True
  with assms that(1) show thesis by (auto simp: stage_def staged_traces_def)
next
  case False
  obtain r1 w1 where o: "stage_open dest w = (r1, w1)" by (cases "stage_open dest w")
  from o show thesis
  proof (cases rule: stage_open_cases)
    case (1 e)
    with assms o False that(1) show thesis
      by (auto simp: stage_alt bind_step_def only_dirs_def staged_traces_def)
  next
    case (2 tmp)
    obtain r2 w2 where wr: "io_step (write_all tmp c) w1 = (r2, w2)" by (cases "io_step (write_all tmp c) w1")
    obtain r3 w3 where pm: "io_step (set_permissions tmp md) w2 = (r3, w3)" by (cases "io_step (set_permissions tmp md) w2")
    obtain r4 w4 where ne: "io_step no_effect w3 = (r4, w4)" by (cases "io_step no_effect w3")
    have o2: "opened dest tmp w w2" using write_step_opened[OF 2(3,4)] wr by blast
    have o3: "opened dest tmp w w3" using write_step_opened[OF o2 2(4)] pm by blast
    have o4: "opened dest tmp w w4" using write_step_opened[OF o3 2(4)] ne by blast
    have run: "(r, w') = (case r2 of Inl e \<Rightarrow> (Inl e, w2) | Inr _ \<Rightarrow> (case r3 of Inl e \<Rightarrow> (Inl e, w3)
        | Inr _ \<Rightarrow> (case r4 of Inl e \<Rightarrow> (Inl e, w4) | Inr _ \<Rightarrow> (Inr \<lparr>st_tmp = tmp, st_dest = dest\<rparr>, w4))))"
      using assms o 2(1) wr pm ne False
      by (auto simp: stage_alt bind_step_def ret_def split: sum.splits)
    show thesis
    proof (cases "\<exists>e. r2 = Inl e \<or> r3 = Inl e \<or> r4 = Inl e")
      case True
      then have "\<exists>e. r = Inl e" "w' = w2 \<or> w' = w3 \<or> w' = w4" using run by (auto split: sum.splits)
      then show thesis using that(1) o2 o3 o4 2(2) opened_traces by blast
    next
      case False
      then have ok: "r2 = Inr ()" "r3 = Inr ()" "r4 = Inr ()"
        by (metis old.sum.exhaust old.unit.exhaust)+
      from 2(3) obtain b m where f: "fs_nodes (w_fs w1) tmp = Some (FileN b m)"
        and new: "fs_nodes (w_fs w) tmp = None" by (auto simp: opened_def)
      have "fs_nodes (w_fs w4) tmp = Some (FileN c md)"
        using perm_step_Inr[OF _ 2(4) write_step_Inr[OF _ 2(4) f]] wr pm ok no_effect_step[OF ne] by simp
      moreover have "staged_traces dest w w4" using opened_traces o4 2(2) by blast
      ultimately show thesis using that(2) run ok 2(2) new \<open>dest \<noteq> []\<close> by simp
    qed
  qed
qed

text \<open>Staging below a real directory changes nothing outside of it.\<close>

lemma traces_below:
  assumes "staged_traces dest w w'" "real_dir (w_fs w) d" "prefix d (butlast dest)"
  shows "below d w w'"
  unfolding below_def
proof (intro allI impI)
  fix p assume p: "\<not> strict_prefix d p"
  show "fs_nodes (w_fs w') p = fs_nodes (w_fs w) p"
  proof (rule ccontr)
    assume ch: "fs_nodes (w_fs w') p \<noteq> fs_nodes (w_fs w) p"
    with assms(1) consider "p = tmp_of dest w" | "prefix p (butlast dest)" "p \<noteq> []"
      by (auto simp: staged_traces_def)
    then show False
    proof cases
      case 1
      then have "strict_prefix d p" using assms(3) by (auto simp: tmp_of_def strict_prefix_def)
      with p show False by simp
    next
      case 2
      with assms(3) p have "prefix p d"
        by (metis prefix_same_cases strict_prefix_def)
      with assms(2) 2(2) have "fs_nodes (w_fs w) p = Some DirN"
        by (auto simp: real_dir_def node_at_def split: if_splits)
      with assms(1) ch show False by (auto simp: staged_traces_def extends_def)
    qed
  qed
qed

section \<open>Discarding, promoting, unlinking\<close>

lemma unlink_nodes:
  "unlink p fs = (r, fs') \<Longrightarrow> (r = None \<longrightarrow> fs_nodes fs' = (fs_nodes fs)(p := None)) \<and> (r \<noteq> None \<longrightarrow> fs' = fs)"
  by (auto simp: unlink_def split: option.splits node.splits if_splits)

lemma unlink_call:
  assumes "io_call (unlink p) w = (r, w')"
  shows "w_journal w' = w_journal w" "q \<noteq> p \<Longrightarrow> fs_nodes (w_fs w') q = fs_nodes (w_fs w) q"
    "r = None \<Longrightarrow> fs_nodes (w_fs w') p = None"
  using assms unlink_nodes by (auto elim!: io_call_cases) fastforce+

lemma discard_facts:
  "w_journal (discard s w) = w_journal w"
  "q \<noteq> st_tmp s \<Longrightarrow> fs_nodes (w_fs (discard s w)) q = fs_nodes (w_fs w) q"
proof -
  obtain r w' where "io_call (unlink (st_tmp s)) w = (r, w')" by (cases "io_call (unlink (st_tmp s)) w")
  then show "w_journal (discard s w) = w_journal w"
    "q \<noteq> st_tmp s \<Longrightarrow> fs_nodes (w_fs (discard s w)) q = fs_nodes (w_fs w) q"
    using unlink_call by (simp_all add: discard_def)
qed

lemma discards_journal: "w_journal (fold discard ss w) = w_journal w"
  by (induction ss arbitrary: w) (simp_all add: discard_facts)

lemma discards_nodes:
  "q \<notin> st_tmp ` set ss \<Longrightarrow> fs_nodes (w_fs (fold discard ss w)) q = fs_nodes (w_fs w) q"
  by (induction ss arbitrary: w) (simp_all add: discard_facts)

lemma rename_nodes:
  "rename_node src dest fs = (r, fs') \<Longrightarrow>
     (r = None \<longrightarrow> (\<exists>nd. node_at fs src = Some nd \<and> fs_nodes fs' = (fs_nodes fs)(src := None, dest \<mapsto> nd))) \<and>
     (r \<noteq> None \<longrightarrow> fs' = fs)"
  by (auto simp: rename_node_def split: option.splits if_splits)

lemma promote_cases:
  assumes "promote s w = (r, w')"
  obtains e where "r = Inl e" "fs_nodes (w_fs w') = fs_nodes (w_fs w)" "w_journal w' = w_journal w"
  | nd where "node_at (w_fs w) (st_tmp s) = Some nd" "w_journal w' = w_journal w"
    "fs_nodes (w_fs w') = (fs_nodes (w_fs w))(st_tmp s := None, st_dest s \<mapsto> nd)"
proof -
  obtain r1 w1 where m: "io_step (rename_node (st_tmp s) (st_dest s)) w = (r1, w1)"
    by (cases "io_step (rename_node (st_tmp s) (st_dest s)) w")
  obtain r2 w2 where n: "io_step no_effect w1 = (r2, w2)" by (cases "io_step no_effect w1")
  note f = no_effect_step[OF n]
  from m show thesis
  proof (cases rule: io_step_cases)
    case (1 e)
    with assms m that(1) show thesis by (auto simp: promote_def bind_step_def)
  next
    case (2 e fs')
    with assms m that(1) rename_nodes[OF 2(2)] show thesis by (auto simp: promote_def bind_step_def)
  next
    case (3 fs')
    with rename_nodes[OF 3(2)] obtain nd where nd: "node_at (w_fs w) (st_tmp s) = Some nd"
      "fs_nodes fs' = (fs_nodes (w_fs w))(st_tmp s := None, st_dest s \<mapsto> nd)" by auto
    have "w' = w2" using assms m 3(1) n by (auto simp: promote_def bind_step_def)
    with f 3 nd that(2) show thesis by simp
  qed
qed

section \<open>Staging all files of a transaction\<close>

definition staged_ok :: "'j world \<Rightarrow> 'j world \<Rightarrow> staged_file list \<Rightarrow> bool" where
  "staged_ok w0 w staged \<longleftrightarrow>
     extends w0 w \<and> w_journal w = w_journal w0 \<and> (\<forall>s\<in>set staged. fs_nodes (w_fs w0) (st_tmp s) = None)"

lemma staged_ok_step:
  assumes "staged_ok w0 w staged" "staged_traces dest w w1"
  shows "staged_ok w0 w1 staged"
  using assms extends_trans by (auto simp: staged_ok_def staged_traces_def)

lemma discards_ok:
  assumes "staged_ok w0 w staged"
  shows "extends w0 (fold discard staged w)" "w_journal (fold discard staged w) = w_journal w0"
proof -
  show "extends w0 (fold discard staged w)"
    unfolding extends_def
  proof (intro allI impI)
    fix p nd assume p: "fs_nodes (w_fs w0) p = Some nd"
    then have "p \<notin> st_tmp ` set staged" using assms by (auto simp: staged_ok_def)
    with discards_nodes have "fs_nodes (w_fs (fold discard staged w)) p = fs_nodes (w_fs w) p" by blast
    with assms p show "fs_nodes (w_fs (fold discard staged w)) p = Some nd"
      by (simp add: staged_ok_def extends_def)
  qed
  show "w_journal (fold discard staged w) = w_journal w0"
    using assms by (simp add: discards_journal staged_ok_def)
qed

lemma stage_all_Cons:
  assumes "stage_all base ((path, buf) # touched) staged w = (r, w')" "\<not> fb_deleted buf"
  obtains s w1 where "stage (fb_abs buf) (fb_content buf) (perm_bits (fb_mode buf)) w = (Inr s, w1)"
    "stage_all base touched (staged @ [s]) w1 = (r, w')"
  | e e' w1 where "stage (fb_abs buf) (fb_content buf) (perm_bits (fb_mode buf)) w = (Inl e, w1)"
    "r = Inl e'" "w' = fold discard staged w1"
  using assms by (auto simp: Let_def split: prod.splits sum.splits)

lemma stage_all_ok:
  assumes "stage_all base touched staged w = (r, w')" "staged_ok w0 w staged"
  shows "case r of Inl e \<Rightarrow> extends w0 w' \<and> w_journal w' = w_journal w0 | Inr ss \<Rightarrow> staged_ok w0 w' ss"
  using assms
proof (induction touched arbitrary: staged w)
  case Nil
  then show ?case by auto
next
  case (Cons pb touched)
  obtain path buf where pb: "pb = (path, buf)" by (cases pb)
  show ?case
  proof (cases "fb_deleted buf")
    case True
    with Cons pb show ?thesis by simp
  next
    case False
    from Cons.prems(1)[unfolded pb] False show ?thesis
    proof (cases rule: stage_all_Cons)
      case (1 s w1)
      from 1(1) have "staged_ok w0 w1 (staged @ [s])"
      proof (cases rule: stage_cases)
        case 2
        have "fs_nodes (w_fs w0) (tmp_of (fb_abs buf) w) = None"
          using 2(4) Cons.prems(2)
          by (cases "fs_nodes (w_fs w0) (tmp_of (fb_abs buf) w)") (auto simp: staged_ok_def extends_def)
        with staged_ok_step[OF Cons.prems(2) 2(2)] 2(1) show ?thesis by (auto simp: staged_ok_def)
      qed simp
      with Cons.IH 1(2) show ?thesis by blast
    next
      case (2 e e' w1)
      from 2(1) have "staged_ok w0 w1 staged"
        by (cases rule: stage_cases) (use staged_ok_step[OF Cons.prems(2)] in simp_all)
      from discards_ok[OF this] 2(2,3) show ?thesis by simp
    qed
  qed
qed

text \<open>The same below a real directory: everything staged lies strictly below it.\<close>

definition staged_below :: "path \<Rightarrow> staged_file list \<Rightarrow> bool" where
  "staged_below d staged \<longleftrightarrow> (\<forall>s\<in>set staged. strict_prefix d (st_tmp s) \<and> strict_prefix d (st_dest s))"

definition bufs_below :: "path \<Rightarrow> bufs \<Rightarrow> bool" where
  "bufs_below d touched \<longleftrightarrow> (\<forall>(p, b)\<in>set touched. strict_prefix d (fb_abs b))"

lemma strict_prefix_butlast: "strict_prefix d p \<Longrightarrow> prefix d (butlast p)"
  by (cases p rule: rev_cases) (auto simp: strict_prefix_def)

lemma tmp_of_below: "strict_prefix d dest \<Longrightarrow> strict_prefix d (tmp_of dest w)"
  using strict_prefix_butlast by (fastforce simp: tmp_of_def strict_prefix_def)

lemma discards_below: "staged_below d staged \<Longrightarrow> below d w (fold discard staged w)"
  unfolding below_def
proof (intro allI impI)
  fix p assume "staged_below d staged" "\<not> strict_prefix d p"
  then have "p \<notin> st_tmp ` set staged" by (auto simp: staged_below_def)
  then show "fs_nodes (w_fs (fold discard staged w)) p = fs_nodes (w_fs w) p" by (rule discards_nodes)
qed

lemma stage_all_below:
  assumes "stage_all base touched staged w = (r, w')" "real_dir (w_fs w) d"
    "bufs_below d touched" "staged_below d staged"
  shows "below d w w' \<and> (\<forall>ss. r = Inr ss \<longrightarrow> staged_below d ss)"
  using assms
proof (induction touched arbitrary: staged w)
  case Nil
  then show ?case by auto
next
  case (Cons pb touched)
  obtain path buf where pb: "pb = (path, buf)" by (cases pb)
  have b: "strict_prefix d (fb_abs buf)" "bufs_below d touched"
    using Cons.prems(3) pb by (auto simp: bufs_below_def)
  show ?case
  proof (cases "fb_deleted buf")
    case True
    with Cons.IH[OF _ Cons.prems(2) b(2) Cons.prems(4)] Cons.prems(1) pb show ?thesis by simp
  next
    case False
    from Cons.prems(1)[unfolded pb] False show ?thesis
    proof (cases rule: stage_all_Cons)
      case (1 s w1)
      from 1(1) have s: "below d w w1" "staged_below d (staged @ [s])"
        using traces_below[OF _ Cons.prems(2) strict_prefix_butlast[OF b(1)]] tmp_of_below[OF b(1)]
          Cons.prems(4) b(1)
        by (auto elim!: stage_cases simp: staged_below_def)
      from Cons.IH[OF 1(2) below_real_dir[OF s(1) Cons.prems(2)] b(2) s(2)] s(1) below_trans show ?thesis
        by blast
    next
      case (2 e e' w1)
      from 2(1) have "below d w w1"
        using traces_below[OF _ Cons.prems(2) strict_prefix_butlast[OF b(1)]] by (auto elim!: stage_cases)
      with discards_below[OF Cons.prems(4), of w1] 2(2,3) below_trans show ?thesis by blast
    qed
  qed
qed

lemma promote_all_below:
  assumes "promote_all staged w = (r, w')" "staged_below d staged"
  shows "below d w w' \<and> w_journal w' = w_journal w"
  using assms
proof (induction staged arbitrary: w)
  case (Cons s staged)
  obtain r1 w1 where p: "promote s w = (r1, w1)" by (cases "promote s w")
  from p have 1: "below d w w1" "w_journal w1 = w_journal w"
    using Cons.prems(2) by (auto elim!: promote_cases simp: below_def staged_below_def)
  show ?case
  proof (cases r1)
    case (Inl e)
    with Cons.prems(1) p 1 show ?thesis by (auto simp: bind_step_def)
  next
    case (Inr u)
    then have "promote_all staged w1 = (r, w')" using Cons.prems(1) p by (simp add: bind_step_def)
    with Cons.IH Cons.prems(2) 1 below_trans show ?thesis by (fastforce simp: staged_below_def)
  qed
qed simp

lemma unlink_all_below:
  assumes "unlink_all touched w = (r, w')" "bufs_below d touched"
  shows "below d w w' \<and> w_journal w' = w_journal w"
  using assms
proof (induction touched arbitrary: w)
  case (Cons pb touched)
  obtain path buf where pb: "pb = (path, buf)" by (cases pb)
  have b: "strict_prefix d (fb_abs buf)" "bufs_below d touched"
    using Cons.prems(2) pb by (auto simp: bufs_below_def)
  show ?case
  proof (cases "fb_deleted buf")
    case True
    obtain x w1 where u: "io_call (unlink (fb_abs buf)) w = (x, w1)" by (cases "io_call (unlink (fb_abs buf)) w")
    have 1: "below d w w1" "w_journal w1 = w_journal w"
      using unlink_call[OF u] b(1) unfolding below_def by auto
    from Cons.prems(1) pb True u have "unlink_all touched w1 = (r, w') \<or> w' = w1"
      by (auto split: option.splits if_splits)
    with Cons.IH[OF _ b(2)] 1 below_trans show ?thesis by metis
  qed (use Cons b pb in simp)
qed simp

end
