(* ===== verification/Kaed_Dotenv_Facts.thy ===== *)
theory Kaed_Dotenv_Facts
  imports Kaed_Dotenv
begin

text \<open>
  Facts about the dotenv component: parsing and rendering round-trip, which rendered entries
  parse back to themselves, what each typed operation changes and what it leaves alone, and
  what a redacted rendering can depend on.
\<close>

section \<open>Round trips\<close>

definition wf_line :: "line \<Rightarrow> bool" where
  "wf_line l \<longleftrightarrow> parse_line (l_raw l) = Some (l_kind l) \<and> nl \<notin> set (l_raw l)"

definition wf_file :: "dotenv_file \<Rightarrow> bool" where
  "wf_file f \<longleftrightarrow> (\<forall>l\<in>set (dlines f). wf_line l)"

lemma parse_lines_Some:
  "parse_lines rs = Some ls \<Longrightarrow>
     map l_raw ls = rs \<and> (\<forall>l\<in>set ls. parse_line (l_raw l) = Some (l_kind l))"
  by (induction rs arbitrary: ls) (fastforce split: option.splits)+

lemma parse_lines_complete:
  "\<forall>l\<in>set ls. parse_line (l_raw l) = Some (l_kind l) \<Longrightarrow> parse_lines (map l_raw ls) = Some ls"
  by (induction ls) auto

lemma parse_SomeD:
  assumes "parse c = Some f"
  shows "render f = c" and "wf_file f" and "trailing_newline f \<longleftrightarrow> c \<noteq> [] \<and> last c = nl"
proof -
  define t where "t = (c \<noteq> [] \<and> last c = nl)"
  define b where "b = (if t then butlast c else c)"
  have c: "b @ (if t then [nl] else []) = c"
    by (cases c rule: rev_cases) (auto simp: b_def t_def)
  have p: "map_option (\<lambda>ls. \<lparr>dlines = ls, trailing_newline = t\<rparr>)
      (if b \<noteq> [] \<or> t then parse_lines (split_on nl b) else Some []) = Some f"
    using assms unfolding parse_def Let_def t_def[symmetric] b_def[symmetric] .
  then obtain ls where
    ls: "(if b \<noteq> [] \<or> t then parse_lines (split_on nl b) else Some []) = Some ls"
    and f: "f = \<lparr>dlines = ls, trailing_newline = t\<rparr>"
    unfolding map_option_eq_Some by blast
  show "trailing_newline f \<longleftrightarrow> c \<noteq> [] \<and> last c = nl" by (simp only: f t_def dotenv_file.simps)
  show "render f = c"
  proof (cases "b \<noteq> [] \<or> t")
    case True
    with ls have "parse_lines (split_on nl b) = Some ls" by simp
    with c f show ?thesis by (simp add: render_def join_lines_def parse_lines_Some)
  next
    case False
    with ls c f show ?thesis by (simp add: render_def join_lines_def)
  qed
  show "wf_file f"
  proof (cases "b \<noteq> [] \<or> t")
    case True
    with ls have pl: "parse_lines (split_on nl b) = Some ls" by simp
    have "nl \<notin> set (l_raw l)" if "l \<in> set ls" for l
      using that parse_lines_Some[OF pl] split_on_free[of "l_raw l" nl b] by (metis image_eqI set_map)
    with f parse_lines_Some[OF pl] show ?thesis by (simp add: wf_file_def wf_line_def)
  next
    case False
    with ls f show ?thesis by (simp add: wf_file_def)
  qed
qed

text \<open>Rendering a well-formed file and parsing it again gives the file, but for two degenerate shapes.\<close>

lemma render_parse_id:
  assumes "wf_file f" and "dlines f \<noteq> []"
    and "trailing_newline f \<or> l_raw (last (dlines f)) \<noteq> []"
  shows "parse (render f) = Some f"
proof -
  let ?ws = "map l_raw (dlines f)"
  have sp: "split_on nl (join_with [nl] ?ws) = ?ws"
    using assms(1,2) by (intro split_join) (auto simp: wf_file_def wf_line_def)
  have pl: "parse_lines ?ws = Some (dlines f)"
    using assms(1) by (intro parse_lines_complete) (auto simp: wf_file_def wf_line_def)
  show ?thesis
  proof (cases "trailing_newline f")
    case True
    with sp pl show ?thesis by (simp add: parse_def render_def join_lines_def Let_def)
  next
    case False
    with assms(2,3) have ne: "last ?ws \<noteq> []" by (simp add: last_map)
    with assms(2) have l: "join_with [nl] ?ws \<noteq> [] \<and> last (join_with [nl] ?ws) = last (last ?ws)"
      by (intro join_last) auto
    have "nl \<notin> set (last ?ws)"
      using assms(1,2) by (auto simp: wf_file_def wf_line_def last_map)
    with ne l have "last (join_with [nl] ?ws) \<noteq> nl" by (metis last_in_set)
    with sp pl l False show ?thesis
      by (auto simp: parse_def render_def join_lines_def Let_def)
  qed
qed

section \<open>Which rendered entries parse back\<close>

lemma key_char_visible: "key_char c \<Longrightarrow> \<not> ascii_ws c \<and> byte c < 128"
  by (auto simp: key_char_def ascii_defs ascii_ws_def)

lemma valid_key_chars: "is_valid_key k \<Longrightarrow> c \<in> set k \<Longrightarrow> key_char c"
  by (auto simp: is_valid_key_def key_start_def key_char_def ascii_alnum_def split: list.splits)

lemma valid_key_nonempty: "is_valid_key k \<Longrightarrow> k \<noteq> []"
  by (auto simp: is_valid_key_def)

lemma not_key_chars:
  "\<not> key_char (CHR ''='')" "\<not> key_char (CHR '' '')" "\<not> key_char nl" "\<not> key_char (CHR ''@'')"
  "\<not> key_char (CHR ''#'')"
  by (simp_all add: key_char_def ascii_defs)

lemma trim_key:
  assumes "is_valid_key k"
  shows "trim_end k = k" and "trim_start (k @ s) = k @ s" and "trim k = k"
proof -
  obtain c cs where k: "k = c # cs" using assms valid_key_nonempty by (cases k) auto
  have c: "\<not> ascii_ws c" "byte c < 128" using assms k valid_key_chars key_char_visible by auto
  obtain d ds where r: "rev k = d # ds" using k by (cases "rev k") auto
  then have d: "d \<in> set k" by (metis list.set_intros(1) set_rev)
  with assms have "\<not> ascii_ws d" "byte d < 128" using valid_key_chars key_char_visible by auto
  with r show e: "trim_end k = k" by (simp add: trim_end_id ws_len_rev_start)
  from c k show "trim_start (k @ s) = k @ s" by (simp add: trim_start_id ws_len_start)
  with e show "trim k = k" using c k by (simp add: trim_def trim_start_id ws_len_start)
qed

lemma ph_safe_key: "is_valid_key k \<Longrightarrow> ph_safe k"
  using valid_key_chars valid_key_nonempty key_char_visible not_key_chars
  by (fastforce simp: ph_safe_def)

lemma replace_char_id: "c \<notin> set s \<Longrightarrow> replace_char c t s = s"
  by (induction s) (auto simp: replace_char_def)

lemma length_replace_char:
  "length (replace_char c t s) + count_list s c = length s + count_list s c * length t"
  by (induction s) (auto simp: replace_char_def)

lemma quote_for_render_parses:
  assumes "v \<noteq> []"
  shows "strip_quotes (trim (quote_for_render v)) =
    replace_char dquote [backslash, dquote] (replace_char backslash [backslash, backslash] v)"
proof (cases "needs_quotes v")
  case True
  let ?e = "replace_char dquote [backslash, dquote] (replace_char backslash [backslash, backslash] v)"
  have "trim (dquote # ?e @ [dquote]) = dquote # ?e @ [dquote]"
    by (rule trim_delimited) (simp_all add: ascii_ws_def in_range_def byte_def)
  with True show ?thesis by (simp add: quote_for_render_def strip_quotes_def)
next
  case False
  then have "trim v = v" by (intro trim_no_ws) (simp add: needs_quotes_def)
  moreover from False assms have "hd v \<noteq> dquote" "hd v \<noteq> squote"
    "dquote \<notin> set v" "backslash \<notin> set v"
    by (cases v; auto simp: needs_quotes_def)+
  ultimately show ?thesis using False
    by (simp add: quote_for_render_def strip_quotes_def replace_char_id)
qed

text \<open>What a reader of the written line gets back for a value: the escapes are never undone.\<close>

definition stored_value :: "rstr \<Rightarrow> rstr" where
  "stored_value v = replace_char dquote [backslash, dquote] (replace_char backslash [backslash, backslash] v)"

lemma count_replace_other: "c \<noteq> d \<Longrightarrow> c \<notin> set t \<Longrightarrow> count_list (replace_char d t s) c = count_list s c"
  by (induction s) (auto simp: replace_char_def)

lemma stored_value_id: "stored_value v = v \<longleftrightarrow> dquote \<notin> set v \<and> backslash \<notin> set v"
proof
  assume eq: "stored_value v = v"
  let ?w = "replace_char backslash [backslash, backslash] v"
  have "length ?w = length v + count_list v backslash"
    using length_replace_char[of backslash "[backslash, backslash]" v] by simp
  moreover have "length (stored_value v) = length ?w + count_list ?w dquote"
    using length_replace_char[of dquote "[backslash, dquote]" ?w] by (simp add: stored_value_def)
  moreover have "count_list ?w dquote = count_list v dquote"
    by (rule count_replace_other) simp_all
  ultimately show "dquote \<notin> set v \<and> backslash \<notin> set v"
    using eq by (simp add: count_list_0_iff)
qed (simp add: stored_value_def replace_char_id)

lemma not_export_prefix:
  assumes "is_valid_key k"
  shows "strip_prefix ''export '' (k @ CHR ''='' # q) = None"
proof (rule ccontr)
  assume "strip_prefix ''export '' (k @ CHR ''='' # q) \<noteq> None"
  then have t: "take 7 (k @ CHR ''='' # q) = ''export ''"
    by (simp add: strip_prefix_def numeral_eq_Suc split: if_splits)
  show False
  proof (cases "length k < 7")
    case True
    then obtain m where "7 - length k = Suc m" by (cases "7 - length k") auto
    then have "take 7 (k @ CHR ''='' # q) = take 7 k @ CHR ''='' # take m q" by simp
    then have "CHR ''='' \<in> set ''export ''" using t by (metis in_set_conv_decomp)
    then show False by simp
  next
    case False
    then have "take 7 k = ''export ''" using t by simp
    then have "CHR '' '' \<in> set (take 7 k)" by simp
    then have "CHR '' '' \<in> set k" by (rule in_set_takeD)
    then show False using assms valid_key_chars not_key_chars by blast
  qed
qed

lemma find_eq_key: "is_valid_key k \<Longrightarrow> find_char (CHR ''='') (k @ CHR ''='' # q) = Some (length k)"
  by (rule find_char_append) (use valid_key_chars not_key_chars in blast)

lemma parse_line_entry:
  assumes "is_valid_key k"
  shows "parse_line ((if ex then ''export '' else []) @ k @ CHR ''='' # q) =
    Some (Entry \<lparr>e_export = ex, e_key = k, e_value = strip_quotes (trim q)\<rparr>)"
proof -
  let ?r = "(if ex then ''export '' else []) @ k @ CHR ''='' # q"
  obtain c cs where k: "k = c # cs" using assms valid_key_nonempty by (cases k) auto
  have c: "\<not> ascii_ws c" "byte c < 128" "c \<noteq> CHR ''#''"
    using assms k valid_key_chars key_char_visible not_key_chars by fastforce+
  have e: "\<not> ascii_ws (CHR ''e'')" "byte (CHR ''e'') < 128"
    by (simp_all add: ascii_ws_def in_range_def byte_def)
  have "trim ?r \<noteq> []" using c(1,2) e k trim_visible by simp
  moreover have "\<not> starts_with ''#'' (trim_start ?r)"
    using c e k by (simp add: trim_start_id ws_len_start starts_with_def)
  moreover have "(case strip_prefix ''export '' ?r of Some q' \<Rightarrow> (True, trim_start q') | None \<Rightarrow> (False, ?r))
      = (ex, k @ CHR ''='' # q)"
    using strip_prefix_append[of "''export ''" "k @ CHR ''='' # q"]
    by (simp add: not_export_prefix[OF assms] trim_key[OF assms])
  ultimately show ?thesis
    using find_eq_key[OF assms, of q] assms
    by (simp add: parse_line_def Let_def trim_key)
qed

lemma parse_line_render_entry:
  assumes "is_valid_key (e_key e)"
  shows "parse_line (render_entry e) = Some (Entry (e\<lparr>e_value := stored_value (e_value e)\<rparr>))"
proof (cases "e_value e = []")
  case True
  then show ?thesis
    using parse_line_entry[OF assms, of "e_export e" "[]"]
    by (cases e) (simp add: render_entry_def export_str_def stored_value_def replace_char_def strip_quotes_def)
next
  case False
  then show ?thesis
    using parse_line_entry[OF assms, of "e_export e" "quote_for_render (e_value e)"]
      quote_for_render_parses[OF False]
    by (cases e) (simp add: render_entry_def export_str_def stored_value_def)
qed

text \<open>A written entry reads back as itself exactly when its value has no double quote and no backslash.\<close>

lemma render_entry_roundtrip:
  assumes "is_valid_key (e_key e)"
  shows "parse_line (render_entry e) = Some (Entry e) \<longleftrightarrow>
    dquote \<notin> set (e_value e) \<and> backslash \<notin> set (e_value e)"
  using parse_line_render_entry[OF assms] stored_value_id[of "e_value e"]
  by (cases e) auto

lemma render_entry_no_nl:
  assumes "is_valid_key (e_key e)" and "nl \<notin> set (e_value e)"
  shows "nl \<notin> set (render_entry e)"
proof -
  have r: "nl \<notin> set (replace_char c t s)" if "nl \<notin> set t" "nl \<notin> set s" for c t s
    using that by (induction s) (auto simp: replace_char_def)
  have "nl \<notin> set (quote_for_render (e_value e))"
    using assms(2) r by (simp add: quote_for_render_def)
  moreover have "nl \<notin> set (e_key e)" using assms(1) valid_key_chars not_key_chars by blast
  ultimately show ?thesis by (simp add: render_entry_def export_str_def)
qed

section \<open>What the operations do to the entries\<close>

lemma entries_of_simps [simp]:
  "entries_of [] = []"
  "entries_of (l # ls) = (case l_kind l of Entry e \<Rightarrow> e # entries_of ls | _ \<Rightarrow> entries_of ls)"
  by (auto simp: entries_of_def entry_of_def List.map_filter_simps split: line_kind.splits)

lemma entries_of_append [simp]: "entries_of (xs @ ys) = entries_of xs @ entries_of ys"
  by (induction xs) (auto split: line_kind.splits)

lemma entries_of_none: "\<forall>l\<in>set ls. entry_of l = None \<Longrightarrow> entries_of ls = []"
  by (induction ls) (auto simp: entry_of_def split: line_kind.splits)

lemma set_entries_of: "e \<in> set (entries_of ls) \<longleftrightarrow> (\<exists>l\<in>set ls. l_kind l = Entry e)"
  by (induction ls) (auto split: line_kind.splits)

lemma entries_of_comment_lines [simp]: "entries_of (comment_lines c) = []"
  by (rule entries_of_none) (auto simp: comment_lines_def entry_of_def)

lemma position_Some:
  "position P xs = Some i \<longleftrightarrow> i < length xs \<and> P (xs ! i) \<and> (\<forall>j<i. \<not> P (xs ! j))"
proof (induction xs arbitrary: i)
  case (Cons x xs)
  then show ?case by (cases i) (auto simp: nth_Cons' less_Suc_eq_0_disj)
qed simp

lemma position_None: "position P xs = None \<longleftrightarrow> (\<forall>x\<in>set xs. \<not> P x)"
  by (induction xs) auto

text \<open>The line of a key, as a split of the file around it.\<close>

lemma entry_index_split:
  assumes "entry_index f k = Some i"
  obtains e where "i < length (dlines f)" "l_kind (dlines f ! i) = Entry e" "e_key e = k"
    "dlines f = take i (dlines f) @ dlines f ! i # drop (Suc i) (dlines f)"
    "entries_of (dlines f) = entries_of (take i (dlines f)) @ e # entries_of (drop (Suc i) (dlines f))"
    "k \<notin> e_key ` set (entries_of (take i (dlines f)))"
proof -
  from assms have i: "i < length (dlines f)" and p: "is_entry_for k (dlines f ! i)"
    and least: "\<forall>j<i. \<not> is_entry_for k (dlines f ! j)"
    by (auto simp: entry_index_def position_Some)
  from p obtain e where e: "l_kind (dlines f ! i) = Entry e" "e_key e = k"
    by (auto simp: is_entry_for_def split: line_kind.splits)
  have sp: "dlines f = take i (dlines f) @ dlines f ! i # drop (Suc i) (dlines f)"
    using i by (rule id_take_nth_drop)
  have "entries_of (dlines f) = entries_of (take i (dlines f)) @ e # entries_of (drop (Suc i) (dlines f))"
    by (subst sp) (simp add: e)
  moreover have "k \<notin> e_key ` set (entries_of (take i (dlines f)))"
  proof
    assume "k \<in> e_key ` set (entries_of (take i (dlines f)))"
    then obtain l where "l \<in> set (take i (dlines f))" "is_entry_for k l"
      by (auto simp: set_entries_of is_entry_for_def)
    with least i show False by (auto simp: in_set_conv_nth)
  qed
  ultimately show thesis using that i e sp by blast
qed

lemma is_entry_for_iff: "is_entry_for k l \<longleftrightarrow> (\<exists>e. l_kind l = Entry e \<and> e_key e = k)"
  by (auto simp: is_entry_for_def split: line_kind.splits)

lemma entry_index_None: "entry_index f k = None \<longleftrightarrow> k \<notin> set (keys f)"
proof -
  have "k \<in> set (keys f) \<longleftrightarrow> (\<exists>l\<in>set (dlines f). is_entry_for k l)"
    unfolding keys_def is_entry_for_iff set_map image_iff Bex_def set_entries_of by blast
  then show ?thesis by (simp add: entry_index_def position_None)
qed

lemma find_append_none: "k \<notin> e_key ` set xs \<Longrightarrow> find (\<lambda>e. e_key e = k) (xs @ ys) = find (\<lambda>e. e_key e = k) ys"
  by (induction xs) auto

lemma get_entry_split:
  "entries_of (dlines f) = xs @ e # ys \<Longrightarrow> e_key e = k \<Longrightarrow> k \<notin> e_key ` set xs
     \<Longrightarrow> get_entry f k = Some e"
  unfolding get_entry_def by (simp add: find_append_none)

lemma attached_block_le: "attached_block_start ls i \<le> i"
  by (induction ls i rule: attached_block_start.induct) auto

lemma attached_block_comments:
  "attached_block_start ls i \<le> j \<Longrightarrow> j < i \<Longrightarrow> l_kind (ls ! j) = Comment"
proof (induction ls i rule: attached_block_start.induct)
  case (2 ls i)
  then show ?case by (cases "j = i") (auto split: if_splits)
qed simp

lemma attached_block_maximal:
  "0 < attached_block_start ls i \<Longrightarrow> l_kind (ls ! (attached_block_start ls i - 1)) \<noteq> Comment"
  by (induction ls i rule: attached_block_start.induct) (auto split: if_splits)

lemma entries_of_attached:
  assumes "i \<le> length ls"
  shows "entries_of (take i ls) = entries_of (take (attached_block_start ls i) ls)"
proof -
  let ?s = "attached_block_start ls i"
  have "take i ls = take ?s ls @ take (i - ?s) (drop ?s ls)"
    using attached_block_le[of ls i] by (metis le_add_diff_inverse take_add)
  moreover have "entries_of (take (i - ?s) (drop ?s ls)) = []"
  proof (rule entries_of_none, rule ballI)
    fix l assume "l \<in> set (take (i - ?s) (drop ?s ls))"
    then obtain j where "j < i - ?s" "l = ls ! (?s + j)"
      using assms attached_block_le[of ls i] by (auto simp: in_set_conv_nth)
    then show "entry_of l = None"
      using attached_block_comments[of ls i "?s + j"] by (simp add: entry_of_def)
  qed
  ultimately show ?thesis by simp
qed

lemma attached_block_update:
  "i \<le> j \<Longrightarrow> attached_block_start (ls[j := x]) i = attached_block_start ls i"
  by (induction ls i rule: attached_block_start.induct) auto

text \<open>\<open>env_set\<close> on a present key: its first entry gets the value, the entries around it stay.\<close>

lemma env_set_present:
  assumes "env_set f k (Some v) c = Inr f'" and "k \<in> set (keys f)"
  obtains xs e ys where "entries_of (dlines f) = xs @ e # ys" "e_key e = k" "k \<notin> e_key ` set xs"
    "entries_of (dlines f') = xs @ e\<lparr>e_value := v\<rparr> # ys"
proof -
  from assms(2) obtain i where i: "entry_index f k = Some i"
    using entry_index_None[of f k] by auto
  from entry_index_split[OF i] obtain e where e: "i < length (dlines f)"
    "l_kind (dlines f ! i) = Entry e" "e_key e = k"
    "entries_of (dlines f) = entries_of (take i (dlines f)) @ e # entries_of (drop (Suc i) (dlines f))"
    "k \<notin> e_key ` set (entries_of (take i (dlines f)))"
    by metis
  define ls where "ls = (dlines f)[i := map_entry (\<lambda>e. e\<lparr>e_value := v\<rparr>) (dlines f ! i)]"
  have t: "take i ls = take i (dlines f)" and d: "drop i ls = ls ! i # drop (Suc i) (dlines f)"
    using e(1) by (simp_all add: ls_def Cons_nth_drop_Suc[symmetric])
  have li: "l_kind (ls ! i) = Entry (e\<lparr>e_value := v\<rparr>)"
    using e(1,2) by (simp add: ls_def map_entry_def)
  have f': "dlines f' = (case c of Some c \<Rightarrow> vec_splice ls (attached_block_start ls i) i (comment_lines c)
      | None \<Rightarrow> ls)"
    using assms(1) i by (cases c) (auto simp: env_set_def ls_def Let_def split: if_splits)
  have ab: "entries_of (take (attached_block_start ls i) ls) = entries_of (take i (dlines f))"
    using entries_of_attached[of i ls] e(1) t by (simp add: ls_def)
  have "entries_of (dlines f') = entries_of (take i (dlines f)) @ entries_of (drop i ls)"
  proof (cases c)
    case None
    then have "dlines f' = take i ls @ drop i ls" using f' by simp
    then show ?thesis using t by (simp only: entries_of_append)
  next
    case (Some cm)
    then show ?thesis using f' ab by (simp add: vec_splice_def)
  qed
  then show thesis using that[OF e(4,3,5)] d li by simp
qed

text \<open>\<open>env_set\<close> on an absent key appends one entry.\<close>

lemma env_set_absent:
  assumes "env_set f k (Some v) c = Inr f'" and "k \<notin> set (keys f)"
  shows "entries_of (dlines f') = entries_of (dlines f) @ [\<lparr>e_export = False, e_key = k, e_value = v\<rparr>]"
    "is_valid_key k" "trailing_newline f'"
proof -
  have i: "entry_index f k = None" using assms(2) entry_index_None by auto
  show "entries_of (dlines f') = entries_of (dlines f) @ [\<lparr>e_export = False, e_key = k, e_value = v\<rparr>]"
    "is_valid_key k" "trailing_newline f'"
    using assms(1) i by (auto simp: env_set_def Let_def split: if_splits option.splits)
qed

lemma get_entry_append: "get_entry f k = find (\<lambda>e. e_key e = k) (entries_of (dlines f))"
  by (simp add: get_entry_def)

lemma find_other:
  "e_key e \<noteq> k \<Longrightarrow> e_key e' \<noteq> k \<Longrightarrow>
   find (\<lambda>e. e_key e = k) (xs @ e # ys) = find (\<lambda>e. e_key e = k) (xs @ e' # ys)"
  by (induction xs) auto

lemma find_snoc_other:
  "e_key e \<noteq> k \<Longrightarrow> find (\<lambda>e. e_key e = k) (xs @ [e]) = find (\<lambda>e. e_key e = k) xs"
  by (induction xs) auto

lemma env_set_get:
  assumes "env_set f k (Some v) c = Inr f'"
  shows "map_option e_value (get_entry f' k) = Some v"
    "k' \<noteq> k \<Longrightarrow> get_entry f' k' = get_entry f k'"
proof -
  have "map_option e_value (get_entry f' k) = Some v \<and> (k' \<noteq> k \<longrightarrow> get_entry f' k' = get_entry f k')"
  proof (cases "k \<in> set (keys f)")
    case True
    from env_set_present[OF assms True] obtain xs e ys where
      "entries_of (dlines f) = xs @ e # ys" "e_key e = k" "k \<notin> e_key ` set xs"
      "entries_of (dlines f') = xs @ e\<lparr>e_value := v\<rparr> # ys" by metis
    then show ?thesis
      using find_other[of e k' "e\<lparr>e_value := v\<rparr>" xs ys] by (simp add: get_entry_def find_append_none)
  next
    case False
    then show ?thesis using env_set_absent(1)[OF assms False]
      by (simp add: get_entry_def find_append_none find_snoc_other keys_def)
  qed
  then show "map_option e_value (get_entry f' k) = Some v"
    "k' \<noteq> k \<Longrightarrow> get_entry f' k' = get_entry f k'" by auto
qed

lemma env_rename_entries:
  assumes "env_rename f a b = Inr f'"
  obtains xs e ys where "entries_of (dlines f) = xs @ e # ys" "e_key e = a" "a \<notin> e_key ` set xs"
    "entries_of (dlines f') = xs @ e\<lparr>e_key := b\<rparr> # ys"
    "is_valid_key b" "b \<notin> set (keys f)" "trailing_newline f' = trailing_newline f"
proof -
  from assms obtain i where i: "entry_index f a = Some i" and b: "is_valid_key b"
    "entry_index f b = None"
    and f': "f' = f\<lparr>dlines := (dlines f)[i := map_entry (\<lambda>e. e\<lparr>e_key := b\<rparr>) (dlines f ! i)]\<rparr>"
    by (auto simp: env_rename_def split: if_splits)
  from entry_index_split[OF i] obtain e where e: "i < length (dlines f)"
    "l_kind (dlines f ! i) = Entry e" "e_key e = a"
    "entries_of (dlines f) = entries_of (take i (dlines f)) @ e # entries_of (drop (Suc i) (dlines f))"
    "a \<notin> e_key ` set (entries_of (take i (dlines f)))"
    by metis
  have "entries_of (dlines f') =
      entries_of (take i (dlines f)) @ e\<lparr>e_key := b\<rparr> # entries_of (drop (Suc i) (dlines f))"
    using e(1,2) f' by (simp add: upd_conv_take_nth_drop map_entry_def)
  then show thesis using that[OF e(4,3,5)] b f' entry_index_None by auto
qed

lemma env_delete_entries:
  assumes "env_delete f k = Inr f'"
  obtains xs e ys where "entries_of (dlines f) = xs @ e # ys" "e_key e = k" "k \<notin> e_key ` set xs"
    "entries_of (dlines f') = xs @ ys"
proof -
  from assms obtain i where i: "entry_index f k = Some i"
    and f': "f' = f\<lparr>dlines := vec_splice (dlines f) (attached_block_start (dlines f) i) (Suc i) []\<rparr>"
    by (auto simp: env_delete_def)
  from entry_index_split[OF i] obtain e where e: "i < length (dlines f)" "e_key e = k"
    "entries_of (dlines f) = entries_of (take i (dlines f)) @ e # entries_of (drop (Suc i) (dlines f))"
    "k \<notin> e_key ` set (entries_of (take i (dlines f)))"
    by metis
  have "entries_of (dlines f') = entries_of (take i (dlines f)) @ entries_of (drop (Suc i) (dlines f))"
    using f' entries_of_attached[of i "dlines f"] e(1) by (simp add: vec_splice_def)
  then show thesis using that[OF e(3,2,4)] by simp
qed

section \<open>Every operation leaves a file that parses back to itself\<close>

text \<open>
  A line is kept well-formed by every operation except where a value holds a double quote or a
  backslash, which rendering escapes and parsing does not unescape.
\<close>

definition quotable :: "rstr \<Rightarrow> bool" where
  "quotable v \<longleftrightarrow> dquote \<notin> set v \<and> backslash \<notin> set v"

lemma wf_line_entry:
  assumes "is_valid_key (e_key e)" "quotable (e_value e)" "nl \<notin> set (e_value e)"
  shows "wf_line \<lparr>l_raw = render_entry e, l_kind = Entry e\<rparr>"
  using assms render_entry_roundtrip render_entry_no_nl
  by (simp add: wf_line_def quotable_def)

lemma parse_line_key: "parse_line r = Some (Entry e) \<Longrightarrow> is_valid_key (e_key e)"
  by (auto simp: parse_line_def Let_def split: if_splits option.splits)

lemma set_strip_quotes: "set (strip_quotes v) \<subseteq> set v"
  by (cases v) (auto simp: strip_quotes_def dest: in_set_butlastD split: if_splits)

lemma parse_line_no_nl:
  assumes "parse_line r = Some (Entry e)" "nl \<notin> set r"
  shows "nl \<notin> set (e_value e)"
proof -
  define q where "q = (case strip_prefix ''export '' r of
      Some q \<Rightarrow> (True, trim_start q) | None \<Rightarrow> (False, r))"
  have q: "set (snd q) \<subseteq> set r"
    using set_trim(2) by (auto simp: q_def strip_prefix_Some split: option.splits)
  from assms(1) obtain eq where "e_value e = strip_quotes (trim (drop (eq + 1) (snd q)))"
    unfolding parse_line_def q_def[symmetric] Let_def
    by (auto split: if_splits option.splits prod.splits)
  then have "set (e_value e) \<subseteq> set (snd q)"
    using set_strip_quotes[of "trim (drop (eq + 1) (snd q))"] set_trim(1)[of "drop (eq + 1) (snd q)"]
      set_drop_subset[of "eq + 1" "snd q"] by simp
  with q assms(2) show ?thesis by blast
qed

lemma wf_line_entryD: "wf_line l \<Longrightarrow> l_kind l = Entry e \<Longrightarrow> is_valid_key (e_key e) \<and> nl \<notin> set (e_value e)"
  unfolding wf_line_def by (metis parse_line_key parse_line_no_nl)

lemma wf_map_entry:
  assumes "wf_line l" and "\<And>e. l_kind l = Entry e \<Longrightarrow>
    is_valid_key (e_key (g e)) \<and> quotable (e_value (g e)) \<and> nl \<notin> set (e_value (g e))"
  shows "wf_line (map_entry g l)"
  using assms wf_line_entry by (simp add: map_entry_def split: line_kind.splits)

lemma str_lines_no_nl: "w \<in> set (str_lines c) \<Longrightarrow> nl \<notin> set w"
proof -
  assume "w \<in> set (str_lines c)"
  then obtain v where v: "v \<in> set (split_inclusive c)" "w = line_content v"
    by (auto simp: str_lines_def)
  from nl_in_line_content[OF v(1)] have "nl \<notin> set (butlast v)" .
  then show "nl \<notin> set w"
    using v split_inclusive_nonempty[OF v(1)]
    by (cases v rule: rev_cases) (auto simp: line_content_def Let_def dest: in_set_butlastD)
qed

lemma wf_comment_lines: "l \<in> set (comment_lines c) \<Longrightarrow> wf_line l"
proof -
  assume "l \<in> set (comment_lines c)"
  then obtain w where w: "l = \<lparr>l_raw = ''# '' @ w, l_kind = Comment\<rparr>" "w \<in> set (str_lines c)"
    by (auto simp: comment_lines_def split: if_splits)
  have h: "\<not> ascii_ws (CHR ''#'')" "byte (CHR ''#'') < 128"
    by (simp_all add: ascii_ws_def in_range_def byte_def)
  from trim_visible[OF h] have "trim (''# '' @ w) \<noteq> []" by simp
  moreover have "starts_with ''#'' (trim_start (''# '' @ w))"
    using h by (simp add: trim_start_id ws_len_start starts_with_def)
  ultimately show "wf_line l"
    using w str_lines_no_nl by (simp add: wf_line_def parse_line_def)
qed

lemma wf_file_lines:
  "wf_file f \<Longrightarrow> i < length (dlines f) \<Longrightarrow> wf_line (dlines f ! i)"
  by (simp add: wf_file_def)

lemma set_update_wf: "\<forall>l\<in>set ls. wf_line l \<Longrightarrow> wf_line x \<Longrightarrow> \<forall>l\<in>set (ls[i := x]). wf_line l"
  using set_update_subset_insert by fastforce

lemma wf_vec_splice:
  "\<forall>l\<in>set ls. wf_line l \<Longrightarrow> \<forall>l\<in>set new. wf_line l \<Longrightarrow> \<forall>l\<in>set (vec_splice ls a b new). wf_line l"
  by (auto simp: vec_splice_def dest: in_set_takeD in_set_dropD)

lemma env_set_wf:
  assumes "wf_file f" and "env_set f k (Some v) c = Inr f'" and "quotable v"
  shows "wf_file f'"
proof -
  have v: "nl \<notin> set v" using assms(2) by (auto simp: env_set_def multi_line_def split: if_splits)
  show ?thesis
  proof (cases "entry_index f k")
    case None
    let ?l = "\<lparr>l_raw = render_entry \<lparr>e_export = False, e_key = k, e_value = v\<rparr>,
        l_kind = Entry \<lparr>e_export = False, e_key = k, e_value = v\<rparr>\<rparr>"
    have "is_valid_key k" "dlines f' = dlines f @ (case c of Some c \<Rightarrow> comment_lines c | None \<Rightarrow> []) @ [?l]"
      using assms(2) None by (auto simp: env_set_def Let_def split: if_splits)
    moreover from this have "wf_line ?l" using wf_line_entry v assms(3) by simp
    ultimately show ?thesis
      using assms(1) wf_comment_lines by (auto simp: wf_file_def split: option.splits)
  next
    case (Some i)
    then have i: "i < length (dlines f)" by (simp add: entry_index_def position_Some)
    let ?x = "map_entry (\<lambda>e. e\<lparr>e_value := v\<rparr>) (dlines f ! i)"
    have "wf_line ?x"
      using wf_file_lines[OF assms(1) i] v assms(3) wf_line_entryD by (intro wf_map_entry) auto
    then have u: "\<forall>l\<in>set ((dlines f)[i := ?x]). wf_line l"
      using assms(1) by (intro set_update_wf) (auto simp: wf_file_def)
    show ?thesis
    proof (cases c)
      case None
      then have "dlines f' = (dlines f)[i := ?x]"
        using assms(2) Some by (auto simp: env_set_def Let_def split: if_splits)
      with u show ?thesis by (simp add: wf_file_def)
    next
      case (Some cm)
      then have "\<exists>a. dlines f' = vec_splice ((dlines f)[i := ?x]) a i (comment_lines cm)"
        using assms(2) \<open>entry_index f k = Some i\<close>
        by (auto simp: env_set_def Let_def split: if_splits)
      with u wf_vec_splice wf_comment_lines show ?thesis unfolding wf_file_def by metis
    qed
  qed
qed

lemma env_rename_wf:
  assumes "wf_file f" and "env_rename f a b = Inr f'" and "\<forall>e. get_entry f a = Some e \<longrightarrow> quotable (e_value e)"
  shows "wf_file f'"
proof -
  from assms(2) obtain i where i: "entry_index f a = Some i" and b: "is_valid_key b"
    and f': "dlines f' = (dlines f)[i := map_entry (\<lambda>e. e\<lparr>e_key := b\<rparr>) (dlines f ! i)]"
    by (auto simp: env_rename_def split: if_splits)
  from entry_index_split[OF i] obtain e where e: "i < length (dlines f)"
    "l_kind (dlines f ! i) = Entry e" "e_key e = a"
    "entries_of (dlines f) = entries_of (take i (dlines f)) @ e # entries_of (drop (Suc i) (dlines f))"
    "a \<notin> e_key ` set (entries_of (take i (dlines f)))"
    by metis
  have "quotable (e_value e)" using assms(3) get_entry_split[OF e(4,3,5)] by blast
  then have "wf_line (map_entry (\<lambda>e. e\<lparr>e_key := b\<rparr>) (dlines f ! i))"
    using wf_file_lines[OF assms(1) e(1)] wf_line_entryD[OF _ e(2)] b e(2)
    by (intro wf_map_entry) simp_all
  from set_update_wf[OF _ this, of "dlines f" i] assms(1) show ?thesis
    unfolding wf_file_def f' by blast
qed

lemma env_delete_wf: "wf_file f \<Longrightarrow> env_delete f k = Inr f' \<Longrightarrow> wf_file f'"
proof -
  assume f: "wf_file f" and "env_delete f k = Inr f'"
  then obtain i where "f' = f\<lparr>dlines := vec_splice (dlines f) (attached_block_start (dlines f) i) (Suc i) []\<rparr>"
    unfolding env_delete_def and_then_Inr by blast
  then show "wf_file f'"
    using f wf_vec_splice[of "dlines f" "[]" "attached_block_start (dlines f) i" "Suc i"]
    unfolding wf_file_def by simp
qed

section \<open>Properties\<close>

lemma env_set_trailing:
  "env_set f k v c = Inr f' \<Longrightarrow> trailing_newline f \<Longrightarrow> trailing_newline f'"
  by (auto simp: env_set_def Let_def split: if_splits option.splits)

lemma env_set_keys:
  assumes "env_set f k (Some v) c = Inr f'"
  shows "keys f' = (if k \<in> set (keys f) then keys f else keys f @ [k])"
proof (cases "k \<in> set (keys f)")
  case True
  obtain xs e ys where e: "entries_of (dlines f) = xs @ e # ys" "e_key e = k" "k \<notin> e_key ` set xs"
    "entries_of (dlines f') = xs @ e\<lparr>e_value := v\<rparr> # ys" by (rule env_set_present[OF assms True])
  have "keys f' = keys f" by (simp add: keys_def e(1,4))
  with True show ?thesis by simp
next
  case False
  have "keys f' = keys f @ [k]" by (simp only: keys_def env_set_absent(1)[OF assms False] list.map map_append entry.simps)
  with False show ?thesis by simp
qed

lemma nonempty_of_key: "k \<in> set (keys f) \<Longrightarrow> dlines f \<noteq> []"
  by (auto simp: keys_def)

text \<open>C21: A dotenv text that parses is what its parse renders to, byte for byte, with every line
  classified as the line parser classifies it. Conversely a file of well-formed lines parses back
  to itself from its rendering, unless it has no line or ends in an unterminated empty one.\<close>
theorem dotenv_roundtrip:
  "(parse c = Some f \<longrightarrow> render f = c \<and> wf_file f) \<and>
   (wf_file g \<and> dlines g \<noteq> [] \<and> (trailing_newline g \<or> l_raw (last (dlines g)) \<noteq> [])
      \<longrightarrow> parse (render g) = Some g)"
  using parse_SomeD render_parse_id by blast

theorem dotenv_roundtrip_witness:
  "render \<lparr>dlines = [\<lparr>l_raw = ''# a'', l_kind = Comment\<rparr>,
      \<lparr>l_raw = ''K = 1'', l_kind = Entry \<lparr>e_export = False, e_key = ''K'', e_value = ''1''\<rparr>\<rparr>],
      trailing_newline = True\<rparr> = ''# a'' @ nl # ''K = 1'' @ [nl]"
  using dotenv_roundtrip[of "''# a'' @ nl # ''K = 1'' @ [nl]"
    "\<lparr>dlines = [\<lparr>l_raw = ''# a'', l_kind = Comment\<rparr>,
      \<lparr>l_raw = ''K = 1'', l_kind = Entry \<lparr>e_export = False, e_key = ''K'', e_value = ''1''\<rparr>\<rparr>],
      trailing_newline = True\<rparr>"]
  by (simp add: render_def join_lines_def)

text \<open>A file without a trailing newline does not end in an empty line, and setting a key keeps that.\<close>

lemma parse_last_raw:
  assumes "parse c = Some f" "\<not> trailing_newline f" "dlines f \<noteq> []"
  shows "l_raw (last (dlines f)) \<noteq> []"
proof
  assume e: "l_raw (last (dlines f)) = []"
  have r: "join_with [nl] (map l_raw (dlines f)) = c"
    using parse_SomeD(1)[OF assms(1)] assms(2) by (simp add: render_def join_lines_def)
  define xs where "xs = butlast (dlines f)"
  have d: "dlines f = xs @ [last (dlines f)]" using assms(3) by (simp add: xs_def)
  show False
  proof (cases "xs = []")
    case True
    with r d e have "c = []" by (metis append_Nil join_with.simps(2) list.map(1,2))
    then show False using assms(1,3) by (auto simp: parse_def)
  next
    case False
    have "join_with [nl] (ys @ [[]]) = join_with [nl] ys @ [nl]" if "ys \<noteq> []" for ys :: "rstr list"
      using that by (induction ys rule: induct_list012) auto
    with False d e r have "last c = nl" "c \<noteq> []" by (metis (no_types, lifting) list.map_disc_iff list.simps(8,9) map_append append_is_Nil_conv last_snoc not_Cons_self2)+
    with parse_SomeD(3)[OF assms(1)] assms(2) show False by simp
  qed
qed

lemma map_entry_last:
  assumes "ls \<noteq> []" "l_raw (last ls) \<noteq> []" "l_kind (ls ! i) = Entry e"
  shows "l_raw (last (ls[i := map_entry g (ls ! i)])) \<noteq> []"
  using assms by (cases "i = length ls - 1") (auto simp: last_conv_nth map_entry_def render_entry_def nth_list_update)

lemma env_set_last:
  assumes "env_set f k (Some v) c = Inr f'" "trailing_newline f \<or> l_raw (last (dlines f)) \<noteq> []"
  shows "trailing_newline f' \<or> l_raw (last (dlines f')) \<noteq> []"
proof (cases "entry_index f k")
  case None
  with assms(1) have "trailing_newline f'" by (auto simp: env_set_def Let_def split: if_splits)
  then show ?thesis ..
next
  case (Some i)
  then obtain e where e: "i < length (dlines f)" "l_kind (dlines f ! i) = Entry e"
    by (rule entry_index_split)
  define ls where "ls = (dlines f)[i := map_entry (\<lambda>e. e\<lparr>e_value := v\<rparr>) (dlines f ! i)]"
  have f': "f' = f\<lparr>dlines := (case c of Some c \<Rightarrow> vec_splice ls (attached_block_start ls i) i (comment_lines c)
      | None \<Rightarrow> ls)\<rparr>"
    using assms(1) Some by (cases c) (auto simp: env_set_def ls_def Let_def split: if_splits)
  have "last (dlines f') = last ls"
    using e(1) by (cases c) (auto simp: f' vec_splice_def ls_def)
  moreover have "dlines f \<noteq> []" using e(1) by auto
  ultimately show ?thesis
    using assms(2) map_entry_last[OF _ _ e(2)] by (auto simp: f' ls_def)
qed

lemma env_set_parse:
  assumes "parse c = Some f" "env_set f k (Some v) cm = Inr f'" "quotable v"
  shows "parse (render f') = Some f'"
proof (rule render_parse_id)
  show "wf_file f'" using env_set_wf[OF _ assms(2,3)] parse_SomeD(2)[OF assms(1)] by simp
  have k: "k \<in> set (keys f')" using env_set_keys[OF assms(2)] by simp
  then show "dlines f' \<noteq> []" by (rule nonempty_of_key)
  show "trailing_newline f' \<or> l_raw (last (dlines f')) \<noteq> []"
  proof (cases "dlines f = []")
    case True
    then have "k \<notin> set (keys f)" by (simp add: keys_def)
    with env_set_absent(3)[OF assms(2)] show ?thesis by simp
  next
    case False
    then show ?thesis using env_set_last[OF assms(2)] parse_last_raw[OF assms(1)] by blast
  qed
qed


text \<open>Renaming needs a valid key that is not in use; it changes the first entry of the old key
  in place, keeping its value, its export flag and all other entries. Deleting removes the
  first entry of the key and no other; both leave a file of well-formed lines (the rename,
  when the value it rewrites needs no escape).\<close>
theorem env_rename_delete_effect:
  "(env_rename f a b = Inr f' \<longrightarrow>
      (\<exists>xs e ys. entries_of (dlines f) = xs @ e # ys \<and> e_key e = a \<and> a \<notin> e_key ` set xs
         \<and> entries_of (dlines f') = xs @ e\<lparr>e_key := b\<rparr> # ys)
      \<and> is_valid_key b \<and> b \<notin> set (keys f)
      \<and> (wf_file f \<and> (\<forall>e. get_entry f a = Some e \<longrightarrow> quotable (e_value e)) \<longrightarrow> wf_file f'))
   \<and> (env_delete f k = Inr g \<longrightarrow>
      (\<exists>xs e ys. entries_of (dlines f) = xs @ e # ys \<and> e_key e = k \<and> k \<notin> e_key ` set xs
         \<and> entries_of (dlines g) = xs @ ys)
      \<and> (wf_file f \<longrightarrow> wf_file g))"
  by (intro conjI impI)
    (metis env_rename_entries, metis env_rename_entries, metis env_rename_entries,
      metis env_rename_wf, metis env_delete_entries, metis env_delete_wf)

theorem env_rename_delete_effect_witness:
  "\<exists>xs e ys. entries_of [\<lparr>l_raw = ''K=1'', l_kind = Entry \<lparr>e_export = False, e_key = ''K'', e_value = ''1''\<rparr>\<rparr>]
      = xs @ e # ys \<and> e_key e = ''K'' \<and> ''K'' \<notin> e_key ` set xs \<and> ([] :: entry list) = xs @ ys"
  using env_rename_delete_effect[of
    "\<lparr>dlines = [\<lparr>l_raw = ''K=1'', l_kind = Entry \<lparr>e_export = False, e_key = ''K'', e_value = ''1''\<rparr>\<rparr>],
      trailing_newline = True\<rparr>" "''K''" "''K''" undefined "''K''" "\<lparr>dlines = [], trailing_newline = True\<rparr>"]
  by (simp add: env_delete_def entry_index_def is_entry_for_def entry_of_def vec_splice_def and_then_def ok_or_def
      position.simps)

text \<open>What a typed write stores. The line rendered for an entry with a valid key always parses
  back to that key and export flag, but to the value with every quote and backslash escaped once
  more; so the value written is the value read exactly when it holds neither.\<close>
theorem written_value_stored:
  assumes "is_valid_key (e_key e)"
  shows "parse_line (render_entry e) = Some (Entry (e\<lparr>e_value := stored_value (e_value e)\<rparr>))
    \<and> (stored_value (e_value e) = e_value e \<longleftrightarrow> dquote \<notin> set (e_value e) \<and> backslash \<notin> set (e_value e))"
  using parse_line_render_entry[OF assms] stored_value_id by blast

theorem written_value_stored_witness:
  "stored_value (e_value \<lparr>e_export = False, e_key = ''K'', e_value = [backslash]\<rparr>) \<noteq> [backslash]"
proof -
  have "is_valid_key (e_key \<lparr>e_export = False, e_key = ''K'', e_value = [backslash]\<rparr>)" by code_simp
  from written_value_stored[OF this] show ?thesis by simp
qed

end
