(* ===== verification/Kaed_Reorder_Facts.thy ===== *)
theory Kaed_Reorder_Facts
  imports Kaed_Dotenv_Facts
begin

text \<open>
  \<open>EnvFile::reorder\<close>: the loop invariant of the grouping pass, and what the filling pass makes
  of a permutation of the keys. The unwraps of the source are never reached with a missing
  value: a request that passes the two checks always succeeds.
\<close>

definition grp :: "groups \<Rightarrow> rstr \<Rightarrow> line list" where
  "grp groups k = (case map_of groups k of Some g \<Rightarrow> g | None \<Rightarrow> [])"

definition free_lines :: "line option list \<Rightarrow> line list" where
  "free_lines sq = List.map_filter id sq"

definition slots :: "line option list \<Rightarrow> nat" where
  "slots sq = length (filter (\<lambda>x. x = None) sq)"

lemma free_lines_simps [simp]:
  "free_lines [] = []" "free_lines (Some l # sq) = l # free_lines sq"
  "free_lines (None # sq) = free_lines sq" "free_lines (sq @ sq') = free_lines sq @ free_lines sq'"
  "free_lines (map Some ls) = ls"
  by (simp_all add: free_lines_def List.map_filter_def comp_def)

lemma slots_simps [simp]:
  "slots [] = 0" "slots (Some l # sq) = slots sq" "slots (None # sq) = Suc (slots sq)"
  "slots (sq @ sq') = slots sq + slots sq'" "slots (map Some ls) = 0"
  by (simp_all add: slots_def filter_empty_conv)

lemma reorder_fill_spec:
  assumes "slots sq = length ks" and "set ks \<subseteq> dom (map_of groups)"
    and "\<forall>l\<in>set (free_lines sq). entry_of l = None"
  shows "\<exists>out. reorder_fill groups sq ks = Some out
      \<and> mset out = mset (free_lines sq) + (\<Sum>k\<in>#mset ks. mset (grp groups k))
      \<and> entries_of out = concat (map (\<lambda>k. entries_of (grp groups k)) ks)"
  using assms
proof (induction groups sq ks rule: reorder_fill.induct)
  case (2 groups l items ks)
  then show ?case by (auto simp: entry_of_def split: line_kind.splits)
next
  case (4 groups items k ks)
  then obtain g where g: "map_of groups k = Some g" by auto
  with 4 obtain out where "reorder_fill groups items ks = Some out"
    "mset out = mset (free_lines items) + (\<Sum>k\<in>#mset ks. mset (grp groups k))"
    "entries_of out = concat (map (\<lambda>k. entries_of (grp groups k)) ks)" by auto
  with g show ?case by (simp add: grp_def)
qed (simp_all add: free_lines_def)

text \<open>The state of the grouping pass after the first \<open>n\<close> lines.\<close>

definition comment_run :: "line list \<Rightarrow> nat \<Rightarrow> line list" where
  "comment_run ls n = drop (attached_block_start ls n) (take n ls)"

definition reorder_inv :: "line list \<Rightarrow> nat \<Rightarrow> groups \<times> line option list \<Rightarrow> bool" where
  "reorder_inv ls n st \<longleftrightarrow>
     (let (groups, sq) = st; ks = map e_key (entries_of (take n ls)) in
      slots sq = length ks \<and> dom (map_of groups) = set ks
      \<and> (\<forall>l\<in>set (free_lines sq). entry_of l = None)
      \<and> (\<exists>sq0. sq = sq0 @ map Some (comment_run ls n))
      \<and> mset (free_lines sq) + (\<Sum>k\<in>#mset ks. mset (grp groups k)) = mset (take n ls)
      \<and> (\<forall>e\<in>set (entries_of (take n ls)). entries_of (grp groups (e_key e)) = [e]))"

lemma comment_run_Suc:
  assumes "n < length ls"
  shows "comment_run ls (Suc n) = (if l_kind (ls ! n) = Comment then comment_run ls n @ [ls ! n] else [])"
  using assms attached_block_le[of ls n] by (simp add: comment_run_def take_Suc_conv_app_nth)

lemma length_comment_run: "n \<le> length ls \<Longrightarrow> length (comment_run ls n) = n - attached_block_start ls n"
  by (simp add: comment_run_def)

lemma group_slice:
  assumes "n < length ls"
  shows "take (Suc n - attached_block_start ls n) (drop (attached_block_start ls n) ls)
    = comment_run ls n @ [ls ! n]"
proof -
  let ?s = "attached_block_start ls n"
  have s: "?s \<le> n" by (rule attached_block_le)
  have "take (Suc n - ?s) (drop ?s ls) = drop ?s (take (Suc n) ls)" by (simp add: drop_take)
  also have "\<dots> = comment_run ls n @ [ls ! n]"
    using assms s by (simp add: comment_run_def take_Suc_conv_app_nth)
  finally show ?thesis .
qed

lemma comment_run_no_entry:
  assumes "n \<le> length ls"
  shows "entries_of (comment_run ls n) = []"
proof -
  have "take n ls = take (attached_block_start ls n) ls @ comment_run ls n"
    using attached_block_le[of ls n] unfolding comment_run_def
    by (metis append_take_drop_id min.absorb1 take_take)
  then have "entries_of (take n ls) = entries_of (take (attached_block_start ls n) ls) @ entries_of (comment_run ls n)"
    by (metis entries_of_append)
  with entries_of_attached[OF assms] show ?thesis by simp
qed

lemma entries_of_take_Suc:
  "n < length ls \<Longrightarrow> entries_of (take (Suc n) ls) =
    entries_of (take n ls) @ (case l_kind (ls ! n) of Entry e \<Rightarrow> [e] | _ \<Rightarrow> [])"
  by (simp add: take_Suc_conv_app_nth split: line_kind.splits)

lemma sum_grp_update_other:
  assumes "k \<notin> set ks"
  shows "(\<Sum>x\<in>#mset ks. mset (grp (AList.update k g groups) x)) = (\<Sum>x\<in>#mset ks. mset (grp groups x))"
proof -
  have "\<forall>x\<in>set ks. grp (AList.update k g groups) x = grp groups x"
    using assms by (auto simp: grp_def update_conv')
  then show ?thesis by (auto intro!: arg_cong[where f = sum_mset] image_mset_cong)
qed

lemma reorder_inv_step:
  assumes inv: "reorder_inv ls n st" and n: "n < length ls"
    and dist: "distinct (map e_key (entries_of (take (Suc n) ls)))"
  shows "reorder_inv ls (Suc n) (reorder_step ls n st)"
proof -
  obtain groups sq where st: "st = (groups, sq)" by (cases st)
  let ?ks = "map e_key (entries_of (take n ls))"
  from inv st obtain sq0 where I: "slots sq = length ?ks" "dom (map_of groups) = set ?ks"
    "\<forall>l\<in>set (free_lines sq). entry_of l = None" "sq = sq0 @ map Some (comment_run ls n)"
    "mset (free_lines sq) + (\<Sum>k\<in>#mset ?ks. mset (grp groups k)) = mset (take n ls)"
    "\<forall>e\<in>set (entries_of (take n ls)). entries_of (grp groups (e_key e)) = [e]"
    by (auto simp: reorder_inv_def Let_def)
  show ?thesis
  proof (cases "entry_of (ls ! n)")
    case None
    then have step: "reorder_step ls n st = (groups, sq @ [Some (ls ! n)])"
      and e: "entries_of (take (Suc n) ls) = entries_of (take n ls)"
      using st n by (auto simp: entry_of_def entries_of_take_Suc split: line_kind.splits)
    have "\<exists>sq1. sq @ [Some (ls ! n)] = sq1 @ map Some (comment_run ls (Suc n))"
      using I(4) by (simp add: comment_run_Suc[OF n])
    moreover have "mset (take (Suc n) ls) = mset (take n ls) + {#ls ! n#}"
      using n by (simp add: take_Suc_conv_app_nth)
    ultimately show ?thesis
      unfolding reorder_inv_def step Let_def prod.case e
      using I None by (intro conjI) simp_all
  next
    case (Some e)
    then have k: "l_kind (ls ! n) = Entry e" by (auto simp: entry_of_def split: line_kind.splits)
    let ?g = "comment_run ls n @ [ls ! n]"
    let ?groups = "AList.update (e_key e) ?g groups"
    have len: "length (comment_run ls n) = n - attached_block_start ls n"
      using n by (intro length_comment_run) simp
    have step: "reorder_step ls n st = (?groups, sq0 @ [None])"
      using k st I(4) len group_slice[OF n] by (simp add: Let_def)
    have es: "entries_of (take (Suc n) ls) = entries_of (take n ls) @ [e]"
      using k n by (simp add: entries_of_take_Suc)
    have new: "e_key e \<notin> set ?ks" using dist es by auto
    have g: "grp ?groups (e_key e) = ?g" "x \<noteq> e_key e \<Longrightarrow> grp ?groups x = grp groups x" for x
      by (simp_all add: grp_def update_conv')
    have run: "comment_run ls (Suc n) = []" using k by (simp add: comment_run_Suc[OF n])
    have "mset (free_lines sq0) + (\<Sum>x\<in>#mset (?ks @ [e_key e]). mset (grp ?groups x))
        = mset (free_lines sq0) + mset (comment_run ls n) + (\<Sum>x\<in>#mset ?ks. mset (grp groups x)) + {#ls ! n#}"
      using sum_grp_update_other[OF new, of ?g groups] g(1) by simp
    also have "\<dots> = mset (take (Suc n) ls)"
      using I(4,5) n by (simp add: take_Suc_conv_app_nth)
    finally have ms: "mset (free_lines sq0) + (\<Sum>x\<in>#mset (?ks @ [e_key e]). mset (grp ?groups x))
        = mset (take (Suc n) ls)" .
    have one: "entries_of ?g = [e]" using comment_run_no_entry[of n ls] n k by simp
    have old: "entries_of (grp ?groups (e_key e')) = [e']" if "e' \<in> set (entries_of (take n ls))" for e'
    proof -
      have "e_key e' \<noteq> e_key e" using that new by (metis image_eqI set_map)
      from g(2)[OF this] I(6) that show ?thesis by simp
    qed
    show ?thesis
      unfolding reorder_inv_def step Let_def prod.case es
    proof (intro conjI)
      show "\<forall>e'\<in>set (entries_of (take n ls) @ [e]). entries_of (grp ?groups (e_key e')) = [e']"
        using one old g(1) by simp
    qed (use I run ms in \<open>simp_all add: update_conv' insert_commute\<close>)
  qed
qed

lemma reorder_inv_0: "reorder_inv ls 0 ([], [])"
  by (simp add: reorder_inv_def comment_run_def grp_def)

lemma reorder_inv_all:
  assumes "distinct (map e_key (entries_of ls))" and "n \<le> length ls"
  shows "reorder_inv ls n (fold (reorder_step ls) [0..<n] ([], []))"
  using assms(2)
proof (induction n)
  case 0
  show ?case by (simp add: reorder_inv_0)
next
  case (Suc n)
  have "entries_of ls = entries_of (take (Suc n) ls) @ entries_of (drop (Suc n) ls)"
    by (metis append_take_drop_id entries_of_append)
  then have "distinct (map e_key (entries_of (take (Suc n) ls)))"
    using assms(1) by (metis distinct_append map_append)
  with reorder_inv_step Suc show ?case by simp
qed

lemma adjacent_equal_distinct:
  "sorted xs \<Longrightarrow> adjacent_equal xs \<longleftrightarrow> \<not> distinct (xs :: 'a::linorder list)"
  by (induction xs rule: adjacent_equal.induct) auto

lemma env_reorder_result:
  "(\<exists>e. env_reorder f ks = Inl e \<and> code e = InvalidInput)
   \<or> (\<exists>out. env_reorder f ks = Inr (f\<lparr>dlines := out\<rparr>) \<and> mset ks = mset (keys f) \<and> distinct ks
        \<and> mset out = mset (dlines f) \<and> map e_key (entries_of out) = ks)"
proof -
  define st where "st = fold (reorder_step (dlines f)) [0..<length (dlines f)] ([], [])"
  obtain groups sq where gs: "st = (groups, sq)" by (cases st)
  consider "adjacent_equal (sort (keys f))" | "sort ks \<noteq> sort (keys f)"
    | "distinct (keys f)" "sort ks = sort (keys f)" "\<not> adjacent_equal (sort (keys f))"
    using adjacent_equal_distinct[of "sort (keys f)"] by auto
  then show ?thesis
  proof cases
    case 3
    have ms: "mset ks = mset (keys f)" using 3(2) by (metis mset_sort)
    have inv: "reorder_inv (dlines f) (length (dlines f)) (groups, sq)"
      using reorder_inv_all[of "dlines f" "length (dlines f)"] 3(1) gs by (simp add: st_def keys_def)
    have L: "length ks = length (keys f)" "set ks = set (keys f)" "distinct ks"
      using ms 3(1) by (metis size_mset, metis set_mset_mset, metis mset_eq_imp_distinct_iff)
    have I: "slots sq = length ks" "set ks \<subseteq> dom (map_of groups)"
      "\<forall>l\<in>set (free_lines sq). entry_of l = None"
      "mset (free_lines sq) + (\<Sum>k\<in>#mset ks. mset (grp groups k)) = mset (dlines f)"
      "\<forall>e\<in>set (entries_of (dlines f)). entries_of (grp groups (e_key e)) = [e]"
      using inv L by (simp_all add: reorder_inv_def keys_def ms)
    from reorder_fill_spec[OF I(1-3)] I(4) obtain out where out:
      "reorder_fill groups sq ks = Some out" "mset out = mset (dlines f)"
      "entries_of out = concat (map (\<lambda>k. entries_of (grp groups k)) ks)" by auto
    have "map e_key (concat (map (\<lambda>k. entries_of (grp groups k)) ks')) = ks'" if "set ks' \<subseteq> set (keys f)" for ks'
      using that I(5) by (induction ks') (auto simp: keys_def)
    with out(3) L(2) have "map e_key (entries_of out) = ks" by simp
    with out 3 ms L(3) gs show ?thesis
      by (auto simp: env_reorder_def st_def Let_def)
  qed (simp_all add: env_reorder_def Let_def)
qed

section \<open>Property\<close>

lemma code_panicked: "code panicked \<noteq> InvalidInput"
  by (simp add: panicked_def)

lemma sorted_mset_eq: "sort xs = sort ys \<longleftrightarrow> mset xs = mset (ys :: 'a::linorder list)"
  by (metis mset_sort properties_for_sort sorted_sort)

lemma env_reorder_defined:
  assumes "distinct (keys f)" "mset ks = mset (keys f)"
  shows "\<exists>out. env_reorder f ks = Inr (f\<lparr>dlines := out\<rparr>)"
proof -
  have "\<not> adjacent_equal (sort (keys f))" using assms(1) adjacent_equal_distinct[of "sort (keys f)"] by simp
  moreover have "sort ks = sort (keys f)" using assms(2) by (simp add: sorted_mset_eq)
  ultimately have "env_reorder f ks = Inl panicked \<or> (\<exists>out. env_reorder f ks = Inr (f\<lparr>dlines := out\<rparr>))"
    by (auto simp: env_reorder_def Let_def split: prod.splits option.splits)
  with env_reorder_result[of f ks] code_panicked show ?thesis by auto
qed

text \<open>C20: Reordering succeeds exactly when the file's keys are distinct and the request is a permutation
  of them; every other request is refused as invalid input, and the internal bookkeeping of groups
  and slots never runs out. A successful reorder moves lines only: the same lines with the same
  multiplicity, the entries in the requested order, all lines still well formed.\<close>
theorem env_reorder_permutes:
  "((\<exists>g. env_reorder f ks = Inr g) \<longleftrightarrow> distinct (keys f) \<and> mset ks = mset (keys f))
   \<and> (\<forall>e. env_reorder f ks = Inl e \<longrightarrow> code e = InvalidInput)
   \<and> (\<forall>g. env_reorder f ks = Inr g \<longrightarrow>
        keys g = ks \<and> mset (dlines g) = mset (dlines f) \<and> trailing_newline g = trailing_newline f
        \<and> (wf_file f \<longrightarrow> wf_file g))"
proof -
  have wf: "wf_file f \<longrightarrow> wf_file (f\<lparr>dlines := out\<rparr>)" if "mset out = mset (dlines f)" for out
    using mset_eq_setD[OF that] by (simp add: wf_file_def)
  have dist: "distinct (keys f)" if "mset ks = mset (keys f)" "distinct ks"
    using mset_eq_imp_distinct_iff[OF that(1)] that(2) by simp
  show ?thesis
    using env_reorder_result[of f ks] env_reorder_defined[of f ks] wf dist by (auto simp: keys_def)
qed

theorem env_reorder_permutes_witness:
  "keys \<lparr>dlines = [\<lparr>l_raw = ''B='', l_kind = Entry \<lparr>e_export = False, e_key = ''B'', e_value = []\<rparr>\<rparr>,
      \<lparr>l_raw = ''A='', l_kind = Entry \<lparr>e_export = False, e_key = ''A'', e_value = []\<rparr>\<rparr>],
      trailing_newline = True\<rparr> = [''B'', ''A'']"
  using env_reorder_permutes[of
    "\<lparr>dlines = [\<lparr>l_raw = ''A='', l_kind = Entry \<lparr>e_export = False, e_key = ''A'', e_value = []\<rparr>\<rparr>,
      \<lparr>l_raw = ''B='', l_kind = Entry \<lparr>e_export = False, e_key = ''B'', e_value = []\<rparr>\<rparr>],
      trailing_newline = True\<rparr>" "[''B'', ''A'']", THEN conjunct2, THEN conjunct2, THEN spec, of
    "\<lparr>dlines = [\<lparr>l_raw = ''B='', l_kind = Entry \<lparr>e_export = False, e_key = ''B'', e_value = []\<rparr>\<rparr>,
      \<lparr>l_raw = ''A='', l_kind = Entry \<lparr>e_export = False, e_key = ''A'', e_value = []\<rparr>\<rparr>],
      trailing_newline = True\<rparr>"]
  by code_simp

end
