(* ===== verification/Kaed_Redaction_Facts.thy ===== *)
theory Kaed_Redaction_Facts
  imports Kaed_Dotenv_Facts
begin

text \<open>
  What the redacted renderings of a dotenv file disclose: a rendering depends on a value only
  through its seal, stays line for line with the file, and the placeholder it shows resolves
  to the value it stands for and to no other.
\<close>

text \<open>What a placeholder discloses of a value: whether it is empty, and the digest above the floor.\<close>

definition seal :: "hasher \<Rightarrow> rstr \<Rightarrow> rstr option option" where
  "seal h v = (if v = [] then None else Some (if clears_floor v then Some (digest_of h v) else None))"

lemma seal_placeholder:
  assumes "seal h v = seal h w"
  shows "v = [] \<longleftrightarrow> w = []" "v \<noteq> [] \<Longrightarrow> placeholder h k v = placeholder h k w"
  using assms by (auto simp: seal_def placeholder_def split: if_splits)

text \<open>Two lines an observer of the redacted rendering is not meant to tell apart.\<close>

fun alike :: "hasher \<Rightarrow> line \<Rightarrow> line \<Rightarrow> bool" where
  "alike h l m =
     (case (l_kind l, l_kind m) of
        (Entry e, Entry d) \<Rightarrow>
          e_export e = e_export d \<and> e_key e = e_key d \<and> seal h (e_value e) = seal h (e_value d)
      | (Blank, Blank) \<Rightarrow> l_raw l = l_raw m
      | (Comment, Comment) \<Rightarrow> redact_free_text h (l_raw l) = redact_free_text h (l_raw m)
      | _ \<Rightarrow> False)"

declare alike.simps [simp del]

lemma alike_cases:
  assumes "alike h l m"
  obtains "l_kind l = Blank" "l_kind m = Blank" "l_raw l = l_raw m"
  | "l_kind l = Comment" "l_kind m = Comment"
    "redact_free_text h (l_raw l) = redact_free_text h (l_raw m)"
  | e d where "l_kind l = Entry e" "l_kind m = Entry d" "e_export e = e_export d"
    "e_key e = e_key d" "seal h (e_value e) = seal h (e_value d)"
  using assms by (cases "l_kind l"; cases "l_kind m") (simp_all add: alike.simps)

lemma redact_line_alike: "alike h l m \<Longrightarrow> redact_line h l = redact_line h m"
proof (erule alike_cases)
  fix e d
  assume a: "l_kind l = Entry e" "l_kind m = Entry d" "e_export e = e_export d"
    "e_key e = e_key d" and s: "seal h (e_value e) = seal h (e_value d)"
  show "redact_line h l = redact_line h m"
    using a seal_placeholder[OF s] by (simp add: redact_line_def export_str_def)
qed (simp_all add: redact_line_def)

lemma example_line_alike: "alike h l m \<Longrightarrow> example_line h l = example_line h m"
  by (erule alike_cases) (simp_all add: example_line_def export_str_def)

lemma map_alike:
  "list_all2 (alike h) ls ms \<Longrightarrow> (\<And>l m. alike h l m \<Longrightarrow> g l = g m) \<Longrightarrow> map g ls = map g ms"
  by (induction rule: list_all2_induct) auto

lemma redact_alike:
  assumes "list_all2 (alike h) (dlines f) (dlines g)" "trailing_newline f = trailing_newline g"
  shows "redact h f = redact h g \<and> example h f = example h g"
  using map_alike[OF assms(1) redact_line_alike] map_alike[OF assms(1) example_line_alike] assms(2)
  by (simp add: redact_def example_def)

section \<open>Line for line\<close>

lemma placeholder_no_nl:
  assumes "hex_hash h" and "nl \<notin> set k"
  shows "nl \<notin> set (placeholder h k v)"
proof -
  have "nl \<notin> set (digest_of h v)"
    using digest_of_hex[OF assms(1), of v] by (auto simp: lower_hex_def ascii_defs)
  with assms(2) show ?thesis
    by (simp add: placeholder_def PLACEHOLDER_OPEN_def PLACEHOLDER_CLOSE_def angle_open_def angle_close_def)
qed

lemma redact_free_text_no_nl: "hex_hash h \<Longrightarrow> nl \<notin> set s \<Longrightarrow> nl \<notin> set (redact_free_text h s)"
  using count_nl_redact[of h s] by (simp add: count_list_0_iff)

lemma redact_line_no_nl:
  assumes "hex_hash h" and "wf_line l"
  shows "nl \<notin> set (redact_line h l)"
proof (cases "l_kind l")
  case (Entry e)
  then have "is_valid_key (e_key e)" using assms(2) wf_line_entryD by blast
  then have "nl \<notin> set (e_key e)" using valid_key_chars not_key_chars by blast
  with Entry placeholder_no_nl[OF assms(1)] show ?thesis
    by (simp add: redact_line_def export_str_def)
qed (use assms redact_free_text_no_nl in \<open>auto simp: redact_line_def wf_line_def\<close>)

lemma join_snoc_Nil: "ls \<noteq> [] \<Longrightarrow> join_with sep (ls @ [[]]) = join_with sep ls @ sep"
proof (induction ls)
  case (Cons w ls)
  then show ?case by (cases ls) auto
qed simp

lemma split_join_lines:
  assumes "ls \<noteq> []" and "\<forall>w\<in>set ls. nl \<notin> set w"
  shows "split_on nl (join_lines ls t) = ls @ (if t then [[]] else [])"
proof (cases t)
  case True
  have "join_lines ls t = join_with [nl] (ls @ [[]])"
    using True assms(1) by (simp add: join_lines_def join_snoc_Nil)
  with split_join[of "ls @ [[]]" nl] assms True show ?thesis by simp
qed (use assms split_join in \<open>simp add: join_lines_def\<close>)

lemma split_redact:
  assumes "hex_hash h" and "wf_file f" and "dlines f \<noteq> []"
  shows "split_on nl (redact h f) = map (redact_line h) (dlines f) @ (if trailing_newline f then [[]] else [])"
    "split_on nl (render f) = map l_raw (dlines f) @ (if trailing_newline f then [[]] else [])"
  unfolding redact_def render_def
  by (rule split_join_lines; use assms redact_line_no_nl in \<open>auto simp: wf_file_def wf_line_def\<close>)+

section \<open>Resolving a placeholder\<close>

lemma get_entry_key: "get_entry f k = Some e \<Longrightarrow> e_key e = k \<and> e \<in> set (entries_of (dlines f))"
  by (auto simp: get_entry_def find_Some_iff)

lemma resolve_own_placeholder:
  assumes "hex_hash h" "is_valid_key k" "get_entry f k = Some e"
  shows "resolve_value h f p (placeholder h k v) =
    (if clears_floor v \<and> digest_of h (e_value e) \<noteq> digest_of h v
     then Inl (invalid_input (Msg ''placeholder digest mismatch'' [k, p]))
     else Inr (e_value e))"
  using parse_placeholder_placeholder[OF ph_safe_key[OF assms(2)] assms(1), of v] assms(3)
  by (auto simp: resolve_value_def)

lemma resolve_plain:
  assumes "\<not> contains_placeholder_syntax r"
  shows "resolve_value h f p r = Inr r"
proof -
  have "strip_prefix PLACEHOLDER_OPEN r = None"
  proof (rule ccontr)
    assume "strip_prefix PLACEHOLDER_OPEN r \<noteq> None"
    then obtain s where "r = PLACEHOLDER_OPEN @ s" by (auto simp: strip_prefix_Some)
    then have "find_sub PLACEHOLDER_OPEN r \<noteq> None"
      by (simp add: PLACEHOLDER_OPEN_def angle_open_def)
    with assms show False by (simp add: contains_placeholder_syntax_def contains_sub_def)
  qed
  with assms show ?thesis by (simp add: resolve_value_def parse_placeholder_def)
qed

section \<open>The example file\<close>

lemma trim_start_skip: "trim_start s = drop (skip_ws_len s) s"
proof (induction s rule: trim_start.induct)
  case (1 s)
  then show ?case
    by (subst trim_start.simps, subst skip_ws_len.simps) (simp add: add.commute)
qed

lemma parse_line_redacted_comment:
  assumes "parse_line r = Some Comment"
  shows "parse_line (redact_free_text h r) = Some Comment"
proof -
  have hash: "\<not> ascii_ws (CHR ''#'')" "byte (CHR ''#'') < 128" "\<not> is_token_char (CHR ''#'')"
    by (simp_all add: ascii_ws_def ascii_defs is_token_char_def)
  have "starts_with ''#'' (trim_start r)"
    using assms by (auto simp: parse_line_def Let_def split: if_splits option.splits)
  then obtain q where q: "drop (skip_ws_len r) r = CHR ''#'' # q"
    by (cases "trim_start r") (auto simp: starts_with_def trim_start_skip)
  let ?t = "take (token_len (CHR ''#'' # q)) (CHR ''#'' # q)"
  have t: "?t = CHR ''#'' # take (token_len q) q" using hash by (simp add: ws_len_start)
  then have "redact_token h ?t = ?t"
    using secret_shaped_token_chars[of ?t "CHR ''#''"] hash(3) by (intro redact_token_plain) auto
  then obtain z where z: "redact_free_text h r = take (skip_ws_len r) r @ CHR ''#'' # z"
    unfolding redact_free_text.simps[of h r] Let_def q t by simp
  have "skip_ws_len (take (skip_ws_len r) r @ CHR ''#'' # z) = skip_ws_len r"
    using hash by (intro skip_ws_len_append) (simp add: ws_len_start)
  then have ts: "trim_start (redact_free_text h r) = CHR ''#'' # z"
    using z skip_ws_len_le[of r] by (simp add: trim_start_skip)
  have "trim (CHR ''#'' # z) \<noteq> []" using hash by (intro trim_visible)
  then have "trim (redact_free_text h r) \<noteq> []"
    using ts hash by (simp add: trim_def trim_start_id ws_len_start)
  with ts show ?thesis by (simp add: parse_line_def starts_with_def)
qed

definition blank_entry :: "hasher \<Rightarrow> line \<Rightarrow> line" where
  "blank_entry h l =
     \<lparr>l_raw = example_line h l,
      l_kind = (case l_kind l of Entry e \<Rightarrow> Entry (e\<lparr>e_value := []\<rparr>) | k \<Rightarrow> k)\<rparr>"

lemma wf_blank_entry:
  assumes "hex_hash h" and "wf_line l"
  shows "wf_line (blank_entry h l)"
proof (cases "l_kind l")
  case Blank
  with assms show ?thesis by (simp add: blank_entry_def wf_line_def example_line_def)
next
  case Comment
  with assms show ?thesis
    using parse_line_redacted_comment redact_free_text_no_nl
    by (simp add: blank_entry_def wf_line_def example_line_def)
next
  case (Entry e)
  then have k: "is_valid_key (e_key e)" using assms(2) wf_line_entryD by blast
  have r: "example_line h l = render_entry (e\<lparr>e_value := []\<rparr>)"
    using Entry by (simp add: example_line_def render_entry_def export_str_def)
  from wf_line_entry[of "e\<lparr>e_value := []\<rparr>"] k show ?thesis
    using r Entry by (simp add: blank_entry_def quotable_def)
qed

lemma parse_example:
  assumes "hex_hash h" and "wf_file f" and "dlines f \<noteq> []"
    and "trailing_newline f \<or> l_raw (last (dlines f)) \<noteq> []"
  shows "parse (example h f) = Some (f\<lparr>dlines := map (blank_entry h) (dlines f)\<rparr>)"
proof -
  let ?g = "f\<lparr>dlines := map (blank_entry h) (dlines f)\<rparr>"
  have ex: "example h f = render ?g"
    by (simp add: example_def render_def blank_entry_def comp_def)
  have "l_raw (blank_entry h (last (dlines f))) \<noteq> []" if "l_raw (last (dlines f)) \<noteq> []"
  proof (cases "l_kind (last (dlines f))")
    case Comment
    have "parse_line (l_raw (last (dlines f))) = Some Comment"
      using assms(2,3) Comment by (simp add: wf_file_def wf_line_def)
    then have "parse_line (redact_free_text h (l_raw (last (dlines f)))) = Some Comment"
      by (rule parse_line_redacted_comment)
    then have "redact_free_text h (l_raw (last (dlines f))) \<noteq> []"
      by (auto simp: parse_line_def)
    with Comment show ?thesis by (simp add: blank_entry_def example_line_def)
  qed (use that in \<open>auto simp: blank_entry_def example_line_def\<close>)
  then show ?thesis
    unfolding ex using assms wf_blank_entry
    by (intro render_parse_id) (auto simp: wf_file_def last_map)
qed

lemma entries_of_blank: "entries_of (map (blank_entry h) ls) = map (\<lambda>e. e\<lparr>e_value := []\<rparr>) (entries_of ls)"
  by (induction ls) (auto simp: blank_entry_def split: line_kind.splits)

lemma keys_example: "keys (f\<lparr>dlines := map (blank_entry h) (dlines f)\<rparr>) = keys f"
  by (simp add: keys_def entries_of_blank comp_def)

lemma all_values_empty_example: "all_values_empty (f\<lparr>dlines := map (blank_entry h) (dlines f)\<rparr>)"
  by (auto simp: all_values_empty_def blank_entry_def split: line_kind.splits)

section \<open>Vanished values\<close>

definition lost :: "rstr set \<Rightarrow> entry \<Rightarrow> bool" where
  "lost after e \<longleftrightarrow> e_value e \<noteq> [] \<and> e_value e \<notin> after"

definition values_of :: "dotenv_file option \<Rightarrow> rstr set" where
  "values_of a = (case a of None \<Rightarrow> {} | Some a \<Rightarrow> e_value ` set (entries_of (dlines a)))"

lemma set_vanished:
  "k \<in> set (vanished_values (Some b) a) \<longleftrightarrow>
    (\<exists>e\<in>set (entries_of (dlines b)). e_key e = k \<and> lost (values_of a) e)"
proof -
  have "set (vanished_values (Some b) a) = e_key ` {e \<in> set (entries_of (dlines b)). lost (values_of a) e}"
    by (simp add: vanished_values_def lost_def values_of_def Let_def cong: option.case_cong)
  then show ?thesis by (auto simp only: image_iff mem_Collect_eq)
qed

lemma vanished_sorted: "sorted (vanished_values b a) \<and> distinct (vanished_values b a)"
  by (simp add: vanished_values_def split: option.split)

lemma vanished_empty_iff:
  "vanished_values (Some b) a = [] \<longleftrightarrow> values_of (Some b) - {[]} \<subseteq> values_of a"
proof -
  have "vanished_values (Some b) a = [] \<longleftrightarrow> (\<forall>k. k \<notin> set (vanished_values (Some b) a))"
    by (metis list.set_intros(1) list.set_cases list.set(1) empty_iff neq_Nil_conv)
  also have "\<dots> \<longleftrightarrow> (\<forall>e\<in>set (entries_of (dlines b)). \<not> lost (values_of a) e)"
    unfolding set_vanished by blast
  finally show ?thesis by (auto simp: lost_def values_of_def)
qed

section \<open>Properties\<close>

lemma parse_nonempty:
  assumes "parse c = Some f" "c \<noteq> []"
  shows "dlines f \<noteq> []"
proof -
  define b where "b = (if last c = nl then butlast c else c)"
  have "b \<noteq> [] \<or> last c = nl" using assms(2) by (simp add: b_def)
  then obtain ls where "parse_lines (split_on nl b) = Some ls" "f = \<lparr>dlines = ls, trailing_newline = (last c = nl)\<rparr>"
    using assms(1)[unfolded parse_def Let_def] assms(2) unfolding b_def[symmetric]
    by (simp only: simp_thms if_True b_def[symmetric] map_option_eq_Some) blast
  then have "parse_lines (split_on nl b) = Some (dlines f)" by simp
  from conjunct1[OF parse_lines_Some[OF this]] have "map l_raw (dlines f) = split_on nl b" .
  then show ?thesis by (metis list.simps(8) split_on_nonempty)
qed

text \<open>C18: Redaction discloses nothing of a value but its seal. Two files that agree line by line up to
  the values' seals (empty or not, and above the entropy floor the digest) and up to what the free
  text redaction leaves of comments have the same redacted rendering and the same example file;
  two values below the floor are never told apart.\<close>
theorem redaction_noninterference:
  assumes "list_all2 (alike h) (dlines f) (dlines g)" "trailing_newline f = trailing_newline g"
  shows "redact h f = redact h g \<and> example h f = example h g
    \<and> (v \<noteq> [] \<and> w \<noteq> [] \<and> \<not> clears_floor v \<and> \<not> clears_floor w \<longrightarrow> seal h v = seal h w)"
proof -
  have "v \<noteq> [] \<and> w \<noteq> [] \<and> \<not> clears_floor v \<and> \<not> clears_floor w \<longrightarrow> seal h v = seal h w"
    by (simp add: seal_def)
  with redact_alike[OF assms] show ?thesis by blast
qed

theorem redaction_noninterference_witness:
  "redact (\<lambda>_. []) \<lparr>dlines = [\<lparr>l_raw = ''K=aaaa'', l_kind = Entry \<lparr>e_export = False, e_key = ''K'', e_value = ''aaaa''\<rparr>\<rparr>],
      trailing_newline = True\<rparr>
   = redact (\<lambda>_. []) \<lparr>dlines = [\<lparr>l_raw = ''K=bb'', l_kind = Entry \<lparr>e_export = False, e_key = ''K'', e_value = ''bb''\<rparr>\<rparr>],
      trailing_newline = True\<rparr>"
proof -
  have "\<not> clears_floor ''aaaa''" "\<not> clears_floor ''bb''"
    by (simp_all add: clears_floor_def)
  then have "list_all2 (alike (\<lambda>_. []))
      [\<lparr>l_raw = ''K=aaaa'', l_kind = Entry \<lparr>e_export = False, e_key = ''K'', e_value = ''aaaa''\<rparr>\<rparr>]
      [\<lparr>l_raw = ''K=bb'', l_kind = Entry \<lparr>e_export = False, e_key = ''K'', e_value = ''bb''\<rparr>\<rparr>]"
    by (simp add: alike.simps seal_def)
  then show ?thesis
    using redaction_noninterference[of "\<lambda>_. []"
      "\<lparr>dlines = [\<lparr>l_raw = ''K=aaaa'', l_kind = Entry \<lparr>e_export = False, e_key = ''K'', e_value = ''aaaa''\<rparr>\<rparr>],
        trailing_newline = True\<rparr>"
      "\<lparr>dlines = [\<lparr>l_raw = ''K=bb'', l_kind = Entry \<lparr>e_export = False, e_key = ''K'', e_value = ''bb''\<rparr>\<rparr>],
        trailing_newline = True\<rparr>"]
    by simp
qed

text \<open>C19: The placeholder the redacted view shows for a key comes back as the value it stands for.
  Written back unchanged it resolves to the stored value; the placeholder of another value above
  the floor resolves only when the digests agree, and is refused otherwise; text without
  placeholder syntax is taken literally. SHA-256 in hexadecimal is the hash assumed.\<close>
theorem placeholder_resolves:
  assumes "hex_hash h" "is_valid_key k" "get_entry f k = Some e"
  shows "resolve_value h f p (placeholder h k (e_value e)) = Inr (e_value e)
    \<and> (clears_floor v \<and> digest_of h (e_value e) \<noteq> digest_of h v \<longrightarrow>
         (\<exists>er. resolve_value h f p (placeholder h k v) = Inl er \<and> code er = InvalidInput))
    \<and> (\<not> contains_placeholder_syntax r \<longrightarrow> resolve_value h f p r = Inr r)"
  using resolve_own_placeholder[OF assms] resolve_plain by simp

theorem placeholder_resolves_witness:
  "resolve_value zero_hash
     \<lparr>dlines = [\<lparr>l_raw = ''K=v'', l_kind = Entry \<lparr>e_export = False, e_key = ''K'', e_value = ''v''\<rparr>\<rparr>], trailing_newline = True\<rparr>
     ''.env'' (placeholder zero_hash ''K'' ''v'') = Inr ''v''"
proof -
  have "is_valid_key ''K''" by code_simp
  moreover have "get_entry
     \<lparr>dlines = [\<lparr>l_raw = ''K=v'', l_kind = Entry \<lparr>e_export = False, e_key = ''K'', e_value = ''v''\<rparr>\<rparr>], trailing_newline = True\<rparr>
     ''K'' = Some \<lparr>e_export = False, e_key = ''K'', e_value = ''v''\<rparr>" by code_simp
  ultimately show ?thesis using placeholder_resolves[OF hex_zero_hash] by fastforce
qed

text \<open>The example file of a well-formed dotenv file is a dotenv file again: it parses, line for
  line, to the same keys with every value empty.\<close>
theorem example_parses:
  assumes "hex_hash h" and "parse c = Some f" and "c \<noteq> []"
  shows "\<exists>g. parse (example h f) = Some g \<and> keys g = keys f \<and> all_values_empty g
    \<and> length (dlines g) = length (dlines f)"
proof -
  have f: "render f = c" "wf_file f" "trailing_newline f \<longleftrightarrow> c \<noteq> [] \<and> last c = nl"
    using parse_SomeD[OF assms(2)] by auto
  have ne: "dlines f \<noteq> []" using parse_nonempty[OF assms(2,3)] .
  have "l_raw (last (dlines f)) \<noteq> []" if t: "\<not> trailing_newline f"
  proof
    assume l: "l_raw (last (dlines f)) = []"
    have "c = join_with [nl] (map l_raw (dlines f))" using f(1) t by (simp add: render_def join_lines_def)
    also have "map l_raw (dlines f) = map l_raw (butlast (dlines f)) @ [[]]"
      using l ne by (metis append_butlast_last_id list.simps(8) list.simps(9) map_append)
    finally have c: "c = join_with [nl] (map l_raw (butlast (dlines f)) @ [[]])" .
    show False
    proof (cases "butlast (dlines f)")
      case Nil
      with c assms(3) show False by simp
    next
      case (Cons a as)
      then have "c = join_with [nl] (map l_raw (butlast (dlines f))) @ [nl]"
        using c join_snoc_Nil[of "map l_raw (butlast (dlines f))" "[nl]"] by simp
      with f(3) t show False by simp
    qed
  qed
  with parse_example[OF assms(1) f(2) ne] show ?thesis
    using keys_example all_values_empty_example by fastforce
qed

theorem example_parses_witness:
  "\<exists>g. parse (example zero_hash \<lparr>dlines = [\<lparr>l_raw = ''K=v'', l_kind = Entry \<lparr>e_export = False, e_key = ''K'', e_value = ''v''\<rparr>\<rparr>],
      trailing_newline = True\<rparr>) = Some g \<and> keys g = [''K''] \<and> all_values_empty g"
proof -
  have p: "parse (''K=v'' @ [nl]) = Some \<lparr>dlines = [\<lparr>l_raw = ''K=v'', l_kind = Entry \<lparr>e_export = False, e_key = ''K'', e_value = ''v''\<rparr>\<rparr>],
      trailing_newline = True\<rparr>" by code_simp
  have "keys \<lparr>dlines = [\<lparr>l_raw = ''K=v'', l_kind = Entry \<lparr>e_export = False, e_key = ''K'', e_value = ''v''\<rparr>\<rparr>],
      trailing_newline = True\<rparr> = [''K'']" by code_simp
  with example_parses[OF hex_zero_hash p] show ?thesis by auto
qed

end
