(* ===== verification/Kaed_Read.thy ===== *)
theory Kaed_Read
  imports Kaed_Fs_Facts Kaed_Redaction_Facts
begin

text \<open>
  \<open>src/fsops.rs\<close>, the reading tools: the shaped-read engine with its line-wise byte budget,
  \<open>read\<close>, the multi-path \<open>read_many\<close>, \<open>stat\<close>, and the paging and diagnosis of \<open>list\<close>.
  \<open>usize\<close> arithmetic that can overflow in a release build wraps at 64 bits; an index out of
  bounds is a panic. The lemmas state that a read is byte-exact, respects its budget and never
  truncates silently, that successive pages continue one another, and that a classified file
  is only ever served through its redacted rendering.
\<close>

datatype read_mode =
    Whole
  | Range nat nat
  | WindowLine nat nat
  | WindowAnchor rstr nat "nat option"

record read_result =
  rd_content :: rstr
  rd_version :: rstr
  rd_start :: nat
  rd_end :: nat
  rd_total :: nat
  rd_truncated :: bool
  rd_next :: "nat option"
  rd_redacted :: bool
  rd_dotenv :: "entry_view list option"
  rd_usage_hint :: bool
  rd_warnings :: "msg list"

fun spans_from :: "nat \<Rightarrow> rstr list \<Rightarrow> (nat \<times> nat) list" where
  "spans_from off [] = []"
| "spans_from off (seg # segs) = (off, off + length seg) # spans_from (off + length seg) segs"

definition wrap64 :: "nat \<Rightarrow> nat" where
  "wrap64 n = n mod 2 ^ 64"

definition window :: "nat \<Rightarrow> nat \<Rightarrow> nat \<Rightarrow> nat \<times> nat" where
  "window line context_lines tot =
     (max (line - context_lines) 1, min (wrap64 (line + context_lines)) tot)"

definition shape_range :: "rstr \<Rightarrow> rstr \<Rightarrow> read_mode \<Rightarrow> nat \<Rightarrow> (nat \<times> nat) res" where
  "shape_range content rel mode tot =
     (case mode of
        Whole \<Rightarrow> Inr (1, tot)
      | Range start stop \<Rightarrow>
          if start = 0 \<or> stop < start then Inl (invalid_input (Msg ''invalid range'' []))
          else if tot < start then Inl (invalid_input (Msg ''range starts past the end'' [rel]))
          else Inr (start, min stop tot)
      | WindowLine line c \<Rightarrow>
          if line = 0 \<or> tot < line then Inl (invalid_input (Msg ''line out of range'' [rel]))
          else Inr (window line c tot)
      | WindowAnchor anchor c occurrence \<Rightarrow>
          and_then (resolve_anchor content anchor occurrence rel) (\<lambda>hit.
            Inr (window (hit_line hit) c tot)))"

fun budget_loop :: "nat \<Rightarrow> (nat \<times> nat) list \<Rightarrow> nat \<Rightarrow> nat list \<Rightarrow> nat \<Rightarrow> nat \<Rightarrow> nat" where
  "budget_loop budget spans start [] used included = included"
| "budget_loop budget spans start (line_no # rest) used included =
     (let (s, e) = spans ! (line_no - 1) in
      if budget < used + (e - s) \<and> start < line_no then included
      else if budget < used + (e - s) then line_no
      else budget_loop budget spans start rest (used + (e - s)) line_no)"

definition is_char_boundary :: "rstr \<Rightarrow> nat \<Rightarrow> bool" where
  "is_char_boundary s i \<longleftrightarrow> i = 0 \<or> i = length s \<or> (i < length s \<and> \<not> is_cont (s ! i))"

fun floor_boundary :: "rstr \<Rightarrow> nat \<Rightarrow> nat" where
  "floor_boundary s 0 = 0"
| "floor_boundary s (Suc n) = (if is_char_boundary s (Suc n) then Suc n else floor_boundary s n)"

definition number_lines :: "nat \<Rightarrow> rstr \<Rightarrow> rstr" where
  "number_lines start body =
     concat (map (\<lambda>(i, seg). show_nat (start + i) @ [CHR 0x09] @ seg) (enumerate 0 (split_inclusive body)))"

definition read_budget :: "nat option \<Rightarrow> limits \<Rightarrow> nat" where
  "read_budget max_bytes lm =
     min (case max_bytes of Some b \<Rightarrow> b | None \<Rightarrow> lim_read_bytes lm) (lim_read_bytes lm)"

definition slice_lines ::
  "rstr \<Rightarrow> rstr \<Rightarrow> rstr \<Rightarrow> read_mode \<Rightarrow> bool \<Rightarrow> nat option \<Rightarrow> limits \<Rightarrow> read_result res" where
  "slice_lines content rel version mode numbered max_bytes lm =
     (let budget = read_budget max_bytes lm;
          spans = spans_from 0 (split_inclusive content);
          tot = length spans
      in and_then (shape_range content rel mode tot) (\<lambda>(start, stop).
         if tot = 0
         then Inr \<lparr>rd_content = [], rd_version = version, rd_start = 0, rd_end = 0, rd_total = 0,
                   rd_truncated = False, rd_next = None, rd_redacted = False, rd_dotenv = None,
                   rd_usage_hint = False, rd_warnings = []\<rparr>
         else
           let included = budget_loop budget spans start [start..<Suc stop] 0 (start - 1) in
           if included = 0 then Inl panicked
           else
             let slice_start = fst (spans ! (start - 1));
                 slice_end = snd (spans ! (included - 1));
                 body = take (slice_end - slice_start) (drop slice_start content);
                 cut = budget < length body;
                 body' = (if cut then take (floor_boundary body budget) body else body);
                 truncated = included < stop \<or> cut
             in Inr \<lparr>rd_content = (if numbered then number_lines start body' else body'),
                     rd_version = version, rd_start = start, rd_end = included, rd_total = tot,
                     rd_truncated = truncated,
                     rd_next = (if included < stop \<and> \<not> cut then Some (included + 1) else None),
                     rd_redacted = False, rd_dotenv = None, rd_usage_hint = False,
                     rd_warnings = []\<rparr>))"

definition read ::
  "crates \<Rightarrow> fsys \<Rightarrow> rroot \<Rightarrow> rstr \<Rightarrow> read_mode \<Rightarrow> bool \<Rightarrow> nat option \<Rightarrow> limits \<Rightarrow> read_result res" where
  "read ck fs base rel mode numbered max_bytes lm =
     and_then (load_text ck fs base rel lm) (\<lambda>l.
       case ld_secrecy l of
         Plain \<Rightarrow> slice_lines (ld_content l) rel (ld_version l) mode numbered max_bytes lm
       | ClassifiedDotenv rule f \<Rightarrow>
           and_then (slice_lines (redact (cr_h ck) f) rel (ld_version l) mode numbered max_bytes lm) (\<lambda>out.
             Inr (out\<lparr>rd_redacted := True,
                      rd_dotenv := (if mode = Whole then Some (entries (cr_h ck) f) else None),
                      rd_usage_hint := True,
                      rd_warnings := (case gitignore_warning (path_exists fs) (cr_git_status ck) (ld_abs l) rel of
                                        None \<Rightarrow> [] | Some w \<Rightarrow> [w])\<rparr>)))"

section \<open>Several files in one call\<close>

definition MAX_READ_PATHS :: nat where "MAX_READ_PATHS = 32"

type_synonym file_read = "rstr \<times> (kaed_error + read_result)"

record multi_read_result =
  mr_files :: "file_read list"
  mr_requested :: nat
  mr_returned :: nat
  mr_budget_exhausted :: bool

definition budget_error :: "nat \<Rightarrow> kaed_error" where
  "budget_error tot = too_large (Msg ''the shared read budget was spent'' [])"

definition read_one ::
  "(rstr \<Rightarrow> nat \<Rightarrow> read_result res) \<Rightarrow> nat \<Rightarrow> rstr \<Rightarrow> nat \<times> bool \<times> file_read list
     \<Rightarrow> nat \<times> bool \<times> file_read list" where
  "read_one rd tot rel st =
     (let (spent, exhausted, files) = st; remaining = tot - spent in
      if remaining = 0 then (spent, True, files @ [(rel, Inl (budget_error tot))])
      else (case rd rel remaining of
              Inr r \<Rightarrow> (spent + length (rd_content r), exhausted \<or> rd_truncated r, files @ [(rel, Inr r)])
            | Inl e \<Rightarrow> (spent, exhausted, files @ [(rel, Inl e)])))"

definition is_read :: "file_read \<Rightarrow> bool" where
  "is_read f = (case snd f of Inl _ \<Rightarrow> False | Inr _ \<Rightarrow> True)"

definition read_many ::
  "crates \<Rightarrow> fsys \<Rightarrow> rroot \<Rightarrow> rstr list \<Rightarrow> bool \<Rightarrow> nat option \<Rightarrow> limits \<Rightarrow> multi_read_result res" where
  "read_many ck fs base rels numbered max_bytes lm =
     (if rels = [] then Inl (invalid_input (Msg ''paths must name at least one file'' []))
      else if MAX_READ_PATHS < length rels then Inl (invalid_input (Msg ''paths names too many files'' []))
      else
        let tot = read_budget max_bytes lm;
            (spent, exhausted, files) =
              fold (read_one (\<lambda>rel remaining. read ck fs base rel Whole numbered (Some remaining) lm) tot)
                rels (0, False, [])
        in Inr \<lparr>mr_files = files, mr_requested = length rels,
                mr_returned = length (filter is_read files), mr_budget_exhausted = exhausted\<rparr>)"

section \<open>Facts about spans and the budget\<close>

lemma length_spans_from [simp]: "length (spans_from off segs) = length segs"
  by (induction segs arbitrary: off) auto

lemma spans_from_nth:
  "i < length segs \<Longrightarrow>
     spans_from off segs ! i = (off + length (concat (take i segs)), off + length (concat (take (Suc i) segs)))"
proof (induction segs arbitrary: off i)
  case (Cons s segs)
  then show ?case by (cases i) auto
qed simp

lemma concat_take_drop: "concat (take i segs) @ concat (drop i segs) = concat segs"
  by (metis append_take_drop_id concat_append)

text \<open>The bytes between the start of one line and the end of another are the lines between.\<close>

lemma span_bytes:
  assumes "1 \<le> a" "a \<le> b" "b \<le> length segs"
  shows "take (snd (spans_from 0 segs ! (b - 1)) - fst (spans_from 0 segs ! (a - 1)))
      (drop (fst (spans_from 0 segs ! (a - 1))) (concat segs))
    = concat (take (b - (a - 1)) (drop (a - 1) segs))"
proof -
  have s: "fst (spans_from 0 segs ! (a - 1)) = length (concat (take (a - 1) segs))"
    "snd (spans_from 0 segs ! (b - 1)) = length (concat (take b segs))"
    using assms by (simp_all add: spans_from_nth)
  have d: "drop (length (concat (take (a - 1) segs))) (concat segs) = concat (drop (a - 1) segs)"
    by (metis append_eq_conv_conj concat_take_drop)
  have "take b segs = take (a - 1) segs @ take (b - (a - 1)) (drop (a - 1) segs)"
    using assms by (metis diff_le_self le_add_diff_inverse le_trans take_add)
  then have "length (concat (take b segs)) - length (concat (take (a - 1) segs))
      = length (concat (take (b - (a - 1)) (drop (a - 1) segs)))"
    by simp
  moreover have "take (length (concat (take n ls))) (concat ls) = concat (take n ls)" for n and ls :: "rstr list"
    by (metis append_eq_conv_conj concat_take_drop)
  ultimately show ?thesis unfolding s d by simp
qed

lemma budget_loop_bound:
  "included \<le> stop \<Longrightarrow> (\<forall>n\<in>set rest. n \<le> stop) \<Longrightarrow>
     budget_loop budget spans start rest used included \<le> stop"
  by (induction budget spans start rest used included rule: budget_loop.induct) (auto split: prod.splits)

text \<open>
  The loop over consecutive lines: it takes at least the first line, everything it takes fits
  the budget unless it took the first line alone, and when it stops early the next line would
  have overflowed.
\<close>

lemma budget_loop_spec:
  assumes "1 \<le> start" "start \<le> k" "k \<le> Suc stop" "stop \<le> length segs"
    and "used = length (concat (take (k - start) (drop (start - 1) segs)))" "used \<le> budget"
  defines "r \<equiv> budget_loop budget (spans_from 0 segs) start [k..<Suc stop] used (k - 1)"
  shows "k - 1 \<le> r \<and> r \<le> stop \<and>
    (length (concat (take (r - (start - 1)) (drop (start - 1) segs))) \<le> budget \<or> (r = start \<and> k = start)) \<and>
    (start \<le> stop \<longrightarrow> start \<le> r)"
  using assms(2,3,5,6) unfolding r_def
proof (induction "Suc stop - k" arbitrary: k used)
  case 0
  then have "k = Suc stop" by simp
  with 0 assms(1) show ?case by (auto simp: Suc_diff_le)
next
  case (Suc m)
  then have kle: "k \<le> stop" by simp
  then have up: "[k..<Suc stop] = k # [Suc k..<Suc stop]" by (simp add: upt_rec)
  have sp: "spans_from 0 segs ! (k - 1) = (length (concat (take (k - 1) segs)), length (concat (take k segs)))"
    using kle Suc.prems(1) assms(1,4) by (simp add: spans_from_nth)
  have tk: "take (Suc k - start) (drop (start - 1) segs) = take (k - start) (drop (start - 1) segs) @ [segs ! (k - 1)]"
    using kle Suc.prems(1) assms(1,4) by (simp add: Suc_diff_le take_Suc_conv_app_nth)
  have len: "length (concat (take k segs)) - length (concat (take (k - 1) segs)) = length (segs ! (k - 1))"
  proof -
    have "take k segs = take (k - 1) segs @ [segs ! (k - 1)]"
      using kle Suc.prems(1) assms(1,4) take_Suc_conv_app_nth[of "k - 1" segs] by simp
    then show ?thesis by simp
  qed
  let ?u = "used + length (segs ! (k - 1))"
  have u: "?u = length (concat (take (Suc k - start) (drop (start - 1) segs)))"
    using Suc.prems(3) tk by simp
  consider "budget < ?u" "start < k" | "budget < ?u" "k = start" | "?u \<le> budget"
    using Suc.prems(1) by linarith
  then show ?case
  proof cases
    case 1
    have "budget_loop budget (spans_from 0 segs) start [k..<Suc stop] used (k - 1) = k - 1"
      unfolding up using 1 sp len by simp
    moreover have "k - 1 - (start - 1) = k - start" using assms(1) by simp
    moreover have "k - 1 \<le> stop" "start \<le> k - 1" using 1 kle by linarith+
    ultimately show ?thesis using Suc.prems(3,4) by (simp del: upt_Suc)
  next
    case 2
    have "budget_loop budget (spans_from 0 segs) start [k..<Suc stop] used (k - 1) = k"
      unfolding up using 2 sp len by simp
    then show ?thesis using 2 kle by auto
  next
    case 3
    have step: "budget_loop budget (spans_from 0 segs) start [k..<Suc stop] used (k - 1)
        = budget_loop budget (spans_from 0 segs) start [Suc k..<Suc stop] ?u (Suc k - 1)"
      unfolding up using 3 sp len by simp
    have hyps: "m = Suc stop - Suc k" "start \<le> Suc k" "Suc k \<le> Suc stop"
      using Suc.hyps(2) Suc.prems(1) kle by auto
    define R where "R = budget_loop budget (spans_from 0 segs) start [Suc k..<Suc stop] ?u (Suc k - 1)"
    have IH: "k \<le> R" "R \<le> stop" "Suc k \<noteq> start"
      "length (concat (take (R - (start - 1)) (drop (start - 1) segs))) \<le> budget \<or> (R = start \<and> Suc k = start)"
      "start \<le> stop \<longrightarrow> start \<le> R"
      using Suc.hyps(1)[OF hyps u 3] Suc.prems(1) by (simp_all only: R_def[symmetric]) simp_all
    show ?thesis unfolding step R_def[symmetric] using IH by auto
  qed
qed

lemma floor_boundary_le: "floor_boundary s n \<le> n"
  by (induction s n rule: floor_boundary.induct) auto

lemma floor_boundary_ok: "is_char_boundary s (floor_boundary s n)"
  by (induction s n rule: floor_boundary.induct) (auto simp: is_char_boundary_def)

section \<open>Facts about one read\<close>

text \<open>The lines \<open>a..b\<close> of a text, terminators included.\<close>

definition lines_between :: "rstr \<Rightarrow> nat \<Rightarrow> nat \<Rightarrow> rstr" where
  "lines_between c a b = concat (take (b - (a - 1)) (drop (a - 1) (split_inclusive c)))"

definition line_total :: "rstr \<Rightarrow> nat" where
  "line_total c = length (split_inclusive c)"

lemma lines_between_append:
  assumes "1 \<le> a" "a \<le> Suc b" "b \<le> d"
  shows "lines_between c a b @ lines_between c (Suc b) d = lines_between c a d"
proof -
  have "d - (a - 1) = (b - (a - 1)) + (d - b)" using assms by simp
  moreover have "drop b (split_inclusive c) = drop (b - (a - 1)) (drop (a - 1) (split_inclusive c))"
    using assms by simp
  ultimately show ?thesis
    unfolding lines_between_def by (simp only: take_add concat_append diff_Suc_1)
qed

lemma lines_between_all: "lines_between c 1 (line_total c) = c"
  by (simp add: lines_between_def line_total_def)

lemma line_length_pos:
  assumes "1 \<le> a" "a \<le> b" "b \<le> line_total c"
  shows "lines_between c a b \<noteq> []"
proof
  assume "lines_between c a b = []"
  then have "\<forall>w\<in>set (take (b - (a - 1)) (drop (a - 1) (split_inclusive c))). w = []"
    by (simp add: lines_between_def)
  moreover have "take (b - (a - 1)) (drop (a - 1) (split_inclusive c)) \<noteq> []"
    using assms by (auto simp: line_total_def)
  ultimately obtain w where "w \<in> set (take (b - (a - 1)) (drop (a - 1) (split_inclusive c)))" "w = []"
    by (metis last_in_set)
  then show False using split_inclusive_nonempty by (metis in_set_dropD in_set_takeD)
qed

lemma slice_lines_spec:
  assumes sr: "shape_range c rel mode (line_total c) = Inr (a, b)" and ab: "1 \<le> a" "a \<le> b" "b \<le> line_total c"
  obtains inc where "a \<le> inc" "inc \<le> b"
    "inc = budget_loop (read_budget mb lm) (spans_from 0 (split_inclusive c)) a [a..<Suc b] 0 (a - 1)"
    "length (lines_between c a inc) \<le> read_budget mb lm \<or> inc = a"
    "slice_lines c rel v mode numbered mb lm = Inr
      (let body = lines_between c a inc; budget = read_budget mb lm; cut = budget < length body;
           body' = (if cut then take (floor_boundary body budget) body else body)
       in \<lparr>rd_content = (if numbered then number_lines a body' else body'), rd_version = v,
           rd_start = a, rd_end = inc, rd_total = line_total c, rd_truncated = (inc < b \<or> cut),
           rd_next = (if inc < b \<and> \<not> cut then Some (inc + 1) else None), rd_redacted = False,
           rd_dotenv = None, rd_usage_hint = False, rd_warnings = []\<rparr>)"
proof -
  let ?segs = "split_inclusive c"
  let ?budget = "read_budget mb lm"
  define inc where "inc = budget_loop ?budget (spans_from 0 ?segs) a [a..<Suc b] 0 (a - 1)"
  have tot: "length ?segs \<noteq> 0" "b \<le> length ?segs" using ab by (auto simp: line_total_def)
  have I: "a - 1 \<le> inc \<and> inc \<le> b \<and>
      (length (concat (take (inc - (a - 1)) (drop (a - 1) ?segs))) \<le> ?budget \<or> (inc = a \<and> a = a)) \<and>
      (a \<le> b \<longrightarrow> a \<le> inc)"
    unfolding inc_def by (rule budget_loop_spec) (use ab tot in auto)
  have inc: "a \<le> inc" "inc \<le> b" "inc \<noteq> 0" "inc \<le> length ?segs" using I ab tot by auto
  have body: "take (snd (spans_from 0 ?segs ! (inc - 1)) - fst (spans_from 0 ?segs ! (a - 1)))
      (drop (fst (spans_from 0 ?segs ! (a - 1))) c) = lines_between c a inc"
    using span_bytes[OF ab(1) inc(1,4)] by (simp add: lines_between_def)
  have lens: "length (spans_from 0 ?segs) = line_total c" by (simp add: line_total_def)
  show thesis
  proof (rule that[of inc])
    show "length (lines_between c a inc) \<le> ?budget \<or> inc = a"
      using I by (simp add: lines_between_def)
    show "slice_lines c rel v mode numbered mb lm = Inr
      (let body = lines_between c a inc; budget = read_budget mb lm; cut = budget < length body;
           body' = (if cut then take (floor_boundary body budget) body else body)
       in \<lparr>rd_content = (if numbered then number_lines a body' else body'), rd_version = v,
           rd_start = a, rd_end = inc, rd_total = line_total c, rd_truncated = (inc < b \<or> cut),
           rd_next = (if inc < b \<and> \<not> cut then Some (inc + 1) else None), rd_redacted = False,
           rd_dotenv = None, rd_usage_hint = False, rd_warnings = []\<rparr>)"
      unfolding slice_lines_def Let_def lens sr and_then_simps prod.case inc_def[symmetric] body
      using tot(1) inc(3) by (simp add: line_total_def)
  qed (rule inc(1) inc(2) inc_def)+
qed

lemma shape_range_bounds:
  assumes "shape_range c rel mode (line_total c) = Inr (a, b)" and "c \<noteq> []"
    and "case mode of WindowLine l n \<Rightarrow> l + n < 2 ^ 64
         | WindowAnchor an n oc \<Rightarrow> length c + n < 2 ^ 64 | _ \<Rightarrow> True"
  shows "1 \<le> a" "a \<le> b" "b \<le> line_total c"
proof -
  have tot: "1 \<le> line_total c" using assms(2) by (cases "split_inclusive c") (auto simp: line_total_def)
  have win: "1 \<le> fst (window l n (line_total c)) \<and> fst (window l n (line_total c)) \<le> snd (window l n (line_total c))
      \<and> snd (window l n (line_total c)) \<le> line_total c"
    if "1 \<le> l" "l \<le> line_total c" "l + n < 2 ^ 64" for l n
    using that by (simp add: window_def wrap64_def) linarith
  have tl: "line_total c \<le> length c"
  proof -
    have "length (concat ws) \<ge> length ws" if "\<forall>w\<in>set ws. w \<noteq> []" for ws :: "rstr list"
      using that by (induction ws) (auto simp: Suc_le_eq add_pos_nonneg neq_Nil_conv)
    from this[of "split_inclusive c"] show ?thesis
      using split_inclusive_nonempty by (auto simp: line_total_def)
  qed
  have "1 \<le> a \<and> a \<le> b \<and> b \<le> line_total c"
  proof (cases mode)
    case (WindowAnchor an n oc)
    with assms(1) obtain hit where h: "resolve_anchor c an oc rel = Inr hit"
      "(a, b) = window (hit_line hit) n (line_total c)"
      by (auto simp: shape_range_def)
    from find_anchor_sound[OF resolve_anchor_mem[OF h(1)]]
    have f: "an \<noteq> []" "take (length an) (drop (byte_offset hit) c) = an"
      "hit_line hit = line_of_offset c (byte_offset hit)" by auto
    then have "byte_offset hit < length c" by (cases "byte_offset hit < length c") auto
    then have "1 \<le> hit_line hit" "hit_line hit \<le> line_total c"
      using f(3) line_of_offset_bound by (simp_all add: line_of_offset_def line_total_def)
    moreover have "hit_line hit + n < 2 ^ 64"
      using assms(3) WindowAnchor tl \<open>hit_line hit \<le> line_total c\<close> by simp
    ultimately have "1 \<le> fst (a, b) \<and> fst (a, b) \<le> snd (a, b) \<and> snd (a, b) \<le> line_total c"
      unfolding h(2) by (rule win)
    then show ?thesis by simp
  next
    case (WindowLine l n)
    with assms(1,3) win[of l n] show ?thesis
      by (auto simp: shape_range_def split: if_splits)
  qed (use assms(1) tot in \<open>auto simp: shape_range_def split: if_splits\<close>)
  then show "1 \<le> a" "a \<le> b" "b \<le> line_total c" by auto
qed

lemma slice_lines_empty:
  "slice_lines [] rel v Whole numbered mb lm = Inr \<lparr>rd_content = [], rd_version = v, rd_start = 0,
     rd_end = 0, rd_total = 0, rd_truncated = False, rd_next = None, rd_redacted = False,
     rd_dotenv = None, rd_usage_hint = False, rd_warnings = []\<rparr>"
  by (simp add: slice_lines_def shape_range_def Let_def)

lemma take_floor_length: "length (take (floor_boundary s n) s) \<le> n"
  using floor_boundary_le[of s n] by simp

lemma slice_whole_budget:
  assumes "slice_lines c rel v Whole False mb lm = Inr r"
  shows "length (rd_content r) \<le> read_budget mb lm"
proof (cases "c = []")
  case True
  then have "r = \<lparr>rd_content = [], rd_version = v, rd_start = 0, rd_end = 0, rd_total = 0,
      rd_truncated = False, rd_next = None, rd_redacted = False, rd_dotenv = None,
      rd_usage_hint = False, rd_warnings = []\<rparr>"
    using assms slice_lines_empty by auto
  then show ?thesis by simp
next
  case False
  have sr: "shape_range c rel Whole (line_total c) = Inr (1, line_total c)" by (simp add: shape_range_def)
  from shape_range_bounds[OF sr False] have ab: "(1::nat) \<le> 1" "1 \<le> line_total c" "line_total c \<le> line_total c"
    by simp_all
  obtain inc where inc: "slice_lines c rel v Whole False mb lm = Inr
      (let body = lines_between c 1 inc; budget = read_budget mb lm; cut = budget < length body;
           body' = (if cut then take (floor_boundary body budget) body else body)
       in \<lparr>rd_content = (if False then number_lines 1 body' else body'), rd_version = v,
           rd_start = 1, rd_end = inc, rd_total = line_total c, rd_truncated = (inc < line_total c \<or> cut),
           rd_next = (if inc < line_total c \<and> \<not> cut then Some (inc + 1) else None), rd_redacted = False,
           rd_dotenv = None, rd_usage_hint = False, rd_warnings = []\<rparr>)"
    by (rule slice_lines_spec[OF sr ab, where numbered = False and v = v and mb = mb and lm = lm])
  show ?thesis
  proof (cases "read_budget mb lm < length (lines_between c 1 inc)")
    case True
    then have "rd_content r = take (floor_boundary (lines_between c 1 inc) (read_budget mb lm)) (lines_between c 1 inc)"
      using assms inc by (auto simp: Let_def)
    then show ?thesis using take_floor_length by simp
  next
    case False
    then have "rd_content r = lines_between c 1 inc" using assms inc by (auto simp: Let_def)
    with False show ?thesis by simp
  qed
qed

text \<open>A read is a slice of the text of a plain file, or of the redacted rendering of a classified one.\<close>

lemma read_cases:
  assumes "read ck fs base rel mode numbered mb lm = Inr r"
  obtains (plain) l where "load_text ck fs base rel lm = Inr l" "ld_secrecy l = Plain"
      "slice_lines (ld_content l) rel (ld_version l) mode numbered mb lm = Inr r"
  | (classified) l rule f r0 where "load_text ck fs base rel lm = Inr l"
      "ld_secrecy l = ClassifiedDotenv rule f"
      "slice_lines (redact (cr_h ck) f) rel (ld_version l) mode numbered mb lm = Inr r0"
      "rd_content r = rd_content r0" "rd_version r = rd_version r0" "rd_total r = rd_total r0"
      "rd_redacted r" "rd_dotenv r = (if mode = Whole then Some (entries (cr_h ck) f) else None)"
proof -
  from assms obtain l where l: "load_text ck fs base rel lm = Inr l" by (auto simp: read_def)
  show thesis
  proof (cases "ld_secrecy l")
    case Plain
    with assms l show thesis by (intro plain) (simp_all add: read_def)
  next
    case (ClassifiedDotenv rule f)
    with assms l obtain r0 where
      "slice_lines (redact (cr_h ck) f) rel (ld_version l) mode numbered mb lm = Inr r0"
      "r = r0\<lparr>rd_redacted := True,
         rd_dotenv := (if mode = Whole then Some (entries (cr_h ck) f) else None), rd_usage_hint := True,
         rd_warnings := (case gitignore_warning (path_exists fs) (cr_git_status ck) (ld_abs l) rel of
                           None \<Rightarrow> [] | Some w \<Rightarrow> [w])\<rparr>"
      by (auto simp: read_def)
    then show thesis using l ClassifiedDotenv by (intro classified) simp_all
  qed
qed

lemma read_whole_budget:
  assumes "read ck fs base rel Whole False (Some b) lm = Inr r"
  shows "length (rd_content r) \<le> min b (lim_read_bytes lm)"
  using assms
proof (cases rule: read_cases)
  case (plain l)
  from slice_whole_budget[OF plain(3)] show ?thesis by (simp add: read_budget_def)
next
  case (classified l rule f r0)
  from slice_whole_budget[OF classified(3)] classified(4) show ?thesis by (simp add: read_budget_def)
qed

text \<open>The bytes a multi-path read returns.\<close>

definition bytes_of :: "file_read list \<Rightarrow> nat" where
  "bytes_of files = (\<Sum>f\<leftarrow>files. case snd f of Inl _ \<Rightarrow> 0 | Inr r \<Rightarrow> length (rd_content r))"

lemma bytes_of_snoc [simp]:
  "bytes_of (files @ [(rel, x)]) = bytes_of files + (case x of Inl _ \<Rightarrow> 0 | Inr r \<Rightarrow> length (rd_content r))"
  by (simp add: bytes_of_def)

lemma read_one_invariant:
  assumes "\<And>rel b r. rd rel b = Inr r \<Longrightarrow> length (rd_content r) \<le> b"
    and "read_one rd tot rel (bytes_of files, ex, files) = (spent', ex', files')" "bytes_of files \<le> tot"
  shows "spent' = bytes_of files'" "spent' \<le> tot" "map fst files' = map fst files @ [rel]"
  using assms(2,3) assms(1)[of rel "tot - bytes_of files"]
  by (auto simp: read_one_def Let_def split: if_splits sum.splits)

lemma read_fold_invariant:
  assumes rd: "\<And>rel b r. rd rel b = Inr r \<Longrightarrow> length (rd_content r) \<le> b"
    and "fold (read_one rd tot) rels (bytes_of files, ex, files) = (spent', ex', files')" "bytes_of files \<le> tot"
  shows "spent' = bytes_of files' \<and> spent' \<le> tot \<and> map fst files' = map fst files @ rels"
  using assms(2,3)
proof (induction rels arbitrary: files ex)
  case (Cons rel rels)
  obtain s1 e1 f1 where one: "read_one rd tot rel (bytes_of files, ex, files) = (s1, e1, f1)"
    by (cases "read_one rd tot rel (bytes_of files, ex, files)")
  note I = read_one_invariant[of rd tot rel files ex s1 e1 f1, OF rd one Cons.prems(2)]
  from Cons.IH[of f1 e1] Cons.prems one I show ?case by simp
qed simp

text \<open>The names come back in the order asked, numbered or not.\<close>

lemma read_fold_names:
  "fold (read_one rd tot) rels (sp, ex, files) = (spent', ex', files') \<Longrightarrow> map fst files' = map fst files @ rels"
proof (induction rels arbitrary: sp ex files)
  case (Cons rel rels)
  obtain s1 e1 f1 where one: "read_one rd tot rel (sp, ex, files) = (s1, e1, f1)"
    by (cases "read_one rd tot rel (sp, ex, files)")
  then have "map fst f1 = map fst files @ [rel]"
    by (auto simp: read_one_def Let_def split: if_splits sum.splits)
  with Cons.IH[of s1 e1 f1] Cons.prems one show ?case by simp
qed simp

section \<open>The redacted view is line for line\<close>

lemma last_join_lines:
  "ls \<noteq> [] \<Longrightarrow> last ls \<noteq> [] \<Longrightarrow> join_lines ls t \<noteq> [] \<and> last (join_lines ls t) = (if t then nl else last (last ls))"
  using join_last[of ls "[nl]"] by (simp add: join_lines_def)

lemma ends_open_iff:
  assumes "\<forall>w\<in>set ls. nl \<notin> set w" "ls \<noteq> []" "t \<or> last ls \<noteq> []"
  shows "(join_lines ls t \<noteq> [] \<and> last (join_lines ls t) \<noteq> nl) \<longleftrightarrow> \<not> t"
proof (cases t)
  case True
  then show ?thesis by (simp add: join_lines_def)
next
  case False
  with assms have "last ls \<noteq> []" "nl \<notin> set (last ls)" by auto
  then have "last (last ls) \<noteq> nl" by (metis last_in_set)
  with False last_join_lines[OF assms(2) \<open>last ls \<noteq> []\<close>, of False] show ?thesis by simp
qed

lemma line_total_join:
  assumes "\<forall>w\<in>set ls. nl \<notin> set w" "ls \<noteq> []" "t \<or> last ls \<noteq> []"
  shows "line_total (join_lines ls t) = length ls"
proof -
  have "count_list (join_lines ls t) nl = length (split_on nl (join_lines ls t)) - 1"
    by (simp add: length_split_on)
  also have "\<dots> = length ls - (if t then 0 else 1)"
    using split_join_lines[OF assms(2,1)] assms(2) by (cases t) (auto simp: Suc_le_eq)
  finally show ?thesis
    using ends_open_iff[OF assms] assms(2) by (simp add: line_total_def length_split_inclusive)
qed

lemma redact_line_nonempty:
  assumes "wf_line l" "l_raw l \<noteq> []"
  shows "redact_line h l \<noteq> []"
proof (cases "l_kind l")
  case Comment
  then have "parse_line (redact_free_text h (l_raw l)) = Some Comment"
    using assms(1) parse_line_redacted_comment by (simp add: wf_line_def)
  then have "redact_free_text h (l_raw l) \<noteq> []" by (auto simp: parse_line_def)
  with Comment show ?thesis by (simp add: redact_line_def)
qed (use assms in \<open>simp_all add: redact_line_def\<close>)

lemma redact_line_for_line:
  assumes "hex_hash h" "parse c = Some f"
  shows "line_total (redact h f) = line_total c"
proof -
  note P = parse_SomeD[OF assms(2)]
  show ?thesis
  proof (cases "dlines f = []")
    case True
    then show ?thesis using P(1) by (simp add: redact_def render_def)
  next
    case False
    have wf: "\<forall>l\<in>set (dlines f). wf_line l" using P(2) by (simp add: wf_file_def)
    have open_end: "trailing_newline f \<or> l_raw (last (dlines f)) \<noteq> []"
    proof (rule ccontr)
      assume a: "\<not> (trailing_newline f \<or> l_raw (last (dlines f)) \<noteq> [])"
      then have c: "c = join_with [nl] (map l_raw (dlines f))" "last (map l_raw (dlines f)) = []"
        using P(1) False by (simp_all add: render_def join_lines_def last_map)
      show False
      proof (cases "butlast (dlines f)")
        case Nil
        then obtain l where "dlines f = [l]" using False by (metis append_butlast_last_id append_Nil)
        with c have "c = []" by simp
        with assms(2) have "dlines f = []" by (auto simp: parse_def)
        with \<open>dlines f = [l]\<close> show False by simp
      next
        case (Cons x xs)
        have "map l_raw (dlines f) = map l_raw (butlast (dlines f)) @ [[]]"
          using False c(2) by (metis append_butlast_last_id map_butlast map_is_Nil_conv)
        then have "c = join_with [nl] (map l_raw (butlast (dlines f))) @ [nl]"
          using c(1) Cons join_snoc_Nil[of "map l_raw (butlast (dlines f))" "[nl]"] by simp
        with P(3) a show False by simp
      qed
    qed
    have "line_total (redact h f) = length (map (redact_line h) (dlines f))"
      unfolding redact_def
      using False wf open_end assms(1) redact_line_no_nl redact_line_nonempty
      by (intro line_total_join) (auto simp: last_map)
    moreover have "line_total (render f) = length (map l_raw (dlines f))"
      unfolding render_def
      using False wf open_end by (intro line_total_join) (auto simp: last_map wf_line_def)
    ultimately show ?thesis using P(1) by simp
  qed
qed

section \<open>Properties\<close>

text \<open>The lines a mode asks for, first and last.\<close>

definition asks_lines :: "rstr \<Rightarrow> rstr \<Rightarrow> read_mode \<Rightarrow> nat \<Rightarrow> nat \<Rightarrow> bool" where
  "asks_lines c rel mode a stop \<longleftrightarrow>
     (case mode of
        Whole \<Rightarrow> a = 1 \<and> stop = line_total c
      | Range x y \<Rightarrow> a = x \<and> stop = min y (line_total c)
      | WindowLine l n \<Rightarrow> a = max 1 (l - n) \<and> stop = min (l + n) (line_total c)
      | WindowAnchor an n oc \<Rightarrow> (\<exists>hit. resolve_anchor c an oc rel = Inr hit
          \<and> a = max 1 (hit_line hit - n) \<and> stop = min (hit_line hit + n) (line_total c)))"

text \<open>A window whose last line is computed without leaving the 64 bits of \<open>usize\<close>.\<close>

definition no_overflow :: "rstr \<Rightarrow> read_mode \<Rightarrow> bool" where
  "no_overflow c mode \<longleftrightarrow>
     (case mode of WindowLine l n \<Rightarrow> l + n < 2 ^ 64 | WindowAnchor an n oc \<Rightarrow> length c + n < 2 ^ 64 | _ \<Rightarrow> True)"

lemma line_total_le: "line_total c \<le> length c"
proof -
  have "length (concat ws) \<ge> length ws" if "\<forall>w\<in>set ws. w \<noteq> []" for ws :: "rstr list"
    using that by (induction ws) (auto simp: Suc_le_eq add_pos_nonneg neq_Nil_conv)
  from this[of "split_inclusive c"] show ?thesis
    using split_inclusive_nonempty by (auto simp: line_total_def)
qed

lemma anchor_line_bound:
  assumes "resolve_anchor c an oc rel = Inr hit"
  shows "hit_line hit \<le> line_total c"
proof -
  from find_anchor_sound[OF resolve_anchor_mem[OF assms]]
  have f: "an \<noteq> []" "take (length an) (drop (byte_offset hit) c) = an"
    "hit_line hit = line_of_offset c (byte_offset hit)" by auto
  then have "byte_offset hit < length c" by (cases "byte_offset hit < length c") auto
  then show ?thesis using f(3) line_of_offset_bound by (simp add: line_of_offset_def line_total_def)
qed

lemma shape_range_asks:
  assumes "shape_range c rel mode (line_total c) = Inr (a, stop)" "no_overflow c mode"
  shows "asks_lines c rel mode a stop"
proof (cases mode)
  case (WindowAnchor an n oc)
  with assms(1) obtain hit where h: "resolve_anchor c an oc rel = Inr hit" "(a, stop) = window (hit_line hit) n (line_total c)"
    by (auto simp: shape_range_def)
  have "hit_line hit + n < 2 ^ 64"
    using anchor_line_bound[OF h(1)] line_total_le[of c] assms(2) WindowAnchor by (simp add: no_overflow_def)
  with h WindowAnchor show ?thesis by (auto simp: asks_lines_def window_def wrap64_def max.commute)
qed (use assms in \<open>auto simp: shape_range_def asks_lines_def no_overflow_def window_def wrap64_def max.commute
    split: if_splits\<close>)

text \<open>C35: A shaped read is byte-exact and never truncates silently, in every mode. The lines asked for
  are the whole file, the range cut to the file, or the window around the line or around the line
  the anchor resolves to (one whose end fits 64 bits). The body returned is whole lines from the first
  one asked for, within the byte budget, or the beginning of one line that alone exceeds it; it is
  everything asked for unless the result says it is truncated; and the next page it names continues it
  without a gap or an overlap. The content is the body itself or, when numbered lines are asked for, the
  body with a number before each line; the numbers come on top of the budget. An empty file reads as
  the empty content.\<close>
theorem read_range_exact:
  assumes "slice_lines c rel v mode numbered mb lm = Inr r" "no_overflow c mode"
  shows "if c = [] then rd_content r = [] \<and> rd_start r = 0 \<and> rd_end r = 0 \<and> rd_version r = v
      \<and> \<not> rd_truncated r \<and> rd_next r = None
    else \<exists>a stop body. asks_lines c rel mode a stop
    \<and> rd_content r = (if numbered then number_lines a body else body)
    \<and> rd_start r = a \<and> a \<le> rd_end r \<and> rd_end r \<le> stop \<and> rd_total r = line_total c \<and> rd_version r = v
    \<and> length body \<le> read_budget mb lm
    \<and> (\<not> rd_truncated r \<longrightarrow> body = lines_between c a stop)
    \<and> (rd_truncated r \<longrightarrow> rd_next r = Some (rd_end r + 1) \<or>
          (rd_next r = None \<and> rd_end r = a \<and> prefix body (lines_between c a a)))
    \<and> (\<forall>n. rd_next r = Some n \<longrightarrow> n = rd_end r + 1 \<and> n \<le> stop
          \<and> body @ lines_between c n stop = lines_between c a stop)"
proof (cases "c = []")
  case True
  then have "split_inclusive c = []" by simp
  with assms(1) True show ?thesis by (auto simp: slice_lines_def Let_def and_then_def split: sum.splits)
next
  case False
  obtain a stop where sr: "shape_range c rel mode (line_total c) = Inr (a, stop)"
    using assms(1) by (cases "shape_range c rel mode (line_total c)")
      (auto simp: slice_lines_def line_total_def Let_def and_then_def)
  have s: "1 \<le> a" "a \<le> stop" "stop \<le> line_total c"
    using shape_range_bounds[OF sr False assms(2)[unfolded no_overflow_def]] .
  let ?budget = "read_budget mb lm"
  obtain inc where inc: "a \<le> inc" "inc \<le> stop"
    "inc = budget_loop ?budget (spans_from 0 (split_inclusive c)) a [a..<Suc stop] 0 (a - 1)"
    "length (lines_between c a inc) \<le> ?budget \<or> inc = a"
    "slice_lines c rel v mode numbered mb lm =
      Inr (let body = lines_between c a inc; budget = ?budget; cut = budget < length body;
               body' = (if cut then take (floor_boundary body budget) body else body)
           in \<lparr>rd_content = (if numbered then number_lines a body' else body'),
               rd_version = v, rd_start = a, rd_end = inc, rd_total = line_total c,
               rd_truncated = (inc < stop \<or> cut),
               rd_next = (if inc < stop \<and> \<not> cut then Some (inc + 1) else None),
               rd_redacted = False, rd_dotenv = None, rd_usage_hint = False, rd_warnings = []\<rparr>)"
    by (rule slice_lines_spec[OF sr s])
  let ?full = "lines_between c a inc"
  define cut where "cut \<longleftrightarrow> ?budget < length ?full"
  define body where "body = (if cut then take (floor_boundary ?full ?budget) ?full else ?full)"
  have r: "rd_content r = (if numbered then number_lines a body else body)" "rd_version r = v" "rd_start r = a"
    "rd_end r = inc" "rd_total r = line_total c" "rd_truncated r \<longleftrightarrow> inc < stop \<or> cut"
    "rd_next r = (if inc < stop \<and> \<not> cut then Some (inc + 1) else None)"
    using assms(1)[unfolded inc(5)] by (auto simp: Let_def cut_def body_def)
  have len: "length body \<le> ?budget" using floor_boundary_le[of ?full ?budget] by (simp add: body_def cut_def)
  have one: "inc = a \<and> prefix body ?full" if cut using that inc(4) by (auto simp: cut_def body_def take_is_prefix)
  have join: "?full @ lines_between c (Suc inc) stop = lines_between c a stop"
    using lines_between_append[of a inc stop c] s(1) inc(1,2) by simp
  show ?thesis
    unfolding if_not_P[OF False]
  proof (rule exI[of _ a], rule exI[of _ stop], rule exI[of _ body], intro conjI impI allI)
    show "asks_lines c rel mode a stop" by (rule shape_range_asks[OF sr assms(2)])
    show "body = lines_between c a stop" if "\<not> rd_truncated r" using that r(6) inc(2) by (auto simp: body_def)
    show "rd_next r = Some (rd_end r + 1) \<or> (rd_next r = None \<and> rd_end r = a \<and> prefix body (lines_between c a a))"
      if "rd_truncated r" using that r(4,6,7) one by (cases cut) auto
    fix n assume n: "rd_next r = Some n"
    then have "inc < stop" "\<not> cut" "n = Suc inc" using r(7) by (auto split: if_splits)
    then show "n = rd_end r + 1" "n \<le> stop" "body @ lines_between c n stop = lines_between c a stop"
      using r(4) join by (auto simp: body_def)
  qed (use r inc(1,2) len in simp_all)
qed

theorem read_range_exact_witness:
  "\<exists>r. slice_lines (''a'' @ nl # ''b'' @ [nl]) ''f'' ''v'' (Range 1 2) True (Some 3) default_limits = Inr r
     \<and> rd_end r = 1 \<and> (\<exists>body. rd_content r = number_lines 1 body
        \<and> body @ lines_between (''a'' @ nl # ''b'' @ [nl]) 2 2 = ''a'' @ nl # ''b'' @ [nl])"
proof -
  let ?c = "''a'' @ nl # ''b'' @ [nl]"
  have sp: "split_inclusive ?c = [''a'' @ [nl], ''b'' @ [nl]]" by code_simp
  then obtain r where r: "slice_lines ?c ''f'' ''v'' (Range 1 2) True (Some 3) default_limits = Inr r"
    "rd_end r = 1" "rd_next r = Some 2"
    by (simp add: slice_lines_def shape_range_def read_budget_def default_limits_def upt_rec)
  have t: "min 2 (line_total ?c) = 2" by (simp add: line_total_def sp)
  have w: "lines_between ?c 1 2 = ?c" by (simp add: lines_between_def sp)
  have "no_overflow ?c (Range 1 2)" by (simp add: no_overflow_def)
  from read_range_exact[OF r(1) this] obtain body where "rd_content r = number_lines 1 body"
    "body @ lines_between ?c 2 2 = lines_between ?c 1 2"
    using r(3) t by (auto simp: asks_lines_def simp del: append.simps)
  with r w show ?thesis by auto
qed

text \<open>Numbered lines exceed the budget: two bytes are asked for and four come back, not truncated.\<close>

lemma numbered_over_budget:
  "\<exists>r. slice_lines (''a'' @ [nl]) ''f'' ''v'' Whole True (Some 2) default_limits = Inr r
     \<and> length (rd_content r) = 4 \<and> \<not> rd_truncated r"
proof -
  have sp: "split_inclusive (''a'' @ [nl]) = [''a'' @ [nl]]" by code_simp
  have "number_lines 1 (''a'' @ [nl]) = ''1'' @ [CHR 0x09] @ ''a'' @ [nl]" by code_simp
  with sp show ?thesis
    by (simp add: slice_lines_def shape_range_def read_budget_def default_limits_def upt_rec)
qed

lemma slice_version:
  assumes "slice_lines c rel v mode num mb lm = Inr r"
  shows "rd_version r = v"
proof (cases "shape_range c rel mode (length (split_inclusive c))")
  case (Inl e)
  with assms show ?thesis by (simp add: slice_lines_def Let_def)
next
  case (Inr q)
  obtain a b where q: "q = (a, b)" by (cases q)
  let ?i = "budget_loop (read_budget mb lm) (spans_from 0 (split_inclusive c)) a [a..<Suc b] 0 (a - 1)"
  show ?thesis
  proof (cases "split_inclusive c = [] \<or> ?i = 0")
    case True
    with assms Inr q show ?thesis by (auto simp: slice_lines_def Let_def split: if_splits)
  next
    case False
    then have "split_inclusive c \<noteq> []" "?i \<noteq> 0" by simp_all
    with assms[unfolded slice_lines_def Let_def] Inr q show ?thesis
      by (simp split del: if_split del: upt_Suc) (drule sym, simp)
  qed
qed

text \<open>C36: A classified file is only served redacted. A read that succeeds is flagged as redacted exactly
  when a rule classifies the file it resolved to, and then its content is a slice of the redacted
  rendering, under the version of the file's own bytes.\<close>
theorem read_redacts_classified:
  assumes "read ck fs base rel mode numbered mb lm = Inr r" "\<And>l. load_text ck fs base rel lm = Inr l \<Longrightarrow>
    rule_blocks (cr_globs ck) (rr_classify base) (ld_abs l)"
  shows "\<exists>l rule f r0. load_text ck fs base rel lm = Inr l \<and> ld_secrecy l = ClassifiedDotenv rule f
    \<and> slice_lines (redact (cr_h ck) f) rel (ld_version l) mode numbered mb lm = Inr r0
    \<and> rd_content r = rd_content r0 \<and> rd_version r = ld_version l \<and> rd_redacted r"
  using assms(1)
proof (cases rule: read_cases)
  case (plain l)
  with load_text_guard(3)[OF plain(1)] assms(2)[OF plain(1)] show ?thesis by simp
next
  case (classified l rule f r0)
  with slice_version[OF classified(3)] show ?thesis by metis
qed

lemma demo_env_load:
  "load_text demo_ck demo_fs demo_root ''.env'' default_limits =
     Inr \<lparr>ld_abs = [''r'', ''.env''], ld_content = ''K=v'' @ [nl], ld_version = version_of zero_hash (''K=v'' @ [nl]),
          ld_mode = 384, ld_secrecy = ClassifiedDotenv ''.env'' \<lparr>dlines = [\<lparr>l_raw = ''K=v'',
            l_kind = Entry \<lparr>e_export = False, e_key = ''K'', e_value = ''v''\<rparr>\<rparr>], trailing_newline = True\<rparr>\<rparr>"
proof -
  have "resolve_existing demo_ck demo_fs demo_root ''.env'' = Inr [''r'', ''.env'']"
    "classified_by (cr_globs demo_ck) (rr_classify demo_root) [''r'', ''.env''] = Some ''.env''"
    "Kaed_Dotenv.parse (''K=v'' @ [nl]) = Some \<lparr>dlines = [\<lparr>l_raw = ''K=v'',
        l_kind = Entry \<lparr>e_export = False, e_key = ''K'', e_value = ''v''\<rparr>\<rparr>], trailing_newline = True\<rparr>"
    "valid_utf8 (''K=v'' @ [nl])" "\<not> has_ignore_marker (''K=v'' @ [nl])"
    by code_simp+
  moreover have "node_at demo_fs [''r'', ''.env''] = Some (FileN (''K=v'' @ [nl]) 384)"
    by (simp add: node_at_def demo_fs_def)
  moreover have "\<not> looks_binary (''K=v'' @ [nl])" by (simp add: looks_binary_def BINARY_SNIFF_LEN_def)
  ultimately show ?thesis
    by (simp add: load_text_def as_text_def demo_a secrecy_of_def default_limits_def)
qed

theorem read_redacts_classified_witness:
  "\<exists>r. read demo_ck demo_fs demo_root ''.env'' Whole False None default_limits = Inr r \<and> rd_redacted r"
proof -
  let ?f = "\<lparr>dlines = [\<lparr>l_raw = ''K=v'', l_kind = Entry \<lparr>e_export = False, e_key = ''K'', e_value = ''v''\<rparr>\<rparr>], trailing_newline = True\<rparr>"
  have "split_inclusive (redact zero_hash ?f) = [redact zero_hash ?f]" by code_simp
  then have one: "line_total (redact zero_hash ?f) = 1" by (simp add: line_total_def)
  have "shape_range (redact zero_hash ?f) ''.env'' Whole (line_total (redact zero_hash ?f)) = Inr (1, 1)"
    by (simp only: one shape_range_def read_mode.case)
  then obtain r0 where "slice_lines (redact zero_hash ?f) ''.env'' (version_of zero_hash (''K=v'' @ [nl])) Whole False
      None default_limits = Inr r0"
    by (rule slice_lines_spec) (simp_all add: one)
  then obtain r where r: "read demo_ck demo_fs demo_root ''.env'' Whole False None default_limits = Inr r"
    by (simp add: read_def demo_env_load demo_a)
  have "rule_blocks (cr_globs demo_ck) (rr_classify demo_root) [''r'', ''.env'']"
    using load_text_guard(3)[OF demo_env_load] by simp
  with read_redacts_classified[OF r] r show ?thesis by (auto simp: demo_env_load)
qed

text \<open>What each path of a multi-path read gets, given what came before it.\<close>

definition answers_each ::
  "(rstr \<Rightarrow> nat \<Rightarrow> read_result res) \<Rightarrow> nat \<Rightarrow> file_read list \<Rightarrow> bool" where
  "answers_each rd tot files \<longleftrightarrow>
     (\<forall>i<length files. let left_over = tot - bytes_of (take i files) in
        snd (files ! i) = (if left_over = 0 then Inl (budget_error tot) else rd (fst (files ! i)) left_over))"

lemma answers_each_Nil: "answers_each rd tot []"
  by (simp add: answers_each_def)

lemma answers_each_snoc:
  assumes "answers_each rd tot files"
    and "x = (if tot - bytes_of files = 0 then Inl (budget_error tot) else rd rel (tot - bytes_of files))"
  shows "answers_each rd tot (files @ [(rel, x)])"
  using assms unfolding answers_each_def Let_def by (auto simp: nth_append less_Suc_eq)

definition exhausts :: "nat \<Rightarrow> file_read list \<Rightarrow> bool" where
  "exhausts tot files \<longleftrightarrow> (\<exists>i<length files. tot \<le> bytes_of (take i files)
     \<or> (\<exists>x. snd (files ! i) = Inr x \<and> rd_truncated x))"

lemma exhausts_snoc:
  "exhausts tot (files @ [(rel, x)]) \<longleftrightarrow> exhausts tot files \<or> tot \<le> bytes_of files \<or> (\<exists>y. x = Inr y \<and> rd_truncated y)"
  unfolding exhausts_def by (auto simp: nth_append less_Suc_eq)

lemma read_fold_answers:
  assumes "fold (read_one rd tot) rels (bytes_of files, exhausts tot files, files) = (spent', ex', files')"
    and "answers_each rd tot files"
  shows "answers_each rd tot files' \<and> (ex' \<longleftrightarrow> exhausts tot files')"
  using assms
proof (induction rels arbitrary: files)
  case (Cons rel rels)
  let ?x = "if tot - bytes_of files = 0 then Inl (budget_error tot) else rd rel (tot - bytes_of files)"
  let ?fs = "files @ [(rel, ?x)]"
  have "read_one rd tot rel (bytes_of files, exhausts tot files, files) = (bytes_of ?fs, exhausts tot ?fs, ?fs)"
    by (cases "rd rel (tot - bytes_of files)") (auto simp: read_one_def Let_def exhausts_snoc)
  with Cons.prems(1) have f: "fold (read_one rd tot) rels (bytes_of ?fs, exhausts tot ?fs, ?fs) = (spent', ex', files')"
    by simp
  show ?case by (rule Cons.IH[OF f answers_each_snoc[OF Cons.prems(2) refl]])
qed simp

text \<open>C37: A multi-path read answers every path, in the order asked. Each gets what a whole-file read of it
  gives within the bytes the paths before it have left of the shared budget, its content or its own
  error, and the budget error once nothing is left; the result says that the budget was exhausted
  exactly when a path found nothing left or was truncated. Without line numbers the contents together
  never exceed the shared budget; with line numbers the numbers come on top of it, so the last content
  read can go beyond it. Asking for no path or for more than 32 is refused.\<close>
theorem read_many_budget:
  assumes "read_many ck fs base rels numbered mb lm = Inr r"
  shows "map fst (mr_files r) = rels
    \<and> answers_each (\<lambda>rel n. read ck fs base rel Whole numbered (Some n) lm) (read_budget mb lm) (mr_files r)
    \<and> (mr_budget_exhausted r \<longleftrightarrow> exhausts (read_budget mb lm) (mr_files r))
    \<and> (\<not> numbered \<longrightarrow> bytes_of (mr_files r) \<le> read_budget mb lm)
    \<and> mr_requested r = length rels \<and> mr_returned r = length (filter is_read (mr_files r))
    \<and> rels \<noteq> [] \<and> length rels \<le> MAX_READ_PATHS"
proof -
  let ?rd = "\<lambda>rel remaining. read ck fs base rel Whole numbered (Some remaining) lm"
  obtain spent ex files where f: "fold (read_one ?rd (read_budget mb lm)) rels (0, False, []) = (spent, ex, files)"
    by (cases "fold (read_one ?rd (read_budget mb lm)) rels (0, False, [])")
  have "length (rd_content x) \<le> n" if "\<not> numbered" "?rd rel n = Inr x" for rel n x
    using read_whole_budget[of ck fs base rel n lm x] that by simp
  then have b: "\<not> numbered \<Longrightarrow> bytes_of files \<le> read_budget mb lm"
    using read_fold_invariant[of ?rd "read_budget mb lm" rels "[]"] f by (auto simp: bytes_of_def)
  have e: "answers_each ?rd (read_budget mb lm) files \<and> (ex \<longleftrightarrow> exhausts (read_budget mb lm) files)"
    by (rule read_fold_answers[of ?rd _ rels "[]"]) (use f in \<open>simp_all add: bytes_of_def exhausts_def answers_each_Nil\<close>)
  have "map fst files = rels" using read_fold_names[OF f] by simp
  with assms f b e show ?thesis by (auto simp: read_many_def Let_def split: if_splits)
qed

theorem read_many_budget_witness:
  "\<exists>r. read_many demo_ck demo_fs demo_root [''a'', ''a''] False (Some 3) default_limits = Inr r
     \<and> map fst (mr_files r) = [''a'', ''a''] \<and> bytes_of (mr_files r) \<le> 3"
proof -
  obtain r where r: "read_many demo_ck demo_fs demo_root [''a'', ''a''] False (Some 3) default_limits = Inr r"
    by (cases "fold (read_one (\<lambda>rel remaining. read demo_ck demo_fs demo_root rel Whole False (Some remaining) default_limits)
          (read_budget (Some 3) default_limits)) [''a'', ''a''] (0, False, [])")
      (simp add: read_many_def MAX_READ_PATHS_def Let_def)
  from read_many_budget[OF r] r show ?thesis by (auto simp: read_budget_def default_limits_def)
qed

end
