(* ===== verification/Kaed_Engine_Inv.thy ===== *)
theory Kaed_Engine_Inv
  imports Kaed_Engine_Facts
begin

text \<open>
  The invariant of the buffers of a transaction, through the loading of the declared bases and
  every operation: a buffer stands for a permitted path strictly below the root, and its
  recorded pre-image is the file that is on disk there.
\<close>

definition pre_image :: "hasher \<Rightarrow> fsys \<Rightarrow> file_buf \<Rightarrow> bool" where
  "pre_image h fs b \<longleftrightarrow>
     (case fb_old_content b of
        None \<Rightarrow> fb_old_version b = None
      | Some old \<Rightarrow> fb_old_version b = Some (version_of h old)
                    \<and> (\<exists>mode. node_at fs (fb_abs b) = Some (FileN old mode)))"

definition buf_inv :: "crates \<Rightarrow> fsys \<Rightarrow> rroot \<Rightarrow> file_buf \<Rightarrow> bool" where
  "buf_inv ck fs base b \<longleftrightarrow>
     permitted ck fs base (fb_abs b) \<and> strict_prefix (rr_path base) (fb_abs b) \<and> pre_image (cr_h ck) fs b
     \<and> (fb_deleted b \<longrightarrow> fb_old_version b \<noteq> None)"

definition bufs_inv :: "crates \<Rightarrow> fsys \<Rightarrow> rroot \<Rightarrow> bufs \<Rightarrow> bool" where
  "bufs_inv ck fs base bufs \<longleftrightarrow> om_sorted bufs \<and> (\<forall>e\<in>set bufs. buf_inv ck fs base (snd e))"

lemma bufs_inv_Nil [simp]: "bufs_inv ck fs base []"
  by (simp add: bufs_inv_def om_sorted_def)

lemma bufs_inv_insert:
  assumes "bufs_inv ck fs base bufs" "buf_inv ck fs base b"
  shows "bufs_inv ck fs base (om_insert p b bufs)"
  using assms om.all_ins[of bufs "\<lambda>e. buf_inv ck fs base (snd e)" p b] om.inv_ins[of bufs p b]
  by (simp add: bufs_inv_def)

lemma bufs_inv_get: "bufs_inv ck fs base bufs \<Longrightarrow> map_of bufs p = Some b \<Longrightarrow> buf_inv ck fs base b"
  by (fastforce simp: bufs_inv_def dest: map_of_SomeD)

lemma buf_inv_update:
  assumes "buf_inv ck fs base b"
  shows "buf_inv ck fs base (b\<lparr>fb_content := c, fb_touched := True\<rparr>)"
    "buf_inv ck fs base (b\<lparr>fb_content := c, fb_touched := True, fb_mode := md\<rparr>)"
    "fb_old_version b \<noteq> None \<Longrightarrow> buf_inv ck fs base (b\<lparr>fb_deleted := True, fb_touched := True\<rparr>)"
  using assms by (cases "fb_old_content b"; simp add: buf_inv_def pre_image_def)+

lemma load_text_file:
  assumes "load_text ck fs base rel lm = Inr l"
  shows "node_at fs (ld_abs l) = Some (FileN (ld_content l) (ld_mode l))"
    "ld_version l = version_of (cr_h ck) (ld_content l)" "permitted ck fs base (ld_abs l)"
  using load_text_guard(1)[OF assms] load_text_Inr[OF assms] by metis+

lemma permitted_strict:
  assumes "permitted ck fs base p" "real_dir fs (rr_path base)" "node_at fs p = Some (FileN c md)"
  shows "strict_prefix (rr_path base) p"
  using assms by (auto simp: permitted_def real_dir_def strict_prefix_def)

lemma buf_inv_loaded:
  assumes "load_text ck fs base rel lm = Inr l" "real_dir fs (rr_path base)"
    and "fb_abs b = ld_abs l" "fb_old_content b = Some (ld_content l)" "fb_old_version b = Some (ld_version l)"
  shows "buf_inv ck fs base b"
  using load_text_file[OF assms(1)] permitted_strict[OF load_text_file(3)[OF assms(1)] assms(2)] assms(3-5)
  by (auto simp: buf_inv_def pre_image_def)

lemma buf_inv_fresh:
  assumes "resolve_creatable ck fs base rel = Inr (fb_abs b)" "fb_old_content b = None" "fb_old_version b = None"
    "\<not> fb_deleted b"
  shows "buf_inv ck fs base b"
proof -
  obtain cleaned canonical names where "fb_abs b = canonical @ names" "names \<noteq> []"
    "prefix (rr_path base) canonical" "permitted ck fs base (fb_abs b)"
    using resolve_creatable_Inr[OF assms(1)] by metis
  with assms(2-4) show ?thesis by (auto simp: buf_inv_def pre_image_def prefix_def strict_prefix_def)
qed

section \<open>Loading the bases\<close>

lemma load_base_Inr:
  assumes "load_base ck blob fs base lm b bufs = Inr bufs'"
  obtains l where "load_text ck fs base (bv_path b) lm = Inr l" "ld_version l = bv_version b"
    "map_of bufs (bv_path b) = None" "bufs' = om_insert (bv_path b) (buf_of_loaded l) bufs"
  using assms by (auto simp: load_base_def split: if_splits)

lemma load_base_inv:
  assumes "load_base ck blob fs base lm b bufs = Inr bufs'" "bufs_inv ck fs base bufs"
    "real_dir fs (rr_path base)"
  shows "bufs_inv ck fs base bufs'"
proof -
  obtain l where l: "load_text ck fs base (bv_path b) lm = Inr l"
    "bufs' = om_insert (bv_path b) (buf_of_loaded l) bufs" using load_base_Inr[OF assms(1)] by metis
  have "buf_inv ck fs base (buf_of_loaded l)"
    by (rule buf_inv_loaded[OF l(1) assms(3)]) (simp_all add: buf_of_loaded_def)
  with l(2) assms(2) show ?thesis by (simp add: bufs_inv_insert)
qed

section \<open>The operations\<close>

lemma declared_any_Inr [simp]: "declared_any bufs path = Inr b \<longleftrightarrow> map_of bufs path = Some b"
  by (simp add: declared_any_def)

lemma declared_Inr: "declared bufs path = Inr b \<longleftrightarrow> map_of bufs path = Some b \<and> \<not> fb_deleted b"
  by (auto simp: declared_def)

text \<open>What an operation does to the buffers: one of them is written, deleted, or comes new.\<close>

inductive op_effect :: "crates \<Rightarrow> fsys \<Rightarrow> rroot \<Rightarrow> limits \<Rightarrow> bufs \<Rightarrow> rstr \<Rightarrow> file_buf \<Rightarrow> bool"
  for ck :: crates and fs :: fsys and base :: rroot and lm :: limits and bufs :: bufs where
  written: "map_of bufs p = Some b \<Longrightarrow>
     op_effect ck fs base lm bufs p (b\<lparr>fb_content := c, fb_touched := True\<rparr>)"
| overwrite: "map_of bufs p = Some b \<Longrightarrow>
     op_effect ck fs base lm bufs p (b\<lparr>fb_content := c, fb_touched := True, fb_mode := md\<rparr>)"
| remove: "map_of bufs p = Some b \<Longrightarrow> fb_old_version b \<noteq> None \<Longrightarrow>
     op_effect ck fs base lm bufs p (b\<lparr>fb_deleted := True, fb_touched := True\<rparr>)"
| replace: "map_of bufs p = None \<Longrightarrow> load_text ck fs base p lm = Inr l \<Longrightarrow> fb_abs b = ld_abs l \<Longrightarrow>
     fb_old_content b = Some (ld_content l) \<Longrightarrow> fb_old_version b = Some (ld_version l) \<Longrightarrow>
     fb_touched b \<Longrightarrow> \<not> fb_deleted b \<Longrightarrow> op_effect ck fs base lm bufs p b"
| fresh: "map_of bufs p = None \<Longrightarrow> resolve_creatable ck fs base p = Inr (fb_abs b) \<Longrightarrow>
     \<not> path_exists fs (fb_abs b) \<Longrightarrow> fb_old_content b = None \<Longrightarrow> fb_old_version b = None \<Longrightarrow>
     fb_touched b \<Longrightarrow> \<not> fb_deleted b \<Longrightarrow>
     fb_classified b = classified_by (cr_globs ck) (rr_classify base) (fb_abs b) \<Longrightarrow>
     op_effect ck fs base lm bufs p b"

lemma op_delete_effect:
  assumes "op_delete ck fs base path bufs = Inr bufs'"
  obtains b where "bufs' = om_insert path b bufs" "op_effect ck fs base lm bufs path b"
proof -
  obtain b where "map_of bufs path = Some b" "fb_old_version b \<noteq> None"
    "bufs' = om_insert path (b\<lparr>fb_deleted := True, fb_touched := True\<rparr>) bufs"
    using assms by (auto simp: op_delete_def split: if_splits)
  then show thesis using that op_effect.remove by blast
qed

lemma op_create_effect:
  assumes "op_create ck fs base lm path content ex ow bufs = Inr bufs'"
  obtains b where "bufs' = om_insert path b bufs" "op_effect ck fs base lm bufs path b"
proof (cases "map_of bufs path")
  case (Some b)
  then have "bufs' = om_insert path
      (b\<lparr>fb_content := content, fb_touched := True, fb_mode := (if ex then CREATE_MODE_EXEC else fb_mode b)\<rparr>) bufs"
    using assms by (simp add: op_create_def split: if_splits)
  with Some show thesis using that op_effect.overwrite by blast
next
  case None
  then obtain ap where ap: "resolve_creatable ck fs base path = Inr ap"
    using assms by (auto simp: op_create_def)
  show thesis
  proof (cases "path_exists fs ap")
    case True
    then obtain l where l: "load_text ck fs base path lm = Inr l"
      "bufs' = om_insert path \<lparr>fb_abs = ld_abs l, fb_content = content, fb_old_content = Some (ld_content l),
         fb_old_version = Some (ld_version l), fb_mode = (if ex then CREATE_MODE_EXEC else CREATE_MODE),
         fb_touched = True, fb_classified = classified_by (cr_globs ck) (rr_classify base) ap,
         fb_deleted = False\<rparr> bufs"
      using assms None ap by (auto simp: op_create_def Let_def split: if_splits)
    show thesis by (rule that[OF l(2)]) (rule op_effect.replace[OF None l(1)]; simp)
  next
    case False
    then have b: "bufs' = om_insert path \<lparr>fb_abs = ap, fb_content = content, fb_old_content = None,
         fb_old_version = None, fb_mode = (if ex then CREATE_MODE_EXEC else CREATE_MODE),
         fb_touched = True, fb_classified = classified_by (cr_globs ck) (rr_classify base) ap,
         fb_deleted = False\<rparr> bufs"
      using assms None ap by (auto simp: op_create_def Let_def)
    show thesis by (rule that[OF b]) (rule op_effect.fresh[OF None]; simp add: ap False)
  qed
qed

lemma write_buf_effect:
  assumes "bufs' = write_buf path b c bufs" "map_of bufs path = Some b"
  obtains b' where "bufs' = om_insert path b' bufs" "op_effect ck fs base lm bufs path b'"
  using assms op_effect.written by (fastforce simp: write_buf_def)

lemma op_sync_effect:
  assumes "op_env_sync_example ck fs base path ep bufs = Inr bufs'"
  obtains p b where "bufs' = om_insert p b bufs" "op_effect ck fs base lm bufs p b"
proof -
  define rel where "rel = (case ep of Some p \<Rightarrow> p | None \<Rightarrow> path @ ''.example'')"
  obtain f where f: "(case map_of bufs rel of Some buf \<Rightarrow> Inr (write_buf rel buf (example (cr_h ck) f) bufs)
      | None \<Rightarrow>
          and_then (resolve_creatable ck fs base rel) (\<lambda>ap.
            if path_exists fs ap
            then Inl (invalid_input (Msg ''already exists - declare it in base'' [rel]))
            else Inr (om_insert rel
                   \<lparr>fb_abs = ap, fb_content = example (cr_h ck) f, fb_old_content = None, fb_old_version = None,
                    fb_mode = CREATE_MODE, fb_touched = True,
                    fb_classified = classified_by (cr_globs ck) (rr_classify base) ap,
                    fb_deleted = False\<rparr> bufs))) = Inr bufs'"
    using assms by (auto simp: op_env_sync_example_def Let_def rel_def[symmetric] split: if_splits)
  show thesis
  proof (cases "map_of bufs rel")
    case (Some buf)
    with f have "bufs' = write_buf rel buf (example (cr_h ck) f) bufs" by simp
    with Some show thesis using that write_buf_effect by blast
  next
    case None
    with f obtain ap where ap: "resolve_creatable ck fs base rel = Inr ap" "\<not> path_exists fs ap"
      "bufs' = om_insert rel
                   \<lparr>fb_abs = ap, fb_content = example (cr_h ck) f, fb_old_content = None, fb_old_version = None,
                    fb_mode = CREATE_MODE, fb_touched = True,
                    fb_classified = classified_by (cr_globs ck) (rr_classify base) ap,
                    fb_deleted = False\<rparr> bufs" by (auto split: if_splits)
    show thesis by (rule that[OF ap(3)]) (rule op_effect.fresh[OF None]; simp add: ap)
  qed
qed

lemma op_write_effect:
  assumes "\<exists>c b. bufs' = write_buf path b c bufs \<and> map_of bufs path = Some b"
  obtains p b' where "bufs' = om_insert p b' bufs" "op_effect ck fs base lm bufs p b'"
  using assms write_buf_effect by metis

lemma text_ops_write:
  "op_anchor_replace path old new occ bufs = Inr bufs' \<Longrightarrow>
     \<exists>c b. bufs' = write_buf path b c bufs \<and> map_of bufs path = Some b"
  "op_range_replace path a z new bufs = Inr bufs' \<Longrightarrow>
     \<exists>c b. bufs' = write_buf path b c bufs \<and> map_of bufs path = Some b"
  "op_env_set ck fs base lm path k v vf cm bufs = Inr bufs' \<Longrightarrow>
     \<exists>c b. bufs' = write_buf path b c bufs \<and> map_of bufs path = Some b"
  "op_env_edit path g bufs = Inr bufs' \<Longrightarrow>
     \<exists>c b. bufs' = write_buf path b c bufs \<and> map_of bufs path = Some b"
  by (auto simp: op_anchor_replace_def op_range_replace_def op_env_set_def op_env_edit_def declared_Inr
      split: if_splits)

lemma dispatch_op_effect:
  assumes "dispatch_op ck fs base lm op bufs = Inr bufs'"
  obtains p b where "bufs' = om_insert p b bufs" "op_effect ck fs base lm bufs p b"
proof (cases op)
  case (Delete path)
  with assms show thesis using that op_delete_effect by (metis dispatch_op.simps(1))
next
  case (Create path content ex ow)
  with assms show thesis using that op_create_effect by (metis dispatch_op.simps(2))
next
  case (EnvSyncExample path ep)
  with assms show thesis using that op_sync_effect by (metis dispatch_op.simps(9))
qed (use assms that op_write_effect text_ops_write in \<open>metis dispatch_op.simps(3-8)\<close>)+

lemma op_effect_inv:
  assumes "op_effect ck fs base lm bufs p b" "bufs_inv ck fs base bufs" "real_dir fs (rr_path base)"
  shows "buf_inv ck fs base b"
  using assms(1)
proof cases
  case (replace l)
  then show ?thesis using buf_inv_loaded assms(3) by blast
next
  case fresh
  then show ?thesis using buf_inv_fresh by blast
qed (use bufs_inv_get[OF assms(2)] buf_inv_update in auto)

lemma run_op_dispatch: "run_op ck fs base lm op bufs = Inr bufs' \<Longrightarrow> dispatch_op ck fs base lm op bufs = Inr bufs'"
  by (auto simp: run_op_def split: option.splits if_splits)

lemma run_op_inv:
  assumes "run_op ck fs base lm op bufs = Inr bufs'" "bufs_inv ck fs base bufs" "real_dir fs (rr_path base)"
  shows "bufs_inv ck fs base bufs'"
proof -
  obtain p b where "bufs' = om_insert p b bufs" "op_effect ck fs base lm bufs p b"
    by (rule dispatch_op_effect[OF run_op_dispatch[OF assms(1)]])
  with op_effect_inv[OF _ assms(2,3)] bufs_inv_insert[OF assms(2)] show ?thesis by blast
qed

text \<open>The whole of the buffer phase.\<close>

lemma run_ops_inv:
  assumes "run_ops ck rc w base lm req = Inr bufs" "real_dir (w_fs w) (rr_path base)"
  shows "bufs_inv ck (w_fs w) base bufs"
proof -
  obtain b0 where b0: "fold_res (load_base ck (\<lambda>v. rec_blob rc v (w_journal w)) (w_fs w) base lm) (er_base req) [] = Inr b0"
    "fold_res (run_op ck (w_fs w) base lm) (er_ops req) b0 = Inr bufs"
    using assms(1) by (auto simp: run_ops_def)
  have "bufs_inv ck (w_fs w) base b0"
    by (rule fold_res_invariant[OF b0(1)]) (auto intro: load_base_inv assms(2))
  then show ?thesis
    by (rule fold_res_invariant[OF b0(2)]) (auto intro: run_op_inv assms(2))
qed

lemma touched_inv:
  assumes "bufs_inv ck fs base bufs"
  shows "bufs_below (rr_path base) (touched_of bufs)" "om_sorted (touched_of bufs)"
    "(p, b) \<in> set (touched_of bufs) \<Longrightarrow> buf_inv ck fs base b \<and> fb_touched b"
  using assms
proof -
  show "bufs_below (rr_path base) (touched_of bufs)"
    using assms by (fastforce simp: bufs_inv_def bufs_below_def touched_of_def buf_inv_def)
  show "om_sorted (touched_of bufs)"
    using assms by (simp add: bufs_inv_def om_sorted_def touched_of_def sorted_wrt_map sorted_wrt_filter)
  show "(p, b) \<in> set (touched_of bufs) \<Longrightarrow> buf_inv ck fs base b \<and> fb_touched b"
    using assms by (fastforce simp: bufs_inv_def touched_of_def)
qed

section \<open>The phases before the first effect\<close>

lemma lift_res_eq: "lift_res r v = (y, v') \<longleftrightarrow> r = y \<and> v' = v"
  by (auto simp: lift_res_def)

lemma refuse_leaks_Inr: "refuse_leaks rc author base req lf w = (Inr u, w') \<longleftrightarrow> lf_refused lf = [] \<and> w' = w"
  by (auto simp: refuse_leaks_def)

lemma refuse_leaks_Inl:
  "refuse_leaks rc author base req lf w = (Inl e, w') \<Longrightarrow>
     w' = w \<or> (\<not> er_dry_run req \<and> (\<exists>evs. w' = w\<lparr>w_journal := rec_leak_events rc author base evs (w_journal w)\<rparr>))"
  by (auto simp: refuse_leaks_def split: if_splits)

definition leaks_in :: "crates \<Rightarrow> 'j recorder \<Rightarrow> rroot \<Rightarrow> edit_request \<Rightarrow> 'j world \<Rightarrow> bufs \<Rightarrow> leak_findings" where
  "leaks_in ck rc base req w touched = leak_phase ck (\<lambda>ds. rec_known_digests rc ds (w_journal w)) base req touched"

lemma prepare_Inr:
  assumes "prepare ck rc base lm author req w = (Inr pl, w')"
  obtains bufs where "w' = w" "check_ops req = Inr ()" "run_ops ck rc w base lm req = Inr bufs"
    "vanish_guard req (touched_of bufs) = Inr ()" "lf_refused (leaks_in ck rc base req w (touched_of bufs)) = []"
    "delete_guard req (touched_of bufs) = Inr ()" "probe_writable (w_fs w) base (touched_of bufs) = Inr ()"
    "pl = plan_of ck (w_fs w) req (leaks_in ck rc base req w (touched_of bufs)) (touched_of bufs)"
  using assms
  unfolding prepare_def bind_step_Inr lift_res_eq Let_def refuse_leaks_Inr leaks_in_def[symmetric]
  by (elim exE conjE, hypsubst) (simp add: ret_def)

lemma prepare_Inl:
  assumes "prepare ck rc base lm author req w = (Inl e, w')"
  shows "w' = w \<or> (\<not> er_dry_run req \<and>
    (\<exists>evs. w' = w\<lparr>w_journal := rec_leak_events rc author base evs (w_journal w)\<rparr>))"
  using assms
  unfolding prepare_def bind_step_Inl lift_res_eq Let_def refuse_leaks_Inr ret_def
  by (elim disjE exE conjE; (hypsubst)?; (simp; fail)?) (auto dest: refuse_leaks_Inl)

end
