(* ===== verification/Kaed_Engine_Commit.thy ===== *)
theory Kaed_Engine_Commit
  imports Kaed_Engine_Inv
begin

text \<open>
  What a commit leaves behind: how the journal and the file system end in each of its outcomes,
  and, when it succeeds, the content of every file it was about.
\<close>

section \<open>Injected faults are used up, never made\<close>

definition faults_shrink :: "'j world \<Rightarrow> 'j world \<Rightarrow> bool" where
  "faults_shrink w w' \<longleftrightarrow> suffix (w_faults w') (w_faults w)"

lemma faults_shrink_refl [simp]: "faults_shrink w w"
  by (simp add: faults_shrink_def)

lemma transp_faults: "transp faults_shrink"
  by (rule transpI) (auto simp: faults_shrink_def)

lemma keepsD: "keeps R m \<Longrightarrow> m w = (r, w') \<Longrightarrow> R w w'"
  unfolding keeps_def by (metis snd_conv)

lemma keeps_io_step: "keeps faults_shrink (io_step act)"
  by (auto simp: keeps_def faults_shrink_def io_step_def io_call_def tick_def suffix_def
      split: prod.splits option.splits list.splits)

lemma keeps_next_tmp: "keeps faults_shrink (next_tmp dest)"
  by (simp add: keeps_def next_tmp_def faults_shrink_def)

lemma keeps_ret: "keeps faults_shrink (ret x)"
  by (simp add: keeps_def ret_def)

lemmas keeps_faults = keeps_bind[OF transp_faults] keeps_io_step keeps_next_tmp keeps_ret

lemma io_call_faults: "io_call act w = (r, w') \<Longrightarrow> faults_shrink w w'"
  by (auto simp: faults_shrink_def io_call_def tick_def suffix_def split: prod.splits option.splits list.splits)

text \<open>A fault that the environment injects never claims that an existing file is absent.\<close>

definition honest :: "'j world \<Rightarrow> bool" where
  "honest w \<longleftrightarrow> (\<forall>e. Some e \<in> set (w_faults w) \<longrightarrow> io_kind e \<noteq> IoNotFound)"

lemma honest_shrink: "honest w \<Longrightarrow> faults_shrink w w' \<Longrightarrow> honest w'"
  by (auto simp: honest_def faults_shrink_def suffix_def)

lemma stage_faults: "stage dest c md w = (r, w') \<Longrightarrow> faults_shrink w w'"
proof -
  have "keeps faults_shrink (stage dest c md)"
    unfolding stage_def by (cases "dest = []") (auto intro!: keeps_faults simp: keeps_def[of _ "\<lambda>w. (Inl _, w)"])
  then show "stage dest c md w = (r, w') \<Longrightarrow> faults_shrink w w'" by (rule keepsD)
qed

lemma promote_faults: "promote s w = (r, w') \<Longrightarrow> faults_shrink w w'"
proof -
  have "keeps faults_shrink (promote s)" unfolding promote_def by (intro keeps_faults)
  then show "promote s w = (r, w') \<Longrightarrow> faults_shrink w w'" by (rule keepsD)
qed

lemma faults_shrink_trans: "faults_shrink w w' \<Longrightarrow> faults_shrink w' w'' \<Longrightarrow> faults_shrink w w''"
  using transp_faults by (rule transpD)

section \<open>What is staged\<close>

text \<open>The files of a transaction that are written, and what a finished staging holds for them.\<close>

definition written_of :: "bufs \<Rightarrow> file_buf list" where
  "written_of touched = filter (\<lambda>b. \<not> fb_deleted b) (map snd touched)"

definition removed_of :: "bufs \<Rightarrow> file_buf list" where
  "removed_of touched = filter fb_deleted (map snd touched)"

definition final_node :: "file_buf \<Rightarrow> node" where
  "final_node b = FileN (fb_content b) (perm_bits (fb_mode b))"

definition holds :: "'j world \<Rightarrow> staged_file list \<Rightarrow> file_buf list \<Rightarrow> bool" where
  "holds w staged bs \<longleftrightarrow>
     list_all2 (\<lambda>s b. st_dest s = fb_abs b \<and> st_tmp s \<noteq> [] \<and> contains_sub ''.kaed-tmp.'' (last (st_tmp s))
        \<and> fs_nodes (w_fs w) (st_tmp s) = Some (final_node b)) staged bs
     \<and> distinct (map st_tmp staged)"

lemma written_simps [simp]:
  "written_of [] = []" "written_of ((p, b) # touched) = (if fb_deleted b then written_of touched else b # written_of touched)"
  "removed_of [] = []" "removed_of ((p, b) # touched) = (if fb_deleted b then b # removed_of touched else removed_of touched)"
  by (simp_all add: written_of_def removed_of_def)

lemma tmp_marked: "contains_sub ''.kaed-tmp.'' (tmp_name name pid sq)"
proof -
  let ?m = "''.kaed-tmp.''"
  have "take (length ?m) (drop (Suc (length name)) (tmp_name name pid sq)) = ?m"
    by (simp add: tmp_name_def)
  then show ?thesis using find_sub_None unfolding contains_sub_def by blast
qed

lemma holds_step:
  assumes "holds w staged bs" "extends w w1" "fs_nodes (w_fs w) (tmp_of (fb_abs b) w) = None"
    "fs_nodes (w_fs w1) (tmp_of (fb_abs b) w) = Some (final_node b)"
  shows "holds w1 (staged @ [\<lparr>st_tmp = tmp_of (fb_abs b) w, st_dest = fb_abs b\<rparr>]) (bs @ [b])"
proof -
  have "list_all2 (\<lambda>s b. st_dest s = fb_abs b \<and> st_tmp s \<noteq> [] \<and> contains_sub ''.kaed-tmp.'' (last (st_tmp s))
        \<and> fs_nodes (w_fs w1) (st_tmp s) = Some (final_node b)) staged bs"
    using assms(1,2) unfolding holds_def by (elim conjE list_all2_mono) (auto simp: extends_def)
  moreover have "tmp_of (fb_abs b) w \<notin> st_tmp ` set staged"
  proof
    assume "tmp_of (fb_abs b) w \<in> st_tmp ` set staged"
    then obtain i where "i < length staged" "st_tmp (staged ! i) = tmp_of (fb_abs b) w"
      by (auto simp: in_set_conv_nth)
    with assms(1,3) show False by (auto simp: holds_def list_all2_conv_all_nth)
  qed
  ultimately show ?thesis
    using assms(1,4) tmp_marked by (simp add: holds_def list_all2_appendI tmp_of_def)
qed

lemma stage_all_holds:
  assumes "stage_all base touched staged w = (Inr ss, w')" "holds w staged bs"
  shows "holds w' ss (bs @ written_of touched) \<and> faults_shrink w w'"
  using assms
proof (induction touched arbitrary: staged bs w)
  case Nil
  then show ?case by auto
next
  case (Cons pb touched)
  obtain path buf where pb: "pb = (path, buf)" by (cases pb)
  show ?case
  proof (cases "fb_deleted buf")
    case True
    with Cons pb show ?thesis by simp
  next
    case False
    from Cons.prems(1)[unfolded pb] False show ?thesis
    proof (cases rule: stage_all_Cons)
      case (1 s w1)
      note f = stage_faults[OF 1(1)]
      from 1(1) have "holds w1 (staged @ [s]) (bs @ [buf])"
      proof (cases rule: stage_cases)
        case 2
        with holds_step[OF Cons.prems(2), of w1 buf] show ?thesis
          by (auto simp: staged_traces_def final_node_def)
      qed simp
      from Cons.IH[OF 1(2) this] f faults_shrink_trans[OF f] False pb show ?thesis by auto
    qed simp
  qed
qed

section \<open>Promoting and unlinking\<close>

text \<open>A successful promotion is the list of its renames.\<close>

lemma promote_all_nodes:
  assumes "promote_all ss w = (Inr (), w')"
    and "distinct (map st_tmp ss)" "distinct (map st_dest ss)" "st_tmp ` set ss \<inter> st_dest ` set ss = {}"
  shows "(\<forall>s\<in>set ss. fs_nodes (w_fs w') (st_dest s) = node_at (w_fs w) (st_tmp s)) \<and>
    (\<forall>q. q \<notin> st_tmp ` set ss \<union> st_dest ` set ss \<longrightarrow> fs_nodes (w_fs w') q = fs_nodes (w_fs w) q) \<and>
    (\<forall>s\<in>set ss. fs_nodes (w_fs w') (st_tmp s) = None) \<and> faults_shrink w w'"
  using assms
proof (induction ss arbitrary: w)
  case (Cons s ss)
  from Cons.prems(1) obtain w1 where p: "promote s w = (Inr (), w1)" "promote_all ss w1 = (Inr (), w')"
    by (auto simp: bind_step_Inr)
  note f = promote_faults[OF p(1)]
  from p(1) obtain nd where nd: "node_at (w_fs w) (st_tmp s) = Some nd"
    "fs_nodes (w_fs w1) = (fs_nodes (w_fs w))(st_tmp s := None, st_dest s \<mapsto> nd)"
    by (cases rule: promote_cases) simp_all
  have sep: "st_tmp s \<notin> st_dest ` set ss" "st_dest s \<notin> st_tmp ` set ss" "st_tmp s \<noteq> st_dest s"
    "st_tmp s \<notin> st_tmp ` set ss" "st_dest s \<notin> st_dest ` set ss"
    using Cons.prems(2-4) by auto
  have IH: "\<forall>s\<in>set ss. fs_nodes (w_fs w') (st_dest s) = node_at (w_fs w1) (st_tmp s)"
    "\<forall>q. q \<notin> st_tmp ` set ss \<union> st_dest ` set ss \<longrightarrow> fs_nodes (w_fs w') q = fs_nodes (w_fs w1) q"
    "\<forall>s\<in>set ss. fs_nodes (w_fs w') (st_tmp s) = None" "faults_shrink w1 w'"
    using Cons.IH[OF p(2)] Cons.prems(2-4) by auto
  have same: "node_at (w_fs w1) (st_tmp t) = node_at (w_fs w) (st_tmp t)" if "t \<in> set ss" for t
  proof -
    have "st_tmp t \<noteq> st_tmp s" "st_tmp t \<noteq> st_dest s" using sep that by (metis image_eqI)+
    then show ?thesis by (simp add: node_at_def nd(2))
  qed
  have "fs_nodes (w_fs w') (st_dest s) = Some nd" "fs_nodes (w_fs w') (st_tmp s) = None"
    using IH(2) sep by (simp_all add: nd(2))
  with IH same nd faults_shrink_trans[OF f] show ?case by auto
qed simp

lemma unlink_all_nodes:
  assumes "unlink_all touched w = (Inr (), w')" "honest w"
  shows "(\<forall>b\<in>set (removed_of touched). fb_abs b \<noteq> [] \<longrightarrow> fs_nodes (w_fs w') (fb_abs b) = None) \<and>
    (\<forall>q. q \<notin> fb_abs ` set (removed_of touched) \<longrightarrow> fs_nodes (w_fs w') q = fs_nodes (w_fs w) q)"
  using assms
proof (induction touched arbitrary: w)
  case (Cons pb touched)
  obtain path buf where pb: "pb = (path, buf)" by (cases pb)
  show ?case
  proof (cases "fb_deleted buf")
    case True
    obtain x w1 where u: "io_call (unlink (fb_abs buf)) w = (x, w1)" by (cases "io_call (unlink (fb_abs buf)) w")
    from Cons.prems(1) pb True u have r: "unlink_all touched w1 = (Inr (), w')"
      and x: "x = None \<or> (\<exists>e. x = Some e \<and> io_kind e = IoNotFound)"
      by (auto split: option.splits if_splits)
    have h: "honest w1" using honest_shrink[OF Cons.prems(2) io_call_faults[OF u]] .
    have gone: "fs_nodes (w_fs w1) (fb_abs buf) = None" if ne: "fb_abs buf \<noteq> []"
    proof (cases x)
      case None
      with unlink_call(3)[OF u] show ?thesis by simp
    next
      case (Some e)
      with x have e: "io_kind e = IoNotFound" by simp
      from u Some Cons.prems(2) e have "fs_nodes (w_fs w) (fb_abs buf) = None \<and> w_fs w1 = w_fs w"
        using ne by (auto simp: io_call_def tick_def honest_def unlink_def node_at_def io_other_def io_denied_def
            split: list.splits option.splits prod.splits node.splits if_splits)
      then show ?thesis by simp
    qed
    have IH: "\<forall>b\<in>set (removed_of touched). fb_abs b \<noteq> [] \<longrightarrow> fs_nodes (w_fs w') (fb_abs b) = None"
      "\<forall>q. q \<notin> fb_abs ` set (removed_of touched) \<longrightarrow> fs_nodes (w_fs w') q = fs_nodes (w_fs w1) q"
      using Cons.IH[OF r h] by auto
    have "fs_nodes (w_fs w') (fb_abs buf) = None" if "fb_abs buf \<noteq> []"
      using IH gone[OF that] that by (cases "fb_abs buf \<in> fb_abs ` set (removed_of touched)") auto
    with IH unlink_call(2)[OF u] True pb show ?thesis by auto
  qed (use Cons pb in simp)
qed simp

lemma promote_all_journal: "promote_all ss w = (r, w') \<Longrightarrow> w_journal w' = w_journal w"
proof (induction ss arbitrary: w)
  case (Cons s ss)
  obtain r1 w1 where p: "promote s w = (r1, w1)" by fastforce
  then have 1: "w_journal w1 = w_journal w" by (auto elim!: promote_cases)
  show ?case
  proof (cases r1)
    case (Inl e)
    with Cons.prems p 1 show ?thesis by (auto simp: bind_step_def)
  next
    case (Inr u)
    then have "promote_all ss w1 = (r, w')" using Cons.prems p by (simp add: bind_step_def)
    with Cons.IH 1 show ?thesis by simp
  qed
qed simp

lemma unlink_all_journal: "unlink_all touched w = (r, w') \<Longrightarrow> w_journal w' = w_journal w"
proof (induction touched arbitrary: w)
  case (Cons pb touched)
  obtain path buf where pb: "pb = (path, buf)" by (cases pb)
  show ?case
  proof (cases "fb_deleted buf")
    case True
    obtain x w1 where u: "io_call (unlink (fb_abs buf)) w = (x, w1)" by fastforce
    from Cons.prems pb True u have "unlink_all touched w1 = (r, w') \<or> w' = w1"
      by (auto split: option.splits if_splits)
    with Cons.IH unlink_call(1)[OF u] show ?thesis by auto
  qed (use Cons pb in simp)
qed simp

section \<open>How a commit ends\<close>

definition leaked :: "'j recorder \<Rightarrow> rstr \<Rightarrow> rroot \<Rightarrow> edit_request \<Rightarrow> leak_findings \<Rightarrow> int \<Rightarrow> 'j \<Rightarrow> 'j" where
  "leaked rc author base req lf txn_id j =
     (if lf_applied lf = [] then j
      else rec_leak_events rc author base
             (map (\<lambda>(p, action, m). mk_leak_event p action m (Some txn_id) (er_intent req)) (lf_applied lf)) j)"

lemma journal_leaks_simps [simp]:
  "w_fs (journal_leaks rc author base req lf txn_id w) = w_fs w"
  "w_journal (journal_leaks rc author base req lf txn_id w) = leaked rc author base req lf txn_id (w_journal w)"
  by (simp_all add: journal_leaks_def leaked_def)

lemma begin_txn_cases:
  assumes "begin_txn rc author req base records staged w = (r, w')"
  obtains id j where "rec_begin rc author (er_intent req) base records (w_journal w) = (Inr id, j)"
    "r = Inr id" "w' = w\<lparr>w_journal := j\<rparr>"
  | e j where "rec_begin rc author (er_intent req) base records (w_journal w) = (Inl e, j)"
    "r = Inl e" "w' = fold discard staged (w\<lparr>w_journal := j\<rparr>)"
  using assms by (auto simp: begin_txn_def split: prod.splits sum.splits)

text \<open>The five ways: not staged, not begun, torn while promoting or unlinking, not completed, done.\<close>

lemma commit_cases:
  assumes "commit ck rc base author req pl w = (r, w')"
  defines "begin \<equiv> rec_begin rc author (er_intent req) base (map (record_of ck) (pl_touched pl)) (w_journal w)"
  obtains (unstaged) e where "r = Inl e" "stage_all base (pl_touched pl) [] w = (Inl e, w')"
  | (unbegun) e staged w1 j where "r = Inl e" "stage_all base (pl_touched pl) [] w = (Inr staged, w1)"
    "begin = (Inl e, j)" "w' = fold discard staged (w1\<lparr>w_journal := j\<rparr>)"
  | (torn) e id staged w1 j where "r = Inl e" "stage_all base (pl_touched pl) [] w = (Inr staged, w1)"
    "begin = (Inr id, j)"
    "promote_all staged (w1\<lparr>w_journal := j\<rparr>) = (Inl e, w') \<or>
     (\<exists>w2. promote_all staged (w1\<lparr>w_journal := j\<rparr>) = (Inr (), w2) \<and> unlink_all (pl_touched pl) w2 = (Inl e, w'))"
  | (incomplete) e id staged w1 j w2 w3 j' where "r = Inl e"
    "stage_all base (pl_touched pl) [] w = (Inr staged, w1)" "begin = (Inr id, j)"
    "promote_all staged (w1\<lparr>w_journal := j\<rparr>) = (Inr (), w2)" "unlink_all (pl_touched pl) w2 = (Inr (), w3)"
    "rec_complete rc id (w_journal w3) = (Inl e, j')" "w' = w3\<lparr>w_journal := j'\<rparr>"
  | (finished) id staged w1 j w2 w3 j' where "r = Inr id"
    "stage_all base (pl_touched pl) [] w = (Inr staged, w1)" "begin = (Inr id, j)"
    "promote_all staged (w1\<lparr>w_journal := j\<rparr>) = (Inr (), w2)" "unlink_all (pl_touched pl) w2 = (Inr (), w3)"
    "rec_complete rc id (w_journal w3) = (Inr (), j')"
    "w' = journal_leaks rc author base req (pl_leaks pl) id (w3\<lparr>w_journal := j'\<rparr>)"
proof -
  obtain r1 w1 where s: "stage_all base (pl_touched pl) [] w = (r1, w1)" by fastforce
  show thesis
  proof (cases r1)
    case (Inl e)
    with assms(1) s show thesis by (intro unstaged) (auto simp: commit_def bind_step_def)
  next
    case (Inr staged)
    have j1: "w_journal w1 = w_journal w"
      using stage_all_ok[OF s, of w] Inr by (simp add: staged_ok_def)
    obtain r2 w2 where b: "begin_txn rc author req base (map (record_of ck) (pl_touched pl)) staged w1 = (r2, w2)"
      by fastforce
    from b show thesis
    proof (cases rule: begin_txn_cases)
      case (2 e j)
      with assms(1) s Inr b j1 show thesis
        by (intro unbegun[of e staged w1 j]) (auto simp: commit_def bind_step_def begin_def)
    next
      case (1 id j)
      have bg: "begin = (Inr id, j)" using 1(1) j1 by (simp add: begin_def)
      obtain r3 w3 where p: "promote_all staged (w1\<lparr>w_journal := j\<rparr>) = (r3, w3)" by fastforce
      show thesis
      proof (cases r3)
        case (Inl e)
        with assms(1) s \<open>r1 = Inr staged\<close> b 1 p bg show thesis
          by (intro torn[of e staged w1 id j]) (auto simp: commit_def bind_step_def)
      next
        case (Inr u)
        obtain r4 w4 where ul: "unlink_all (pl_touched pl) w3 = (r4, w4)" by fastforce
        show thesis
        proof (cases r4)
          case (Inl e)
          with assms(1) s \<open>r1 = Inr staged\<close> \<open>r3 = Inr u\<close> b 1 p bg ul show thesis
            by (intro torn[of e staged w1 id j]) (auto simp: commit_def bind_step_def)
        next
          case (Inr v)
          obtain r5 j5 where c: "rec_complete rc id (w_journal w4) = (r5, j5)" by fastforce
          show thesis
          proof (cases r5)
            case (Inl e)
            with assms(1) s \<open>r1 = Inr staged\<close> \<open>r3 = Inr u\<close> \<open>r4 = Inr v\<close> b 1 p bg ul c show thesis
              by (intro incomplete[of e staged w1 id j w3 w4 j5]) (auto simp: commit_def bind_step_def complete_txn_def)
          next
            case (Inr x)
            with assms(1) s \<open>r1 = Inr staged\<close> \<open>r3 = Inr u\<close> \<open>r4 = Inr v\<close> b 1 p bg ul c show thesis
              by (intro finished[of id staged w1 j w3 w4 j5]) (auto simp: commit_def bind_step_def complete_txn_def)
          qed
        qed
      qed
    qed
  qed
qed

end
