(* ===== verification/Kaed_Engine_Props.thy ===== *)
theory Kaed_Engine_Props
  imports Kaed_Engine_Commit Kaed_Redaction_Facts
begin

text \<open>
  The edit engine as a whole: what \<open>apply\<close> guarantees of the file system, of the declared
  versions and of the guards, whatever the outcome.
\<close>

section \<open>How an application ends\<close>

lemma apply_txn_Inr:
  assumes "apply_txn ck rc base req lm author w = (Inr out, w')"
  obtains (dry) pl where "er_dry_run req" "prepare ck rc base lm author req w = (Inr pl, w)" "w' = w"
    "out = outcome_of pl None"
  | (real) pl id where "\<not> er_dry_run req" "prepare ck rc base lm author req w = (Inr pl, w)"
    "commit ck rc base author req pl w = (Inr id, w')" "out = outcome_of pl (Some id)"
proof -
  from assms have i: "apply_inner ck rc base req lm author w = (Inr out, w')"
    by (auto simp: apply_txn_def split: prod.splits sum.splits)
  then obtain pl w1 where p: "prepare ck rc base lm author req w = (Inr pl, w1)"
    and r: "(if er_dry_run req then ret (outcome_of pl None)
      else bind_step (commit ck rc base author req pl) (\<lambda>txn_id. ret (outcome_of pl (Some txn_id)))) w1 = (Inr out, w')"
    unfolding apply_inner_def bind_step_Inr by blast
  have w1: "w1 = w" by (rule prepare_Inr[OF p])
  show thesis
  proof (cases "er_dry_run req")
    case True
    have "out = outcome_of pl None" "w' = w1" using r True by (simp_all add: ret_def)
    with dry[OF True p[unfolded w1]] w1 show thesis by simp
  next
    case False
    from r False obtain id where "commit ck rc base author req pl w1 = (Inr id, w')" "out = outcome_of pl (Some id)"
      unfolding if_not_P[OF False] bind_step_Inr ret_def by blast
    with real[OF False p[unfolded w1]] w1 show thesis by simp
  qed
qed

lemma apply_txn_Inl:
  assumes "apply_txn ck rc base req lm author w = (Inl e, w')"
  obtains (refused) w1 where "prepare ck rc base lm author req w = (Inl e, w1)"
    "w' = (if er_dry_run req then w1 else w1\<lparr>w_journal := rec_fail rc \<lparr>fx_author = author, fx_intent = er_intent req,
        fx_root = base, fx_paths = map op_path (er_ops req), fx_error = e\<rparr> (w_journal w1)\<rparr>)"
  | (uncommitted) pl w1 where "\<not> er_dry_run req" "prepare ck rc base lm author req w = (Inr pl, w)"
    "commit ck rc base author req pl w = (Inl e, w1)"
    "w' = w1\<lparr>w_journal := rec_fail rc \<lparr>fx_author = author, fx_intent = er_intent req,
        fx_root = base, fx_paths = map op_path (er_ops req), fx_error = e\<rparr> (w_journal w1)\<rparr>"
proof -
  from assms obtain w1 where i: "apply_inner ck rc base req lm author w = (Inl e, w1)"
    and w': "w' = (if er_dry_run req then w1 else w1\<lparr>w_journal := rec_fail rc \<lparr>fx_author = author,
        fx_intent = er_intent req, fx_root = base, fx_paths = map op_path (er_ops req), fx_error = e\<rparr> (w_journal w1)\<rparr>)"
    by (auto simp: apply_txn_def split: prod.splits sum.splits)
  from i consider (a) "prepare ck rc base lm author req w = (Inl e, w1)"
    | (b) pl w0 where "prepare ck rc base lm author req w = (Inr pl, w0)"
      "(if er_dry_run req then ret (outcome_of pl None)
      else bind_step (commit ck rc base author req pl) (\<lambda>txn_id. ret (outcome_of pl (Some txn_id)))) w0 = (Inl e, w1)"
    unfolding apply_inner_def bind_step_Inl by blast
  then show thesis
  proof cases
    case a
    with w' refused show thesis by blast
  next
    case b
    have w0: "w0 = w" by (rule prepare_Inr[OF b(1)])
    have d: "\<not> er_dry_run req"
    proof
      assume "er_dry_run req"
      with b(2) show False by (simp add: ret_def)
    qed
    from b(2) have c: "commit ck rc base author req pl w0 = (Inl e, w1)"
      unfolding if_not_P[OF d] bind_step_Inl ret_def by blast
    show thesis using uncommitted[OF d b(1)[unfolded w0] c[unfolded w0]] w' d by simp
  qed
qed

text \<open>A plan stands for buffers that satisfy the invariant.\<close>

lemma plan_inv:
  assumes "prepare ck rc base lm author req w = (Inr pl, w1)" "real_dir (w_fs w) (rr_path base)"
  shows "bufs_below (rr_path base) (pl_touched pl)"
    "(p, b) \<in> set (pl_touched pl) \<Longrightarrow> buf_inv ck (w_fs w) base b"
proof -
  obtain bufs where r: "run_ops ck rc w base lm req = Inr bufs"
    and "pl = plan_of ck (w_fs w) req (leaks_in ck rc base req w (touched_of bufs)) (touched_of bufs)"
    by (rule prepare_Inr[OF assms(1)])
  then have pl: "pl_touched pl = touched_of bufs" by (simp add: plan_of_def)
  note inv = touched_inv[OF run_ops_inv[OF r assms(2)]]
  show "bufs_below (rr_path base) (pl_touched pl)" using inv(1) pl by simp
  show "(p, b) \<in> set (pl_touched pl) \<Longrightarrow> buf_inv ck (w_fs w) base b" using inv(3) pl by simp
qed

section \<open>The jail of the engine\<close>

lemma below_journal [simp]: "below d w (w'\<lparr>w_journal := j\<rparr>) \<longleftrightarrow> below d w w'"
  "below d (w\<lparr>w_journal := j\<rparr>) w' \<longleftrightarrow> below d w w'"
  by (simp_all add: below_def)

lemma extends_journal [simp]: "extends w (w'\<lparr>w_journal := j\<rparr>) \<longleftrightarrow> extends w w'"
  "extends (w\<lparr>w_journal := j\<rparr>) w' \<longleftrightarrow> extends w w'"
  by (simp_all add: extends_def)

lemma staged_below_Nil [simp]: "staged_below d []"
  by (simp add: staged_below_def)

lemma journal_leaks_below [simp]: "below d w (journal_leaks rc author base req lf txn_id w') \<longleftrightarrow> below d w w'"
  by (simp add: below_def)

lemma commit_below:
  assumes "commit ck rc base author req pl w = (r, w')" "real_dir (w_fs w) d" "bufs_below d (pl_touched pl)"
  shows "below d w w'"
proof -
  have st: "below d w w1 \<and> (\<forall>ss. x = Inr ss \<longrightarrow> staged_below d ss)"
    if "stage_all base (pl_touched pl) [] w = (x, w1)" for x w1
    using stage_all_below[OF that assms(2,3)] by simp
  from assms(1) show ?thesis
  proof (cases rule: commit_cases)
    case (unstaged e)
    with st show ?thesis by blast
  next
    case (unbegun e staged w1 j)
    with st[OF unbegun(2)] discards_below[of d staged "w1\<lparr>w_journal := j\<rparr>"] below_trans show ?thesis by fastforce
  next
    case (torn e id staged w1 j)
    have s: "below d w w1" "staged_below d staged" using st[OF torn(2)] by auto
    from torn(4) show ?thesis
    proof
      assume "promote_all staged (w1\<lparr>w_journal := j\<rparr>) = (Inl e, w')"
      from promote_all_below[OF this s(2)] s(1) below_trans show ?thesis by (metis below_journal(2))
    next
      assume "\<exists>w2. promote_all staged (w1\<lparr>w_journal := j\<rparr>) = (Inr (), w2) \<and> unlink_all (pl_touched pl) w2 = (Inl e, w')"
      then obtain w2 where p: "promote_all staged (w1\<lparr>w_journal := j\<rparr>) = (Inr (), w2)"
        and u: "unlink_all (pl_touched pl) w2 = (Inl e, w')" by blast
      from promote_all_below[OF p s(2)] unlink_all_below[OF u assms(3)] s(1) below_trans
      show ?thesis by (metis below_journal(2))
    qed
  next
    case (incomplete e id staged w1 j w2 w3 j')
    have s: "below d w w1" "staged_below d staged" using st[OF incomplete(2)] by auto
    have "below d w w3"
      using promote_all_below[OF incomplete(4) s(2)] unlink_all_below[OF incomplete(5) assms(3)] s(1) below_trans
      by (metis below_journal(2))
    with incomplete show ?thesis by simp
  next
    case (finished id staged w1 j w2 w3 j')
    have s: "below d w w1" "staged_below d staged" using st[OF finished(2)] by auto
    have "below d w w3"
      using promote_all_below[OF finished(4) s(2)] unlink_all_below[OF finished(5) assms(3)] s(1) below_trans
      by (metis below_journal(2))
    with finished show ?thesis by simp
  qed
qed

section \<open>What is not touched stays\<close>

text \<open>Every node there was is still there, except those of a given set of paths.\<close>

definition extends_but :: "path set \<Rightarrow> 'j world \<Rightarrow> 'j world \<Rightarrow> bool" where
  "extends_but A w w' \<longleftrightarrow>
     (\<forall>p nd. p \<notin> A \<longrightarrow> fs_nodes (w_fs w) p = Some nd \<longrightarrow> fs_nodes (w_fs w') p = Some nd)"

lemma extends_but_journal [simp]: "extends_but A w (w'\<lparr>w_journal := j\<rparr>) \<longleftrightarrow> extends_but A w w'"
  "extends_but A (w\<lparr>w_journal := j\<rparr>) w' \<longleftrightarrow> extends_but A w w'"
  "extends_but A w (journal_leaks rc author base req lf txn_id w') \<longleftrightarrow> extends_but A w w'"
  by (simp_all add: extends_but_def)

lemma extends_butI: "extends w w' \<Longrightarrow> extends_but A w w'"
  by (simp add: extends_def extends_but_def)

definition dests_in :: "'j world \<Rightarrow> path set \<Rightarrow> staged_file list \<Rightarrow> bool" where
  "dests_in w A ss \<longleftrightarrow> (\<forall>s\<in>set ss. st_dest s \<in> A \<and> fs_nodes (w_fs w) (st_tmp s) = None)"

lemma promote_all_frame:
  assumes "promote_all ss w1 = (r, w')" "dests_in w A ss" "extends_but A w w1"
  shows "extends_but A w w'"
  using assms
proof (induction ss arbitrary: w1)
  case (Cons s ss)
  obtain r1 w2 where p: "promote s w1 = (r1, w2)" by fastforce
  have w2: "extends_but A w w2"
    using p
  proof (cases rule: promote_cases)
    case 1
    with Cons.prems(3) show ?thesis by (simp add: extends_but_def)
  next
    case (2 nd)
    show ?thesis
      unfolding extends_but_def
    proof (intro allI impI)
      fix q nd' assume q: "q \<notin> A" "fs_nodes (w_fs w) q = Some nd'"
      then have "q \<noteq> st_tmp s" "q \<noteq> st_dest s" using Cons.prems(2) by (auto simp: dests_in_def)
      with 2(3) q Cons.prems(3) show "fs_nodes (w_fs w2) q = Some nd'" by (simp add: extends_but_def)
    qed
  qed
  show ?case
  proof (cases r1)
    case (Inl e)
    with Cons.prems(1) p w2 show ?thesis by (auto simp: bind_step_def)
  next
    case (Inr u)
    then have "promote_all ss w2 = (r, w')" using Cons.prems(1) p by (simp add: bind_step_def)
    with Cons.IH w2 Cons.prems(2) show ?thesis by (simp add: dests_in_def)
  qed
qed simp

lemma unlink_all_frame:
  assumes "unlink_all touched w1 = (r, w')" "fb_abs ` snd ` set touched \<subseteq> A" "extends_but A w w1"
  shows "extends_but A w w'"
  using assms
proof (induction touched arbitrary: w1)
  case (Cons pb touched)
  obtain path buf where pb: "pb = (path, buf)" by (cases pb)
  show ?case
  proof (cases "fb_deleted buf")
    case True
    obtain x w2 where u: "io_call (unlink (fb_abs buf)) w1 = (x, w2)" by fastforce
    have A: "fb_abs buf \<in> A" "fb_abs ` snd ` set touched \<subseteq> A" using Cons.prems(2) pb by auto
    have w2: "extends_but A w w2"
      unfolding extends_but_def
    proof (intro allI impI)
      fix q nd assume q: "q \<notin> A" "fs_nodes (w_fs w) q = Some nd"
      then have "q \<noteq> fb_abs buf" using A(1) by auto
      with unlink_call(2)[OF u] q Cons.prems(3) show "fs_nodes (w_fs w2) q = Some nd" by (simp add: extends_but_def)
    qed
    from Cons.prems(1) pb True u have "unlink_all touched w2 = (r, w') \<or> w' = w2"
      by (auto split: option.splits if_splits)
    with Cons.IH[OF _ A(2) w2] w2 show ?thesis by blast
  next
    case False
    with Cons pb show ?thesis by simp
  qed
qed simp

lemma holds_Nil: "holds w [] []"
  by (simp add: holds_def)

lemma staged_ok_Nil: "staged_ok w w []"
  by (simp add: staged_ok_def)

lemma stage_all_dests:
  assumes "stage_all base touched [] w = (Inr ss, w')"
  shows "dests_in w (fb_abs ` snd ` set touched) ss" "extends w w'" "w_journal w' = w_journal w"
proof -
  have ok: "staged_ok w w' ss" using stage_all_ok[OF assms staged_ok_Nil] by simp
  then show "extends w w'" "w_journal w' = w_journal w" by (simp_all add: staged_ok_def)
  have h: "list_all2 (\<lambda>s b. st_dest s = fb_abs b) ss (written_of touched)"
    using stage_all_holds[OF assms holds_Nil] by (auto simp: holds_def elim: list_all2_mono)
  have "st_dest s \<in> fb_abs ` snd ` set touched" if "s \<in> set ss" for s
  proof -
    from that obtain i where i: "i < length ss" "ss ! i = s" by (auto simp: in_set_conv_nth)
    with h have "st_dest s = fb_abs (written_of touched ! i)" "written_of touched ! i \<in> set (written_of touched)"
      by (auto simp: list_all2_conv_all_nth)
    then show ?thesis by (auto simp: written_of_def)
  qed
  with ok show "dests_in w (fb_abs ` snd ` set touched) ss" by (simp add: dests_in_def staged_ok_def)
qed

lemma discards_extends:
  assumes "staged_ok w w1 staged"
  shows "extends w (fold discard staged (w1\<lparr>w_journal := j\<rparr>))"
  unfolding extends_def
proof (intro allI impI)
  fix p nd assume p: "fs_nodes (w_fs w) p = Some nd"
  then have "p \<notin> st_tmp ` set staged" using assms by (auto simp: staged_ok_def)
  with discards_nodes have "fs_nodes (w_fs (fold discard staged (w1\<lparr>w_journal := j\<rparr>))) p = fs_nodes (w_fs (w1\<lparr>w_journal := j\<rparr>)) p"
    by blast
  with assms p show "fs_nodes (w_fs (fold discard staged (w1\<lparr>w_journal := j\<rparr>))) p = Some nd"
    by (simp add: staged_ok_def extends_def)
qed

lemma commit_frame:
  assumes "commit ck rc base author req pl w = (r, w')"
  shows "extends_but (fb_abs ` snd ` set (pl_touched pl)) w w'"
proof -
  let ?A = "fb_abs ` snd ` set (pl_touched pl)"
  from assms show ?thesis
  proof (cases rule: commit_cases)
    case (unstaged e)
    have "extends w w'" using stage_all_ok[OF unstaged(2) staged_ok_Nil] by simp
    then show ?thesis by (rule extends_butI)
  next
    case (unbegun e staged w1 j)
    have "staged_ok w w1 staged" using stage_all_ok[OF unbegun(2) staged_ok_Nil] by simp
    from discards_extends[OF this] unbegun(4) show ?thesis by (simp add: extends_butI)
  next
    case (torn e id staged w1 j)
    note s = stage_all_dests[OF torn(2)]
    have "extends_but ?A w (w1\<lparr>w_journal := j\<rparr>)" using s(2) by (simp add: extends_butI)
    from torn(4) promote_all_frame[OF _ s(1) this] unlink_all_frame[OF _ subset_refl] show ?thesis by blast
  next
    case (incomplete e id staged w1 j w2 w3 j')
    note s = stage_all_dests[OF incomplete(2)]
    have "extends_but ?A w (w1\<lparr>w_journal := j\<rparr>)" using s(2) by (simp add: extends_butI)
    from unlink_all_frame[OF incomplete(5) subset_refl promote_all_frame[OF incomplete(4) s(1) this]] incomplete(7)
    show ?thesis by simp
  next
    case (finished id staged w1 j w2 w3 j')
    note s = stage_all_dests[OF finished(2)]
    have "extends_but ?A w (w1\<lparr>w_journal := j\<rparr>)" using s(2) by (simp add: extends_butI)
    from unlink_all_frame[OF finished(5) subset_refl promote_all_frame[OF finished(4) s(1) this]] finished(7)
    show ?thesis by simp
  qed
qed

section \<open>Where changes appear\<close>

text \<open>
  Seen from the world \<open>w\<close> before a transaction over the targets \<open>A\<close>: a path outside of \<open>A\<close> whose node
  differs was free, and is now a directory above a target, made for it, or a temporary of a target.
\<close>

definition beside :: "path set \<Rightarrow> 'j world \<Rightarrow> 'j world \<Rightarrow> path \<Rightarrow> bool" where
  "beside A w w' p \<longleftrightarrow> fs_nodes (w_fs w) p = None \<and>
     (\<exists>q\<in>A. (strict_prefix p q \<and> fs_nodes (w_fs w') p = Some DirN)
        \<or> (\<exists>n. p = butlast q @ [tmp_name (last q) (w_pid w) n]))"

definition confined :: "path set \<Rightarrow> 'j world \<Rightarrow> 'j world \<Rightarrow> bool" where
  "confined A w w' \<longleftrightarrow> w_pid w' = w_pid w \<and>
     (\<forall>p. fs_nodes (w_fs w') p \<noteq> fs_nodes (w_fs w) p \<longrightarrow> p \<in> A \<or> beside A w w' p)"

lemma confined_refl: "confined A w w"
  by (simp add: confined_def)

lemma confined_journal [simp]: "confined A w (w'\<lparr>w_journal := j\<rparr>) \<longleftrightarrow> confined A w w'"
  "confined A w (journal_leaks rc author base req lf txn_id w') \<longleftrightarrow> confined A w w'"
  by (simp_all add: confined_def beside_def journal_leaks_def)

text \<open>What a step does not touch, or touches in \<open>A\<close> or undoes, stays within the bounds.\<close>

lemma confined_keep:
  assumes "confined A w w1" "w_pid w2 = w_pid w1"
    and "\<And>p. p \<in> A \<or> fs_nodes (w_fs w2) p = fs_nodes (w_fs w1) p \<or> fs_nodes (w_fs w2) p = fs_nodes (w_fs w) p"
  shows "confined A w w2"
  unfolding confined_def
proof (intro conjI allI impI)
  show "w_pid w2 = w_pid w" using assms(1,2) by (simp add: confined_def)
  fix p assume p: "fs_nodes (w_fs w2) p \<noteq> fs_nodes (w_fs w) p"
  show "p \<in> A \<or> beside A w w2 p"
  proof (cases "p \<in> A")
    case False
    with assms(3)[of p] p have e: "fs_nodes (w_fs w2) p = fs_nodes (w_fs w1) p" by blast
    with assms(1) p False have "beside A w w1 p" unfolding confined_def by metis
    with e show ?thesis by (simp add: beside_def)
  qed blast
qed

lemma keeps_pid_io: "keeps (\<lambda>w w'. w_pid w' = w_pid w) (io_step act)"
  unfolding keeps_def using io_step_frame by (metis prod.collapse)

lemma pid_transp: "transp (\<lambda>w w'. w_pid w' = w_pid w)"
  by (auto intro: transpI)

lemma keeps_pid_simple: "keeps (\<lambda>w w'. w_pid w' = w_pid w) (next_tmp dest)" "keeps (\<lambda>w w'. w_pid w' = w_pid w) (ret x)"
  by (simp_all add: keeps_def next_tmp_def ret_def)

lemmas keeps_pid = keeps_bind[OF pid_transp] keeps_pid_io keeps_pid_simple

lemma stage_pid: "stage dest c md w = (r, w') \<Longrightarrow> w_pid w' = w_pid w"
proof -
  have "keeps (\<lambda>w w'. w_pid w' = w_pid w) (stage dest c md)"
    unfolding stage_def by (cases "dest = []") (auto intro!: keeps_pid simp: keeps_def[of _ "\<lambda>w. (Inl _, w)"])
  then show "stage dest c md w = (r, w') \<Longrightarrow> w_pid w' = w_pid w" by (rule keepsD)
qed

lemma promote_pid: "promote s w = (r, w') \<Longrightarrow> w_pid w' = w_pid w"
proof -
  have "keeps (\<lambda>w w'. w_pid w' = w_pid w) (promote s)" unfolding promote_def by (intro keeps_pid)
  then show "promote s w = (r, w') \<Longrightarrow> w_pid w' = w_pid w" by (rule keepsD)
qed

lemma stage_confined:
  assumes "confined A w w1" "stage dest c md w1 = (r, w2)" "dest \<in> A"
  shows "confined A w w2"
proof -
  have t: "staged_traces dest w1 w2" using assms(2) by (cases rule: stage_cases) simp_all
  have pid: "w_pid w1 = w_pid w" "w_pid w2 = w_pid w" using assms(1) stage_pid[OF assms(2)] by (simp_all add: confined_def)
  show ?thesis
    unfolding confined_def
  proof (intro conjI allI impI)
    show "w_pid w2 = w_pid w" by (rule pid(2))
    fix p assume p: "fs_nodes (w_fs w2) p \<noteq> fs_nodes (w_fs w) p"
    show "p \<in> A \<or> beside A w w2 p"
    proof (cases "p \<in> A \<or> fs_nodes (w_fs w2) p = fs_nodes (w_fs w1) p")
      case True
      with assms(1) p show ?thesis by (auto simp: confined_def beside_def)
    next
      case False
      have free1: "fs_nodes (w_fs w1) p = None"
        using t False by (cases "fs_nodes (w_fs w1) p") (auto simp: staged_traces_def extends_def)
      have free: "fs_nodes (w_fs w) p = None"
      proof (cases "fs_nodes (w_fs w1) p = fs_nodes (w_fs w) p")
        case same: False
        with assms(1) False have "beside A w w1 p" unfolding confined_def by blast
        then show ?thesis by (simp add: beside_def)
      qed (use free1 in simp)
      from t False consider "p = tmp_of dest w1" | "prefix p (butlast dest)" "p \<noteq> []" "fs_nodes (w_fs w2) p = Some DirN"
        by (auto simp: staged_traces_def)
      then show ?thesis
      proof cases
        case 1
        with free assms(3) pid(1) show ?thesis by (auto simp: beside_def tmp_of_def)
      next
        case 2
        have "strict_prefix p dest" using 2(1,2) by (cases dest rule: rev_cases) (auto simp: strict_prefix_def)
        with free assms(3) 2(3) show ?thesis by (auto simp: beside_def)
      qed
    qed
  qed
qed

lemma discards_pid: "w_pid (fold discard ss w) = w_pid w"
proof (induction ss arbitrary: w)
  case (Cons s ss)
  have "w_pid (discard s w) = w_pid w"
    using io_call_frame[of "unlink (st_tmp s)" w] by (cases "io_call (unlink (st_tmp s)) w") (simp add: discard_def)
  with Cons show ?case by simp
qed simp

lemma fold_discard_other:
  "fs_nodes (w_fs (fold discard ss w)) p = fs_nodes (w_fs w) p \<or> fs_nodes (w_fs (fold discard ss w)) p = None"
proof (induction ss arbitrary: w)
  case (Cons s ss)
  obtain r w1 where u: "io_call (unlink (st_tmp s)) w = (r, w1)" by fastforce
  then have d: "discard s w = w1" by (simp add: discard_def)
  have "fs_nodes (w_fs w1) p = fs_nodes (w_fs w) p \<or> fs_nodes (w_fs w1) p = None"
  proof (cases "p = st_tmp s")
    case True
    with u show ?thesis
    proof (cases rule: io_call_cases)
      case (2 fs')
      with unlink_nodes[OF 2(1)] True show ?thesis by (cases r) auto
    qed simp
  next
    case False
    with unlink_call(2)[OF u] show ?thesis by simp
  qed
  with Cons[of w1] d show ?case by auto
qed simp

lemma discards_confined:
  assumes "confined A w w1" "\<forall>s\<in>set ss. fs_nodes (w_fs w) (st_tmp s) = None"
  shows "confined A w (fold discard ss w1)"
proof (rule confined_keep[OF assms(1) discards_pid])
  fix p
  show "p \<in> A \<or> fs_nodes (w_fs (fold discard ss w1)) p = fs_nodes (w_fs w1) p
      \<or> fs_nodes (w_fs (fold discard ss w1)) p = fs_nodes (w_fs w) p"
  proof (cases "p \<in> st_tmp ` set ss")
    case True
    with assms(2) have "fs_nodes (w_fs w) p = None" by auto
    with fold_discard_other[of ss w1 p] show ?thesis by auto
  qed (use discards_nodes in blast)
qed

lemma promote_all_confined:
  assumes "promote_all ss w1 = (r, w')" "dests_in w A ss" "confined A w w1"
  shows "confined A w w'"
  using assms
proof (induction ss arbitrary: w1)
  case (Cons s ss)
  obtain r1 w2 where p: "promote s w1 = (r1, w2)" by fastforce
  have sd: "st_dest s \<in> A" "fs_nodes (w_fs w) (st_tmp s) = None" using Cons.prems(2) by (auto simp: dests_in_def)
  have w2: "confined A w w2"
  proof (rule confined_keep[OF Cons.prems(3) promote_pid[OF p]])
    fix q
    from p show "q \<in> A \<or> fs_nodes (w_fs w2) q = fs_nodes (w_fs w1) q \<or> fs_nodes (w_fs w2) q = fs_nodes (w_fs w) q"
      using sd by (cases rule: promote_cases) auto
  qed
  show ?case
  proof (cases r1)
    case (Inl e)
    with Cons.prems(1) p w2 show ?thesis by (auto simp: bind_step_def)
  next
    case (Inr u)
    then have "promote_all ss w2 = (r, w')" using Cons.prems(1) p by (simp add: bind_step_def)
    with Cons.IH w2 Cons.prems(2) show ?thesis by (simp add: dests_in_def)
  qed
qed simp

lemma unlink_all_confined:
  assumes "unlink_all touched w1 = (r, w')" "fb_abs ` snd ` set touched \<subseteq> A" "confined A w w1"
  shows "confined A w w'"
  using assms
proof (induction touched arbitrary: w1)
  case (Cons pb touched)
  obtain path buf where pb: "pb = (path, buf)" by (cases pb)
  show ?case
  proof (cases "fb_deleted buf")
    case True
    obtain x w2 where u: "io_call (unlink (fb_abs buf)) w1 = (x, w2)" by fastforce
    have A: "fb_abs buf \<in> A" "fb_abs ` snd ` set touched \<subseteq> A" using Cons.prems(2) pb by auto
    have w2: "confined A w w2"
    proof (rule confined_keep[OF Cons.prems(3)])
      show "w_pid w2 = w_pid w1" using io_call_frame[OF u] by simp
      show "q \<in> A \<or> fs_nodes (w_fs w2) q = fs_nodes (w_fs w1) q \<or> fs_nodes (w_fs w2) q = fs_nodes (w_fs w) q" for q
        using unlink_call(2)[OF u] A(1) by (cases "q = fb_abs buf") auto
    qed
    from Cons.prems(1) pb True u have "unlink_all touched w2 = (r, w') \<or> w' = w2"
      by (auto split: option.splits if_splits)
    with Cons.IH[OF _ A(2) w2] w2 show ?thesis by blast
  next
    case False
    with Cons pb show ?thesis by simp
  qed
qed simp

lemma stage_all_confined:
  assumes "stage_all base touched staged w1 = (r, w')" "fb_abs ` snd ` set touched \<subseteq> A" "confined A w w1"
    and "\<forall>s\<in>set staged. fs_nodes (w_fs w) (st_tmp s) = None" "staged_ok w w1 staged"
  shows "confined A w w'"
  using assms
proof (induction touched arbitrary: staged w1)
  case (Cons pb touched)
  obtain path buf where pb: "pb = (path, buf)" by (cases pb)
  have A: "fb_abs buf \<in> A" "fb_abs ` snd ` set touched \<subseteq> A" using Cons.prems(2) pb by auto
  show ?case
  proof (cases "fb_deleted buf")
    case True
    with Cons.IH[OF _ A(2) Cons.prems(3-5)] Cons.prems(1) pb show ?thesis by simp
  next
    case False
    from Cons.prems(1)[unfolded pb] False show ?thesis
    proof (cases rule: stage_all_Cons)
      case (1 s w2)
      note c = stage_confined[OF Cons.prems(3) 1(1) A(1)]
      from 1(1) have ok: "staged_ok w w2 (staged @ [s])"
      proof (cases rule: stage_cases)
        case 2
        have "fs_nodes (w_fs w) (tmp_of (fb_abs buf) w1) = None"
          using 2(4) Cons.prems(5)
          by (cases "fs_nodes (w_fs w) (tmp_of (fb_abs buf) w1)") (auto simp: staged_ok_def extends_def)
        with staged_ok_step[OF Cons.prems(5) 2(2)] 2(1) show ?thesis by (auto simp: staged_ok_def)
      qed simp
      show ?thesis by (rule Cons.IH[OF 1(2) A(2) c _ ok]) (use ok in \<open>simp add: staged_ok_def\<close>)
    next
      case (2 e e' w2)
      from stage_confined[OF Cons.prems(3) 2(1) A(1)] 2(3) Cons.prems(4) show ?thesis
        by (simp add: discards_confined)
    qed
  qed
qed simp

lemma commit_confined:
  assumes "commit ck rc base author req pl w = (r, w')"
  shows "confined (fb_abs ` snd ` set (pl_touched pl)) w w'"
proof -
  let ?A = "fb_abs ` snd ` set (pl_touched pl)"
  have st: "confined ?A w w1" if "stage_all base (pl_touched pl) [] w = (x, w1)" for x w1
    by (rule stage_all_confined[OF that subset_refl confined_refl _ staged_ok_Nil]) simp
  have pr: "confined ?A w w2" if "stage_all base (pl_touched pl) [] w = (Inr staged, w1)"
    "promote_all staged (w1\<lparr>w_journal := j\<rparr>) = (x, w2)" for x staged w1 j w2
    using promote_all_confined[OF that(2) stage_all_dests(1)[OF that(1)]] st[OF that(1)] by simp
  note un = unlink_all_confined[OF _ subset_refl pr]
  from assms show ?thesis
  proof (cases rule: commit_cases)
    case (unstaged e)
    from unstaged(2) show ?thesis by (rule st)
  next
    case (unbegun e staged w1 j)
    with stage_all_dests(1)[OF unbegun(2)] st[OF unbegun(2)] show ?thesis
      by (simp add: discards_confined dests_in_def)
  next
    case (torn e id staged w1 j)
    from torn(4) pr[OF torn(2)] un[OF _ torn(2)] show ?thesis by blast
  next
    case (incomplete e id staged w1 j w2 w3 j')
    from un[OF incomplete(5,2,4)] incomplete(7) show ?thesis by simp
  next
    case (finished id staged w1 j w2 w3 j')
    from un[OF finished(5,2,4)] finished(7) show ?thesis by simp
  qed
qed

section \<open>The dry run\<close>

text \<open>The phases before the first effect do not depend on whether this is a dry run.\<close>

lemma prepare_dry:
  "fst (prepare ck rc base lm author (req\<lparr>er_dry_run := d\<rparr>) w) = fst (prepare ck rc base lm author req w)"
proof -
  have o: "leak_one (req\<lparr>er_dry_run := d\<rparr>) = leak_one req" "vanished_in (req\<lparr>er_dry_run := d\<rparr>) = vanished_in req"
    by (simp_all add: leak_one_def vanished_in_def fun_eq_iff)
  have r: "run_ops ck rc u base lm (req\<lparr>er_dry_run := d\<rparr>) = run_ops ck rc u base lm req"
    "check_ops (req\<lparr>er_dry_run := d\<rparr>) = check_ops req"
    "vanish_guard (req\<lparr>er_dry_run := d\<rparr>) t = vanish_guard req t"
    "delete_guard (req\<lparr>er_dry_run := d\<rparr>) t = delete_guard req t"
    "leak_phase ck kn base (req\<lparr>er_dry_run := d\<rparr>) t = leak_phase ck kn base req t"
    "plan_of ck fs (req\<lparr>er_dry_run := d\<rparr>) lf t = plan_of ck fs req lf t" for kn t fs lf u
    by (simp_all only: run_ops_def check_ops_def vanish_guard_def delete_guard_def leak_phase_def plan_of_def o)
      simp_all
  show ?thesis
    unfolding prepare_def r Let_def
    by (simp add: bind_step_def lift_res_def ret_def refuse_leaks_def split: sum.split)
qed

section \<open>The guards\<close>

lemma fold_res_unit:
  "fold_res f xs () = Inr () \<Longrightarrow> x \<in> set xs \<Longrightarrow> f x () = Inr ()" for f :: "'a \<Rightarrow> unit \<Rightarrow> unit res"
proof (induction xs)
  case (Cons y xs)
  then show ?case by auto
qed simp

lemma vanish_guard_Inr:
  assumes "vanish_guard req touched = Inr ()" "(p, b) \<in> set touched" "fb_classified b \<noteq> None" "\<not> fb_deleted b"
  shows "vanished_in req b = []"
  using fold_res_unit[OF assms(1)[unfolded vanish_guard_def] assms(2)] assms(3,4) by (auto split: if_splits)

lemma vanished_in_Nil:
  assumes "vanished_in req b = []" "fb_old_content b = Some old" "Kaed_Dotenv.parse old = Some f"
    and "e \<in> set (entries_of (dlines f))" "e_value e \<noteq> []"
  shows "e_value e \<in> values_of (Kaed_Dotenv.parse (fb_content b)) \<or> e_key e \<in> set (er_drop_keys req)"
proof (rule ccontr)
  assume n: "\<not> ?thesis"
  then have "e_key e \<in> set (vanished_values (Some f) (Kaed_Dotenv.parse (fb_content b)))"
    using assms(4,5) by (auto simp: set_vanished lost_def)
  with n have "e_key e \<in> set (vanished_in req b)" by (simp add: vanished_in_def assms(2,3))
  with assms(1) show False by simp
qed

lemma leak_one_step:
  "lf_refused (leak_one req base p m lf) = [] \<longleftrightarrow>
     lf_refused lf = [] \<and>
     (refuses (lm_kind m) \<and> rr_leak_checks base = LcRefuse \<longrightarrow> lm_detail m \<in> set (er_allow_secrets req))"
  by (simp add: leak_one_def Let_def)

lemma leak_one_refused:
  "lf_refused (fold (leak_one req base p) ms lf) = [] \<longleftrightarrow>
     lf_refused lf = [] \<and> (\<forall>m\<in>set ms. refuses (lm_kind m) \<and> rr_leak_checks base = LcRefuse \<longrightarrow>
        lm_detail m \<in> set (er_allow_secrets req))"
  by (induction ms arbitrary: lf) (simp_all only: fold_simps leak_one_step list.set ball_simps simp_thms, blast)

definition leak_file :: "crates \<Rightarrow> (rstr list \<Rightarrow> digest_location option list) \<Rightarrow> rroot \<Rightarrow> edit_request
    \<Rightarrow> rstr \<times> file_buf \<Rightarrow> leak_findings \<Rightarrow> leak_findings" where
  "leak_file ck kn base req x lf =
     (if fb_classified (snd x) \<noteq> None \<or> fb_deleted (snd x) then lf
      else fold (leak_one req base (fst x))
             (scan (cr_h ck) (cr_inserted ck) (fb_old_content (snd x)) (fb_content (snd x)) kn) lf)"

lemma leak_phase_alt:
  "rr_leak_checks base \<noteq> LcOff \<Longrightarrow>
     leak_phase ck kn base req touched =
       fold (leak_file ck kn base req) touched \<lparr>lf_refused = [], lf_applied = [], lf_warnings = []\<rparr>"
  by (simp only: leak_phase_def Let_def if_False leak_file_def[abs_def] case_prod_unfold)

lemma leak_file_refused:
  "lf_refused (leak_file ck kn base req x lf) = [] \<longleftrightarrow>
     lf_refused lf = [] \<and> (fb_classified (snd x) = None \<and> \<not> fb_deleted (snd x) \<longrightarrow>
       (\<forall>m\<in>set (scan (cr_h ck) (cr_inserted ck) (fb_old_content (snd x)) (fb_content (snd x)) kn).
          refuses (lm_kind m) \<and> rr_leak_checks base = LcRefuse \<longrightarrow> lm_detail m \<in> set (er_allow_secrets req)))"
  by (auto simp: leak_file_def leak_one_refused)

lemma leak_files_refused:
  "lf_refused (fold (leak_file ck kn base req) xs lf) = [] \<Longrightarrow>
     lf_refused lf = [] \<and> (\<forall>x\<in>set xs. \<exists>lf'. lf_refused (leak_file ck kn base req x lf') = [])"
proof (induction xs arbitrary: lf)
  case (Cons x xs)
  then have IH: "lf_refused (leak_file ck kn base req x lf) = []"
    "\<forall>x\<in>set xs. \<exists>lf'. lf_refused (leak_file ck kn base req x lf') = []" by (auto simp only: fold_simps)
  moreover have "lf_refused lf = []" using IH(1) unfolding leak_file_refused by blast
  ultimately show ?case by auto
qed simp

lemma leak_phase_refused:
  assumes "lf_refused (leak_phase ck kn base req touched) = []" "rr_leak_checks base = LcRefuse"
    and "(p, b) \<in> set touched" "fb_classified b = None" "\<not> fb_deleted b"
    and "m \<in> set (scan (cr_h ck) (cr_inserted ck) (fb_old_content b) (fb_content b) kn)" "refuses (lm_kind m)"
  shows "lm_detail m \<in> set (er_allow_secrets req)"
proof -
  have "\<exists>lf'. lf_refused (leak_file ck kn base req (p, b) lf') = []"
  proof -
    have "rr_leak_checks base \<noteq> LcOff" using assms(2) by simp
    from leak_files_refused[OF assms(1)[unfolded leak_phase_alt[OF this]]] assms(3) show ?thesis by blast
  qed
  then show ?thesis using assms(2,4-7) unfolding leak_file_refused by simp
qed

lemma delete_guard_Inr:
  assumes "delete_guard req touched = Inr ()" "(p, b) \<in> set touched" "fb_deleted b"
    "delete_unrecoverable_reason b \<noteq> None"
  shows "p \<in> set (er_drop_paths req)"
proof (rule ccontr)
  assume n: "p \<notin> set (er_drop_paths req)"
  obtain why where "delete_unrecoverable_reason b = Some why" using assms(4) by auto
  with n assms(2,3) have "(p, why) \<in> set (List.map_filter
       (\<lambda>(path, buf). if fb_deleted buf \<and> path \<notin> set (er_drop_paths req)
                 then map_option (\<lambda>why. (path, why)) (delete_unrecoverable_reason buf) else None) touched)"
    by (force simp: in_map_filter)
  with assms(1) show False by (auto simp: delete_guard_def Let_def split: if_splits)
qed

section \<open>The versions\<close>

lemma load_bases_Inr:
  assumes "fold_res (load_base ck blob fs base lm) bs bufs = Inr bufs'"
  shows "\<forall>b\<in>set bs. \<exists>l. load_text ck fs base (bv_path b) lm = Inr l \<and> ld_version l = bv_version b"
    "distinct (map bv_path bs) \<and> (\<forall>b\<in>set bs. map_of bufs (bv_path b) = None)"
  using assms
proof (induction bs arbitrary: bufs)
  case (Cons b bs)
  {
    case 1
    then obtain b1 where b1: "load_base ck blob fs base lm b bufs = Inr b1"
      "fold_res (load_base ck blob fs base lm) bs b1 = Inr bufs'" by auto
    from b1(1) obtain l where "load_text ck fs base (bv_path b) lm = Inr l" "ld_version l = bv_version b"
      by (rule load_base_Inr)
    with Cons.IH(1)[OF b1(2)] show ?case by auto
  next
    case 2
    then obtain b1 where b1: "load_base ck blob fs base lm b bufs = Inr b1"
      "fold_res (load_base ck blob fs base lm) bs b1 = Inr bufs'" by auto
    from b1(1) obtain l where "map_of bufs (bv_path b) = None" "b1 = om_insert (bv_path b) (buf_of_loaded l) bufs"
      by (rule load_base_Inr)
    with Cons.IH(2)[OF b1(2)] show ?case by (auto simp: map_of_om_insert split: if_splits)
  }
qed auto

section \<open>A small transaction\<close>

definition demo_with :: "'j \<Rightarrow> 'j world" where
  "demo_with j = \<lparr>w_fs = demo_fs, w_faults = [], w_pid = ''7'', w_seq = 0, w_journal = j\<rparr>"

definition demo_world :: "unit world" where
  "demo_world = demo_with ()"

definition demo_req :: "bool \<Rightarrow> edit_request" where
  "demo_req dry =
     \<lparr>er_base = [\<lparr>bv_path = ''a'', bv_version = version_of zero_hash ''hi''\<rparr>],
      er_ops = [Create ''n'' ''x'' False False], er_dry_run = dry, er_return_diff = False, er_intent = None,
      er_drop_keys = [], er_allow_secrets = [], er_drop_paths = []\<rparr>"

definition demo_buf :: file_buf where
  "demo_buf =
     \<lparr>fb_abs = [''r'', ''n''], fb_content = ''x'', fb_old_content = None, fb_old_version = None,
      fb_mode = CREATE_MODE, fb_touched = True, fb_classified = None, fb_deleted = False\<rparr>"

lemma demo_create: "resolve_creatable demo_ck demo_fs demo_root ''n'' = Inr [''r'', ''n'']"
  "path_exists demo_fs [''r'', ''n''] = False"
  "classified_by (cr_globs demo_ck) (rr_classify demo_root) [''r'', ''n''] = None"
  by code_simp+

lemma demo_run:
  "run_ops demo_ck rc (demo_with j) demo_root default_limits (demo_req dry) =
     Inr [(''a'', buf_of_loaded \<lparr>ld_abs = [''r'', ''a''], ld_content = ''hi'', ld_version = version_of zero_hash ''hi'',
            ld_mode = 420, ld_secrecy = Plain\<rparr>), (''n'', demo_buf)]"
proof -
  have lim: "lim_file_bytes default_limits = 8388608" by (simp add: default_limits_def)
  have l: "load_base demo_ck blob demo_fs demo_root default_limits
      \<lparr>bv_path = ''a'', bv_version = version_of zero_hash ''hi''\<rparr> []
    = Inr [(''a'', buf_of_loaded \<lparr>ld_abs = [''r'', ''a''], ld_content = ''hi'', ld_version = version_of zero_hash ''hi'',
            ld_mode = 420, ld_secrecy = Plain\<rparr>)]" for blob
    unfolding load_base_def base_version.select_convs demo_load by simp
  have o: "run_op demo_ck demo_fs demo_root default_limits (Create ''n'' ''x'' False False) [(''a'', b)]
    = Inr [(''a'', b), (''n'', demo_buf)]" for b
    by (simp add: run_op_def op_create_def demo_create Let_def lim demo_buf_def)
  show ?thesis by (simp add: run_ops_def demo_req_def demo_with_def l o del: and_then_Inr)
qed

lemma demo_touched:
  "touched_of [(''a'', buf_of_loaded \<lparr>ld_abs = [''r'', ''a''], ld_content = ''hi'', ld_version = version_of zero_hash ''hi'',
            ld_mode = 420, ld_secrecy = Plain\<rparr>), (''n'', demo_buf)] = [(''n'', demo_buf)]"
  by (simp add: touched_of_def buf_of_loaded_def demo_buf_def)

lemma demo_leaks: "leak_phase demo_ck kn demo_root req [(''n'', demo_buf)]
    = \<lparr>lf_refused = [], lf_applied = [], lf_warnings = []\<rparr>"
proof -
  have "added_lines f None ''x'' = [(1, ''x'')]" for f unfolding added_lines_def option.case Let_def by code_simp
  moreover have "private_key_armor ''x'' = None" "runs_of ''x'' = []" by code_simp+
  ultimately have "scan h f None ''x'' kn = []" for h f by (simp add: scan_def scan_line_def)
  then show ?thesis by (simp add: leak_phase_def demo_root_def demo_buf_def)
qed

lemma demo_probe: "probe_writable demo_fs demo_root [(''n'', demo_buf)] = Inr ()"
  by code_simp

definition demo_plan :: plan where
  "demo_plan =
     \<lparr>pl_touched = [(''n'', demo_buf)], pl_leaks = \<lparr>lf_refused = [], lf_applied = [], lf_warnings = []\<rparr>,
      pl_files = [change_of zero_hash (''n'', demo_buf)], pl_diff = None, pl_warnings = []\<rparr>"

lemma demo_check: "check_ops (demo_req dry) = Inr ()"
  unfolding demo_req_def by code_simp

lemma demo_prepare_of:
  assumes "check_ops req = Inr ()" "run_ops demo_ck rc (demo_with j) demo_root default_limits req = Inr bufs"
    and "touched_of bufs = [(''n'', demo_buf)]"
  shows "prepare demo_ck rc demo_root default_limits ''me'' req (demo_with j) =
     (Inr (plan_of demo_ck demo_fs req \<lparr>lf_refused = [], lf_applied = [], lf_warnings = []\<rparr> [(''n'', demo_buf)]), demo_with j)"
proof -
  have "vanish_guard req [(''n'', demo_buf)] = Inr ()" by (simp add: vanish_guard_def demo_buf_def)
  moreover have "delete_guard req [(''n'', demo_buf)] = Inr ()"
    by (simp add: delete_guard_def demo_buf_def List.map_filter_def)
  moreover have "w_fs (demo_with j) = demo_fs" by (simp add: demo_with_def)
  ultimately show ?thesis
    by (simp add: prepare_def assms demo_leaks demo_probe refuse_leaks_def bind_step_def lift_res_def ret_def Let_def)
qed

lemma demo_prepare:
  "prepare demo_ck rc demo_root default_limits ''me'' (demo_req dry) (demo_with j) = (Inr demo_plan, demo_with j)"
proof -
  have "git_warnings demo_ck demo_fs [(''n'', demo_buf)] = []"
    by (simp add: git_warnings_def demo_buf_def List.map_filter_def)
  moreover have "er_return_diff (demo_req dry) = False" by (simp add: demo_req_def)
  ultimately show ?thesis
    unfolding demo_prepare_of[OF demo_check demo_run demo_touched] by (simp add: plan_of_def demo_plan_def demo_a)
qed

lemma demo_commit:
  assumes "rec_begin rc ''me'' (er_intent req) demo_root [record_of demo_ck (''n'', demo_buf)] j = (Inr n, j1)"
    and "rec_complete rc n j1 = (r, j2)"
    and "pl_touched pl = [(''n'', demo_buf)]" "lf_applied (pl_leaks pl) = []"
  shows "\<exists>w'. commit demo_ck rc demo_root ''me'' req pl (demo_with j) = (map_sum id (\<lambda>_. n) r, w')
     \<and> fs_nodes (w_fs w') [''r'', ''n''] = Some (FileN ''x'' 420) \<and> w_journal w' = j2"
proof -
  let ?t = "tmp_of [''r'', ''n''] (demo_with j)"
  have t: "?t = [''r'', tmp_name ''n'' ''7'' 0]" by (simp add: tmp_of_def demo_with_def)
  have n: "tmp_name ''n'' ''7'' 0 \<noteq> ''a''" "tmp_name ''n'' ''7'' 0 \<noteq> ''.env''" "tmp_name ''n'' ''7'' 0 \<noteq> ''n''"
    by (simp_all add: tmp_name_def)
  have f: "fs_nodes demo_fs [''r'', tmp_name ''n'' ''7'' 0] = None" "fs_write demo_fs p"
    "fs_nodes demo_fs [''r'', ''n''] = None" "fs_nodes demo_fs [''r''] = Some DirN" for p
    using n by (simp_all add: demo_fs_def)
  have g: "fb_abs demo_buf = [''r'', ''n'']" "fb_content demo_buf = ''x''" "fb_deleted demo_buf = False"
    "perm_bits (fb_mode demo_buf) = 420"
    by (simp_all add: demo_buf_def perm_bits_def CREATE_MODE_def)
  show ?thesis
    by (cases r) (simp_all add: commit_def bind_step_def stage_def io_step_def io_call_def tick_def
        next_tmp_def demo_with_def open_new_def write_all_def set_permissions_def no_effect_def ret_def
        node_at_def f g set_node_def begin_txn_def assms promote_def rename_node_def
        complete_txn_def journal_leaks_def n Let_def)
qed

lemma demo_plan_fields: "pl_touched demo_plan = [(''n'', demo_buf)]" "lf_applied (pl_leaks demo_plan) = []"
  by (simp_all add: demo_plan_def)

lemma demo_apply:
  "apply_txn demo_ck noop_recorder demo_root (demo_req True) default_limits ''me'' demo_world
     = (Inr (outcome_of demo_plan None), demo_world)"
  "\<exists>w'. apply_txn demo_ck noop_recorder demo_root (demo_req False) default_limits ''me'' demo_world
     = (Inr (outcome_of demo_plan (Some 0)), w') \<and> fs_nodes (w_fs w') [''r'', ''n''] = Some (FileN ''x'' 420)"
  using demo_commit[of noop_recorder "demo_req False" "()" 0 "()" "Inr ()" "()", OF _ _ demo_plan_fields] demo_prepare[of noop_recorder _ "()"]
  unfolding demo_world_def[symmetric] noop_recorder_def recorder.select_convs
  by (auto simp: apply_txn_def apply_inner_def bind_step_def ret_def) (simp_all add: demo_req_def)

lemma demo_real_dir: "real_dir (w_fs demo_world) (rr_path demo_root)"
  by (auto simp: real_dir_def demo_world_def demo_with_def demo_root_def demo_fs_def node_at_def prefix_Cons)

section \<open>Properties\<close>

lemma prepare_world:
  assumes "prepare ck rc base lm author req w = (r, w1)"
  shows "w_fs w1 = w_fs w" "er_dry_run req \<Longrightarrow> w1 = w"
proof (atomize (full), cases r)
  case (Inl e)
  with prepare_Inl assms show "w_fs w1 = w_fs w \<and> (er_dry_run req \<longrightarrow> w1 = w)" by fastforce
next
  case (Inr pl)
  have "w1 = w" by (rule prepare_Inr[OF assms[unfolded Inr]])
  then show "w_fs w1 = w_fs w \<and> (er_dry_run req \<longrightarrow> w1 = w)" by simp
qed

text \<open>The node changes of an application are those of its commit, if it comes to one.\<close>

lemma apply_txn_changes:
  assumes "apply_txn ck rc base req lm author w = (r, w')"
  shows "fs_nodes (w_fs w') = fs_nodes (w_fs w) \<or>
    (\<exists>pl x w1. \<not> er_dry_run req \<and> prepare ck rc base lm author req w = (Inr pl, w)
       \<and> commit ck rc base author req pl w = (x, w1) \<and> fs_nodes (w_fs w') = fs_nodes (w_fs w1))"
proof (cases r)
  case (Inl e)
  from assms[unfolded Inl] show ?thesis
  proof (cases rule: apply_txn_Inl)
    case (refused w1)
    with prepare_world(1)[OF refused(1)] show ?thesis by simp
  next
    case (uncommitted pl w1)
    then show ?thesis by auto
  qed
next
  case (Inr out)
  from assms[unfolded Inr] show ?thesis
  proof (cases rule: apply_txn_Inr)
    case (dry pl)
    then show ?thesis by simp
  next
    case (real pl id)
    then show ?thesis by blast
  qed
qed

text \<open>C3: The jail of the edit engine. Whatever an edit request does, whatever it returns and wherever an
  IO fault strikes it, every path whose node changes lies strictly below the root, and is permitted by
  the permanent policy and the kaedignore chain, whether the node is changed, removed or created there.
  The only changes elsewhere serve a permitted path and are new nodes on a free path: the directories
  made above it, and its temporary file beside it, which carries the mark, the process and a number in
  its name and stays only when a fault keeps it from being renamed or discarded. The root itself is
  assumed to be a real directory, as the configuration resolves it.\<close>
theorem edit_jail:
  assumes "apply_txn ck rc base req lm author w = (r, w')" "real_dir (w_fs w) (rr_path base)"
    and "fs_nodes (w_fs w') p \<noteq> fs_nodes (w_fs w) p"
  shows "strict_prefix (rr_path base) p
    \<and> (permitted ck (w_fs w) base p
       \<or> fs_nodes (w_fs w) p = None
         \<and> (\<exists>q. permitted ck (w_fs w) base q
              \<and> (strict_prefix p q \<and> fs_nodes (w_fs w') p = Some DirN
                 \<or> (\<exists>n. p = butlast q @ [tmp_name (last q) (w_pid w) n]))))"
proof
  obtain pl x w1 where c: "prepare ck rc base lm author req w = (Inr pl, w)"
    "commit ck rc base author req pl w = (x, w1)" "fs_nodes (w_fs w') = fs_nodes (w_fs w1)"
    using apply_txn_changes[OF assms(1)] assms(3) by auto
  note inv = plan_inv[OF c(1) assms(2)]
  show "strict_prefix (rr_path base) p"
    using commit_below[OF c(2) assms(2) inv(1)] assms(3) c(3) by (auto simp: below_def)
  let ?A = "fb_abs ` snd ` set (pl_touched pl)"
  have A: "\<forall>q\<in>?A. permitted ck (w_fs w) base q" using inv(2) by (auto simp: buf_inv_def)
  have "p \<in> ?A \<or> beside ?A w w1 p"
    using commit_confined[OF c(2)] assms(3) c(3) unfolding confined_def by simp
  with A show "permitted ck (w_fs w) base p
       \<or> fs_nodes (w_fs w) p = None
         \<and> (\<exists>q. permitted ck (w_fs w) base q
              \<and> (strict_prefix p q \<and> fs_nodes (w_fs w') p = Some DirN
                 \<or> (\<exists>n. p = butlast q @ [tmp_name (last q) (w_pid w) n])))"
    unfolding beside_def c(3) by blast
qed

theorem edit_jail_witness:
  "\<exists>out w'. apply_txn demo_ck noop_recorder demo_root (demo_req False) default_limits ''me'' demo_world = (out, w')
     \<and> fs_nodes (w_fs w') [''r'', ''n''] = Some (FileN ''x'' 420) \<and> strict_prefix (rr_path demo_root) [''r'', ''n'']
     \<and> permitted demo_ck (w_fs demo_world) demo_root [''r'', ''n'']"
proof -
  obtain w' where w': "apply_txn demo_ck noop_recorder demo_root (demo_req False) default_limits ''me'' demo_world
      = (Inr (outcome_of demo_plan (Some 0)), w')" "fs_nodes (w_fs w') [''r'', ''n''] = Some (FileN ''x'' 420)"
    using demo_apply(2) by blast
  have new: "fs_nodes (w_fs demo_world) [''r'', ''n''] = None" by (simp add: demo_world_def demo_with_def demo_fs_def)
  have "[''r'', ''n''] \<noteq> butlast q @ [tmp_name (last q) pid n]" for q pid n
    by (auto simp: tmp_name_def dest: arg_cong[where f = last])
  with edit_jail[OF w'(1) demo_real_dir, of "[''r'', ''n'']"] w' new show ?thesis by auto
qed

text \<open>C7: A dry run changes nothing at all, neither a file nor the journal, and it predicts: when it
  refuses, the real run refuses with the same error, and when both succeed the real run reports the
  same files, diff and warnings.\<close>
theorem dry_run_predicts:
  assumes "apply_txn ck rc base req lm author w = (r, w')" "er_dry_run req"
    and "apply_txn ck rc base (req\<lparr>er_dry_run := False\<rparr>) lm author w = (r2, w2)"
  shows "w' = w \<and> (\<forall>e. r = Inl e \<longrightarrow> r2 = Inl e)
    \<and> (\<forall>out out2. r = Inr out \<and> r2 = Inr out2 \<longrightarrow>
         eo_files out2 = eo_files out \<and> eo_diff out2 = eo_diff out \<and> eo_warnings out2 = eo_warnings out
         \<and> \<not> eo_applied out \<and> eo_applied out2)"
proof -
  obtain x w1 where p: "prepare ck rc base lm author req w = (x, w1)" by fastforce
  obtain w3 where p2: "prepare ck rc base lm author (req\<lparr>er_dry_run := False\<rparr>) w = (x, w3)"
    using prepare_dry[of ck rc base lm author False req w] p
    by (cases "prepare ck rc base lm author (req\<lparr>er_dry_run := False\<rparr>) w") simp
  have w1: "w1 = w" using prepare_world(2)[OF p assms(2)] .
  show ?thesis
  proof (cases x)
    case (Inl e)
    with assms p p2 w1 show ?thesis by (auto simp: apply_txn_def apply_inner_def bind_step_def)
  next
    case (Inr pl)
    have w3: "w3 = w" by (rule prepare_Inr[OF p2[unfolded Inr]])
    have r: "r = Inr (outcome_of pl None)" "w' = w"
      using assms(1,2) p Inr w1 by (auto simp: apply_txn_def apply_inner_def bind_step_def ret_def)
    have r2: "out2 = outcome_of pl (Some id) \<or> False" if "r2 = Inr out2"
      "commit ck rc base author (req\<lparr>er_dry_run := False\<rparr>) pl w = (Inr id, w2)" for out2 id
      using assms(3) p2 Inr w3 that by (auto simp: apply_txn_def apply_inner_def bind_step_def ret_def)
    have "\<exists>id. out2 = outcome_of pl (Some id)" if "r2 = Inr out2" for out2
      using assms(3)[unfolded that]
    proof (cases rule: apply_txn_Inr)
      case dry
      then show ?thesis by simp
    next
      case (real pl' id)
      with p2 Inr show ?thesis by auto
    qed
    then show ?thesis using r by (auto simp: outcome_of_def)
  qed
qed

theorem dry_run_predicts_witness:
  "\<exists>w' out out2. apply_txn demo_ck noop_recorder demo_root ((demo_req True)\<lparr>er_dry_run := False\<rparr>) default_limits ''me''
     demo_world = (Inr out2, w') \<and> eo_files out2 = pl_files demo_plan"
proof -
  have d: "(demo_req True)\<lparr>er_dry_run := False\<rparr> = demo_req False" "er_dry_run (demo_req True)"
    by (simp_all add: demo_req_def)
  obtain w' where a: "apply_txn demo_ck noop_recorder demo_root ((demo_req True)\<lparr>er_dry_run := False\<rparr>) default_limits
      ''me'' demo_world = (Inr (outcome_of demo_plan (Some 0)), w')" using demo_apply(2) d by auto
  from dry_run_predicts[OF demo_apply(1) d(2) a] have "eo_files (outcome_of demo_plan (Some 0)) = pl_files demo_plan"
    by (auto simp: outcome_of_def)
  with a show ?thesis by blast
qed

lemma distinct_written:
  assumes "distinct (map (fb_abs \<circ> snd) touched)"
  shows "distinct (map fb_abs (written_of touched))"
    "fb_abs ` set (written_of touched) \<inter> fb_abs ` set (removed_of touched) = {}"
proof -
  have d: "distinct (map fb_abs (map snd touched))" using assms by (simp add: comp_def)
  then show "distinct (map fb_abs (written_of touched))"
    unfolding written_of_def by (rule distinct_map_filter)
  show "fb_abs ` set (written_of touched) \<inter> fb_abs ` set (removed_of touched) = {}"
    using d unfolding distinct_map by (auto simp: written_of_def removed_of_def inj_on_def)
qed

definition unmarked :: "bufs \<Rightarrow> bool" where
  "unmarked touched \<longleftrightarrow> (\<forall>b\<in>set (map snd touched). \<not> contains_sub ''.kaed-tmp.'' (last (fb_abs b)))"

lemma holds_dests:
  assumes "holds w staged bs"
  shows "map st_dest staged = map fb_abs bs" "s \<in> set staged \<Longrightarrow> contains_sub ''.kaed-tmp.'' (last (st_tmp s)) \<and> st_tmp s \<noteq> []"
    "distinct (map st_tmp staged)"
    "b \<in> set bs \<Longrightarrow> \<exists>s\<in>set staged. st_dest s = fb_abs b \<and> fs_nodes (w_fs w) (st_tmp s) = Some (final_node b) \<and> st_tmp s \<noteq> []"
proof -
  have l: "length staged = length bs" "\<And>i. i < length bs \<Longrightarrow> st_dest (staged ! i) = fb_abs (bs ! i)
      \<and> st_tmp (staged ! i) \<noteq> [] \<and> contains_sub ''.kaed-tmp.'' (last (st_tmp (staged ! i)))
      \<and> fs_nodes (w_fs w) (st_tmp (staged ! i)) = Some (final_node (bs ! i))"
    using assms by (simp_all add: holds_def list_all2_conv_all_nth)
  show "map st_dest staged = map fb_abs bs" using l by (intro nth_equalityI) simp_all
  show "s \<in> set staged \<Longrightarrow> contains_sub ''.kaed-tmp.'' (last (st_tmp s)) \<and> st_tmp s \<noteq> []"
    using l by (auto simp: in_set_conv_nth)
  show "distinct (map st_tmp staged)" using assms by (simp add: holds_def)
  show "b \<in> set bs \<Longrightarrow> \<exists>s\<in>set staged. st_dest s = fb_abs b \<and> fs_nodes (w_fs w) (st_tmp s) = Some (final_node b) \<and> st_tmp s \<noteq> []"
    using l by (metis in_set_conv_nth)
qed

lemma commit_effect:
  assumes "commit ck rc base author req pl w = (Inr txn_id, w')" "honest w" "unmarked (pl_touched pl)"
    and "distinct (map (fb_abs \<circ> snd) (pl_touched pl))" "\<forall>b\<in>set (removed_of (pl_touched pl)). fb_abs b \<noteq> []"
  shows "\<forall>b\<in>set (written_of (pl_touched pl)). fs_nodes (w_fs w') (fb_abs b) = Some (final_node b)"
    "\<forall>b\<in>set (removed_of (pl_touched pl)). fs_nodes (w_fs w') (fb_abs b) = None"
  using assms(1)
proof (atomize (full), cases rule: commit_cases)
  case (finished id staged w1 j w2 w3 j')
  let ?W = "written_of (pl_touched pl)"
  have h: "holds w1 staged ?W" "faults_shrink w w1" using stage_all_holds[OF finished(2) holds_Nil] by auto
  note hd = holds_dests[OF h(1)]
  note dw = distinct_written[OF assms(4)]
  have un: "\<not> contains_sub ''.kaed-tmp.'' (last (fb_abs b))" if "b \<in> set ?W" for b
    using that assms(3) by (auto simp: unmarked_def written_of_def)
  have dest_W: "st_dest ` set staged = fb_abs ` set ?W" using hd(1) by (metis set_map)
  have sep: "st_tmp ` set staged \<inter> st_dest ` set staged = {}"
  proof (rule ccontr)
    assume "st_tmp ` set staged \<inter> st_dest ` set staged \<noteq> {}"
    then obtain s b where "s \<in> set staged" "b \<in> set ?W" "st_tmp s = fb_abs b" unfolding dest_W by auto
    with hd(2) un show False by metis
  qed
  have dd: "distinct (map st_dest staged)" using hd(1) dw(1) by simp
  note p = promote_all_nodes[OF finished(4) hd(3) dd sep]
  have w2: "honest w2"
  proof -
    have "faults_shrink w (w1\<lparr>w_journal := j\<rparr>)" using h(2) by (simp add: faults_shrink_def)
    with p faults_shrink_trans honest_shrink[OF assms(2)] show ?thesis by blast
  qed
  note u = unlink_all_nodes[OF finished(5) w2]
  have fs: "w_fs w' = w_fs w3" using finished(7) by simp
  have "fs_nodes (w_fs w3) (fb_abs b) = Some (final_node b)" if b: "b \<in> set ?W" for b
  proof -
    obtain s where s: "s \<in> set staged" "st_dest s = fb_abs b" "fs_nodes (w_fs w1) (st_tmp s) = Some (final_node b)"
      "st_tmp s \<noteq> []" using hd(4)[OF b] by blast
    then have "fs_nodes (w_fs w2) (fb_abs b) = Some (final_node b)" using p by (auto simp: node_at_def)
    moreover have "fb_abs b \<notin> fb_abs ` set (removed_of (pl_touched pl))" using dw(2) b by blast
    ultimately show ?thesis using u by simp
  qed
  moreover have "fs_nodes (w_fs w3) (fb_abs b) = None" if "b \<in> set (removed_of (pl_touched pl))" for b
    using u assms(5) that by blast
  ultimately show "(\<forall>b\<in>set ?W. fs_nodes (w_fs w') (fb_abs b) = Some (final_node b)) \<and>
      (\<forall>b\<in>set (removed_of (pl_touched pl)). fs_nodes (w_fs w') (fb_abs b) = None)"
    using fs by simp
qed simp_all

lemma apply_effect:
  assumes "apply_txn ck rc base req lm author w = (Inr out, w')" "\<not> er_dry_run req"
    and "run_ops ck rc w base lm req = Inr bufs" "real_dir (w_fs w) (rr_path base)" "honest w"
    and "distinct (map (fb_abs \<circ> snd) (touched_of bufs))" "unmarked (touched_of bufs)"
  shows "eo_files out = map (change_of (cr_h ck)) (touched_of bufs)
    \<and> (\<forall>p b. (p, b) \<in> set (touched_of bufs) \<longrightarrow>
          fs_nodes (w_fs w') (fb_abs b)
            = (if fb_deleted b then None else Some (FileN (fb_content b) (perm_bits (fb_mode b)))))
    \<and> (\<forall>q nd. q \<notin> fb_abs ` snd ` set (touched_of bufs) \<and> fs_nodes (w_fs w) q = Some nd \<longrightarrow>
          fs_nodes (w_fs w') q = Some nd)"
  using assms(1)
proof (cases rule: apply_txn_Inr)
  case (dry pl)
  with assms(2) show ?thesis by simp
next
  case (real pl id)
  obtain bufs' where "run_ops ck rc w base lm req = Inr bufs'"
    "pl = plan_of ck (w_fs w) req (leaks_in ck rc base req w (touched_of bufs')) (touched_of bufs')"
    by (rule prepare_Inr[OF real(2)])
  with assms(3) have pl: "pl_touched pl = touched_of bufs" "pl_files pl = map (change_of (cr_h ck)) (touched_of bufs)"
    by (simp_all add: plan_of_def)
  have ne: "\<forall>b\<in>set (removed_of (pl_touched pl)). fb_abs b \<noteq> []"
  proof
    fix b assume "b \<in> set (removed_of (pl_touched pl))"
    then obtain p where "(p, b) \<in> set (pl_touched pl)" by (auto simp: removed_of_def)
    from plan_inv(2)[OF real(2) assms(4) this] show "fb_abs b \<noteq> []" by (auto simp: buf_inv_def)
  qed
  note e = commit_effect[OF real(3) assms(5) _ _ ne, unfolded pl(1), OF assms(7,6)]
  have "fs_nodes (w_fs w') (fb_abs b)
      = (if fb_deleted b then None else Some (FileN (fb_content b) (perm_bits (fb_mode b))))"
    if "(p, b) \<in> set (touched_of bufs)" for p b
  proof (cases "fb_deleted b")
    case True
    with that have "b \<in> set (removed_of (touched_of bufs))" by (force simp: removed_of_def)
    with e True show ?thesis by simp
  next
    case False
    with that have "b \<in> set (written_of (touched_of bufs))" by (force simp: written_of_def)
    with e False show ?thesis by (simp add: final_node_def)
  qed
  then show ?thesis
    using commit_frame[OF real(3)] pl real(4) by (simp add: extends_but_def outcome_of_def)
qed

text \<open>C1: What a successful edit has done. When the request runs to the end, every file it wrote holds
  exactly the content the operations computed, with the permission bits of its buffer, every file it
  deleted is gone, every other node that existed is as it was, and the outcome lists these files
  with the hashes of exactly these contents. Assumed: the touched paths are pairwise different and
  none is named like a temporary file of the engine, and no injected fault claims that an existing
  file is absent.\<close>
theorem edit_effect:
  assumes "apply_txn ck rc base req lm author w = (Inr out, w')" "\<not> er_dry_run req"
    and "run_ops ck rc w base lm req = Inr bufs" "real_dir (w_fs w) (rr_path base)" "honest w"
    and "distinct (map (fb_abs \<circ> snd) (touched_of bufs))" "unmarked (touched_of bufs)"
  shows "eo_files out = map (change_of (cr_h ck)) (touched_of bufs)
    \<and> (\<forall>p b. (p, b) \<in> set (touched_of bufs) \<longrightarrow>
          fs_nodes (w_fs w') (fb_abs b)
            = (if fb_deleted b then None else Some (FileN (fb_content b) (perm_bits (fb_mode b)))))
    \<and> (\<forall>q nd. q \<notin> fb_abs ` snd ` set (touched_of bufs) \<and> fs_nodes (w_fs w) q = Some nd \<longrightarrow>
          fs_nodes (w_fs w') q = Some nd)"
  by (rule apply_effect[OF assms])

theorem edit_effect_witness:
  "\<exists>out w'. apply_txn demo_ck noop_recorder demo_root (demo_req False) default_limits ''me'' demo_world = (Inr out, w')
     \<and> fs_nodes (w_fs w') [''r'', ''n''] = Some (FileN ''x'' (perm_bits CREATE_MODE))
     \<and> fs_nodes (w_fs w') [''r'', ''a''] = Some (FileN ''hi'' 420)"
proof -
  obtain w' where w': "apply_txn demo_ck noop_recorder demo_root (demo_req False) default_limits ''me'' demo_world
      = (Inr (outcome_of demo_plan (Some 0)), w')" using demo_apply(2) by blast
  have c: "\<not> er_dry_run (demo_req False)" "honest demo_world" by (simp_all add: demo_req_def demo_world_def demo_with_def honest_def)
  have u: "unmarked [(''n'', demo_buf)]" unfolding unmarked_def demo_buf_def by code_simp
  have d: "distinct (map (fb_abs \<circ> snd) [(''n'', demo_buf)])" by simp
  note e = edit_effect[OF w' c(1) demo_run[of noop_recorder "()", folded demo_world_def] demo_real_dir c(2), unfolded demo_touched, OF d u]
  have "fs_nodes (w_fs demo_world) [''r'', ''a''] = Some (FileN ''hi'' 420)" by (simp add: demo_world_def demo_with_def demo_fs_def)
  with e w' show ?thesis by (auto simp: demo_buf_def)
qed

text \<open>C5: No edit is applied to a stale base. A request that succeeds, dry or not, declared each file at
  most once, and each declared version is the version of the file as it is on disk at that moment;
  and when the first declared file has another version, the request is refused as a version conflict
  and no file changes.\<close>
theorem edit_versions:
  assumes "apply_txn ck rc base req lm author w = (r, w')"
  shows "(\<forall>out. r = Inr out \<longrightarrow> distinct (map bv_path (er_base req)) \<and>
      (\<forall>b\<in>set (er_base req). \<exists>l. load_text ck (w_fs w) base (bv_path b) lm = Inr l \<and> ld_version l = bv_version b))
    \<and> (\<forall>b bs l. er_base req = b # bs \<and> check_ops req = Inr () \<and> load_text ck (w_fs w) base (bv_path b) lm = Inr l
          \<and> ld_version l \<noteq> bv_version b \<longrightarrow>
         w_fs w' = w_fs w \<and> (\<exists>e. r = Inl e \<and> code e = VersionConflict))"
proof (intro conjI allI impI)
  fix out assume "r = Inr out"
  then obtain pl where p: "prepare ck rc base lm author req w = (Inr pl, w)"
    using assms by (auto elim: apply_txn_Inr)
  obtain bufs where "run_ops ck rc w base lm req = Inr bufs" by (rule prepare_Inr[OF p])
  then obtain b0 where b0: "fold_res (load_base ck (\<lambda>v. rec_blob rc v (w_journal w)) (w_fs w) base lm) (er_base req) [] = Inr b0"
    by (auto simp: run_ops_def)
  show "distinct (map bv_path (er_base req))" using load_bases_Inr(2)[OF b0] by blast
  show "\<forall>b\<in>set (er_base req). \<exists>l. load_text ck (w_fs w) base (bv_path b) lm = Inr l \<and> ld_version l = bv_version b"
    by (rule load_bases_Inr(1)[OF b0])
next
  fix b bs l
  assume a: "er_base req = b # bs \<and> check_ops req = Inr () \<and> load_text ck (w_fs w) base (bv_path b) lm = Inr l
      \<and> ld_version l \<noteq> bv_version b"
  obtain e where e: "load_base ck blob (w_fs w) base lm b [] = Inl e" "code e = VersionConflict"
    if "blob = (\<lambda>v. rec_blob rc v (w_journal w))" for blob
    using a by (auto simp: load_base_def)
  then have "run_ops ck rc w base lm req = Inl e" using a by (simp add: run_ops_def)
  then have "prepare ck rc base lm author req w = (Inl e, w)"
    using a by (simp add: prepare_def bind_step_def lift_res_def)
  then have "r = Inl e \<and> w_fs w' = w_fs w"
    using assms by (auto simp: apply_txn_def apply_inner_def bind_step_def)
  then show "w_fs w' = w_fs w" "\<exists>e. r = Inl e \<and> code e = VersionConflict" using e by auto
qed

theorem edit_versions_witness:
  "\<exists>l. load_text demo_ck demo_fs demo_root ''a'' default_limits = Inr l \<and> ld_version l = version_of zero_hash ''hi''"
  using edit_versions[OF demo_apply(1), THEN conjunct1]
  by (auto simp: demo_req_def demo_world_def demo_with_def)

text \<open>C4: The guards hold for every request that succeeds, dry or not. In a classified file that is
  written, each non-empty value of the old content is still there under some key or its key is
  named in drop_keys; in a file no rule classifies, under a root that refuses leaks, each match of
  the precise tiers is named in allow_secrets; and a classified file is only deleted when its path
  is named in drop_paths.\<close>
theorem edit_guards:
  assumes "apply_txn ck rc base req lm author w = (Inr out, w')" "run_ops ck rc w base lm req = Inr bufs"
    and "(p, b) \<in> set (touched_of bufs)"
  shows "(fb_classified b \<noteq> None \<and> \<not> fb_deleted b \<longrightarrow>
      (\<forall>old f e. fb_old_content b = Some old \<and> Kaed_Dotenv.parse old = Some f \<and> e \<in> set (entries_of (dlines f))
          \<and> e_value e \<noteq> [] \<longrightarrow>
        e_value e \<in> values_of (Kaed_Dotenv.parse (fb_content b)) \<or> e_key e \<in> set (er_drop_keys req)))
    \<and> (rr_leak_checks base = LcRefuse \<and> fb_classified b = None \<and> \<not> fb_deleted b \<longrightarrow>
      (\<forall>m\<in>set (scan (cr_h ck) (cr_inserted ck) (fb_old_content b) (fb_content b)
                  (\<lambda>ds. rec_known_digests rc ds (w_journal w))).
         refuses (lm_kind m) \<longrightarrow> lm_detail m \<in> set (er_allow_secrets req)))
    \<and> (fb_classified b \<noteq> None \<and> fb_deleted b \<longrightarrow> p \<in> set (er_drop_paths req))"
proof -
  obtain pl where pl: "prepare ck rc base lm author req w = (Inr pl, w)"
    using assms(1) by (auto elim: apply_txn_Inr)
  obtain bufs' where "run_ops ck rc w base lm req = Inr bufs'" "vanish_guard req (touched_of bufs') = Inr ()"
    "lf_refused (leaks_in ck rc base req w (touched_of bufs')) = []" "delete_guard req (touched_of bufs') = Inr ()"
    by (rule prepare_Inr[OF pl])
  with assms(2) have g: "vanish_guard req (touched_of bufs) = Inr ()"
    "lf_refused (leak_phase ck (\<lambda>ds. rec_known_digests rc ds (w_journal w)) base req (touched_of bufs)) = []"
    "delete_guard req (touched_of bufs) = Inr ()" by (simp_all add: leaks_in_def)
  have "p \<in> set (er_drop_paths req)" if "fb_classified b \<noteq> None" "fb_deleted b"
    using delete_guard_Inr[OF g(3) assms(3)] that by (simp add: delete_unrecoverable_reason_def)
  with vanished_in_Nil[OF vanish_guard_Inr[OF g(1) assms(3)]] leak_phase_refused[OF g(2) _ assms(3)]
  show ?thesis by blast
qed

theorem edit_guards_witness:
  "filter (\<lambda>m. refuses (lm_kind m)) (scan zero_hash (\<lambda>_ _. []) None ''x'' (\<lambda>ds. map (\<lambda>_. None) ds)) = []"
proof -
  have "(''n'', demo_buf) \<in> set (touched_of [(''a'', buf_of_loaded \<lparr>ld_abs = [''r'', ''a''], ld_content = ''hi'',
      ld_version = version_of zero_hash ''hi'', ld_mode = 420, ld_secrecy = Plain\<rparr>), (''n'', demo_buf)])"
    by (simp add: demo_touched)
  from edit_guards[OF demo_apply(1) demo_run[of noop_recorder "()", folded demo_world_def] this] show ?thesis
    by (simp add: demo_root_def demo_buf_def demo_ck_def demo_req_def noop_recorder_def filter_empty_conv)
qed

end
