(* ===== verification/Kaed_Recorder.thy ===== *)
theory Kaed_Recorder
  imports Kaed_Engine_Props
begin

text \<open>
  The contract between the edit engine and the store behind the trait \<open>TxnRecorder\<close>: which
  transactions are pending, begun and not completed. With a recorder that keeps it, a failed edit
  either left every existing file as it was or is a pending transaction of the store, and a
  successful one leaves no pending transaction behind.
\<close>

locale txn_recorder =
  fixes rc :: "'j recorder" and valid :: "'j \<Rightarrow> bool" and pending :: "'j \<Rightarrow> int set"
  assumes begin_Inr: "valid j \<Longrightarrow> rec_begin rc author intent base files j = (Inr txn_id, j') \<Longrightarrow>
      txn_id \<notin> pending j \<and> pending j' = insert txn_id (pending j)"
    and begin_Inl: "valid j \<Longrightarrow> rec_begin rc author intent base files j = (Inl e, j') \<Longrightarrow> pending j' = pending j"
    and complete_Inr: "valid j \<Longrightarrow> rec_complete rc txn_id j = (Inr u, j') \<Longrightarrow> pending j' = pending j - {txn_id}"
    and complete_Inl: "valid j \<Longrightarrow> rec_complete rc txn_id j = (Inl e, j') \<Longrightarrow> pending j' = pending j"
    and fail_pending: "valid j \<Longrightarrow> pending (rec_fail rc r j) = pending j"
    and leak_pending: "valid j \<Longrightarrow> pending (rec_leak_events rc author base evs j) = pending j"
    and begin_valid: "valid j \<Longrightarrow> rec_begin rc author intent base files j = (res, j') \<Longrightarrow> valid j'"
    and complete_valid: "valid j \<Longrightarrow> rec_complete rc txn_id j = (res', j') \<Longrightarrow> valid j'"
    and leak_valid: "valid j \<Longrightarrow> valid (rec_leak_events rc author base evs j)"
    and fail_valid: "valid j \<Longrightarrow> valid (rec_fail rc r j)"
begin

text \<open>How the pending transactions and the files stand after a failed commit.\<close>

definition undone :: "'j world \<Rightarrow> 'j world \<Rightarrow> bool" where
  "undone w w' \<longleftrightarrow> extends w w' \<and> pending (w_journal w') = pending (w_journal w)"

definition torn :: "'j world \<Rightarrow> 'j world \<Rightarrow> bool" where
  "torn w w' \<longleftrightarrow>
     (\<exists>txn_id. txn_id \<notin> pending (w_journal w) \<and> pending (w_journal w') = insert txn_id (pending (w_journal w)))"

lemma commit_Inl:
  assumes "commit ck rc base author req pl w = (Inl e, w')" "valid (w_journal w)"
  shows "(undone w w' \<or> torn w w') \<and> valid (w_journal w')"
  using assms(1)
proof (cases rule: commit_cases)
  case (unstaged e)
  with stage_all_ok[OF unstaged(2) staged_ok_Nil] assms(2) show ?thesis by (simp add: undone_def)
next
  case (unbegun e staged w1 j)
  have "staged_ok w w1 staged" using stage_all_ok[OF unbegun(2) staged_ok_Nil] by simp
  then have "extends w w'" unfolding unbegun(4) by (rule discards_extends)
  moreover have "w_journal w' = j" using unbegun(4) by (simp add: discards_journal)
  ultimately show ?thesis
    using begin_Inl[OF assms(2) unbegun(3)] begin_valid[OF assms(2) unbegun(3)] by (simp add: undone_def)
next
  case (torn e id staged w1 j)
  have "w_journal w' = j" using torn(4) promote_all_journal unlink_all_journal by fastforce
  with begin_Inr[OF assms(2) torn(3)] begin_valid[OF assms(2) torn(3)] show ?thesis by (auto simp: torn_def)
next
  case (incomplete e id staged w1 j w2 w3 j')
  have j3: "w_journal w3 = j"
    using promote_all_journal[OF incomplete(4)] unlink_all_journal[OF incomplete(5)] by simp
  have v: "valid j" by (rule begin_valid[OF assms(2) incomplete(3)])
  from complete_Inl[OF v incomplete(6)[unfolded j3]] complete_valid[OF v incomplete(6)[unfolded j3]]
    begin_Inr[OF assms(2) incomplete(3)] incomplete(7)
  show ?thesis by (auto simp: torn_def)
qed simp

lemma commit_Inr:
  assumes "commit ck rc base author req pl w = (Inr txn_id, w')" "valid (w_journal w)"
  shows "pending (w_journal w') = pending (w_journal w) \<and> valid (w_journal w')"
  using assms(1)
proof (cases rule: commit_cases)
  case (finished id staged w1 j w2 w3 j')
  have j3: "w_journal w3 = j"
    using promote_all_journal[OF finished(4)] unlink_all_journal[OF finished(5)] by simp
  have v: "valid j" by (rule begin_valid[OF assms(2) finished(3)])
  have v': "valid j'" by (rule complete_valid[OF v finished(6)[unfolded j3]])
  have "pending j' = pending (w_journal w)"
    using complete_Inr[OF v finished(6)[unfolded j3]] begin_Inr[OF assms(2) finished(3)] by auto
  then show ?thesis
    using finished(7) v' leak_pending[OF v'] leak_valid[OF v'] by (simp add: leaked_def)
qed simp_all

text \<open>The engine: a failed edit is undone or a pending transaction, a successful one is neither.\<close>

lemma apply_Inl:
  assumes "apply_txn ck rc base req lm author w = (Inl e, w')" "valid (w_journal w)"
  shows "undone w w' \<or> torn w w'"
  using assms(1)
proof (cases rule: apply_txn_Inl)
  case (refused w1)
  have w1: "w_fs w1 = w_fs w" "pending (w_journal w1) = pending (w_journal w)" "valid (w_journal w1)"
    using prepare_Inl[OF refused(1)] leak_pending[OF assms(2)] leak_valid[OF assms(2)] assms(2) by auto
  then show ?thesis
    using refused(2) fail_pending[OF w1(3)] by (auto simp: undone_def extends_def)
next
  case (uncommitted pl w1)
  from commit_Inl[OF uncommitted(3) assms(2)] fail_pending[of "w_journal w1"] uncommitted(4) show ?thesis
    by (auto simp: undone_def torn_def)
qed

lemma apply_Inr:
  assumes "apply_txn ck rc base req lm author w = (Inr out, w')" "valid (w_journal w)"
  shows "pending (w_journal w') = pending (w_journal w)"
  using assms(1)
proof (cases rule: apply_txn_Inr)
  case (real pl id)
  from commit_Inr[OF real(3) assms(2)] show ?thesis by simp
qed simp

lemma apply_valid:
  assumes "apply_txn ck rc base req lm author w = (r, w')" "valid (w_journal w)"
  shows "valid (w_journal w')"
proof (cases r)
  case (Inl e)
  from assms(1)[unfolded Inl] show ?thesis
  proof (cases rule: apply_txn_Inl)
    case (refused w1)
    have "valid (w_journal w1)" using prepare_Inl[OF refused(1)] leak_valid[OF assms(2)] assms(2) by auto
    with refused(2) fail_valid show ?thesis by simp
  next
    case (uncommitted pl w1)
    from commit_Inl[OF uncommitted(3) assms(2)] fail_valid uncommitted(4) show ?thesis by simp
  qed
next
  case (Inr out)
  from assms(1)[unfolded Inr] show ?thesis
  proof (cases rule: apply_txn_Inr)
    case (real pl id)
    from commit_Inr[OF real(3) assms(2)] show ?thesis by simp
  qed (use assms(2) in simp)
qed

end

end
