(* ===== verification/Kaed_Journal.thy ===== *)
theory Kaed_Journal
  imports Kaed_Recorder "HOL-Library.Product_Lexorder"
begin

text \<open>
  \<open>src/journal.rs\<close>: the tables of the SQLite store as lists of rows in insertion order, one
  definition per statement or method. The clock, the wording of messages and the git head are the
  environment's; a failing statement is taken from a list of faults. The writes of a transaction
  are one database transaction, so they happen all or not at all.
\<close>

section \<open>Tables\<close>

record txn_file_row =
  tf_txn :: int
  tf_path :: rstr
  tf_old :: "rstr option"
  tf_new :: rstr
  tf_added :: int
  tf_removed :: int

record txn_row =
  tx_id :: int
  tx_author :: rstr
  tx_node :: rstr
  tx_intent :: "rstr option"
  tx_root :: rstr
  tx_git_head :: "rstr option"
  tx_started :: rstr
  tx_completed :: "rstr option"

record blob_row =
  bl_version :: rstr
  bl_content :: rstr
  bl_created :: rstr
  bl_redacted :: bool

record failure_row =
  fl_id :: int
  fl_author :: rstr
  fl_node :: rstr
  fl_intent :: "rstr option"
  fl_root :: rstr
  fl_paths :: rstr
  fl_code :: rstr
  fl_message :: rstr
  fl_expected :: "rstr option"
  fl_actual :: "rstr option"
  fl_failed :: rstr

record feedback_row =
  fbk_id :: int
  fbk_author :: rstr
  fbk_category :: rstr
  fbk_summary :: rstr
  fbk_detail :: "rstr option"
  fbk_context :: "rstr option"
  fbk_created :: rstr

record secret_event =
  se_author :: rstr
  se_node :: rstr
  se_action :: rstr
  se_root :: rstr
  se_path :: rstr
  se_key :: rstr
  se_old_digest :: "rstr option"
  se_new_digest :: "rstr option"
  se_disclosed :: bool
  se_destination :: "rstr option"
  se_txn_id :: "int option"
  se_intent :: "rstr option"

record event_row =
  ev_id :: int
  ev_event :: secret_event
  ev_created :: rstr

record digest_row =
  dg_digest :: rstr
  dg_root :: rstr
  dg_path :: rstr
  dg_key :: rstr
  dg_seen :: rstr

text \<open>\<open>AUTOINCREMENT\<close> keeps, per table, the last id it has given out.\<close>

record journal =
  j_txns :: "txn_row list"
  j_files :: "txn_file_row list"
  j_blobs :: "blob_row list"
  j_failures :: "failure_row list"
  j_feedback :: "feedback_row list"
  j_events :: "event_row list"
  j_digests :: "digest_row list"
  j_txn_seq :: int
  j_failure_seq :: int
  j_feedback_seq :: int
  j_event_seq :: int
  j_retention_days :: nat
  j_last_gc :: nat
  j_clock :: nat
  j_faults :: "bool list"

record journal_env =
  je_h :: hasher
  je_rfc3339 :: "nat \<Rightarrow> rstr"
  je_text :: "msg \<Rightarrow> rstr"
  je_git_head :: "path \<Rightarrow> rstr \<Rightarrow> rstr option"

definition empty_journal :: "nat \<Rightarrow> nat \<Rightarrow> journal" where
  "empty_journal days clock =
     \<lparr>j_txns = [], j_files = [], j_blobs = [], j_failures = [], j_feedback = [], j_events = [], j_digests = [],
      j_txn_seq = 0, j_failure_seq = 0, j_feedback_seq = 0, j_event_seq = 0, j_retention_days = days,
      j_last_gc = clock, j_clock = clock, j_faults = []\<rparr>"

definition now :: "journal_env \<Rightarrow> journal \<Rightarrow> rstr" where
  "now je j = je_rfc3339 je (j_clock j)"

definition redact_note :: "journal_env \<Rightarrow> rstr \<Rightarrow> rstr" where
  "redact_note je s = redact_free_text (je_h je) s"

definition db_err :: kaed_error where
  "db_err = internal_error (Msg ''journal'' [])"

text \<open>One statement, or one database transaction: it fails as the environment decides.\<close>

definition statement :: "journal \<Rightarrow> bool \<times> journal" where
  "statement j = (case j_faults j of [] \<Rightarrow> (True, j) | f # fs \<Rightarrow> (\<not> f, j\<lparr>j_faults := fs\<rparr>))"

section \<open>Writes\<close>

definition insert_blob :: "rstr \<Rightarrow> rstr \<Rightarrow> rstr \<Rightarrow> bool \<Rightarrow> blob_row list \<Rightarrow> blob_row list" where
  "insert_blob version content created redacted blobs =
     (if \<exists>b\<in>set blobs. bl_version b = version then blobs
      else blobs @ [\<lparr>bl_version = version, bl_content = content, bl_created = created, bl_redacted = redacted\<rparr>])"

definition same_place :: "digest_row \<Rightarrow> digest_row \<Rightarrow> bool" where
  "same_place a b \<longleftrightarrow>
     dg_digest a = dg_digest b \<and> dg_root a = dg_root b \<and> dg_path a = dg_path b \<and> dg_key a = dg_key b"

definition insert_digest :: "digest_row \<Rightarrow> digest_row list \<Rightarrow> digest_row list" where
  "insert_digest row rows = (if \<exists>r\<in>set rows. same_place r row then rows else rows @ [row])"

definition index_rendering :: "rstr \<Rightarrow> rstr \<Rightarrow> rstr \<Rightarrow> rstr \<Rightarrow> digest_row list \<Rightarrow> digest_row list" where
  "index_rendering base path seen content rows =
     fold (\<lambda>(key, digest). insert_digest
             \<lparr>dg_digest = digest, dg_root = base, dg_path = path, dg_key = key, dg_seen = seen\<rparr>)
       (extract_placeholder_digests content) rows"

definition begin_file :: "journal_env \<Rightarrow> rroot \<Rightarrow> int \<Rightarrow> file_txn_record \<Rightarrow> journal \<Rightarrow> journal" where
  "begin_file je base txn_id f j =
     (let j1 = j\<lparr>j_files := j_files j @
                 [\<lparr>tf_txn = txn_id, tf_path = ft_path f, tf_old = ft_old_version f, tf_new = ft_new_version f,
                   tf_added = ft_lines_added f, tf_removed = ft_lines_removed f\<rparr>]\<rparr>;
          j2 = (case (ft_old_version f, ft_blob_old f) of
                  (Some v, Some b) \<Rightarrow> j1\<lparr>j_blobs := insert_blob v b (now je j) (ft_redacted f) (j_blobs j1)\<rparr>
                | _ \<Rightarrow> j1);
          j3 = (case ft_blob_new f of
                  Some b \<Rightarrow> j2\<lparr>j_blobs := insert_blob (ft_new_version f) b (now je j) (ft_redacted f) (j_blobs j2)\<rparr>
                | None \<Rightarrow> j2)
      in if ft_redacted f
         then j3\<lparr>j_digests :=
                fold (index_rendering (rr_name base) (ft_path f) (now je j))
                  (List.map_filter id [ft_blob_old f, ft_blob_new f]) (j_digests j3)\<rparr>
         else j3)"

definition begin_as ::
  "journal_env \<Rightarrow> rstr \<Rightarrow> rstr \<Rightarrow> rstr option \<Rightarrow> rroot \<Rightarrow> file_txn_record list \<Rightarrow> journal \<Rightarrow> int res \<times> journal" where
  "begin_as je author node intent base files j =
     (let git_head = (case files of [] \<Rightarrow> None | f # _ \<Rightarrow> je_git_head je (rr_path base) (ft_path f));
          (ok, j0) = statement j;
          txn_id = j_txn_seq j0 + 1;
          row = \<lparr>tx_id = txn_id, tx_author = author, tx_node = node, tx_intent = map_option (redact_note je) intent,
                 tx_root = rr_name base, tx_git_head = git_head, tx_started = now je j0, tx_completed = None\<rparr>
      in if \<not> ok then (Inl db_err, j0)
         else (Inr txn_id,
               fold (begin_file je base txn_id) files (j0\<lparr>j_txns := j_txns j0 @ [row], j_txn_seq := txn_id\<rparr>)))"

text \<open>
  \<open>checked_sub\<close> gives no cutoff for a retention longer than the clock has run.
\<close>

definition gc_blobs :: "journal_env \<Rightarrow> journal \<Rightarrow> nat res \<times> journal" where
  "gc_blobs je j =
     (let secs = j_retention_days j * 86400 in
      if j_clock j < secs then (Inr 0, j)
      else
        let cutoff = je_rfc3339 je (j_clock j - secs);
            (ok, j0) = statement j;
            kept = filter (\<lambda>b. \<not> bl_created b < cutoff) (j_blobs j0)
        in if \<not> ok then (Inl db_err, j0)
           else (Inr (length (j_blobs j0) - length kept), j0\<lparr>j_blobs := kept, j_last_gc := j_clock j0\<rparr>))"

definition GC_INTERVAL :: nat where "GC_INTERVAL = 3600"

definition gc_if_due :: "journal_env \<Rightarrow> journal \<Rightarrow> journal" where
  "gc_if_due je j = (if GC_INTERVAL \<le> j_clock j - j_last_gc j then snd (gc_blobs je j) else j)"

definition complete :: "journal_env \<Rightarrow> int \<Rightarrow> journal \<Rightarrow> unit res \<times> journal" where
  "complete je txn_id j =
     (let (ok, j0) = statement j in
      if \<not> ok then (Inl db_err, j0)
      else (Inr (), gc_if_due je
             (j0\<lparr>j_txns := map (\<lambda>t. if tx_id t = txn_id then t\<lparr>tx_completed := Some (now je j0)\<rparr> else t)
                            (j_txns j0)\<rparr>)))"

definition add_secret_event :: "journal_env \<Rightarrow> secret_event \<Rightarrow> journal \<Rightarrow> int res \<times> journal" where
  "add_secret_event je e j =
     (let (ok, j0) = statement j; n = j_event_seq j0 + 1 in
      if \<not> ok then (Inl db_err, j0)
      else (Inr n, j0\<lparr>j_events := j_events j0 @ [\<lparr>ev_id = n, ev_event = e, ev_created = now je j0\<rparr>],
                      j_event_seq := n\<rparr>))"

definition leak_events_as :: "journal_env \<Rightarrow> rstr \<Rightarrow> rstr \<Rightarrow> rroot \<Rightarrow> leak_event list \<Rightarrow> journal \<Rightarrow> journal" where
  "leak_events_as je author node base evs j =
     fold (\<lambda>e j. snd (add_secret_event je
             \<lparr>se_author = author, se_node = node, se_action = le_action e, se_root = rr_name base,
              se_path = le_path e, se_key = (case le_source_key e of Some k \<Rightarrow> k | None \<Rightarrow> le_detail e),
              se_old_digest = None, se_new_digest = le_digest e, se_disclosed = False, se_destination = None,
              se_txn_id = le_txn_id e, se_intent = map_option (redact_note je) (le_intent e)\<rparr> j))
       evs j"

definition error_field :: "kaed_error \<Rightarrow> rstr \<Rightarrow> rstr option" where
  "error_field e k = Option.bind (Option.bind (edata e) (\<lambda>d. json_get d k)) as_str"

definition fail_as :: "journal_env \<Rightarrow> failed_txn \<Rightarrow> rstr \<Rightarrow> journal \<Rightarrow> journal" where
  "fail_as je r node j =
     (let (ok, j0) = statement j; n = j_failure_seq j0 + 1 in
      if \<not> ok then j0
      else j0\<lparr>j_failures := j_failures j0 @
                [\<lparr>fl_id = n, fl_author = fx_author r, fl_node = node,
                  fl_intent = map_option (redact_note je) (fx_intent r), fl_root = rr_name (fx_root r),
                  fl_paths = join_with '', '' (fx_paths r), fl_code = code_str (code (fx_error r)),
                  fl_message = redact_note je (je_text je (message (fx_error r))),
                  fl_expected = error_field (fx_error r) ''expected_version'',
                  fl_actual = error_field (fx_error r) ''actual_version'', fl_failed = now je j0\<rparr>],
              j_failure_seq := n\<rparr>)"

definition record_digests :: "journal_env \<Rightarrow> rstr \<Rightarrow> rstr \<Rightarrow> (rstr \<times> rstr) list \<Rightarrow> journal \<Rightarrow> journal" where
  "record_digests je base path ents j =
     fold (\<lambda>(key, digest) j.
             let (ok, j0) = statement j in
             if \<not> ok then j0
             else j0\<lparr>j_digests := insert_digest
                     \<lparr>dg_digest = digest, dg_root = base, dg_path = path, dg_key = key, dg_seen = now je j0\<rparr>
                     (j_digests j0)\<rparr>)
       ents j"

definition add_feedback ::
  "journal_env \<Rightarrow> rstr \<Rightarrow> rstr \<Rightarrow> rstr \<Rightarrow> rstr option \<Rightarrow> rstr option \<Rightarrow> journal \<Rightarrow> int res \<times> journal" where
  "add_feedback je author category summary detail ctx j =
     (let (ok, j0) = statement j; n = j_feedback_seq j0 + 1 in
      if \<not> ok then (Inl db_err, j0)
      else (Inr n, j0\<lparr>j_feedback := j_feedback j0 @
              [\<lparr>fbk_id = n, fbk_author = author, fbk_category = category, fbk_summary = summary,
                fbk_detail = detail, fbk_context = ctx, fbk_created = now je j0\<rparr>], j_feedback_seq := n\<rparr>))"

section \<open>Reads\<close>

text \<open>\<open>split\<close> of \<open>str\<close> on a separator string.\<close>

function split_str :: "rstr \<Rightarrow> rstr \<Rightarrow> rstr list" where
  "split_str sep s =
     (if sep = [] then [s]
      else (case find_sub sep s of
              None \<Rightarrow> [s]
            | Some i \<Rightarrow> take i s # split_str sep (drop (i + length sep) s)))"
  by pat_completeness auto
termination
proof (relation "measure (\<lambda>(sep, s). length s)", goal_cases)
  case (2 sep s i)
  then show ?case using find_sub_Some[of sep s i] by (cases sep) auto
qed simp

declare split_str.simps [simp del]

record history_filter =
  hf_root :: "rstr option"
  hf_path :: "rstr option"
  hf_author :: "rstr option"
  hf_since :: "rstr option"
  hf_limit :: nat

definition trim_end_slashes :: "rstr \<Rightarrow> rstr" where
  "trim_end_slashes p = rev (dropWhile (\<lambda>c. c = CHR ''/'') (rev p))"

definition path_matches :: "history_filter \<Rightarrow> rstr \<Rightarrow> bool" where
  "path_matches f path =
     (case hf_path f of
        None \<Rightarrow> True
      | Some p \<Rightarrow>
          (let p = trim_end_slashes p in p = [] \<or> path = p \<or> starts_with (p @ ''/'') path))"

text \<open>SQLite's \<open>LIKE\<close>: per character, ASCII letters without regard to case.\<close>

function like_chars :: "rstr list \<Rightarrow> rstr list \<Rightarrow> bool" where
  "like_chars [] s = (s = [])"
| "like_chars (p # ps) s =
     (if p = ''%''
      then like_chars ps s \<or> (case s of [] \<Rightarrow> False | _ # s' \<Rightarrow> like_chars (p # ps) s')
      else (case s of
              [] \<Rightarrow> False
            | c # s' \<Rightarrow> (p = ''_'' \<or> to_ascii_lower p = to_ascii_lower c) \<and> like_chars ps s'))"
  by pat_completeness auto
termination
  by (relation "measure (\<lambda>(p, s). length p + length s)") auto

definition sql_like :: "rstr \<Rightarrow> rstr \<Rightarrow> bool" where
  "sql_like pattern s = like_chars (uchars pattern) (uchars s)"

definition opt_eq :: "rstr option \<Rightarrow> rstr \<Rightarrow> bool" where
  "opt_eq wanted actual = (case wanted of None \<Rightarrow> True | Some w \<Rightarrow> actual = w)"

definition opt_since :: "rstr option \<Rightarrow> rstr \<Rightarrow> bool" where
  "opt_since since stamp = (case since of None \<Rightarrow> True | Some s \<Rightarrow> s \<le> stamp)"

definition at_or_under :: "rstr \<Rightarrow> rstr \<Rightarrow> bool" where
  "at_or_under p path = (let p = trim_end_slashes p in path = p \<or> sql_like (p @ ''/%'') path)"

text \<open>\<open>ORDER BY id DESC LIMIT n\<close>.\<close>

definition newest :: "('r \<Rightarrow> int) \<Rightarrow> nat \<Rightarrow> 'r list \<Rightarrow> 'r list" where
  "newest row_id n rows = take n (rev (sort_key row_id rows))"

definition files_of :: "journal \<Rightarrow> int \<Rightarrow> txn_file_row list" where
  "files_of j txn_id = filter (\<lambda>f. tf_txn f = txn_id) (j_files j)"

definition txns :: "journal \<Rightarrow> history_filter \<Rightarrow> (txn_row \<times> txn_file_row list) list" where
  "txns j f =
     map (\<lambda>t. (t, files_of j (tx_id t)))
       (newest tx_id (hf_limit f)
          (filter (\<lambda>t. opt_eq (hf_root f) (tx_root t) \<and> opt_eq (hf_author f) (tx_author t)
                       \<and> opt_since (hf_since f) (tx_started t)
                       \<and> (case hf_path f of None \<Rightarrow> True
                          | Some p \<Rightarrow> \<exists>x\<in>set (files_of j (tx_id t)). at_or_under p (tf_path x)))
             (j_txns j)))"

definition txn :: "journal \<Rightarrow> int \<Rightarrow> (txn_row \<times> txn_file_row list) option" where
  "txn j txn_id = map_option (\<lambda>t. (t, files_of j (tx_id t))) (find (\<lambda>t. tx_id t = txn_id) (j_txns j))"

definition failures :: "journal \<Rightarrow> history_filter \<Rightarrow> failure_row list" where
  "failures j f =
     take (hf_limit f)
       (filter (\<lambda>r. \<exists>p\<in>set (split_str '', '' (fl_paths r)). path_matches f p)
          (newest fl_id (if hf_path f = None then hf_limit f else hf_limit f * 4 + 32)
             (filter (\<lambda>r. opt_eq (hf_root f) (fl_root r) \<and> opt_eq (hf_author f) (fl_author r)
                          \<and> opt_since (hf_since f) (fl_failed r)
                          \<and> (case hf_path f of None \<Rightarrow> True
                             | Some p \<Rightarrow> sql_like (''%'' @ p @ ''%'') (fl_paths r)))
                (j_failures j))))"

definition feedback_rows :: "journal \<Rightarrow> history_filter \<Rightarrow> feedback_row list" where
  "feedback_rows j f =
     newest fbk_id (hf_limit f)
       (filter (\<lambda>r. opt_eq (hf_author f) (fbk_author r) \<and> opt_since (hf_since f) (fbk_created r)) (j_feedback j))"

definition secret_events :: "journal \<Rightarrow> history_filter \<Rightarrow> event_row list" where
  "secret_events j f =
     newest ev_id (hf_limit f)
       (filter (\<lambda>r. opt_eq (hf_root f) (se_root (ev_event r)) \<and> opt_eq (hf_author f) (se_author (ev_event r))
                    \<and> opt_since (hf_since f) (ev_created r)
                    \<and> (case hf_path f of None \<Rightarrow> True | Some p \<Rightarrow> at_or_under p (se_path (ev_event r))))
          (j_events j))"

definition blob :: "journal \<Rightarrow> rstr \<Rightarrow> (rstr \<times> bool) option" where
  "blob j version =
     (case find (\<lambda>b. bl_version b = version) (j_blobs j) of
        Some b \<Rightarrow> if valid_utf8 (bl_content b) then Some (bl_content b, bl_redacted b) else None
      | None \<Rightarrow> None)"

definition earliest :: "digest_row list \<Rightarrow> digest_location option" where
  "earliest rows =
     (case sort_key (\<lambda>r. (dg_seen r, dg_root r, dg_path r, dg_key r)) rows of
        [] \<Rightarrow> None
      | r # _ \<Rightarrow> Some \<lparr>dl_root = dg_root r, dl_path = dg_path r, dl_key = dg_key r\<rparr>)"

definition known_digests :: "journal \<Rightarrow> rstr list \<Rightarrow> digest_location option list" where
  "known_digests j ds = map (\<lambda>d. earliest (filter (\<lambda>r. dg_digest r = d) (j_digests j))) ds"

record pending_txn =
  pt_id :: int
  pt_author :: rstr
  pt_started :: rstr
  pt_files :: "rstr list"

text \<open>The file names come back through one string, joined and split again.\<close>

definition scan_pending :: "journal \<Rightarrow> pending_txn list" where
  "scan_pending j =
     map (\<lambda>t. \<lparr>pt_id = tx_id t, pt_author = tx_author t, pt_started = tx_started t,
                pt_files = (case map tf_path (files_of j (tx_id t)) of
                              [] \<Rightarrow> [] | ps \<Rightarrow> split_str '', '' (join_with '', '' ps))\<rparr>)
       (sort_key tx_id (filter (\<lambda>t. tx_completed t = None) (j_txns j)))"

definition first_of :: "rstr list \<Rightarrow> rstr option" where
  "first_of xs = (case sort xs of [] \<Rightarrow> None | x # _ \<Rightarrow> Some x)"

record coverage =
  cv_txns :: "rstr option"
  cv_failures :: "rstr option"
  cv_feedback :: "rstr option"
  cv_secrets :: "rstr option"

definition coverage_of :: "journal \<Rightarrow> coverage" where
  "coverage_of j =
     \<lparr>cv_txns = first_of (map tx_started (j_txns j)), cv_failures = first_of (map fl_failed (j_failures j)),
      cv_feedback = first_of (map fbk_created (j_feedback j)), cv_secrets = first_of (map ev_created (j_events j))\<rparr>"

text \<open>
  Seeding the digest index from events that name where a value lives and from the retained
  redacted renderings; the order of the join's rows is SQLite's, here the order of the tables.
\<close>

definition event_digests :: "(secret_event \<Rightarrow> rstr option) \<Rightarrow> journal \<Rightarrow> digest_row list" where
  "event_digests col j =
     List.map_filter
       (\<lambda>r. let e = ev_event r in
          if se_action e \<in> {''generate'', ''rotate'', ''reveal'', ''transport''}
          then map_option (\<lambda>d. \<lparr>dg_digest = d, dg_root = se_root e, dg_path = se_path e, dg_key = se_key e,
                                 dg_seen = ev_created r\<rparr>) (col e)
          else None)
       (j_events j)"

definition renderings :: "journal \<Rightarrow> (rstr \<times> rstr \<times> rstr \<times> rstr) list" where
  "renderings j =
     remdups
       [(bl_content b, tx_root t, tf_path x, bl_created b).
          b \<leftarrow> j_blobs j, bl_redacted b,
          x \<leftarrow> j_files j, tf_new x = bl_version b \<or> tf_old x = Some (bl_version b),
          t \<leftarrow> j_txns j, tx_id t = tf_txn x]"

definition backfill_digest_index :: "journal \<Rightarrow> journal" where
  "backfill_digest_index j =
     j\<lparr>j_digests :=
        fold (\<lambda>(content, base, path, seen) rows.
                if valid_utf8 content then index_rendering base path seen content rows else rows)
          (renderings j)
          (fold insert_digest (event_digests se_new_digest j)
             (fold insert_digest (event_digests se_old_digest j) (j_digests j)))\<rparr>"

definition open_journal :: "journal_env \<Rightarrow> journal \<Rightarrow> unit res \<times> journal" where
  "open_journal je j =
     (case gc_blobs je (j\<lparr>j_last_gc := j_clock j\<rparr>) of
        (Inl e, j') \<Rightarrow> (Inl e, j')
      | (Inr _, j') \<Rightarrow> (Inr (), backfill_digest_index j'))"

section \<open>The recorder\<close>

definition UNKNOWN_NODE :: rstr where "UNKNOWN_NODE = ''unknown''"

text \<open>\<open>NodeScoped\<close>: the journal bound to one caller's node.\<close>

definition as_node :: "journal_env \<Rightarrow> rstr \<Rightarrow> journal recorder" where
  "as_node je node =
     \<lparr>rec_begin = (\<lambda>author intent base files. begin_as je author node intent base files),
      rec_complete = complete je,
      rec_blob = (\<lambda>version j. blob j version),
      rec_fail = (\<lambda>r. fail_as je r node),
      rec_known_digests = (\<lambda>ds j. known_digests j ds),
      rec_leak_events = (\<lambda>author base evs. leak_events_as je author node base evs)\<rparr>"

end
