(* ===== verification/Kaed_Journal_Facts.thy ===== *)
theory Kaed_Journal_Facts
  imports Kaed_Journal
begin

text \<open>
  The journal as a state machine: every method is a step, time and database faults are the
  environment's steps. The invariant of the tables, the growth of the audit trail, and the
  journal as a recorder that keeps the contract of the edit engine.
\<close>

section \<open>Table invariants\<close>

definition ids_ok :: "('r \<Rightarrow> int) \<Rightarrow> 'r list \<Rightarrow> int \<Rightarrow> bool" where
  "ids_ok row_id rows sq \<longleftrightarrow>
     sorted_wrt (<) (map row_id rows) \<and> (\<forall>r\<in>set rows. 0 < row_id r \<and> row_id r \<le> sq) \<and> 0 \<le> sq"

lemma ids_ok_Nil [simp]: "ids_ok row_id [] 0"
  by (simp add: ids_ok_def)

lemma ids_ok_snoc: "ids_ok row_id rows sq \<Longrightarrow> row_id r = sq + 1 \<Longrightarrow> ids_ok row_id (rows @ [r]) (sq + 1)"
  by (fastforce simp: ids_ok_def sorted_wrt_append)

lemma ids_ok_map: "(\<And>r. row_id (g r) = row_id r) \<Longrightarrow> ids_ok row_id (map g rows) sq = ids_ok row_id rows sq"
  by (simp add: ids_ok_def comp_def)

lemma ids_distinct: "ids_ok row_id rows sq \<Longrightarrow> distinct (map row_id rows)"
  by (simp add: ids_ok_def strict_sorted_iff)

definition place :: "digest_row \<Rightarrow> rstr \<times> rstr \<times> rstr \<times> rstr" where
  "place r = (dg_digest r, dg_root r, dg_path r, dg_key r)"

lemma same_place_iff: "same_place a b \<longleftrightarrow> place a = place b"
  by (auto simp: same_place_def place_def)

text \<open>Each digest in a retained redacted rendering is in the index, under its key.\<close>

definition indexed_in :: "blob_row list \<Rightarrow> digest_row list \<Rightarrow> bool" where
  "indexed_in blobs rows \<longleftrightarrow>
     (\<forall>b\<in>set blobs. bl_redacted b \<longrightarrow>
        (\<forall>(key, d)\<in>set (extract_placeholder_digests (bl_content b)). \<exists>r\<in>set rows. dg_digest r = d \<and> dg_key r = key))"

definition journal_ok :: "journal \<Rightarrow> bool" where
  "journal_ok j \<longleftrightarrow>
     ids_ok tx_id (j_txns j) (j_txn_seq j) \<and> ids_ok fl_id (j_failures j) (j_failure_seq j)
     \<and> ids_ok fbk_id (j_feedback j) (j_feedback_seq j) \<and> ids_ok ev_id (j_events j) (j_event_seq j)
     \<and> tf_txn ` set (j_files j) \<subseteq> tx_id ` set (j_txns j)
     \<and> distinct (map bl_version (j_blobs j)) \<and> distinct (map place (j_digests j))
     \<and> indexed_in (j_blobs j) (j_digests j)"

definition pending :: "journal \<Rightarrow> int set" where
  "pending j = tx_id ` {t \<in> set (j_txns j). tx_completed t = None}"

text \<open>The audit trail only grows: rows stay, and a transaction once completed stays completed.\<close>

definition open_row :: "txn_row \<Rightarrow> txn_row" where
  "open_row t = t\<lparr>tx_completed := None\<rparr>"

definition completed :: "journal \<Rightarrow> int set" where
  "completed j = tx_id ` {t \<in> set (j_txns j). tx_completed t \<noteq> None}"

definition later_files :: "journal \<Rightarrow> journal \<Rightarrow> bool" where
  "later_files j j' \<longleftrightarrow> j_txn_seq j \<le> j_txn_seq j'
     \<and> (\<exists>more. j_files j' = j_files j @ more \<and> (\<forall>x\<in>set more. j_txn_seq j < tf_txn x))"

lemma later_files_same: "j_files j' = j_files j \<Longrightarrow> j_txn_seq j' = j_txn_seq j \<Longrightarrow> later_files j j'"
  by (simp add: later_files_def)

lemma later_files_trans: "later_files j j' \<Longrightarrow> later_files j' j'' \<Longrightarrow> later_files j j''"
  unfolding later_files_def by (elim conjE exE) (fastforce intro: order_trans dest: order_le_less_trans)

definition grows :: "journal \<Rightarrow> journal \<Rightarrow> bool" where
  "grows j j' \<longleftrightarrow>
     prefix (map open_row (j_txns j)) (map open_row (j_txns j')) \<and> completed j \<subseteq> completed j'
     \<and> later_files j j' \<and> prefix (j_failures j) (j_failures j')
     \<and> prefix (j_feedback j) (j_feedback j') \<and> prefix (j_events j) (j_events j')
     \<and> prefix (j_digests j) (j_digests j') \<and> j_retention_days j' = j_retention_days j"

lemma grows_refl [simp]: "grows j j"
  by (simp add: grows_def later_files_same)

lemma grows_trans: "grows j j' \<Longrightarrow> grows j' j'' \<Longrightarrow> grows j j''"
  unfolding grows_def by (elim conjE, intro conjI) (blast intro: prefix_order.order_trans later_files_trans | simp)+

lemma statement_fields [simp]:
  "statement j = (ok, j0) \<Longrightarrow> j_txns j0 = j_txns j" "statement j = (ok, j0) \<Longrightarrow> j_files j0 = j_files j"
  "statement j = (ok, j0) \<Longrightarrow> j_blobs j0 = j_blobs j" "statement j = (ok, j0) \<Longrightarrow> j_failures j0 = j_failures j"
  "statement j = (ok, j0) \<Longrightarrow> j_feedback j0 = j_feedback j" "statement j = (ok, j0) \<Longrightarrow> j_events j0 = j_events j"
  "statement j = (ok, j0) \<Longrightarrow> j_digests j0 = j_digests j" "statement j = (ok, j0) \<Longrightarrow> j_txn_seq j0 = j_txn_seq j"
  "statement j = (ok, j0) \<Longrightarrow> j_failure_seq j0 = j_failure_seq j"
  "statement j = (ok, j0) \<Longrightarrow> j_feedback_seq j0 = j_feedback_seq j"
  "statement j = (ok, j0) \<Longrightarrow> j_event_seq j0 = j_event_seq j"
  "statement j = (ok, j0) \<Longrightarrow> j_retention_days j0 = j_retention_days j"
  "statement j = (ok, j0) \<Longrightarrow> j_clock j0 = j_clock j" "statement j = (ok, j0) \<Longrightarrow> j_last_gc j0 = j_last_gc j"
  by (auto simp: statement_def split: list.splits)

lemma statement_ok: "statement j = (ok, j0) \<Longrightarrow> journal_ok j0 = journal_ok j"
  by (simp add: journal_ok_def)

lemma statement_grows: "statement j = (ok, j0) \<Longrightarrow> grows j j0"
  by (simp add: grows_def completed_def later_files_same)

lemma statement_pending: "statement j = (ok, j0) \<Longrightarrow> pending j0 = pending j"
  by (simp add: pending_def)

section \<open>Blobs and digests\<close>

lemma insert_blob_ok: "distinct (map bl_version bs) \<Longrightarrow> distinct (map bl_version (insert_blob v c d r bs))"
  by (auto simp: insert_blob_def)

lemma insert_blob_keeps: "set bs \<subseteq> set (insert_blob v c d r bs)"
  by (auto simp: insert_blob_def)

lemma insert_digest_ok: "distinct (map place rows) \<Longrightarrow> distinct (map place (insert_digest row rows))"
  by (auto simp: insert_digest_def same_place_iff)

lemma insert_digest_prefix: "prefix rows (insert_digest row rows)"
  by (auto simp: insert_digest_def)

lemma insert_digest_mem: "\<exists>r\<in>set (insert_digest row rows). same_place r row"
  by (auto simp: insert_digest_def same_place_iff)

lemma fold_digests_ok:
  "distinct (map place rows) \<Longrightarrow> distinct (map place (fold (\<lambda>x. insert_digest (mk x)) xs rows))"
  by (induction xs arbitrary: rows) (auto intro: insert_digest_ok)

lemma fold_prefix: "(\<And>x rows. prefix rows (f x rows)) \<Longrightarrow> prefix rows (fold f xs rows)"
  by (induction xs arbitrary: rows) (auto intro: prefix_order.order_trans)

lemma index_rendering_alt:
  "index_rendering base path seen content rows =
     fold (\<lambda>x. insert_digest \<lparr>dg_digest = snd x, dg_root = base, dg_path = path, dg_key = fst x, dg_seen = seen\<rparr>)
       (extract_placeholder_digests content) rows"
  unfolding index_rendering_def by (simp add: case_prod_unfold)

lemma index_rendering_ok: "distinct (map place rows) \<Longrightarrow> distinct (map place (index_rendering base path seen content rows))"
  unfolding index_rendering_alt by (rule fold_digests_ok)

lemma index_rendering_prefix: "prefix rows (index_rendering base path seen content rows)"
  unfolding index_rendering_alt by (rule fold_prefix) (rule insert_digest_prefix)

section \<open>The start of a transaction\<close>

definition file_row :: "int \<Rightarrow> file_txn_record \<Rightarrow> txn_file_row" where
  "file_row txn_id f =
     \<lparr>tf_txn = txn_id, tf_path = ft_path f, tf_old = ft_old_version f, tf_new = ft_new_version f,
      tf_added = ft_lines_added f, tf_removed = ft_lines_removed f\<rparr>"

lemma begin_file_frame:
  "j_txns (begin_file je base txn_id f j) = j_txns j" "j_failures (begin_file je base txn_id f j) = j_failures j"
  "j_feedback (begin_file je base txn_id f j) = j_feedback j" "j_events (begin_file je base txn_id f j) = j_events j"
  "j_txn_seq (begin_file je base txn_id f j) = j_txn_seq j" "j_failure_seq (begin_file je base txn_id f j) = j_failure_seq j"
  "j_feedback_seq (begin_file je base txn_id f j) = j_feedback_seq j"
  "j_event_seq (begin_file je base txn_id f j) = j_event_seq j"
  "j_retention_days (begin_file je base txn_id f j) = j_retention_days j"
  "j_clock (begin_file je base txn_id f j) = j_clock j" "j_last_gc (begin_file je base txn_id f j) = j_last_gc j"
  "j_files (begin_file je base txn_id f j) = j_files j @ [file_row txn_id f]"
  by (simp_all add: begin_file_def file_row_def Let_def split: option.split)

text \<open>The invariant of the two tables that a transaction fills from its renderings.\<close>

definition stored_ok :: "journal \<Rightarrow> bool" where
  "stored_ok j \<longleftrightarrow> distinct (map bl_version (j_blobs j)) \<and> distinct (map place (j_digests j))
     \<and> indexed_in (j_blobs j) (j_digests j)"

definition stored_grows :: "journal \<Rightarrow> journal \<Rightarrow> bool" where
  "stored_grows j j' \<longleftrightarrow> set (j_blobs j) \<subseteq> set (j_blobs j') \<and> prefix (j_digests j) (j_digests j')"

lemma begin_file_blobs:
  "j_blobs (begin_file je base txn_id f j) =
     (let old = (case (ft_old_version f, ft_blob_old f) of
                   (Some v, Some b) \<Rightarrow> insert_blob v b (now je j) (ft_redacted f) (j_blobs j) | _ \<Rightarrow> j_blobs j)
      in case ft_blob_new f of
           Some b \<Rightarrow> insert_blob (ft_new_version f) b (now je j) (ft_redacted f) old | None \<Rightarrow> old)"
  by (simp add: begin_file_def Let_def split: option.split)

lemma begin_file_digests:
  "j_digests (begin_file je base txn_id f j) =
     (if ft_redacted f
      then fold (index_rendering (rr_name base) (ft_path f) (now je j)) (List.map_filter id [ft_blob_old f, ft_blob_new f])
             (j_digests j)
      else j_digests j)"
  by (simp add: begin_file_def Let_def split: option.split)

lemma insert_blob_indexed:
  assumes "indexed_in blobs rows"
    and "redacted \<Longrightarrow> \<forall>(key, d)\<in>set (extract_placeholder_digests content). \<exists>r\<in>set rows. dg_digest r = d \<and> dg_key r = key"
  shows "indexed_in (insert_blob v content c redacted blobs) rows"
  using assms by (auto simp: insert_blob_def indexed_in_def)

lemma indexed_mono: "indexed_in blobs rows \<Longrightarrow> set rows \<subseteq> set rows' \<Longrightarrow> indexed_in blobs rows'"
  unfolding indexed_in_def by fast

lemma index_rendering_has:
  assumes "(key, d) \<in> set (extract_placeholder_digests content)"
  shows "\<exists>r\<in>set (index_rendering base path seen content rows). dg_digest r = d \<and> dg_key r = key"
proof -
  have "\<exists>r\<in>set (fold (\<lambda>x. insert_digest (mk x)) xs rows). same_place r (mk (key, d))"
    if "(key, d) \<in> set xs" for mk :: "rstr \<times> rstr \<Rightarrow> digest_row" and xs rows
    using that
  proof (induction xs arbitrary: rows)
    case (Cons x xs)
    show ?case
    proof (cases "x = (key, d)")
      case True
      obtain r where "r \<in> set (insert_digest (mk x) rows)" "same_place r (mk x)"
        using insert_digest_mem by blast
      then show ?thesis
        using fold_prefix[of "\<lambda>x. insert_digest (mk x)" "insert_digest (mk x) rows" xs, OF insert_digest_prefix] True
        by (auto dest: set_mono_prefix)
    next
      case False
      with Cons show ?thesis by simp
    qed
  qed simp
  from this[OF assms] show ?thesis unfolding index_rendering_alt by (force simp: same_place_def)
qed

definition kept :: "blob_row list \<Rightarrow> digest_row list \<Rightarrow> blob_row list \<Rightarrow> bool" where
  "kept old rows blobs \<longleftrightarrow> distinct (map bl_version blobs) \<and> set old \<subseteq> set blobs \<and> indexed_in blobs rows"

lemma kept_insert:
  assumes "kept old rows blobs"
    and "redacted \<Longrightarrow> \<forall>(key, d)\<in>set (extract_placeholder_digests content). \<exists>r\<in>set rows. dg_digest r = d \<and> dg_key r = key"
  shows "kept old rows (insert_blob v content c redacted blobs)"
  using assms insert_blob_indexed[of blobs rows redacted content v c] insert_blob_keeps[of blobs v content c redacted]
    insert_blob_ok[of blobs v content c redacted]
  by (auto simp: kept_def)

lemma begin_file_stored:
  assumes "stored_ok j"
  shows "stored_ok (begin_file je base txn_id f j) \<and> stored_grows j (begin_file je base txn_id f j)"
proof -
  let ?j = "begin_file je base txn_id f j"
  have px: "prefix (j_digests j) (j_digests ?j)"
    unfolding begin_file_digests by (simp add: fold_prefix index_rendering_prefix)
  have has: "\<forall>(key, d)\<in>set (extract_placeholder_digests c). \<exists>r\<in>set (j_digests ?j). dg_digest r = d \<and> dg_key r = key"
    if c: "ft_blob_old f = Some c \<or> ft_blob_new f = Some c" and r: "ft_redacted f" for c
  proof (clarify)
    fix key d assume kd: "(key, d) \<in> set (extract_placeholder_digests c)"
    let ?ix = "index_rendering (rr_name base) (ft_path f) (now je j)"
    have "c \<in> set (List.map_filter id [ft_blob_old f, ft_blob_new f])"
      using c by (auto simp: List.map_filter_def)
    then obtain xs ys where sp: "List.map_filter id [ft_blob_old f, ft_blob_new f] = xs @ c # ys"
      by (meson split_list)
    have "prefix (?ix c (fold ?ix xs (j_digests j))) (j_digests ?j)"
      unfolding begin_file_digests sp by (simp add: r fold_prefix index_rendering_prefix)
    then show "\<exists>r\<in>set (j_digests ?j). dg_digest r = d \<and> dg_key r = key"
      using index_rendering_has[OF kd] by (blast dest: set_mono_prefix)
  qed
  have ix: "indexed_in (j_blobs j) (j_digests ?j)"
    using assms px by (auto simp: stored_ok_def intro: indexed_mono dest: set_mono_prefix)
  have d: "distinct (map place (j_digests ?j))"
    using assms unfolding begin_file_digests stored_ok_def
    by (auto simp: List.map_filter_def intro!: index_rendering_ok)
  have step: "kept (j_blobs j) (j_digests ?j) bs \<Longrightarrow>
      kept (j_blobs j) (j_digests ?j) (insert_blob v c (now je j) (ft_redacted f) bs)"
    if "ft_blob_old f = Some c \<or> ft_blob_new f = Some c" for bs v c
    by (rule kept_insert) (auto dest: has[OF that])
  have base: "kept (j_blobs j) (j_digests ?j) (j_blobs j)"
    using assms ix by (simp add: stored_ok_def kept_def)
  have "kept (j_blobs j) (j_digests ?j) (j_blobs ?j)"
    unfolding begin_file_blobs Let_def
    by (cases "ft_old_version f"; cases "ft_blob_old f"; cases "ft_blob_new f") (simp_all add: base step)
  then have b: "distinct (map bl_version (j_blobs ?j)) \<and> set (j_blobs j) \<subseteq> set (j_blobs ?j)
      \<and> indexed_in (j_blobs ?j) (j_digests ?j)"
    by (simp add: kept_def)
  show ?thesis using px d b by (simp add: stored_ok_def stored_grows_def)
qed

lemma begin_files_frame:
  defines "go \<equiv> \<lambda>je base txn_id files j. fold (begin_file je base txn_id) files j"
  shows "j_txns (go je base txn_id files j) = j_txns j" "j_failures (go je base txn_id files j) = j_failures j"
    "j_feedback (go je base txn_id files j) = j_feedback j" "j_events (go je base txn_id files j) = j_events j"
    "j_txn_seq (go je base txn_id files j) = j_txn_seq j" "j_failure_seq (go je base txn_id files j) = j_failure_seq j"
    "j_feedback_seq (go je base txn_id files j) = j_feedback_seq j" "j_event_seq (go je base txn_id files j) = j_event_seq j"
    "j_retention_days (go je base txn_id files j) = j_retention_days j"
    "j_clock (go je base txn_id files j) = j_clock j" "j_last_gc (go je base txn_id files j) = j_last_gc j"
    "j_files (go je base txn_id files j) = j_files j @ map (file_row txn_id) files"
  unfolding go_def by (induction files arbitrary: j) (simp_all add: begin_file_frame)

lemma stored_grows_trans: "stored_grows j j' \<Longrightarrow> stored_grows j' j'' \<Longrightarrow> stored_grows j j''"
  unfolding stored_grows_def by (blast intro: prefix_order.order_trans)

lemma begin_files_stored:
  assumes "stored_ok j"
  shows "stored_ok (fold (begin_file je base txn_id) files j)
    \<and> stored_grows j (fold (begin_file je base txn_id) files j)"
  using assms
proof (induction files arbitrary: j)
  case Nil
  then show ?case by (simp add: stored_grows_def)
next
  case (Cons f files)
  note one = begin_file_stored[OF Cons.prems, of je base txn_id f]
  from one Cons.IH[of "begin_file je base txn_id f j"] show ?case
    by (simp add: stored_grows_trans[of j "begin_file je base txn_id f j"])
qed

lemma journal_ok_stored: "journal_ok j \<Longrightarrow> stored_ok j"
  by (simp add: journal_ok_def stored_ok_def)

section \<open>Steps\<close>

text \<open>What one call leaves behind: the invariant, a longer audit trail, and a set of pending ones.\<close>

definition advances :: "journal \<Rightarrow> journal \<Rightarrow> int set \<Rightarrow> bool" where
  "advances j j' P \<longleftrightarrow> (journal_ok j \<longrightarrow> journal_ok j' \<and> grows j j' \<and> pending j' = P)"

lemma advancesD:
  assumes "advances j j' P" "journal_ok j"
  shows "journal_ok j'" "grows j j'" "pending j' = P"
  using assms by (auto simp: advances_def)

lemma advances_refl [simp]: "advances j j (pending j)"
  by (simp add: advances_def)

lemma advances_trans: "advances j j' P \<Longrightarrow> advances j' j'' Q \<Longrightarrow> (journal_ok j' \<Longrightarrow> pending j' = P \<Longrightarrow> R = Q) \<Longrightarrow> advances j j'' R"
  unfolding advances_def by (auto intro: grows_trans)

lemma advances_same: "advances j j' (pending j) \<Longrightarrow> advances j' j'' (pending j) \<Longrightarrow> advances j j'' (pending j)"
  by (rule advances_trans) auto

lemma advances_statement: "statement j = (ok, j0) \<Longrightarrow> advances j j0 (pending j)"
  by (simp add: advances_def statement_ok statement_grows statement_pending)

lemma advances_fold:
  assumes "\<And>x j. advances j (f x j) (pending j)"
  shows "advances j (fold f xs j) (pending j)"
proof (induction xs arbitrary: j)
  case (Cons x xs)
  show ?case by simp (rule advances_trans[OF assms Cons.IH], simp)
qed simp

lemma advances_log:
  "advances j (j\<lparr>j_failures := j_failures j @ [r\<lparr>fl_id := j_failure_seq j + 1\<rparr>], j_failure_seq := j_failure_seq j + 1\<rparr>) (pending j)"
  "advances j (j\<lparr>j_feedback := j_feedback j @ [b\<lparr>fbk_id := j_feedback_seq j + 1\<rparr>], j_feedback_seq := j_feedback_seq j + 1\<rparr>) (pending j)"
  "advances j (j\<lparr>j_events := j_events j @ [e\<lparr>ev_id := j_event_seq j + 1\<rparr>], j_event_seq := j_event_seq j + 1\<rparr>) (pending j)"
  "advances j (j\<lparr>j_digests := insert_digest d (j_digests j)\<rparr>) (pending j)"
  using insert_digest_prefix[of "j_digests j" d] insert_digest_ok[of "j_digests j" d]
  by (auto simp: advances_def journal_ok_def grows_def pending_def completed_def
      intro!: ids_ok_snoc later_files_same intro: indexed_mono dest: set_mono_prefix)

lemma advances_environment:
  "advances j (j\<lparr>j_clock := c\<rparr>) (pending j)" "advances j (j\<lparr>j_faults := fs\<rparr>) (pending j)"
  "advances j (j\<lparr>j_last_gc := c\<rparr>) (pending j)"
  by (simp_all add: advances_def journal_ok_def grows_def pending_def completed_def later_files_same)

lemma begin_as_cases:
  assumes "begin_as je author node intent base files j = (r, j')"
  obtains (down) "statement j = (False, j')" "r = Inl db_err"
  | (up) j0 row where "statement j = (True, j0)" "r = Inr (j_txn_seq j0 + 1)"
      "tx_id row = j_txn_seq j0 + 1" "tx_completed row = None"
      "tx_author row = author" "tx_root row = rr_name base" "tx_node row = node"
      "j' = fold (begin_file je base (j_txn_seq j0 + 1)) files
              (j0\<lparr>j_txns := j_txns j0 @ [row], j_txn_seq := j_txn_seq j0 + 1\<rparr>)"
proof -
  obtain ok j0 where st: "statement j = (ok, j0)" by fastforce
  let ?row = "\<lparr>tx_id = j_txn_seq j0 + 1, tx_author = author, tx_node = node, tx_intent = map_option (redact_note je) intent,
                 tx_root = rr_name base,
                 tx_git_head = (case files of [] \<Rightarrow> None | f # _ \<Rightarrow> je_git_head je (rr_path base) (ft_path f)),
                 tx_started = now je j0, tx_completed = None\<rparr>"
  show thesis
  proof (cases ok)
    case True
    with assms st have "r = Inr (j_txn_seq j0 + 1)"
      "j' = fold (begin_file je base (j_txn_seq j0 + 1)) files
              (j0\<lparr>j_txns := j_txns j0 @ [?row], j_txn_seq := j_txn_seq j0 + 1\<rparr>)"
      by (simp_all add: begin_as_def Let_def)
    with True st show thesis using up[of j0 ?row] by simp
  next
    case False
    with assms st down show thesis by (simp add: begin_as_def Let_def)
  qed
qed

lemma pending_new:
  assumes "journal_ok j" "0 < n - j_txn_seq j"
  shows "n \<notin> tx_id ` set (j_txns j)" "n \<notin> pending j"
  using assms by (auto simp: journal_ok_def ids_ok_def pending_def)

lemma begin_as_advances:
  assumes "begin_as je author node intent base files j = (Inr n, j')" "journal_ok j"
  shows "advances j j' (insert n (pending j))" "n \<notin> pending j"
proof -
  from assms(1) show "advances j j' (insert n (pending j))"
  proof (cases rule: begin_as_cases)
    case (up j0 row)
    let ?j1 = "j0\<lparr>j_txns := j_txns j0 @ [row], j_txn_seq := j_txn_seq j0 + 1\<rparr>"
    have n: "n = j_txn_seq j0 + 1" using up by simp
    have ok: "journal_ok j0" using assms(2) up(1) by (simp add: statement_ok)
    then have "stored_ok ?j1" by (simp add: journal_ok_def stored_ok_def)
    note st = begin_files_stored[OF this, of je base n files]
    have eq: "j' = fold (begin_file je base n) files ?j1" using up(8) n by simp
    note fr = begin_files_frame[of je base n files ?j1, folded eq]
    have rows: "ids_ok tx_id (j_txns j0 @ [row]) n"
      using ok up(3) unfolding n by (intro ids_ok_snoc) (simp_all add: journal_ok_def)
    have refs: "tf_txn ` set (j_files j') \<subseteq> tx_id ` set (j_txns j')"
      using ok fr(1,12) up(3) n by (auto simp: journal_ok_def file_row_def)
    have "journal_ok j'"
      using ok st[folded eq] rows[unfolded n] refs fr by (simp add: journal_ok_def stored_ok_def)
    moreover have "grows j0 j'"
    proof -
      have "later_files j0 j'"
        using fr(5,12) by (auto simp: later_files_def file_row_def n)
      then show ?thesis using st[folded eq] fr by (auto simp: grows_def stored_grows_def completed_def)
    qed
    moreover have "pending j' = insert n (pending j0)"
    proof -
      have "{t \<in> set (j_txns j'). tx_completed t = None} = insert row {t \<in> set (j_txns j0). tx_completed t = None}"
        using fr(1) up(4) by auto
      then show ?thesis using up(3) n by (simp add: pending_def)
    qed
    ultimately show ?thesis
      using up(1) grows_trans[OF statement_grows[OF up(1)]] by (simp add: advances_def statement_pending)
  qed simp
  from assms(1) show "n \<notin> pending j"
    by (cases rule: begin_as_cases) (use pending_new(2)[OF assms(2), of n] in auto)
qed

lemma begin_as_down:
  "begin_as je author node intent base files j = (Inl e, j') \<Longrightarrow> advances j j' (pending j) \<and> e = db_err"
  by (erule begin_as_cases) (auto intro: advances_statement)

text \<open>Collection of blobs and completion.\<close>

definition sweep :: "rstr \<Rightarrow> journal \<Rightarrow> journal" where
  "sweep cutoff j = j\<lparr>j_blobs := filter (\<lambda>b. \<not> bl_created b < cutoff) (j_blobs j), j_last_gc := j_clock j\<rparr>"

definition cutoff :: "journal_env \<Rightarrow> journal \<Rightarrow> rstr" where
  "cutoff je j = je_rfc3339 je (j_clock j - j_retention_days j * 86400)"

lemma gc_blobs_alt:
  "gc_blobs je j =
     (if j_clock j < j_retention_days j * 86400 then (Inr 0, j)
      else case statement j of
             (ok, j0) \<Rightarrow> if \<not> ok then (Inl db_err, j0)
                        else (Inr (length (j_blobs j0) - length (j_blobs (sweep (cutoff je j) j0))), sweep (cutoff je j) j0))"
  by (simp add: gc_blobs_def Let_def sweep_def cutoff_def split: prod.split)

lemma gc_blobs_cases:
  assumes "gc_blobs je j = (r, j')"
  obtains (young) "j_clock j < j_retention_days j * 86400" "j' = j" "r = Inr 0"
  | (down) "statement j = (False, j')" "r = Inl db_err"
  | (swept) j0 n where "\<not> j_clock j < j_retention_days j * 86400" "statement j = (True, j0)" "r = Inr n"
      "j' = sweep (cutoff je j) j0"
proof -
  obtain ok j0 where st: "statement j = (ok, j0)" by fastforce
  consider "j_clock j < j_retention_days j * 86400" | "\<not> j_clock j < j_retention_days j * 86400" by blast
  then show thesis
  proof cases
    case 1
    with assms have "r = Inr 0" "j' = j" by (simp_all only: gc_blobs_alt if_True prod.inject)
    with 1 show thesis by (intro young)
  next
    case 2
    note eq = gc_blobs_alt[of je j, unfolded st if_not_P[OF 2] prod.case, symmetric, unfolded assms prod.inject]
    show thesis
    proof (cases ok)
      case True
      with eq have "r = Inr (length (j_blobs j0) - length (j_blobs (sweep (cutoff je j) j0)))"
        "j' = sweep (cutoff je j) j0" by auto
      with 2 st True show thesis by (intro swept) simp_all
    next
      case False
      with eq have "r = Inl db_err" "j' = j0" by simp_all
      with st False show thesis by (intro down) simp_all
    qed
  qed
qed

lemma distinct_map_filter_mem: "distinct (map f xs) \<Longrightarrow> distinct (map f (filter P xs))"
  by (simp add: distinct_map inj_on_def)

lemma sweep_advances: "advances j (sweep c j) (pending j)"
  by (auto simp: sweep_def advances_def journal_ok_def grows_def completed_def pending_def indexed_in_def
      intro: distinct_map_filter_mem later_files_same)

lemma gc_blobs_advances: "gc_blobs je j = (r, j') \<Longrightarrow> advances j j' (pending j)"
proof (erule gc_blobs_cases)
  fix j0 assume st: "statement j = (True, j0)" and j': "j' = sweep (cutoff je j) j0"
  show "advances j j' (pending j)"
    unfolding j' by (rule advances_same[OF advances_statement[OF st] sweep_advances[of j0, unfolded statement_pending[OF st]]])
qed (auto intro: advances_statement)

lemma gc_if_due_advances: "advances j (gc_if_due je j) (pending j)"
  using gc_blobs_advances[of je j "fst (gc_blobs je j)" "snd (gc_blobs je j)"] by (simp add: gc_if_due_def)

definition stamp :: "rstr \<Rightarrow> int \<Rightarrow> txn_row \<Rightarrow> txn_row" where
  "stamp at_time n t = (if tx_id t = n then t\<lparr>tx_completed := Some at_time\<rparr> else t)"

lemma stamp_fields [simp]:
  "tx_id (stamp c n t) = tx_id t" "open_row (stamp c n t) = open_row t"
  "tx_completed (stamp c n t) = (if tx_id t = n then Some c else tx_completed t)"
  by (simp_all add: stamp_def open_row_def)

lemma complete_cases:
  assumes "complete je n j = (r, j')"
  obtains (down) "statement j = (False, j')" "r = Inl db_err"
  | (up) j0 where "statement j = (True, j0)" "r = Inr ()"
      "j' = gc_if_due je (j0\<lparr>j_txns := map (stamp (now je j0) n) (j_txns j0)\<rparr>)"
proof -
  obtain ok j0 where st: "statement j = (ok, j0)" by fastforce
  show thesis
  proof (cases ok)
    case True
    with assms st up show thesis by (simp add: complete_def Let_def stamp_def[abs_def])
  next
    case False
    with assms st down show thesis by (simp add: complete_def Let_def)
  qed
qed

lemma stamp_advances:
  "advances j (j\<lparr>j_txns := map (stamp c n) (j_txns j)\<rparr>) (pending j - {n})"
  unfolding advances_def
proof (intro impI conjI)
  assume ok: "journal_ok j"
  let ?j = "j\<lparr>j_txns := map (stamp c n) (j_txns j)\<rparr>"
  show "journal_ok ?j" using ok by (simp add: journal_ok_def ids_ok_map image_image)
  have "later_files j ?j" by (simp add: later_files_same)
  then show "grows j ?j" by (auto simp: grows_def completed_def comp_def image_iff) (metis stamp_fields(1,3) option.distinct(1))+
  have "{t \<in> set (map (stamp c n) (j_txns j)). tx_completed t = None}
      = {t \<in> set (j_txns j). tx_completed t = None \<and> tx_id t \<noteq> n}" (is "?l = ?r")
  proof -
    have "?l = stamp c n ` ?r" by (auto split: if_splits)
    also have "\<dots> = ?r" by (intro image_cong[THEN trans, OF refl _ image_ident]) (simp add: stamp_def)
    finally show ?thesis .
  qed
  then show "pending ?j = pending j - {n}" by (auto simp: pending_def)
qed

lemma complete_advances:
  assumes "complete je n j = (r, j')"
  shows "advances j j' (if r = Inr () then pending j - {n} else pending j)"
  using assms
proof (cases rule: complete_cases)
  case down
  then show ?thesis by (auto intro: advances_statement)
next
  case (up j0)
  let ?j = "j0\<lparr>j_txns := map (stamp (now je j0) n) (j_txns j0)\<rparr>"
  have "advances j0 j' (pending j0 - {n})"
    unfolding up(3) by (rule advances_trans[OF stamp_advances gc_if_due_advances]) simp
  moreover have "pending j0 = pending j" using up(1) by (rule statement_pending)
  ultimately show ?thesis using advances_trans[OF advances_statement[OF up(1)]] up(2) by simp
qed

lemma add_secret_event_advances: "advances j (snd (add_secret_event je e j)) (pending j)"
proof -
  obtain ok j0 where st: "statement j = (ok, j0)" by fastforce
  have "snd (add_secret_event je e j) = j0 \<or> (\<exists>r. snd (add_secret_event je e j) =
      j0\<lparr>j_events := j_events j0 @ [r\<lparr>ev_id := j_event_seq j0 + 1\<rparr>], j_event_seq := j_event_seq j0 + 1\<rparr>)"
    using st by (auto simp: add_secret_event_def Let_def intro!: exI[of _ "\<lparr>ev_id = 0, ev_event = e, ev_created = now je j0\<rparr>"])
  then show ?thesis
    using advances_statement[OF st] advances_same[OF advances_statement[OF st] advances_log(3)[of j0, unfolded statement_pending[OF st]]]
    by (elim disjE exE) simp_all
qed

lemma leak_events_advances: "advances j (leak_events_as je author node base evs j) (pending j)"
  unfolding leak_events_as_def by (rule advances_fold) (rule add_secret_event_advances)

lemma fail_as_advances: "advances j (fail_as je r node j) (pending j)"
proof -
  obtain ok j0 where st: "statement j = (ok, j0)" by fastforce
  have "fail_as je r node j = j0 \<or> (\<exists>x. fail_as je r node j =
      j0\<lparr>j_failures := j_failures j0 @ [x\<lparr>fl_id := j_failure_seq j0 + 1\<rparr>], j_failure_seq := j_failure_seq j0 + 1\<rparr>)"
  proof (cases ok)
    case True
    let ?x = "\<lparr>fl_id = 0, fl_author = fx_author r, fl_node = node,
                  fl_intent = map_option (redact_note je) (fx_intent r), fl_root = rr_name (fx_root r),
                  fl_paths = join_with '', '' (fx_paths r), fl_code = code_str (code (fx_error r)),
                  fl_message = redact_note je (je_text je (message (fx_error r))),
                  fl_expected = error_field (fx_error r) ''expected_version'',
                  fl_actual = error_field (fx_error r) ''actual_version'', fl_failed = now je j0\<rparr>"
    from True st show ?thesis by (auto simp: fail_as_def Let_def intro!: exI[of _ ?x])
  next
    case False
    with st show ?thesis by (simp add: fail_as_def Let_def)
  qed
  then show ?thesis
    using advances_statement[OF st] advances_same[OF advances_statement[OF st] advances_log(1)[of j0, unfolded statement_pending[OF st]]]
    by (elim disjE exE) simp_all
qed

lemma add_feedback_advances:
  "add_feedback je author category summary detail ctx j = (r, j') \<Longrightarrow> advances j j' (pending j)"
proof -
  assume a: "add_feedback je author category summary detail ctx j = (r, j')"
  obtain ok j0 where st: "statement j = (ok, j0)" by fastforce
  let ?x = "\<lparr>fbk_id = 0, fbk_author = author, fbk_category = category, fbk_summary = summary,
                fbk_detail = detail, fbk_context = ctx, fbk_created = now je j0\<rparr>"
  have "j' = j0 \<or> (\<exists>x. j' =
      j0\<lparr>j_feedback := j_feedback j0 @ [x\<lparr>fbk_id := j_feedback_seq j0 + 1\<rparr>], j_feedback_seq := j_feedback_seq j0 + 1\<rparr>)"
    using a st by (cases ok) (auto simp: add_feedback_def Let_def intro!: exI[of _ ?x])
  then show ?thesis
    using advances_statement[OF st] advances_same[OF advances_statement[OF st] advances_log(2)[of j0, unfolded statement_pending[OF st]]]
    by (elim disjE exE) simp_all
qed

lemma record_digests_advances: "advances j (record_digests je base path ents j) (pending j)"
  unfolding record_digests_def
proof (rule advances_fold)
  fix x :: "rstr \<times> rstr" and j :: journal
  obtain key d where x: "x = (key, d)" by fastforce
  obtain ok j0 where st: "statement j = (ok, j0)" by fastforce
  have two: "advances j0 (j0\<lparr>j_digests := insert_digest r (j_digests j0)\<rparr>) (pending j)" for r
    using advances_log(4)[of j0] statement_pending[OF st] by simp
  show "advances j ((\<lambda>(key, digest) j. let (ok, j0) = statement j in if \<not> ok then j0
      else j0\<lparr>j_digests := insert_digest \<lparr>dg_digest = digest, dg_root = base, dg_path = path, dg_key = key,
                 dg_seen = now je j0\<rparr> (j_digests j0)\<rparr>) x j) (pending j)"
    using advances_statement[OF st] advances_trans[OF advances_statement[OF st] two]
    by (simp add: x st)
qed

end
