(* ===== verification/Kaed_Audit.thy ===== *)
theory Kaed_Audit
  imports Kaed_Journal_Facts
begin

text \<open>
  The journal over its whole life: each method is a step, time and database faults are steps of the
  environment. What is reachable from an empty store, what the audit trail keeps, and the store as
  the recorder of the edit engine.
\<close>

section \<open>The life of a journal\<close>

inductive jstep :: "journal_env \<Rightarrow> journal \<Rightarrow> journal \<Rightarrow> bool" for je where
  Begin: "begin_as je author node intent base files j = (r, j') \<Longrightarrow> jstep je j j'"
| Complete: "complete je n j = (u, j') \<Longrightarrow> jstep je j j'"
| Fail: "jstep je j (fail_as je x node j)"
| Leaks: "jstep je j (leak_events_as je author node base evs j)"
| Event: "add_secret_event je e j = (r, j') \<Longrightarrow> jstep je j j'"
| Digests: "jstep je j (record_digests je base_name path ents j)"
| Feedback: "add_feedback je author category summary detail ctx j = (r, j') \<Longrightarrow> jstep je j j'"
| Open: "open_journal je j = (u, j') \<Longrightarrow> jstep je j j'"
| Tick: "j_clock j \<le> c \<Longrightarrow> jstep je j (j\<lparr>j_clock := c\<rparr>)"
| Faults: "jstep je j (j\<lparr>j_faults := fs\<rparr>)"

inductive_cases jstepE: "jstep je j j'"

lemma fold_insert_ok:
  "distinct (map place rows) \<Longrightarrow> distinct (map place (fold insert_digest xs rows))"
  "prefix rows (fold insert_digest xs rows)"
  using fold_digests_ok[of rows "\<lambda>x. x" xs] fold_prefix[of insert_digest rows xs, OF insert_digest_prefix] by simp_all

lemma backfill_rows:
  assumes "distinct (map place rows)"
  shows "distinct (map place (fold (\<lambda>(content, base, path, seen) rows.
           if valid_utf8 content then index_rendering base path seen content rows else rows) xs rows))"
  using assms by (induction xs arbitrary: rows) (simp_all add: case_prod_unfold index_rendering_ok)

lemma backfill_prefix:
  "prefix rows (fold (\<lambda>(content, base, path, seen) rows.
     if valid_utf8 content then index_rendering base path seen content rows else rows) xs rows)"
  by (rule fold_prefix) (auto intro: index_rendering_prefix)

lemma backfill_advances: "advances j (backfill_digest_index j) (pending j)"
  unfolding advances_def
proof (intro impI conjI)
  assume ok: "journal_ok j"
  let ?r1 = "fold insert_digest (event_digests se_old_digest j) (j_digests j)"
  let ?r2 = "fold insert_digest (event_digests se_new_digest j) ?r1"
  have px: "prefix (j_digests j) (j_digests (backfill_digest_index j))"
    unfolding backfill_digest_index_def
    using prefix_order.order_trans[OF prefix_order.order_trans[OF fold_insert_ok(2) fold_insert_ok(2)] backfill_prefix]
    by simp
  have "distinct (map place (j_digests (backfill_digest_index j)))"
    unfolding backfill_digest_index_def
    using ok by (simp add: journal_ok_def backfill_rows fold_insert_ok(1))
  moreover have "indexed_in (j_blobs j) (j_digests (backfill_digest_index j))"
    using ok px by (auto simp: journal_ok_def intro: indexed_mono dest: set_mono_prefix)
  ultimately show "journal_ok (backfill_digest_index j)"
    using ok by (simp add: journal_ok_def backfill_digest_index_def)
  show "grows j (backfill_digest_index j)"
    using px by (simp add: grows_def backfill_digest_index_def completed_def later_files_same)
  show "pending (backfill_digest_index j) = pending j"
    by (simp add: pending_def backfill_digest_index_def)
qed

lemma open_journal_advances:
  assumes "open_journal je j = (u, j')"
  shows "advances j j' (pending j)"
proof -
  let ?j = "j\<lparr>j_last_gc := j_clock j\<rparr>"
  obtain r j1 where g: "gc_blobs je ?j = (r, j1)" by fastforce
  have p: "pending ?j = pending j" by (simp add: pending_def)
  have 1: "advances j j1 (pending j)"
    by (rule advances_same[OF advances_environment(3) gc_blobs_advances[OF g, unfolded p]])
  show ?thesis
  proof (cases r)
    case (Inl e)
    with assms g 1 show ?thesis by (simp add: open_journal_def)
  next
    case (Inr n)
    then have j': "j' = backfill_digest_index j1" using assms g by (simp add: open_journal_def)
    have "advances j1 j' (pending j1)" unfolding j' by (rule backfill_advances)
    with 1 show ?thesis using advances_def by (auto intro: grows_trans)
  qed
qed

lemma jstep_advances:
  assumes "jstep je j j'"
  shows "\<exists>P. advances j j' P"
  using assms
proof cases
  case (Begin author node intent base files r)
  show ?thesis
  proof (cases r)
    case (Inl e)
    with Begin begin_as_down show ?thesis by blast
  next
    case (Inr n)
    have "advances j j' (insert n (pending j))"
      using begin_as_advances(1)[OF Begin[unfolded Inr]] by (auto simp: advances_def)
    then show ?thesis ..
  qed
next
  case (Event e r)
  then show ?thesis using add_secret_event_advances[of j je e] by auto
qed (blast intro: complete_advances fail_as_advances leak_events_advances record_digests_advances
      add_feedback_advances open_journal_advances advances_environment)+

lemma jsteps_advance:
  assumes "(jstep je)\<^sup>*\<^sup>* j j'" "journal_ok j"
  shows "journal_ok j' \<and> grows j j'"
  using assms
proof (induction rule: rtranclp_induct)
  case (step j1 j2)
  from jstep_advances[OF step.hyps(2)] step.IH[OF step.prems] show ?case
    by (auto simp: advances_def intro: grows_trans)
qed simp

lemma empty_journal_ok [simp]: "journal_ok (empty_journal days c)"
  by (simp add: empty_journal_def journal_ok_def indexed_in_def)

lemma reachable_ok: "(jstep je)\<^sup>*\<^sup>* (empty_journal days c) j \<Longrightarrow> journal_ok j"
  using jsteps_advance by simp

section \<open>What is kept\<close>

definition expired :: "journal_env \<Rightarrow> journal \<Rightarrow> blob_row \<Rightarrow> bool" where
  "expired je j b \<longleftrightarrow> j_retention_days j * 86400 \<le> j_clock j \<and> bl_created b < cutoff je j"

definition retains :: "journal_env \<Rightarrow> journal \<Rightarrow> journal \<Rightarrow> bool" where
  "retains je j j' \<longleftrightarrow> (\<forall>b\<in>set (j_blobs j). b \<in> set (j_blobs j') \<or> expired je j b)"

lemma retains_same: "j_blobs j' = j_blobs j \<Longrightarrow> retains je j j'"
  by (simp add: retains_def)

lemma statement_cutoff: "statement j = (ok, j0) \<Longrightarrow> cutoff je j0 = cutoff je j \<and> expired je j0 = expired je j"
  by (auto simp: cutoff_def expired_def fun_eq_iff)

lemma gc_blobs_retains: "gc_blobs je j = (r, j') \<Longrightarrow> retains je j j'"
  by (erule gc_blobs_cases) (auto simp: retains_def sweep_def expired_def)

lemma gc_if_due_retains: "retains je j (gc_if_due je j)"
  using gc_blobs_retains[of je j "fst (gc_blobs je j)" "snd (gc_blobs je j)"]
  by (simp add: gc_if_due_def retains_same)

lemma begin_as_retains:
  assumes "begin_as je author node intent base files j = (r, j')" "journal_ok j"
  shows "retains je j j'"
  using assms(1)
proof (cases rule: begin_as_cases)
  case down
  then show ?thesis by (auto intro: retains_same)
next
  case (up j0 row)
  have "stored_ok (j0\<lparr>j_txns := j_txns j0 @ [row], j_txn_seq := j_txn_seq j0 + 1\<rparr>)"
    using assms(2) up(1) by (simp add: journal_ok_def stored_ok_def)
  from begin_files_stored[OF this, of je base "j_txn_seq j0 + 1" files, folded up(8)] up(1) show ?thesis
    by (auto simp: retains_def stored_grows_def)
qed

lemma complete_retains: "complete je n j = (r, j') \<Longrightarrow> retains je j j'"
proof (erule complete_cases)
  fix j0
  let ?j = "j0\<lparr>j_txns := map (stamp (now je j0) n) (j_txns j0)\<rparr>"
  assume st: "statement j = (True, j0)" and j': "j' = gc_if_due je ?j"
  have "expired je ?j = expired je j0" by (simp add: expired_def cutoff_def fun_eq_iff)
  with gc_if_due_retains[of je ?j] st statement_cutoff[OF st] show "retains je j j'"
    unfolding j' by (simp add: retains_def)
qed (auto intro: retains_same)

lemma fold_blobs: "(\<And>x j. j_blobs (f x j) = j_blobs j) \<Longrightarrow> j_blobs (fold f xs j) = j_blobs j"
  by (induction xs arbitrary: j) simp_all

lemma log_blobs:
  "j_blobs (snd (add_secret_event je e j)) = j_blobs j" "j_blobs (fail_as je x node j) = j_blobs j"
  "j_blobs (snd (add_feedback je author category summary detail ctx j)) = j_blobs j"
  by (cases "statement j"; simp add: add_secret_event_def fail_as_def add_feedback_def Let_def)+

lemma record_digests_blobs: "j_blobs (record_digests je base path ents j) = j_blobs j"
  unfolding record_digests_def
  by (rule fold_blobs) (auto simp: Let_def split: prod.split)

lemma jstep_retains: "jstep je j j' \<Longrightarrow> journal_ok j \<Longrightarrow> retains je j j'"
proof (elim jstepE)
  fix u assume o: "open_journal je j = (u, j')"
  let ?j = "j\<lparr>j_last_gc := j_clock j\<rparr>"
  obtain r j1 where g: "gc_blobs je ?j = (r, j1)" by fastforce
  have "j_blobs j' = j_blobs j1"
    using o g by (auto simp: open_journal_def backfill_digest_index_def split: sum.splits)
  moreover have "expired je ?j = expired je j" by (simp add: expired_def cutoff_def fun_eq_iff)
  ultimately show "retains je j j'" using gc_blobs_retains[OF g] by (simp add: retains_def)
next
  fix author node base evs assume "j' = leak_events_as je author node base evs j"
  then show "retains je j j'"
    unfolding leak_events_as_def by (auto intro!: retains_same fold_blobs simp: log_blobs)
next
  fix e r assume "add_secret_event je e j = (r, j')"
  then show "retains je j j'" using log_blobs(1)[of je e j] by (auto intro: retains_same)
next
  fix author category summary detail ctx r assume "add_feedback je author category summary detail ctx j = (r, j')"
  then show "retains je j j'" using log_blobs(3)[of je author category summary detail ctx j] by (auto intro: retains_same)
qed (auto intro: begin_as_retains complete_retains retains_same simp: log_blobs record_digests_blobs)

section \<open>Looking up\<close>

lemma find_unique:
  assumes "distinct (map f xs)" "x \<in> set xs"
  shows "find (\<lambda>y. f y = f x) xs = Some x"
  using assms by (induction xs) auto

lemma txn_Some: "journal_ok j \<Longrightarrow> txn j n = Some (t, fs) \<longleftrightarrow> t \<in> set (j_txns j) \<and> tx_id t = n \<and> fs = files_of j n"
proof -
  assume ok: "journal_ok j"
  then have d: "distinct (map tx_id (j_txns j))" by (auto simp: journal_ok_def dest: ids_distinct)
  show ?thesis
    using find_unique[OF d, of t] by (auto simp: txn_def dest: find_SomeD)
qed

lemma grows_txn:
  assumes "grows j j'" "journal_ok j" "journal_ok j'" "txn j n = Some (t, fs)"
  shows "\<exists>t'. txn j' n = Some (t', fs) \<and> open_row t' = open_row t \<and> (tx_completed t \<noteq> None \<longrightarrow> tx_completed t' \<noteq> None)"
proof -
  from assms(2,4) have t: "t \<in> set (j_txns j)" "tx_id t = n" "fs = files_of j n" by (simp_all add: txn_Some)
  have idr: "tx_id (open_row x) = tx_id x" for x by (simp add: open_row_def)
  have "open_row t \<in> open_row ` set (j_txns j')"
    using set_mono_prefix[of "map open_row (j_txns j)" "map open_row (j_txns j')"] assms(1) t(1)
    by (auto simp: grows_def)
  then obtain t' where t': "t' \<in> set (j_txns j')" "open_row t' = open_row t" by auto
  have n': "tx_id t' = n" using t'(2) t(2) idr by metis
  obtain more where more: "j_files j' = j_files j @ more" "\<forall>x\<in>set more. j_txn_seq j < tf_txn x"
    using assms(1) by (auto simp: grows_def later_files_def)
  have "n \<le> j_txn_seq j" using assms(2) t by (auto simp: journal_ok_def ids_ok_def)
  then have "\<forall>x\<in>set more. tf_txn x \<noteq> n" using more(2) by fastforce
  then have "files_of j' n = files_of j n" using more(1) by (simp add: files_of_def)
  moreover have "tx_completed t' \<noteq> None" if "tx_completed t \<noteq> None"
  proof -
    have "n \<in> completed j'" using that t assms(1) by (auto simp: grows_def completed_def)
    then obtain s where s: "s \<in> set (j_txns j')" "tx_id s = n" "tx_completed s \<noteq> None" by (auto simp: completed_def)
    have "distinct (map tx_id (j_txns j'))" using assms(3) by (auto simp: journal_ok_def dest: ids_distinct)
    from find_unique[OF this s(1)] find_unique[OF this t'(1)] s n' show ?thesis by simp
  qed
  ultimately show ?thesis using t' n' t assms(3) by (auto simp: txn_Some)
qed

lemma scan_ids: "map pt_id (scan_pending j) = map tx_id (sort_key tx_id (filter (\<lambda>t. tx_completed t = None) (j_txns j)))"
  by (simp add: scan_pending_def comp_def)

lemma fail_as_txns: "j_txns (fail_as je x node j) = j_txns j"
  by (cases "statement j"; simp add: fail_as_def Let_def)

lemma scan_pending_ids:
  assumes "journal_ok j"
  shows "set (map pt_id (scan_pending j)) = pending j" "sorted_wrt (<) (map pt_id (scan_pending j))"
proof -
  let ?p = "filter (\<lambda>t. tx_completed t = None) (j_txns j)"
  have "sorted_wrt (<) (map tx_id ?p)"
    using assms by (simp add: journal_ok_def ids_ok_def sorted_wrt_map sorted_wrt_filter)
  then have s: "sort_key tx_id ?p = ?p"
    by (intro sort_key_id_if_sorted) (auto simp: strict_sorted_iff)
  have m: "map pt_id (scan_pending j) = map tx_id ?p"
    unfolding scan_ids s ..
  show "set (map pt_id (scan_pending j)) = pending j" unfolding m by (auto simp: pending_def)
  show "sorted_wrt (<) (map pt_id (scan_pending j))"
    unfolding m using assms by (simp add: journal_ok_def ids_ok_def sorted_wrt_map sorted_wrt_filter)
qed

lemma lexorder_fst: "(a, b) \<le> (c, d) \<Longrightarrow> a \<le> c" for a c :: "'a :: linorder" and b d :: "'b :: linorder"
  by (auto simp: less_eq_prod_def)

lemma earliest_Some:
  assumes "rows \<noteq> []"
  shows "\<exists>r\<in>set rows. earliest rows = Some \<lparr>dl_root = dg_root r, dl_path = dg_path r, dl_key = dg_key r\<rparr>
    \<and> (\<forall>s\<in>set rows. dg_seen r \<le> dg_seen s)"
proof -
  let ?k = "\<lambda>r. (dg_seen r, dg_root r, dg_path r, dg_key r)"
  obtain r rs where rs: "sort_key ?k rows = r # rs"
  proof -
    have "set (sort_key ?k rows) \<noteq> {}" using assms by (simp only: set_sort set_empty) simp
    then show ?thesis using that by (cases "sort_key ?k rows") simp_all
  qed
  have sr: "set rows = set (r # rs)" using set_sort[of ?k rows] unfolding rs by simp
  have "sorted (map ?k (r # rs))" unfolding rs[symmetric] by (rule sorted_sort_key)
  then have "\<forall>s\<in>set (r # rs). ?k r \<le> ?k s" by simp
  then have "\<forall>s\<in>set rows. dg_seen r \<le> dg_seen s" unfolding sr by (blast dest: lexorder_fst)
  moreover have "r \<in> set rows" using sr by simp
  ultimately show ?thesis using rs by (auto simp: earliest_def)
qed

section \<open>The recorder of the edit engine\<close>

interpretation jr: txn_recorder "as_node je node" journal_ok pending for je node
proof unfold_locales
  fix j author intent base files n j'
  assume v: "journal_ok j" and b: "rec_begin (as_node je node) author intent base files j = (Inr n, j')"
  from b have b: "begin_as je author node intent base files j = (Inr n, j')" by (simp add: as_node_def)
  show "n \<notin> pending j \<and> pending j' = insert n (pending j)"
    using advancesD(3)[OF begin_as_advances(1)[OF b v] v] begin_as_advances(2)[OF b v] by simp
next
  fix j author intent base files e j'
  assume v: "journal_ok j" and b: "rec_begin (as_node je node) author intent base files j = (Inl e, j')"
  then show "pending j' = pending j"
    using begin_as_down[of je author node intent base files j e j'] by (auto simp: as_node_def dest: advancesD)
next
  fix j n u j'
  assume v: "journal_ok j" and c: "rec_complete (as_node je node) n j = (Inr u, j')"
  from complete_advances[of je n j "Inr u" j'] c advancesD(3)[OF _ v]
  show "pending j' = pending j - {n}" by (fastforce simp: as_node_def)
next
  fix j n e j'
  assume v: "journal_ok j" and c: "rec_complete (as_node je node) n j = (Inl e, j')"
  from complete_advances[of je n j "Inl e" j'] c advancesD(3)[OF _ v]
  show "pending j' = pending j" by (fastforce simp: as_node_def)
next
  fix j r assume "journal_ok j"
  then show "pending (rec_fail (as_node je node) r j) = pending j" "journal_ok (rec_fail (as_node je node) r j)"
    using fail_as_advances[of j je r node] by (auto simp: as_node_def advances_def)
next
  fix j author base evs assume "journal_ok j"
  then show "pending (rec_leak_events (as_node je node) author base evs j) = pending j"
    "journal_ok (rec_leak_events (as_node je node) author base evs j)"
    using leak_events_advances[of j je author node base evs] by (auto simp: as_node_def advances_def)
next
  fix j author intent base files r j'
  assume v: "journal_ok j" and b: "rec_begin (as_node je node) author intent base files j = (r, j')"
  show "journal_ok j'"
  proof (cases r)
    case (Inl e)
    with b v begin_as_down[of je author node intent base files j e j'] show ?thesis
      by (auto simp: as_node_def dest: advancesD)
  next
    case (Inr n)
    with b have "begin_as je author node intent base files j = (Inr n, j')" by (simp add: as_node_def)
    from advancesD(1)[OF begin_as_advances(1)[OF this v] v] show ?thesis .
  qed
next
  fix j n r j'
  assume v: "journal_ok j" and c: "rec_complete (as_node je node) n j = (r, j')"
  from complete_advances[of je n j r j'] c advancesD(1)[OF _ v] show "journal_ok j'" by (fastforce simp: as_node_def)
qed

section \<open>Properties\<close>

definition demo_je :: journal_env where
  "demo_je = \<lparr>je_h = zero_hash, je_rfc3339 = (\<lambda>_. ''t''), je_text = (\<lambda>_. []), je_git_head = (\<lambda>_ _. None)\<rparr>"

text \<open>A store whose third statement, the completion, fails.\<close>

definition demo_journal :: journal where
  "demo_journal = (empty_journal 30 0)\<lparr>j_faults := [False, True]\<rparr>"

lemma demo_journal_reachable: "(jstep demo_je)\<^sup>*\<^sup>* (empty_journal 30 0) demo_journal"
  unfolding demo_journal_def by (intro r_into_rtranclp jstep.Faults)

text \<open>C6: The audit trail over the whole life of a store. In every journal that any sequence of calls,
  clock readings and database faults reaches from an empty store, the rows of each table have
  pairwise different positive ids in the order they were given out, every file row belongs to a
  transaction row, versions and digest places are unique, and every digest of a retained redacted
  rendering is in the digest index; and whatever step comes next, no row of the audit trail is lost:
  a transaction that could be looked up still can, with the same file rows, and once completed stays
  completed, failures, feedback, events and digests stay, and a stored content only goes away when
  the retention time has passed since it was created.\<close>
theorem audit_trail:
  assumes "(jstep je)\<^sup>*\<^sup>* (empty_journal days c) j" "jstep je j j'"
  shows "journal_ok j' \<and> grows j j'
    \<and> (\<forall>n t fs. txn j n = Some (t, fs) \<longrightarrow>
          (\<exists>t'. txn j' n = Some (t', fs) \<and> t'\<lparr>tx_completed := None\<rparr> = t\<lparr>tx_completed := None\<rparr>
             \<and> (tx_completed t \<noteq> None \<longrightarrow> tx_completed t' \<noteq> None)))
    \<and> (\<forall>b\<in>set (j_blobs j). b \<in> set (j_blobs j') \<or>
          j_retention_days j * 86400 \<le> j_clock j
          \<and> bl_created b < je_rfc3339 je (j_clock j - j_retention_days j * 86400))"
proof -
  have ok: "journal_ok j" by (rule reachable_ok[OF assms(1)])
  with jsteps_advance[OF r_into_rtranclp[of "jstep je", OF assms(2)]] have ok': "journal_ok j'" "grows j j'" by auto
  have "retains je j j'" by (rule jstep_retains[OF assms(2) ok])
  with ok' grows_txn[OF ok'(2) ok ok'(1)] show ?thesis
    unfolding open_row_def retains_def expired_def cutoff_def by blast
qed

lemma audit_trail_witness:
  "\<exists>j'. jstep demo_je demo_journal j' \<and> grows demo_journal j' \<and> journal_ok j' \<and> length (j_events j') = 1"
proof -
  let ?e = "\<lparr>se_author = ''me'', se_node = ''n'', se_action = ''reveal'', se_root = ''r'', se_path = ''.env'', se_key = ''K'',
      se_old_digest = None, se_new_digest = Some ''d'', se_disclosed = True, se_destination = None, se_txn_id = None,
      se_intent = None\<rparr>"
  have s: "jstep demo_je demo_journal (snd (add_secret_event demo_je ?e demo_journal))"
    by (rule jstep.Event[OF prod.collapse[symmetric]])
  have "length (j_events (snd (add_secret_event demo_je ?e demo_journal))) = 1"
    by (simp add: add_secret_event_def demo_journal_def empty_journal_def statement_def)
  with s audit_trail[OF demo_journal_reachable s] show ?thesis by blast
qed

text \<open>C2: An edit never fails halfway without a trace. Take the edit engine with the journal as its
  recorder, in any state the journal can be in, with database faults at any statement and IO faults
  at any call. A failed edit either left every file that existed exactly as it was and opened no
  transaction, or it is one new pending transaction, and then the start-up scan reports it; a
  successful edit leaves the set of pending transactions as it was; the tables stay consistent. The
  start-up scan lists the pending transactions, each once, in the order of their ids.\<close>
theorem edit_failure_traced:
  assumes "apply_txn ck (as_node je node) base req lm author w = (r, w')" "journal_ok (w_journal w)"
  shows "journal_ok (w_journal w')
    \<and> (\<forall>out. r = Inr out \<longrightarrow> set (map pt_id (scan_pending (w_journal w'))) = set (map pt_id (scan_pending (w_journal w))))
    \<and> (\<forall>e. r = Inl e \<longrightarrow>
          (\<forall>p nd. fs_nodes (w_fs w) p = Some nd \<longrightarrow> fs_nodes (w_fs w') p = Some nd)
          \<and> set (map pt_id (scan_pending (w_journal w'))) = set (map pt_id (scan_pending (w_journal w)))
        \<or> (\<exists>n. n \<notin> set (map pt_id (scan_pending (w_journal w)))
              \<and> set (map pt_id (scan_pending (w_journal w'))) = insert n (set (map pt_id (scan_pending (w_journal w))))))
    \<and> sorted_wrt (<) (map pt_id (scan_pending (w_journal w')))"
proof -
  have ok: "journal_ok (w_journal w')" by (rule jr.apply_valid[OF assms])
  note ids = scan_pending_ids(1)[OF assms(2)] scan_pending_ids(1)[OF ok]
  show ?thesis
    unfolding ids
  proof (intro conjI allI impI)
    fix out assume "r = Inr out"
    with assms jr.apply_Inr show "pending (w_journal w') = pending (w_journal w)" by blast
  next
    fix e assume "r = Inl e"
    with assms jr.apply_Inl[of ck je node base req lm author w e w']
    show "(\<forall>p nd. fs_nodes (w_fs w) p = Some nd \<longrightarrow> fs_nodes (w_fs w') p = Some nd)
          \<and> pending (w_journal w') = pending (w_journal w)
        \<or> (\<exists>n. n \<notin> pending (w_journal w) \<and> pending (w_journal w') = insert n (pending (w_journal w)))"
      unfolding jr.undone_def jr.torn_def extends_def by blast
  qed (use ok scan_pending_ids(2)[OF ok] in simp_all)
qed

lemma demo_torn:
  "\<exists>w'. apply_txn demo_ck (as_node demo_je ''h'') demo_root (demo_req False) default_limits ''me'' (demo_with demo_journal)
     = (Inl db_err, w') \<and> map pt_id (scan_pending (w_journal w')) = [1]
     \<and> fs_nodes (w_fs w') [''r'', ''n''] = Some (FileN ''x'' 420)"
proof -
  let ?rc = "as_node demo_je ''h''"
  obtain r j1 where b: "rec_begin ?rc ''me'' None demo_root [record_of demo_ck (''n'', demo_buf)] demo_journal = (r, j1)"
    by fastforce
  have b2: "begin_as demo_je ''me'' ''h'' None demo_root [record_of demo_ck (''n'', demo_buf)] demo_journal = (r, j1)"
    using b by (simp add: as_node_def)
  have st: "statement demo_journal = (True, demo_journal\<lparr>j_faults := [True]\<rparr>)"
    by (simp add: demo_journal_def statement_def)
  have r: "r = Inr 1" and f: "j_faults j1 = [True]" and t: "map tx_id (filter (\<lambda>t. tx_completed t = None) (j_txns j1)) = [1]"
    using b2 unfolding begin_as_def st by (auto simp: demo_journal_def empty_journal_def begin_file_def Let_def split: option.splits)
  have c: "rec_complete ?rc 1 j1 = (Inl db_err, j1\<lparr>j_faults := []\<rparr>)"
    by (simp add: as_node_def complete_def statement_def f)
  have intent: "er_intent (demo_req False) = None" by (simp add: demo_req_def)
  from demo_commit[OF b[unfolded r, folded intent] c demo_plan_fields] obtain w1 where
    w1: "commit demo_ck ?rc demo_root ''me'' (demo_req False) demo_plan (demo_with demo_journal) = (Inl db_err, w1)"
      "fs_nodes (w_fs w1) [''r'', ''n''] = Some (FileN ''x'' 420)" "w_journal w1 = j1\<lparr>j_faults := []\<rparr>" by auto
  have d: "er_dry_run (demo_req False) = False" by (simp add: demo_req_def)
  have one: "map tx_id (sort_key tx_id xs) = [1]" if "map tx_id xs = [1]" for xs
    using that by (cases xs) auto
  have scan: "map pt_id (scan_pending (fail_as demo_je x ''h'' (j1\<lparr>j_faults := []\<rparr>))) = [1]" for x
    unfolding scan_ids fail_as_txns using one[OF t] by simp
  let ?x = "\<lparr>fx_author = ''me'', fx_intent = er_intent (demo_req False), fx_root = demo_root,
      fx_paths = map op_path (er_ops (demo_req False)), fx_error = db_err\<rparr>"
  have "apply_txn demo_ck ?rc demo_root (demo_req False) default_limits ''me'' (demo_with demo_journal)
     = (Inl db_err, w1\<lparr>w_journal := fail_as demo_je ?x ''h'' (w_journal w1)\<rparr>)"
    unfolding apply_txn_def apply_inner_def bind_step_def demo_prepare prod.case sum.case d if_False w1(1)
    by (simp add: as_node_def)
  then show ?thesis using scan[of ?x] w1(2,3) by auto
qed

lemma edit_failure_traced_witness:
  "\<exists>w'. apply_txn demo_ck (as_node demo_je ''h'') demo_root (demo_req False) default_limits ''me'' (demo_with demo_journal)
     = (Inl db_err, w') \<and> journal_ok (w_journal w') \<and> map pt_id (scan_pending (w_journal w')) = [1]"
proof -
  obtain w' where w': "apply_txn demo_ck (as_node demo_je ''h'') demo_root (demo_req False) default_limits ''me''
      (demo_with demo_journal) = (Inl db_err, w')" "map pt_id (scan_pending (w_journal w')) = [1]"
    using demo_torn by (elim exE conjE)
  have "journal_ok (w_journal (demo_with demo_journal))"
    using reachable_ok[OF demo_journal_reachable] by (simp add: demo_with_def)
  from edit_failure_traced[OF w'(1) this, THEN conjunct1] w' show ?thesis by (intro exI conjI)
qed

text \<open>C16: The digest index knows every secret that a redacted rendering ever showed. In every journal
  that can be reached, for each stored redacted rendering and each placeholder digest in it, the
  index answers with a location; and any location it answers with is one that was recorded for that
  digest, at the earliest time any was.\<close>
theorem known_digests_complete:
  assumes "(jstep je)\<^sup>*\<^sup>* (empty_journal days c) j"
  shows "(\<forall>b key d. b \<in> set (j_blobs j) \<and> bl_redacted b \<and> (key, d) \<in> set (extract_placeholder_digests (bl_content b)) \<longrightarrow>
            (\<exists>loc. known_digests j [d] = [Some loc]))
    \<and> (\<forall>d loc. known_digests j [d] = [Some loc] \<longrightarrow>
         (\<exists>r\<in>set (j_digests j). dg_digest r = d \<and> loc = \<lparr>dl_root = dg_root r, dl_path = dg_path r, dl_key = dg_key r\<rparr>
            \<and> (\<forall>s\<in>set (j_digests j). dg_digest s = d \<longrightarrow> dg_seen r \<le> dg_seen s)))"
proof (intro conjI allI impI; (elim conjE)?)
  fix b key d
  assume b: "b \<in> set (j_blobs j)" "bl_redacted b" "(key, d) \<in> set (extract_placeholder_digests (bl_content b))"
  then obtain r where "r \<in> set (j_digests j)" "dg_digest r = d"
    using reachable_ok[OF assms] by (fastforce simp: journal_ok_def indexed_in_def)
  then have "filter (\<lambda>r. dg_digest r = d) (j_digests j) \<noteq> []" by (auto simp: filter_empty_conv)
  from earliest_Some[OF this] show "\<exists>loc. known_digests j [d] = [Some loc]" by (auto simp: known_digests_def)
next
  fix d loc
  assume k: "known_digests j [d] = [Some loc]"
  then have "filter (\<lambda>r. dg_digest r = d) (j_digests j) \<noteq> []" by (auto simp: known_digests_def earliest_def)
  from earliest_Some[OF this] k
  show "\<exists>r\<in>set (j_digests j). dg_digest r = d \<and> loc = \<lparr>dl_root = dg_root r, dl_path = dg_path r, dl_key = dg_key r\<rparr>
            \<and> (\<forall>s\<in>set (j_digests j). dg_digest s = d \<longrightarrow> dg_seen r \<le> dg_seen s)"
    by (auto simp: known_digests_def)
qed

definition demo_rendering :: rstr where
  "demo_rendering = ''K='' @ PLACEHOLDER_OPEN @ ''K@'' @ replicate DIGEST_LEN (CHR ''0'') @ PLACEHOLDER_CLOSE"

definition demo_record :: file_txn_record where
  "demo_record =
     \<lparr>ft_path = ''.env'', ft_old_version = None, ft_new_version = ''v'', ft_lines_added = 1, ft_lines_removed = 0,
      ft_blob_old = None, ft_blob_new = Some demo_rendering, ft_redacted = True\<rparr>"

lemma known_digests_complete_witness:
  "\<exists>j loc. (jstep demo_je)\<^sup>*\<^sup>* (empty_journal 30 0) j \<and> known_digests j [replicate DIGEST_LEN (CHR ''0'')] = [Some loc]"
proof -
  let ?d = "replicate DIGEST_LEN (CHR ''0'')"
  let ?j = "snd (begin_as demo_je ''me'' ''n'' None demo_root [demo_record] (empty_journal 30 0))"
  have r: "(jstep demo_je)\<^sup>*\<^sup>* (empty_journal 30 0) ?j"
    by (intro r_into_rtranclp jstep.Begin[OF prod.collapse[symmetric]])
  have b: "j_blobs ?j = [\<lparr>bl_version = ''v'', bl_content = demo_rendering, bl_created = ''t'', bl_redacted = True\<rparr>]"
    by (simp add: begin_as_def begin_file_def insert_blob_def demo_record_def demo_je_def now_def empty_journal_def
        statement_def)
  have e: "extract_placeholder_digests demo_rendering = [(''K'', ?d)]" by code_simp
  have "\<exists>loc. known_digests ?j [?d] = [Some loc]"
    using known_digests_complete[OF r, THEN conjunct1, rule_format,
        of "\<lparr>bl_version = ''v'', bl_content = demo_rendering, bl_created = ''t'', bl_redacted = True\<rparr>" "''K''" ?d] b e
    by simp
  with r show ?thesis by blast
qed

end
