(* ===== verification/Kaed_History.thy ===== *)
theory Kaed_History
  imports Kaed_Audit Kaed_Shapes
begin

text \<open>
  \<open>src/history.rs\<close>: what an agent sees of the journal. The merged query with its coverage note,
  the two sides of a diff, and revert as a new transaction of the edit engine.
\<close>

section \<open>Entries\<close>

definition MAX_ENTRIES_CEILING :: nat where "MAX_ENTRIES_CEILING = 200"

definition DEFAULT_MAX_ENTRIES :: nat where "DEFAULT_MAX_ENTRIES = 20"

datatype record_kind = KTxn | KFailure | KFeedback | KSecret

record history_note =
  hi_reason :: rstr
  hi_note :: msg

definition historical :: "rstr \<Rightarrow> rroot list \<Rightarrow> rstr \<Rightarrow> history_note option" where
  "historical base_name live host =
     (if \<exists>r\<in>set live. rr_name r = base_name then None
      else if CHR '':'' \<in> set base_name
      then Some \<lparr>hi_reason = ''root_no_longer_served'', hi_note = Msg ''no longer serves'' [base_name, host]\<rparr>
      else Some \<lparr>hi_reason = ''unqualified_pre_007'', hi_note = Msg ''predates sprint 007'' [base_name, host]\<rparr>)"

record txn_file_entry =
  tfe_path :: rstr
  tfe_old_version :: "rstr option"
  tfe_new_version :: rstr
  tfe_lines_added :: int
  tfe_lines_removed :: int

record txn_item =
  te_txn_id :: int
  te_author :: rstr
  te_node :: rstr
  te_time :: rstr
  te_status :: rstr
  te_root :: rstr
  te_historical :: "history_note option"
  te_intent :: "rstr option"
  te_files :: "txn_file_entry list"
  te_diffstat :: "int \<times> int"
  te_git_head :: "rstr option"

record failure_item =
  fe_failure_id :: int
  fe_author :: rstr
  fe_node :: rstr
  fe_time :: rstr
  fe_root :: rstr
  fe_historical :: "history_note option"
  fe_intent :: "rstr option"
  fe_paths :: "rstr list"
  fe_code :: rstr
  fe_message :: rstr
  fe_expected :: "rstr option"
  fe_actual :: "rstr option"

record feedback_item =
  be_feedback_id :: int
  be_author :: rstr
  be_time :: rstr
  be_category :: rstr
  be_summary :: rstr
  be_detail :: "rstr option"
  be_context :: "rstr option"

record secret_item =
  xe_event_id :: int
  xe_event :: secret_event
  xe_time :: rstr
  xe_historical :: "history_note option"

datatype hentry = TxnE txn_item | FailureE failure_item | FeedbackE feedback_item | SecretE secret_item

fun entry_time :: "hentry \<Rightarrow> rstr" where
  "entry_time (TxnE e) = te_time e"
| "entry_time (FailureE e) = fe_time e"
| "entry_time (FeedbackE e) = be_time e"
| "entry_time (SecretE e) = xe_time e"

definition txn_entry :: "journal_env \<Rightarrow> rroot list \<Rightarrow> rstr \<Rightarrow> txn_row \<times> txn_file_row list \<Rightarrow> hentry" where
  "txn_entry je live host tf =
     (let (t, files) = tf in
      TxnE \<lparr>te_txn_id = tx_id t, te_author = tx_author t, te_node = tx_node t, te_time = tx_started t,
            te_status = (if tx_completed t \<noteq> None then ''applied'' else ''torn''), te_root = tx_root t,
            te_historical = historical (tx_root t) live host,
            te_intent = map_option (redact_note je) (tx_intent t),
            te_files = map (\<lambda>f. \<lparr>tfe_path = tf_path f, tfe_old_version = tf_old f, tfe_new_version = tf_new f,
                                  tfe_lines_added = tf_added f, tfe_lines_removed = tf_removed f\<rparr>) files,
            te_diffstat = fold (\<lambda>f (a, r). (a + tf_added f, r + tf_removed f)) files (0, 0),
            te_git_head = tx_git_head t\<rparr>)"

definition failure_entry :: "journal_env \<Rightarrow> rroot list \<Rightarrow> rstr \<Rightarrow> failure_row \<Rightarrow> hentry" where
  "failure_entry je live host f =
     FailureE \<lparr>fe_failure_id = fl_id f, fe_author = fl_author f, fe_node = fl_node f, fe_time = fl_failed f,
               fe_root = fl_root f, fe_historical = historical (fl_root f) live host,
               fe_intent = map_option (redact_note je) (fl_intent f), fe_paths = split_str '', '' (fl_paths f),
               fe_code = fl_code f, fe_message = redact_note je (fl_message f),
               fe_expected = fl_expected f, fe_actual = fl_actual f\<rparr>"

definition feedback_entry :: "journal_env \<Rightarrow> feedback_row \<Rightarrow> hentry" where
  "feedback_entry je f =
     FeedbackE \<lparr>be_feedback_id = fbk_id f, be_author = fbk_author f, be_time = fbk_created f,
                be_category = fbk_category f, be_summary = redact_note je (fbk_summary f),
                be_detail = map_option (redact_note je) (fbk_detail f),
                be_context = map_option (redact_note je) (fbk_context f)\<rparr>"

definition secret_entry :: "journal_env \<Rightarrow> rroot list \<Rightarrow> rstr \<Rightarrow> event_row \<Rightarrow> hentry" where
  "secret_entry je live host r =
     SecretE \<lparr>xe_event_id = ev_id r,
              xe_event = (ev_event r)\<lparr>se_intent := map_option (redact_note je) (se_intent (ev_event r))\<rparr>,
              xe_time = ev_created r, xe_historical = historical (se_root (ev_event r)) live host\<rparr>"

section \<open>The query\<close>

record coverage_report =
  ci_coverage :: coverage
  ci_retention_days :: nat
  ci_notes :: "msg list"

record journal_query =
  jq_root :: "rstr option"
  jq_path :: "rstr option"
  jq_author :: "rstr option"
  jq_since :: "rstr option"
  jq_kinds :: "record_kind list"
  jq_max :: nat

record journal_result =
  jr_entries :: "hentry list"
  jr_truncated :: bool
  jr_scanned :: nat
  jr_coverage :: coverage_report
  jr_reason :: "rstr option"

definition window_predates_failures :: "coverage \<Rightarrow> rstr option \<Rightarrow> bool" where
  "window_predates_failures cv since =
     (case (cv_failures cv, since) of
        (Some first, Some s) \<Rightarrow> s < first
      | (Some first, None) \<Rightarrow> (case cv_txns cv of Some t \<Rightarrow> t < first | None \<Rightarrow> False)
      | (None, _) \<Rightarrow> cv_txns cv \<noteq> None)"

definition coverage_info :: "journal \<Rightarrow> rstr option \<Rightarrow> coverage_report" where
  "coverage_info j since =
     (let cv = coverage_of j in
      \<lparr>ci_coverage = cv, ci_retention_days = j_retention_days j,
       ci_notes = Msg ''reads are not journaled'' [] #
         (if window_predates_failures cv since
          then [case cv_failures cv of
                  Some first \<Rightarrow> Msg ''failed attempts were only recorded from'' [first]
                | None \<Rightarrow> Msg ''no failed attempt has ever been recorded'' []]
          else [])\<rparr>)"

definition empty_reason :: "journal_query \<Rightarrow> rroot list \<Rightarrow> rstr option" where
  "empty_reason q live =
     (case jq_root q of
        Some base_name \<Rightarrow>
          if \<not> (\<exists>r\<in>set live. rr_name r = base_name) then Some ''unknown_root_filter'' else Some ''no_matching_records''
      | None \<Rightarrow> Some ''no_matching_records'')"

definition query_max :: "journal_query \<Rightarrow> nat" where
  "query_max q = max 1 (min (jq_max q) MAX_ENTRIES_CEILING)"

definition query_kinds :: "journal_query \<Rightarrow> record_kind list" where
  "query_kinds q = (if jq_kinds q = [] then [KTxn, KFailure, KFeedback, KSecret] else jq_kinds q)"

definition query_filter :: "journal_query \<Rightarrow> history_filter" where
  "query_filter q =
     \<lparr>hf_root = jq_root q, hf_path = jq_path q, hf_author = jq_author q, hf_since = jq_since q,
      hf_limit = query_max q + 1\<rparr>"

definition gathered :: "journal_env \<Rightarrow> journal \<Rightarrow> rroot list \<Rightarrow> rstr \<Rightarrow> journal_query \<Rightarrow> hentry list" where
  "gathered je j live host q =
     (let f = query_filter q; kinds = set (query_kinds q) in
      (if KTxn \<in> kinds then map (txn_entry je live host) (txns j f) else [])
      @ (if KFailure \<in> kinds then map (failure_entry je live host) (failures j f) else [])
      @ (if KFeedback \<in> kinds \<and> jq_path q = None \<and> jq_root q = None
         then map (feedback_entry je) (feedback_rows j f) else [])
      @ (if KSecret \<in> kinds then map (secret_entry je live host) (secret_events j f) else []))"

text \<open>A stable sort by descending time.\<close>

definition by_time :: "hentry list \<Rightarrow> hentry list" where
  "by_time es = rev (sort_key entry_time (rev es))"

definition journal_query_result ::
  "journal_env \<Rightarrow> journal \<Rightarrow> rroot list \<Rightarrow> rstr \<Rightarrow> journal_query \<Rightarrow> journal_result" where
  "journal_query_result je j live host q =
     (let found = gathered je j live host q;
          shown = take (query_max q) (by_time found)
      in \<lparr>jr_entries = shown, jr_truncated = (query_max q < length found), jr_scanned = length found,
          jr_coverage = coverage_info j (jq_since q),
          jr_reason = (if shown = [] then empty_reason q live else None)\<rparr>)"

section \<open>Diff\<close>

datatype side = SVersion rstr | STxn int | SCurrent

text \<open>\<open>parse::<i64>\<close>.\<close>

definition parse_i64 :: "rstr \<Rightarrow> int option" where
  "parse_i64 s =
     (let (neg, ds) = (case s of
                         c # rest \<Rightarrow> if c = CHR ''-'' then (True, rest)
                                      else if c = CHR ''+'' then (False, rest) else (False, s)
                       | [] \<Rightarrow> (False, []))
      in if ds = [] \<or> \<not> list_all ascii_digit ds then None
         else let v = (if neg then - int (dec_value ds) else int (dec_value ds))
              in if - (2 ^ 63) \<le> v \<and> v < 2 ^ 63 then Some v else None)"

definition parse_side :: "rstr \<Rightarrow> side res" where
  "parse_side s =
     (if s = ''current'' then Inr SCurrent
      else if length s = 16 \<and> list_all ascii_hexdigit s then Inr (SVersion s)
      else (case parse_i64 s of
              Some n \<Rightarrow> Inr (STxn n)
            | None \<Rightarrow> Inl (invalid_input (Msg ''not a version, a txn id or current'' [s]))))"

record material =
  mt_text :: rstr
  mt_version :: rstr
  mt_redacted :: bool
  mt_source :: rstr

definition withheld :: rstr where
  "withheld = ''(content withheld: classified, and this journalled version is not dotenv-shaped, '' @
     ''so kaed has no redacted rendering for it)'' @ [nl]"

definition txn_version_for :: "journal \<Rightarrow> int \<Rightarrow> rstr \<Rightarrow> rstr res" where
  "txn_version_for j n rel =
     (case txn j n of
        None \<Rightarrow> Inl (not_found (Msg ''no such transaction'' []))
      | Some (_, files) \<Rightarrow>
          (case find (\<lambda>f. tf_path f = rel) files of
             Some f \<Rightarrow> Inr (tf_new f)
           | None \<Rightarrow> Inl (not_found (Msg ''the transaction did not touch'' (rel # map tf_path files)))))"

definition materialise_blob :: "hasher \<Rightarrow> rstr \<Rightarrow> bool \<Rightarrow> rstr \<Rightarrow> journal \<Rightarrow> material res" where
  "materialise_blob h rel classified version j =
     (case blob j version of
        None \<Rightarrow> Inl (with_data
                  (JObj [(''reason'', JStr ''blob_expired_or_absent''), (''path'', JStr rel), (''version'', JStr version),
                         (''blob_retention_days'', JNum (int (j_retention_days j)))])
                  (not_found (Msg ''no retained content for version'' [version, rel])))
      | Some (content, was_redacted) \<Rightarrow>
          if has_ignore_marker content
          then Inl (refused rel ''in-file `kaedignore` marker'' InFileMarker ''journalled content carries a marker'')
          else if classified \<and> \<not> was_redacted
          then Inr \<lparr>mt_text = (case Kaed_Dotenv.parse content of Some f \<Rightarrow> redact h f | None \<Rightarrow> withheld),
                    mt_version = version, mt_redacted = True, mt_source = ''journal_blob''\<rparr>
          else Inr \<lparr>mt_text = content, mt_version = version, mt_redacted = was_redacted, mt_source = ''journal_blob''\<rparr>)"

definition materialise ::
  "crates \<Rightarrow> fsys \<Rightarrow> rroot \<Rightarrow> rstr \<Rightarrow> bool \<Rightarrow> side \<Rightarrow> journal \<Rightarrow> limits \<Rightarrow> material res" where
  "materialise ck fs base rel classified sd j lm =
     (case sd of
        SCurrent \<Rightarrow>
          and_then (load_text ck fs base rel lm) (\<lambda>l.
            Inr \<lparr>mt_text = (case ld_secrecy l of Plain \<Rightarrow> ld_content l | ClassifiedDotenv _ f \<Rightarrow> redact (cr_h ck) f),
                 mt_version = ld_version l, mt_redacted = (ld_secrecy l \<noteq> Plain), mt_source = ''working_tree''\<rparr>)
      | SVersion v \<Rightarrow> materialise_blob (cr_h ck) rel classified v j
      | STxn n \<Rightarrow> and_then (txn_version_for j n rel) (\<lambda>v. materialise_blob (cr_h ck) rel classified v j))"

record diff_result =
  df_diff :: rstr
  df_path :: rstr
  df_from_version :: rstr
  df_to_version :: rstr
  df_redacted :: bool
  df_from_source :: rstr
  df_to_source :: rstr

definition history_diff ::
  "crates \<Rightarrow> fsys \<Rightarrow> rroot \<Rightarrow> rstr \<Rightarrow> side \<Rightarrow> side \<Rightarrow> journal \<Rightarrow> limits \<Rightarrow> diff_result res" where
  "history_diff ck fs base rel from_side to_side j lm =
     and_then (resolve_creatable ck fs base rel) (\<lambda>ap.
     let classified = (classified_by (cr_globs ck) (rr_classify base) ap \<noteq> None) in
     and_then (materialise ck fs base rel classified from_side j lm) (\<lambda>a.
     and_then (materialise ck fs base rel classified to_side j lm) (\<lambda>b.
       Inr \<lparr>df_diff = cr_udiff ck (mt_text a) (mt_text b) rel, df_path = rel,
            df_from_version = mt_version a, df_to_version = mt_version b,
            df_redacted = (mt_redacted a \<or> mt_redacted b),
            df_from_source = mt_source a, df_to_source = mt_source b\<rparr>)))"

section \<open>Revert\<close>

record revert_request =
  rv_txn_id :: int
  rv_dry_run :: bool
  rv_intent :: "rstr option"
  rv_author :: rstr
  rv_node :: rstr
  rv_allow_secrets :: "rstr list"

definition show_int :: "int \<Rightarrow> rstr" where
  "show_int n = (if n < 0 then CHR ''-'' # show_nat (nat (- n)) else show_nat (nat n))"

definition revert_refuse :: "int \<Rightarrow> rstr \<Rightarrow> msg \<Rightarrow> (rstr \<times> json) list \<Rightarrow> kaed_error" where
  "revert_refuse n reason m extra =
     with_data (JObj (obj_extend [(''reason'', JStr reason), (''txn_id'', JNum n)] extra)) (invalid_input m)"

record undo =
  un_base :: "base_version list"
  un_ops :: "edit_op list"
  un_drop_paths :: "rstr list"

definition undo_delete ::
  "crates \<Rightarrow> fsys \<Rightarrow> rroot \<Rightarrow> int \<Rightarrow> journal \<Rightarrow> path \<Rightarrow> txn_file_row \<Rightarrow> undo \<Rightarrow> undo res" where
  "undo_delete ck fs base n j ap f u =
     (case tf_old f of
        None \<Rightarrow> Inl (revert_refuse n ''nothing_to_restore'' (Msg ''recorded with no pre-image'' [tf_path f])
                       [(''path'', JStr (tf_path f))])
      | Some old_version \<Rightarrow>
          if classified_by (cr_globs ck) (rr_classify base) ap \<noteq> None
          then Inl (revert_refuse n ''never_recoverable'' (Msg ''classified, no content retained'' [tf_path f])
                      [(''path'', JStr (tf_path f))])
          else (case blob j old_version of
                  None \<Rightarrow> Inl (revert_refuse n ''blob_expired_or_absent'' (Msg ''no longer retained'' [tf_path f, old_version])
                                 [(''path'', JStr (tf_path f)), (''version'', JStr old_version)])
                | Some (content, was_redacted) \<Rightarrow>
                    if was_redacted
                    then Inl (revert_refuse n ''never_recoverable'' (Msg ''a redacted rendering, not its bytes'' [tf_path f])
                                [(''path'', JStr (tf_path f))])
                    else if path_exists fs ap
                    then Inl (revert_refuse n ''path_reoccupied'' (Msg ''exists again'' [tf_path f])
                                [(''path'', JStr (tf_path f))])
                    else Inr (u\<lparr>un_ops := un_ops u @ [Create (tf_path f) content False False]\<rparr>)))"

definition undo_create :: "txn_file_row \<Rightarrow> undo \<Rightarrow> undo" where
  "undo_create f u =
     u\<lparr>un_base := un_base u @ [\<lparr>bv_path = tf_path f, bv_version = tf_new f\<rparr>],
       un_ops := un_ops u @ [Delete (tf_path f)], un_drop_paths := un_drop_paths u @ [tf_path f]\<rparr>"

definition undo_edit ::
  "crates \<Rightarrow> rroot \<Rightarrow> int \<Rightarrow> journal \<Rightarrow> path \<Rightarrow> txn_file_row \<Rightarrow> rstr \<Rightarrow> undo \<Rightarrow> undo res" where
  "undo_edit ck base n j ap f old_version u =
     (if classified_by (cr_globs ck) (rr_classify base) ap \<noteq> None
      then Inl (revert_refuse n ''no_plaintext_history'' (Msg ''classified, a rendering is retained'' [tf_path f])
                  [(''path'', JStr (tf_path f))])
      else (case blob j old_version of
              None \<Rightarrow> Inl (revert_refuse n ''blob_expired_or_absent'' (Msg ''pre-image no longer retained'' [tf_path f, old_version])
                             [(''path'', JStr (tf_path f)), (''version'', JStr old_version)])
            | Some (content, was_redacted) \<Rightarrow>
                if was_redacted
                then Inl (revert_refuse n ''no_plaintext_history'' (Msg ''journalled as a redacted rendering'' [tf_path f])
                            [(''path'', JStr (tf_path f))])
                else Inr (u\<lparr>un_base := un_base u @ [\<lparr>bv_path = tf_path f, bv_version = tf_new f\<rparr>],
                            un_ops := un_ops u @ [Create (tf_path f) content False True]\<rparr>)))"

definition undo_file ::
  "crates \<Rightarrow> fsys \<Rightarrow> rroot \<Rightarrow> int \<Rightarrow> journal \<Rightarrow> txn_file_row \<Rightarrow> undo \<Rightarrow> undo res" where
  "undo_file ck fs base n j f u =
     and_then (resolve_creatable ck fs base (tf_path f)) (\<lambda>ap.
       if tf_new f = VERSION_ABSENT then undo_delete ck fs base n j ap f u
       else (case tf_old f of
               None \<Rightarrow> Inr (undo_create f u)
             | Some old_version \<Rightarrow> undo_edit ck base n j ap f old_version u))"

definition revert_edit ::
  "crates \<Rightarrow> fsys \<Rightarrow> rroot \<Rightarrow> revert_request \<Rightarrow> journal \<Rightarrow> rstr \<Rightarrow> rroot list \<Rightarrow> edit_request res" where
  "revert_edit ck fs base req j host live =
     (let n = rv_txn_id req in
      case txn j n of
        None \<Rightarrow> Inl (not_found (Msg ''no such transaction'' [show_int n]))
      | Some (t, files) \<Rightarrow>
          (case historical (tx_root t) live host of
             Some hi \<Rightarrow> Inl (revert_refuse n (hi_reason hi) (Msg ''root is history'' [tx_root t, host])
                              [(''journalled_root'', JStr (tx_root t))])
           | None \<Rightarrow>
               if tx_root t \<noteq> rr_name base
               then Inl (revert_refuse n ''wrong_root'' (Msg ''made against another root'' [tx_root t, rr_name base])
                           [(''journalled_root'', JStr (tx_root t))])
               else if files = []
               then Inl (revert_refuse n ''nothing_to_revert'' (Msg ''recorded no files'' []) [])
               else and_then (fold_res (undo_file ck fs base n j) files \<lparr>un_base = [], un_ops = [], un_drop_paths = []\<rparr>)
                 (\<lambda>u. Inr \<lparr>er_base = un_base u, er_ops = un_ops u, er_dry_run = rv_dry_run req, er_return_diff = True,
                          er_intent = Some (''revert of txn '' @ show_int n @
                            (case rv_intent req of Some i \<Rightarrow> '': '' @ i | None \<Rightarrow> [])),
                          er_drop_keys = [], er_allow_secrets = rv_allow_secrets req,
                          er_drop_paths = un_drop_paths u\<rparr>)))"

definition revert ::
  "crates \<Rightarrow> journal_env \<Rightarrow> rroot \<Rightarrow> revert_request \<Rightarrow> limits \<Rightarrow> rstr \<Rightarrow> rroot list \<Rightarrow> (journal, edit_outcome) step" where
  "revert ck je base req lm host live w =
     (case revert_edit ck (w_fs w) base req (w_journal w) host live of
        Inl e \<Rightarrow> (Inl e, w)
      | Inr r \<Rightarrow> apply_txn ck (as_node je (rv_node req)) base r lm (rv_author req) w)"

section \<open>Feedback\<close>

datatype feedback_category = Friction | Bug | Wish | Praise

fun category_str :: "feedback_category \<Rightarrow> rstr" where
  "category_str Friction = ''friction''"
| "category_str Bug = ''bug''"
| "category_str Wish = ''wish''"
| "category_str Praise = ''praise''"

definition feedback ::
  "journal_env \<Rightarrow> rstr \<Rightarrow> feedback_category \<Rightarrow> rstr \<Rightarrow> rstr option \<Rightarrow> rstr option \<Rightarrow> journal \<Rightarrow> int res \<times> journal" where
  "feedback je author category summary detail ctx j =
     (let summary = trim summary in
      if summary = [] then (Inl (invalid_input (Msg ''feedback needs a summary'' [])), j)
      else add_feedback je author (category_str category) (redact_note je summary)
             (map_option (redact_note je) detail) (map_option (redact_note je) ctx) j)"

end
