(* ===== verification/Kaed_History_Facts.thy ===== *)
theory Kaed_History_Facts
  imports Kaed_History
begin

text \<open>
  What a revert asks of the edit engine and what comes of it, what a query shows and leaves out,
  and what a diff can reveal.
\<close>

section \<open>The edit a revert asks for\<close>

definition restored :: "journal \<Rightarrow> txn_file_row \<Rightarrow> rstr" where
  "restored j f = fst (the (blob j (the (tf_old f))))"

definition undo_op :: "journal \<Rightarrow> txn_file_row \<Rightarrow> edit_op" where
  "undo_op j f =
     (if tf_old f = None then Delete (tf_path f)
      else Create (tf_path f) (restored j f) False (tf_new f \<noteq> VERSION_ABSENT))"

definition undo_bases :: "txn_file_row \<Rightarrow> base_version list" where
  "undo_bases f = (if tf_new f = VERSION_ABSENT then [] else [\<lparr>bv_path = tf_path f, bv_version = tf_new f\<rparr>])"

definition undoable :: "crates \<Rightarrow> fsys \<Rightarrow> rroot \<Rightarrow> journal \<Rightarrow> txn_file_row \<Rightarrow> bool" where
  "undoable ck fs base j f \<longleftrightarrow>
     (\<exists>ap. resolve_creatable ck fs base (tf_path f) = Inr ap
        \<and> (tf_new f = VERSION_ABSENT \<longrightarrow> \<not> path_exists fs ap \<and> tf_old f \<noteq> None)
        \<and> (\<forall>v. tf_old f = Some v \<longrightarrow>
             classified_by (cr_globs ck) (rr_classify base) ap = None \<and> (\<exists>c. blob j v = Some (c, False))))"

lemma undo_file_Inr:
  assumes "undo_file ck fs base n j f u = Inr u'"
  shows "undoable ck fs base j f \<and> un_ops u' = un_ops u @ [undo_op j f] \<and> un_base u' = un_base u @ undo_bases f"
proof -
  obtain ap where ap: "resolve_creatable ck fs base (tf_path f) = Inr ap"
    using assms by (auto simp: undo_file_def)
  show ?thesis
  proof (cases "tf_new f = VERSION_ABSENT")
    case True
    have d: "undo_delete ck fs base n j ap f u = Inr u'" using assms ap True by (simp add: undo_file_def)
    obtain v where v: "tf_old f = Some v" using d by (cases "tf_old f") (auto simp: undo_delete_def)
    obtain c r where b: "blob j v = Some (c, r)" using d v by (auto simp: undo_delete_def split: if_splits option.splits)
    with d v True ap show ?thesis
      by (auto simp: undo_delete_def undoable_def undo_op_def undo_bases_def restored_def split: if_splits)
  next
    case False
    show ?thesis
    proof (cases "tf_old f")
      case None
      with assms ap False show ?thesis
        by (auto simp: undo_file_def undo_create_def undoable_def undo_op_def undo_bases_def)
    next
      case (Some v)
      have e: "undo_edit ck base n j ap f v u = Inr u'" using assms ap False Some by (simp add: undo_file_def)
      obtain c r where b: "blob j v = Some (c, r)" using e by (auto simp: undo_edit_def split: if_splits option.splits)
      with e Some False ap show ?thesis
        by (auto simp: undo_edit_def undoable_def undo_op_def undo_bases_def restored_def split: if_splits)
    qed
  qed
qed

lemma undo_files_Inr:
  assumes "fold_res (undo_file ck fs base n j) files u = Inr u'"
  shows "(\<forall>f\<in>set files. undoable ck fs base j f) \<and> un_ops u' = un_ops u @ map (undo_op j) files
    \<and> un_base u' = un_base u @ concat (map undo_bases files)"
  using assms
proof (induction files arbitrary: u)
  case (Cons f files)
  then obtain u1 where u1: "undo_file ck fs base n j f u = Inr u1"
    "fold_res (undo_file ck fs base n j) files u1 = Inr u'" by auto
  from undo_file_Inr[OF u1(1)] Cons.IH[OF u1(2)] show ?case by simp
qed simp

lemma revert_edit_Inr:
  assumes "revert_edit ck fs base req j host live = Inr r"
  obtains t files where "txn j (rv_txn_id req) = Some (t, files)" "tx_root t = rr_name base"
    "\<exists>x\<in>set live. rr_name x = tx_root t" "files \<noteq> []" "\<forall>f\<in>set files. undoable ck fs base j f"
    "er_ops r = map (undo_op j) files" "er_base r = concat (map undo_bases files)"
    "er_dry_run r = rv_dry_run req"
proof -
  obtain t files where t: "txn j (rv_txn_id req) = Some (t, files)"
    using assms by (auto simp: revert_edit_def Let_def split: option.splits)
  have h: "historical (tx_root t) live host = None"
    using assms t by (auto simp: revert_edit_def Let_def split: option.splits)
  obtain u where u: "fold_res (undo_file ck fs base (rv_txn_id req) j) files
      \<lparr>un_base = [], un_ops = [], un_drop_paths = []\<rparr> = Inr u" "tx_root t = rr_name base" "files \<noteq> []"
    "er_ops r = un_ops u" "er_base r = un_base u" "er_dry_run r = rv_dry_run req"
    using assms t h by (auto simp: revert_edit_def Let_def split: if_splits)
  have "\<exists>x\<in>set live. rr_name x = tx_root t" using h by (auto simp: historical_def split: if_splits)
  with that t u undo_files_Inr[OF u(1)] show thesis by simp
qed

section \<open>What that edit does\<close>

definition undone_buf :: "journal \<Rightarrow> txn_file_row \<Rightarrow> file_buf \<Rightarrow> bool" where
  "undone_buf j f b \<longleftrightarrow> fb_touched b \<and>
     (if tf_old f = None then fb_deleted b else \<not> fb_deleted b \<and> fb_content b = restored j f)"

text \<open>Where the buffer of a path comes from: its declared base, or a path with nothing there.\<close>

definition stands_for :: "crates \<Rightarrow> fsys \<Rightarrow> rroot \<Rightarrow> limits \<Rightarrow> txn_file_row \<Rightarrow> file_buf \<Rightarrow> bool" where
  "stands_for ck fs base lm f b \<longleftrightarrow>
     (if tf_new f = VERSION_ABSENT then resolve_creatable ck fs base (tf_path f) = Inr (fb_abs b)
      else \<exists>l. load_text ck fs base (tf_path f) lm = Inr l \<and> ld_version l = tf_new f \<and> fb_abs b = ld_abs l)"

definition base_buf :: "crates \<Rightarrow> fsys \<Rightarrow> rroot \<Rightarrow> limits \<Rightarrow> txn_file_row \<Rightarrow> file_buf option \<Rightarrow> bool" where
  "base_buf ck fs base lm f ob \<longleftrightarrow>
     (case ob of
        None \<Rightarrow> tf_new f = VERSION_ABSENT
      | Some b \<Rightarrow> tf_new f \<noteq> VERSION_ABSENT \<and> stands_for ck fs base lm f b \<and> \<not> fb_deleted b \<and> \<not> fb_touched b)"

lemma run_undo_op:
  assumes "run_op ck fs base lm (undo_op j f) bufs = Inr bufs'" "base_buf ck fs base lm f (map_of bufs (tf_path f))"
    and "undoable ck fs base j f"
  shows "\<exists>b. bufs' = om_insert (tf_path f) b bufs \<and> undone_buf j f b \<and> stands_for ck fs base lm f b"
proof (cases "tf_old f")
  case None
  have "op_delete ck fs base (tf_path f) bufs = Inr bufs'"
    using run_op_dispatch[OF assms(1)] None by (simp add: undo_op_def)
  then obtain b where b: "map_of bufs (tf_path f) = Some b"
    "bufs' = om_insert (tf_path f) (b\<lparr>fb_deleted := True, fb_touched := True\<rparr>) bufs"
    by (auto simp: op_delete_def split: if_splits)
  with assms(2) None show ?thesis by (auto simp: base_buf_def undone_buf_def stands_for_def)
next
  case (Some v)
  have c: "op_create ck fs base lm (tf_path f) (restored j f) False (tf_new f \<noteq> VERSION_ABSENT) bufs = Inr bufs'"
    using run_op_dispatch[OF assms(1)] Some by (simp add: undo_op_def)
  show ?thesis
  proof (cases "map_of bufs (tf_path f)")
    case None
    then have absent: "tf_new f = VERSION_ABSENT" using assms(2) by (simp add: base_buf_def)
    obtain ap where ap: "resolve_creatable ck fs base (tf_path f) = Inr ap" "\<not> path_exists fs ap"
      using assms(3) absent by (auto simp: undoable_def)
    show ?thesis using c None ap absent Some by (auto simp: op_create_def Let_def undone_buf_def stands_for_def)
  next
    case b: (Some b)
    then show ?thesis using c assms(2) Some
      by (auto simp: op_create_def undone_buf_def stands_for_def base_buf_def)
  qed
qed

lemma run_undo_ops:
  assumes "fold_res (run_op ck fs base lm) (map (undo_op j) files) bufs = Inr bufs'"
    and "distinct (map tf_path files)" "\<forall>f\<in>set files. undoable ck fs base j f"
    and "\<forall>f\<in>set files. base_buf ck fs base lm f (map_of bufs (tf_path f))" "om_sorted bufs"
  shows "om_sorted bufs' \<and> (\<forall>p. p \<notin> tf_path ` set files \<longrightarrow> map_of bufs' p = map_of bufs p)
    \<and> (\<forall>f\<in>set files. \<exists>b. map_of bufs' (tf_path f) = Some b \<and> undone_buf j f b \<and> stands_for ck fs base lm f b)"
  using assms
proof (induction files arbitrary: bufs)
  case (Cons f files)
  then obtain bufs1 where r: "run_op ck fs base lm (undo_op j f) bufs = Inr bufs1"
    "fold_res (run_op ck fs base lm) (map (undo_op j) files) bufs1 = Inr bufs'" by auto
  obtain b where b: "bufs1 = om_insert (tf_path f) b bufs" "undone_buf j f b" "stands_for ck fs base lm f b"
    using run_undo_op[OF r(1)] Cons.prems(3,4) by auto
  have g: "map_of bufs1 p = (if p = tf_path f then Some b else map_of bufs p)" for p
    unfolding b(1) by (simp add: map_of_om_insert)
  have "\<forall>x\<in>set files. base_buf ck fs base lm x (map_of bufs1 (tf_path x))"
    using Cons.prems(2,4) by (auto simp: g) (metis image_eqI)
  moreover have "om_sorted bufs1" unfolding b(1) using Cons.prems(5) by (rule om_sorted_insert)
  ultimately have ih: "om_sorted bufs' \<and> (\<forall>p. p \<notin> tf_path ` set files \<longrightarrow> map_of bufs' p = map_of bufs1 p)
    \<and> (\<forall>f\<in>set files. \<exists>b. map_of bufs' (tf_path f) = Some b \<and> undone_buf j f b \<and> stands_for ck fs base lm f b)"
    using Cons.IH[OF r(2)] Cons.prems(2,3) by simp
  moreover have "tf_path f \<notin> tf_path ` set files" using Cons.prems(2) by auto
  ultimately show ?case using g b(2,3) by auto
qed simp

lemma load_bases:
  assumes "fold_res (load_base ck stored fs base lm) bs bufs = Inr bufs'" "om_sorted bufs"
  shows "om_sorted bufs' \<and> (\<forall>p. p \<notin> bv_path ` set bs \<longrightarrow> map_of bufs' p = map_of bufs p)
    \<and> (\<forall>b\<in>set bs. \<exists>l. load_text ck fs base (bv_path b) lm = Inr l \<and> ld_version l = bv_version b
          \<and> map_of bufs' (bv_path b) = Some (buf_of_loaded l))"
  using assms
proof (induction bs arbitrary: bufs)
  case (Cons b bs)
  then obtain bufs1 where r: "load_base ck stored fs base lm b bufs = Inr bufs1"
    "fold_res (load_base ck stored fs base lm) bs bufs1 = Inr bufs'" by auto
  obtain l where l: "load_text ck fs base (bv_path b) lm = Inr l" "ld_version l = bv_version b"
    "bufs1 = om_insert (bv_path b) (buf_of_loaded l) bufs" using load_base_Inr[OF r(1)] by metis
  have s: "om_sorted bufs1" unfolding l(3) using Cons.prems(2) by (rule om_sorted_insert)
  have new: "bv_path b \<notin> bv_path ` set bs"
    using load_bases_Inr(2)[OF r(2)] l(3) by (fastforce simp: map_of_om_insert)
  from Cons.IH[OF r(2) s] l new show ?case by (auto simp: map_of_om_insert)
qed simp

lemma undo_bases_paths:
  "bv_path ` set (concat (map undo_bases files)) = tf_path ` {f \<in> set files. tf_new f \<noteq> VERSION_ABSENT}"
  by (auto simp: undo_bases_def image_iff split: if_splits)

text \<open>The buffers of a revert: one for each file of the transaction, and no other is touched.\<close>

lemma revert_bufs:
  assumes "revert_edit ck (w_fs w) base req j host live = Inr r" "txn j (rv_txn_id req) = Some (t, files)"
    and "distinct (map tf_path files)" "run_ops ck rc w base lm r = Inr bufs"
  shows "\<forall>f\<in>set files. \<exists>b. (tf_path f, b) \<in> set (touched_of bufs) \<and> undone_buf j f b \<and> stands_for ck (w_fs w) base lm f b"
    and "\<forall>(p, b)\<in>set (touched_of bufs). \<exists>f\<in>set files. p = tf_path f \<and> undone_buf j f b \<and> stands_for ck (w_fs w) base lm f b"
proof -
  obtain t' files' where x: "txn j (rv_txn_id req) = Some (t', files')" "\<forall>f\<in>set files'. undoable ck (w_fs w) base j f"
    "er_ops r = map (undo_op j) files'" "er_base r = concat (map undo_bases files')"
    by (rule revert_edit_Inr[OF assms(1)])
  have u: "\<forall>f\<in>set files. undoable ck (w_fs w) base j f"
    "er_ops r = map (undo_op j) files" "er_base r = concat (map undo_bases files)"
    using x assms(2) by simp_all
  obtain bufs0 where l: "fold_res (load_base ck (\<lambda>v. rec_blob rc v (w_journal w)) (w_fs w) base lm)
      (concat (map undo_bases files)) [] = Inr bufs0"
    and o: "fold_res (run_op ck (w_fs w) base lm) (map (undo_op j) files) bufs0 = Inr bufs"
    using assms(4) unfolding run_ops_def u(2,3) by auto
  have e: "om_sorted ([] :: bufs)" by (simp add: om_sorted_def)
  note b0 = load_bases[OF l e]
  have base: "\<forall>f\<in>set files. base_buf ck (w_fs w) base lm f (map_of bufs0 (tf_path f))"
  proof
    fix f assume f: "f \<in> set files"
    show "base_buf ck (w_fs w) base lm f (map_of bufs0 (tf_path f))"
    proof (cases "tf_new f = VERSION_ABSENT")
      case True
      then have "tf_path f \<notin> bv_path ` set (concat (map undo_bases files))"
        unfolding undo_bases_paths using assms(3) f by (auto simp: distinct_map dest: inj_onD)
      with b0 True show ?thesis by (simp add: base_buf_def)
    next
      case False
      then have "\<lparr>bv_path = tf_path f, bv_version = tf_new f\<rparr> \<in> set (concat (map undo_bases files))"
        using f by (force simp: undo_bases_def)
      with b0 obtain l where "load_text ck (w_fs w) base (tf_path f) lm = Inr l" "ld_version l = tf_new f"
        "map_of bufs0 (tf_path f) = Some (buf_of_loaded l)" by fastforce
      with False show ?thesis by (auto simp: base_buf_def stands_for_def buf_of_loaded_def)
    qed
  qed
  note run = run_undo_ops[OF o assms(3) u(1) base b0[THEN conjunct1]]
  then have s: "om_sorted bufs" by simp
  have mem: "(p, b) \<in> set bufs \<longleftrightarrow> map_of bufs p = Some b" for p b using om.get_entries[OF s] by blast
  show "\<forall>f\<in>set files. \<exists>b. (tf_path f, b) \<in> set (touched_of bufs) \<and> undone_buf j f b \<and> stands_for ck (w_fs w) base lm f b"
    using run mem by (fastforce simp: touched_of_def undone_buf_def)
  have untouched: "\<not> fb_touched b" if "map_of bufs0 p = Some b" for p b
  proof (cases "p \<in> bv_path ` set (concat (map undo_bases files))")
    case True
    then obtain x where x: "x \<in> set (concat (map undo_bases files))" "bv_path x = p" by blast
    from b0 x(1) obtain l where "map_of bufs0 (bv_path x) = Some (buf_of_loaded l)" by blast
    with that x(2) show ?thesis by (simp add: buf_of_loaded_def)
  next
    case False
    with b0 that show ?thesis by simp
  qed
  show "\<forall>(p, b)\<in>set (touched_of bufs). \<exists>f\<in>set files. p = tf_path f \<and> undone_buf j f b \<and> stands_for ck (w_fs w) base lm f b"
  proof (clarify)
    fix p b assume "(p, b) \<in> set (touched_of bufs)"
    then have b: "map_of bufs p = Some b" "fb_touched b" using mem by (auto simp: touched_of_def)
    then have "p \<in> tf_path ` set files" using run untouched by metis
    with run b(1) show "\<exists>f\<in>set files. p = tf_path f \<and> undone_buf j f b \<and> stands_for ck (w_fs w) base lm f b" by fastforce
  qed
qed

section \<open>Blobs under their own hash\<close>

definition matched :: "hasher \<Rightarrow> blob_row list \<Rightarrow> bool" where
  "matched h bs \<longleftrightarrow> (\<forall>b\<in>set bs. \<not> bl_redacted b \<longrightarrow> bl_version b = version_of h (bl_content b))"

definition blobs_match :: "hasher \<Rightarrow> journal \<Rightarrow> bool" where
  "blobs_match h j \<longleftrightarrow> matched h (j_blobs j)"

definition record_matches :: "hasher \<Rightarrow> file_txn_record \<Rightarrow> bool" where
  "record_matches h f \<longleftrightarrow> (\<not> ft_redacted f \<longrightarrow>
     (\<forall>v c. ft_old_version f = Some v \<and> ft_blob_old f = Some c \<longrightarrow> v = version_of h c)
     \<and> (\<forall>c. ft_blob_new f = Some c \<longrightarrow> ft_new_version f = version_of h c))"

lemma insert_blob_set: "set (insert_blob v c at_time r bs) \<subseteq> insert \<lparr>bl_version = v, bl_content = c, bl_created = at_time, bl_redacted = r\<rparr> (set bs)"
  by (auto simp: insert_blob_def)

lemma begin_file_matches:
  assumes "blobs_match h j" "record_matches h f"
  shows "blobs_match h (begin_file je base n f j)"
proof -
  have ins: "matched h bs \<Longrightarrow> (\<not> ft_redacted f \<longrightarrow> v = version_of h c) \<Longrightarrow> matched h (insert_blob v c t (ft_redacted f) bs)"
    for bs v c t
    using insert_blob_set[of v c t "ft_redacted f" bs] by (fastforce simp: matched_def)
  show ?thesis
    using assms unfolding blobs_match_def begin_file_blobs Let_def record_matches_def
    by (cases "ft_old_version f"; cases "ft_blob_old f"; cases "ft_blob_new f") (simp_all add: ins)
qed

lemma begin_as_matches:
  assumes "begin_as je author node intent base files j = (r, j')" "blobs_match h j" "\<forall>f\<in>set files. record_matches h f"
  shows "blobs_match h j'"
  using assms(1)
proof (cases rule: begin_as_cases)
  case down
  with assms(2) show ?thesis by (simp add: blobs_match_def)
next
  case (up j0 row)
  have "blobs_match h (fold (begin_file je base n) files k)" if "blobs_match h k" for n k
    using that assms(3) by (induction files arbitrary: k) (simp_all add: begin_file_matches)
  moreover have "blobs_match h (j0\<lparr>j_txns := j_txns j0 @ [row], j_txn_seq := j_txn_seq j0 + 1\<rparr>)"
    using assms(2) up(1) by (simp add: blobs_match_def)
  ultimately show ?thesis unfolding up(8) by blast
qed

lemma blobs_match_mono: "blobs_match h j \<Longrightarrow> set (j_blobs j') \<subseteq> set (j_blobs j) \<Longrightarrow> blobs_match h j'"
  by (auto simp: blobs_match_def matched_def)

lemma gc_blobs_subset: "gc_blobs je j = (r, j') \<Longrightarrow> set (j_blobs j') \<subseteq> set (j_blobs j)"
  by (erule gc_blobs_cases) (auto simp: sweep_def)

lemma complete_matches:
  assumes "complete je n j = (r, j')" "blobs_match h j"
  shows "blobs_match h j'"
  using assms(1)
proof (cases rule: complete_cases)
  case down
  with assms(2) show ?thesis by (simp add: blobs_match_def)
next
  case (up j0)
  let ?j = "j0\<lparr>j_txns := map (stamp (now je j0) n) (j_txns j0)\<rparr>"
  have "set (j_blobs (gc_if_due je ?j)) \<subseteq> set (j_blobs ?j)"
    using gc_blobs_subset[of je ?j "fst (gc_blobs je ?j)"] by (simp add: gc_if_due_def)
  with up assms(2) show ?thesis by (auto intro: blobs_match_mono)
qed

lemma record_of_matches:
  assumes "buf_inv ck fs base b"
  shows "record_matches (cr_h ck) (record_of ck (p, b))"
  using assms
  by (auto simp: record_matches_def record_of_def Let_def buf_inv_def pre_image_def change_of_def
      delete_unrecoverable_reason_def case_prod_unfold split: if_splits option.splits)

lemma log_matches:
  "blobs_match h (fail_as je x node j) = blobs_match h j"
  "blobs_match h (leak_events_as je author node base evs j) = blobs_match h j"
  by (simp_all add: blobs_match_def log_blobs leak_events_as_def fold_blobs)

lemma journal_leaks_matches:
  "blobs_match h (w_journal (journal_leaks (as_node je node) author base req lf n w)) = blobs_match h (w_journal w)"
  by (simp add: journal_leaks_def as_node_def log_matches)

lemma commit_matches:
  assumes "commit ck (as_node je node) base author req pl w = (r, w')" "blobs_match (cr_h ck) (w_journal w)"
    and "\<forall>(p, b)\<in>set (pl_touched pl). buf_inv ck (w_fs w) base b"
  shows "blobs_match (cr_h ck) (w_journal w')"
proof -
  have rec: "\<forall>f\<in>set (map (record_of ck) (pl_touched pl)). record_matches (cr_h ck) f"
    using assms(3) record_of_matches by fastforce
  have bg: "blobs_match (cr_h ck) j" if
    "rec_begin (as_node je node) author (er_intent req) base (map (record_of ck) (pl_touched pl)) (w_journal w) = (x, j)" for x j
    using begin_as_matches[OF _ assms(2) rec] that by (simp add: as_node_def)
  from assms(1) show ?thesis
  proof (cases rule: commit_cases)
    case (unstaged e)
    with stage_all_ok[OF unstaged(2) staged_ok_Nil] assms(2) show ?thesis by simp
  next
    case (unbegun e staged w1 j)
    with bg show ?thesis by (simp add: discards_journal)
  next
    case (torn e id staged w1 j)
    have "w_journal w' = j" using torn(4) promote_all_journal unlink_all_journal by fastforce
    with bg[OF torn(3)] show ?thesis by simp
  next
    case (incomplete e id staged w1 j w2 w3 j')
    have "w_journal w3 = j"
      using promote_all_journal[OF incomplete(4)] unlink_all_journal[OF incomplete(5)] by simp
    with incomplete(6,7) bg[OF incomplete(3)] show ?thesis by (auto simp: as_node_def intro: complete_matches)
  next
    case (finished id staged w1 j w2 w3 j')
    have "w_journal w3 = j"
      using promote_all_journal[OF finished(4)] unlink_all_journal[OF finished(5)] by simp
    then have "complete je id j = (Inr (), j')" using finished(6) by (simp add: as_node_def)
    from complete_matches[OF this bg[OF finished(3)]] show ?thesis
      unfolding finished(7) journal_leaks_matches by simp
  qed
qed

lemma apply_matches:
  assumes "apply_txn ck (as_node je node) base req lm author w = (r, w')" "blobs_match (cr_h ck) (w_journal w)"
    and "real_dir (w_fs w) (rr_path base)"
  shows "blobs_match (cr_h ck) (w_journal w')"
proof -
  have prep: "blobs_match (cr_h ck) (w_journal w1)"
    if "prepare ck (as_node je node) base lm author req w = (x, w1)" for x w1
    using that assms(2) prepare_Inr[of ck "as_node je node" base lm author req w _ w1]
      prepare_Inl[of ck "as_node je node" base lm author req w _ w1]
    by (cases x) (auto simp: as_node_def log_matches)
  have com: "blobs_match (cr_h ck) (w_journal w1)"
    if "prepare ck (as_node je node) base lm author req w = (Inr pl, w)"
      "commit ck (as_node je node) base author req pl w = (x, w1)" for pl x w1
    by (rule commit_matches[OF that(2) assms(2)]) (use plan_inv(2)[OF that(1) assms(3)] in auto)
  show ?thesis
  proof (cases r)
    case (Inl e)
    from assms(1)[unfolded Inl] show ?thesis
    proof (cases rule: apply_txn_Inl)
      case (refused w1)
      with prep[OF refused(1)] show ?thesis by (simp add: as_node_def log_matches)
    next
      case (uncommitted pl w1)
      with com[OF uncommitted(2,3)] show ?thesis by (simp add: as_node_def log_matches)
    qed
  next
    case (Inr out)
    from assms(1)[unfolded Inr] show ?thesis
    proof (cases rule: apply_txn_Inr)
      case (dry pl)
      with assms(2) show ?thesis by simp
    next
      case (real pl n)
      with com[OF real(2,3)] show ?thesis by simp
    qed
  qed
qed

section \<open>Properties\<close>

text \<open>C13: Every version in the store names its own content. Take the edit engine with the journal as
  its recorder: whatever an edit does, fails or succeeds, the content of each blob that is not a
  redacted rendering hashes to the version it is stored under, if it did before; and so it does
  after a revert.\<close>
theorem stored_versions_match:
  assumes "blobs_match (cr_h ck) (w_journal w)" "real_dir (w_fs w) (rr_path base)"
  shows "blobs_match (cr_h ck) (w_journal (snd (apply_txn ck (as_node je node) base req lm author w)))
    \<and> blobs_match (cr_h ck) (w_journal (snd (revert ck je base rq lm host live w)))"
  using apply_matches[OF prod.collapse[symmetric] assms]
  by (simp add: revert_def assms(1) split: sum.split)

lemma demo_real: "real_dir (w_fs (demo_with j)) (rr_path demo_root)"
  using demo_real_dir by (simp add: demo_world_def demo_with_def)

lemma demo_empty_match: "blobs_match h (empty_journal days c)"
  by (simp add: blobs_match_def matched_def empty_journal_def)

theorem stored_versions_match_witness:
  "blobs_match zero_hash (w_journal (snd (apply_txn demo_ck (as_node demo_je ''h'') demo_root (demo_req False)
     default_limits ''me'' (demo_with (empty_journal 30 0)))))"
proof -
  have "cr_h demo_ck = zero_hash" by (simp add: demo_ck_def)
  with stored_versions_match[of demo_ck "demo_with (empty_journal 30 0)" demo_root demo_je "''h''" "demo_req False"
      default_limits "''me''"] demo_real demo_empty_match show ?thesis
    by (simp add: demo_with_def)
qed

lemma restored_version:
  assumes "blobs_match h j" "blob j v = Some (c, False)"
  shows "version_of h c = v"
proof -
  obtain b where b: "find (\<lambda>b. bl_version b = v) (j_blobs j) = Some b" "bl_content b = c" "\<not> bl_redacted b"
    using assms(2) by (auto simp: blob_def split: option.splits if_splits)
  then have "b \<in> set (j_blobs j)" "bl_version b = v" by (auto simp: find_Some_iff)
  with assms(1) b show ?thesis by (auto simp: blobs_match_def matched_def)
qed

text \<open>C12: Revert puts back what was there. When a revert that is not a dry run succeeds, each file of the
  transaction was still at the version the transaction had left it at, or, if the transaction had
  deleted it, the path was free; and now a file the transaction had created is gone, and every
  other one holds a content that hashes to the version the file had before the transaction. Every
  other node that existed is as it was. Assumed: the store keeps plain contents under their own
  hash, the row names each path once, and, as for any edit, the paths lead to different files none
  of which is named like a temporary file, and no fault claims an existing file is absent.\<close>
theorem revert_restores:
  assumes "revert ck je base rq lm host live w = (Inr out, w')" "\<not> rv_dry_run rq"
    and "revert_edit ck (w_fs w) base rq (w_journal w) host live = Inr r"
    and "run_ops ck (as_node je (rv_node rq)) w base lm r = Inr bufs"
    and "txn (w_journal w) (rv_txn_id rq) = Some (t, files)" "distinct (map tf_path files)"
    and "blobs_match (cr_h ck) (w_journal w)" "real_dir (w_fs w) (rr_path base)" "honest w"
    and "distinct (map (fb_abs \<circ> snd) (touched_of bufs))" "unmarked (touched_of bufs)"
  shows "tx_root t = rr_name base
    \<and> (\<forall>f\<in>set files. \<exists>ap.
        (if tf_new f = VERSION_ABSENT
         then resolve_creatable ck (w_fs w) base (tf_path f) = Inr ap
         else \<exists>l. load_text ck (w_fs w) base (tf_path f) lm = Inr l \<and> ld_version l = tf_new f \<and> ld_abs l = ap)
        \<and> (case tf_old f of
             None \<Rightarrow> fs_nodes (w_fs w') ap = None
           | Some v \<Rightarrow> \<exists>c m. fs_nodes (w_fs w') ap = Some (FileN c m) \<and> version_of (cr_h ck) c = v))
    \<and> (\<forall>q nd. q \<notin> fb_abs ` snd ` set (touched_of bufs) \<and> fs_nodes (w_fs w) q = Some nd \<longrightarrow>
          fs_nodes (w_fs w') q = Some nd)"
proof -
  obtain t' files' where x: "txn (w_journal w) (rv_txn_id rq) = Some (t', files')" "tx_root t' = rr_name base"
    "\<forall>f\<in>set files'. undoable ck (w_fs w) base (w_journal w) f" "er_dry_run r = rv_dry_run rq"
    by (rule revert_edit_Inr[OF assms(3)])
  have a: "apply_txn ck (as_node je (rv_node rq)) base r lm (rv_author rq) w = (Inr out, w')"
    using assms(1,3) by (simp add: revert_def)
  have eff: "(\<forall>p b. (p, b) \<in> set (touched_of bufs) \<longrightarrow>
        fs_nodes (w_fs w') (fb_abs b) = (if fb_deleted b then None else Some (FileN (fb_content b) (perm_bits (fb_mode b)))))"
    "(\<forall>q nd. q \<notin> fb_abs ` snd ` set (touched_of bufs) \<and> fs_nodes (w_fs w) q = Some nd \<longrightarrow>
          fs_nodes (w_fs w') q = Some nd)"
    using apply_effect[OF a _ assms(4,8,9,10,11)] x(4) assms(2) by simp_all
  show ?thesis
  proof (intro conjI ballI)
    show "tx_root t = rr_name base" using x(1,2) assms(5) by simp
  next
    fix f assume f: "f \<in> set files"
    obtain b where b: "(tf_path f, b) \<in> set (touched_of bufs)" "undone_buf (w_journal w) f b"
      "stands_for ck (w_fs w) base lm f b"
      using revert_bufs(1)[OF assms(3,5,6,4)] f by blast
    have node: "fs_nodes (w_fs w') (fb_abs b)
        = (if fb_deleted b then None else Some (FileN (fb_content b) (perm_bits (fb_mode b))))"
      using eff(1) b(1) by blast
    have u: "undoable ck (w_fs w) base (w_journal w) f" using x(1,3) assms(5) f by simp
    show "\<exists>ap. (if tf_new f = VERSION_ABSENT
         then resolve_creatable ck (w_fs w) base (tf_path f) = Inr ap
         else \<exists>l. load_text ck (w_fs w) base (tf_path f) lm = Inr l \<and> ld_version l = tf_new f \<and> ld_abs l = ap)
        \<and> (case tf_old f of
             None \<Rightarrow> fs_nodes (w_fs w') ap = None
           | Some v \<Rightarrow> \<exists>c m. fs_nodes (w_fs w') ap = Some (FileN c m) \<and> version_of (cr_h ck) c = v)"
    proof (intro exI[of _ "fb_abs b"] conjI)
      show "if tf_new f = VERSION_ABSENT
         then resolve_creatable ck (w_fs w) base (tf_path f) = Inr (fb_abs b)
         else \<exists>l. load_text ck (w_fs w) base (tf_path f) lm = Inr l \<and> ld_version l = tf_new f \<and> ld_abs l = fb_abs b"
        using b(3) by (auto simp: stands_for_def split: if_splits)
      show "case tf_old f of None \<Rightarrow> fs_nodes (w_fs w') (fb_abs b) = None
           | Some v \<Rightarrow> \<exists>c m. fs_nodes (w_fs w') (fb_abs b) = Some (FileN c m) \<and> version_of (cr_h ck) c = v"
      proof (cases "tf_old f")
        case None
        with node b(2) show ?thesis by (simp add: undone_buf_def)
      next
        case (Some v)
        obtain c where c: "blob (w_journal w) v = Some (c, False)" using u Some by (auto simp: undoable_def)
        with node b(2) Some restored_version[OF assms(7) c] show ?thesis
          by (simp add: undone_buf_def restored_def)
      qed
    qed
  qed (use eff(2) in blast)
qed


text \<open>A transaction that deleted the file \<open>n\<close>, and its revert.\<close>

definition demo_deleted :: journal where
  "demo_deleted = (empty_journal 30 0)
     \<lparr>j_txns := [\<lparr>tx_id = 1, tx_author = ''me'', tx_node = ''h'', tx_intent = None, tx_root = rr_name demo_root,
                 tx_git_head = None, tx_started = ''t'', tx_completed = Some ''t''\<rparr>],
      j_files := [\<lparr>tf_txn = 1, tf_path = ''n'', tf_old = Some (version_of zero_hash ''x''), tf_new = VERSION_ABSENT,
                   tf_added = 0, tf_removed = 1\<rparr>],
      j_blobs := [\<lparr>bl_version = version_of zero_hash ''x'', bl_content = ''x'', bl_created = ''t'', bl_redacted = False\<rparr>],
      j_txn_seq := 1\<rparr>"

definition demo_revert :: revert_request where
  "demo_revert = \<lparr>rv_txn_id = 1, rv_dry_run = False, rv_intent = None, rv_author = ''me'', rv_node = ''h'',
     rv_allow_secrets = []\<rparr>"

definition demo_undo :: edit_request where
  "demo_undo = \<lparr>er_base = [], er_ops = [Create ''n'' ''x'' False False], er_dry_run = False, er_return_diff = True,
     er_intent = Some (''revert of txn '' @ show_int 1), er_drop_keys = [], er_allow_secrets = [], er_drop_paths = []\<rparr>"

lemma demo_revert_edit: "revert_edit demo_ck demo_fs demo_root demo_revert demo_deleted ''host'' [demo_root] = Inr demo_undo"
proof -
  have "valid_utf8 ''x''" by code_simp
  then show ?thesis
    by (simp add: revert_edit_def demo_revert_def demo_deleted_def txn_def historical_def files_of_def undo_file_def
        demo_create undo_delete_def blob_def demo_undo_def)
qed

lemma demo_undo_run: "run_ops demo_ck rc (demo_with j) demo_root default_limits demo_undo = Inr [(''n'', demo_buf)]"
proof -
  have lim: "lim_file_bytes default_limits = 8388608" by (simp add: default_limits_def)
  have "run_op demo_ck demo_fs demo_root default_limits (Create ''n'' ''x'' False False) [] = Inr [(''n'', demo_buf)]"
    by (simp add: run_op_def op_create_def demo_create Let_def lim demo_buf_def)
  then show ?thesis by (simp add: run_ops_def demo_undo_def demo_with_def del: and_then_Inr)
qed

lemma begin_file_faults: "j_faults (begin_file je base n f j) = j_faults j"
  by (simp add: begin_file_def Let_def split: option.split)

lemma demo_revert_apply:
  "\<exists>out w'. revert demo_ck demo_je demo_root demo_revert default_limits ''host'' [demo_root] (demo_with demo_deleted)
     = (Inr out, w')"
proof -
  let ?rc = "as_node demo_je ''h''"
  have chk: "check_ops demo_undo = Inr ()" unfolding demo_undo_def by code_simp
  have t: "touched_of [(''n'', demo_buf)] = [(''n'', demo_buf)]" by (simp add: touched_of_def demo_buf_def)
  obtain r j1 where b: "rec_begin ?rc ''me'' (er_intent demo_undo) demo_root [record_of demo_ck (''n'', demo_buf)] demo_deleted = (r, j1)"
    by fastforce
  have st: "statement demo_deleted = (True, demo_deleted)" by (simp add: demo_deleted_def empty_journal_def statement_def)
  from b have "begin_as demo_je ''me'' ''h'' (er_intent demo_undo) demo_root [record_of demo_ck (''n'', demo_buf)] demo_deleted = (r, j1)"
    by (simp add: as_node_def)
  then have "r = Inr 2 \<and> j_faults j1 = []"
  proof (cases rule: begin_as_cases)
    case (up j0 row)
    have j0: "j0 = demo_deleted" using up(1) unfolding st by blast
    have "r = Inr 2" using up(2) unfolding j0 by (simp add: demo_deleted_def)
    moreover have "j_faults j1 = j_faults demo_deleted" unfolding up(8) j0 by (simp add: begin_file_faults)
    moreover have "j_faults demo_deleted = []" by (simp add: demo_deleted_def empty_journal_def)
    ultimately show ?thesis by simp
  next
    case down
    then show ?thesis unfolding st by blast
  qed
  then have r: "r = Inr 2" and f: "j_faults j1 = []" by simp_all
  have "fst (complete demo_je 2 j1) = Inr ()" by (simp add: complete_def statement_def f Let_def)
  then obtain j2 where c: "rec_complete ?rc 2 j1 = (Inr (), j2)" by (cases "complete demo_je 2 j1") (auto simp: as_node_def)
  define pl where "pl = plan_of demo_ck demo_fs demo_undo \<lparr>lf_refused = [], lf_applied = [], lf_warnings = []\<rparr> [(''n'', demo_buf)]"
  have pf: "pl_touched pl = [(''n'', demo_buf)]" "lf_applied (pl_leaks pl) = []" by (simp_all add: pl_def plan_of_def)
  note p = demo_prepare_of[OF chk demo_undo_run t, of ?rc demo_deleted, folded pl_def]
  obtain w1 where "commit demo_ck ?rc demo_root ''me'' demo_undo pl (demo_with demo_deleted) = (map_sum id (\<lambda>_. 2) (Inr ()), w1)"
    using demo_commit[OF b[unfolded r] c pf] by (elim exE conjE)
  then have "commit demo_ck ?rc demo_root ''me'' demo_undo pl (demo_with demo_deleted) = (Inr 2, w1)" by simp
  moreover have "er_dry_run demo_undo = False" "rv_node demo_revert = ''h''" "rv_author demo_revert = ''me''"
    "w_fs (demo_with demo_deleted) = demo_fs" "w_journal (demo_with demo_deleted) = demo_deleted"
    by (simp_all add: demo_undo_def demo_revert_def demo_with_def)
  ultimately show ?thesis
    by (simp add: revert_def demo_revert_edit apply_txn_def apply_inner_def bind_step_def p ret_def)
qed

theorem revert_restores_witness:
  "\<exists>out w' c m. revert demo_ck demo_je demo_root demo_revert default_limits ''host'' [demo_root] (demo_with demo_deleted)
     = (Inr out, w') \<and> fs_nodes (w_fs w') [''r'', ''n''] = Some (FileN c m)
     \<and> version_of zero_hash c = version_of zero_hash ''x''"
proof -
  obtain out w' where r: "revert demo_ck demo_je demo_root demo_revert default_limits ''host'' [demo_root]
      (demo_with demo_deleted) = (Inr out, w')" using demo_revert_apply by blast
  have w: "w_fs (demo_with demo_deleted) = demo_fs" "w_journal (demo_with demo_deleted) = demo_deleted"
    by (simp_all add: demo_with_def)
  let ?w = "demo_with demo_deleted" and ?bufs = "[(''n'', demo_buf)]"
  have e: "revert_edit demo_ck (w_fs ?w) demo_root demo_revert (w_journal ?w) ''host'' [demo_root] = Inr demo_undo"
    unfolding w by (rule demo_revert_edit)
  have ru: "run_ops demo_ck (as_node demo_je (rv_node demo_revert)) ?w demo_root default_limits demo_undo = Inr ?bufs"
    by (rule demo_undo_run)
  have "\<exists>t. txn demo_deleted (rv_txn_id demo_revert) = Some (t, j_files demo_deleted)"
    by (simp add: txn_def demo_deleted_def demo_revert_def files_of_def)
  then obtain t where t: "txn (w_journal ?w) (rv_txn_id demo_revert) = Some (t, j_files demo_deleted)"
    unfolding w by blast
  have d: "\<not> rv_dry_run demo_revert" "distinct (map tf_path (j_files demo_deleted))" "honest ?w" "cr_h demo_ck = zero_hash"
    by (simp_all add: demo_revert_def demo_deleted_def demo_with_def honest_def demo_ck_def)
  have m: "blobs_match (cr_h demo_ck) (w_journal ?w)"
    unfolding w d(4) by (simp add: blobs_match_def matched_def demo_deleted_def)
  have tt: "touched_of ?bufs = ?bufs" by (simp add: touched_of_def demo_buf_def)
  have u: "unmarked ?bufs" unfolding unmarked_def demo_buf_def by code_simp
  have u: "distinct (map (fb_abs \<circ> snd) (touched_of ?bufs))" "unmarked (touched_of ?bufs)"
    unfolding tt using u by simp_all
  let ?f = "\<lparr>tf_txn = 1, tf_path = ''n'', tf_old = Some (version_of zero_hash ''x''), tf_new = VERSION_ABSENT,
                   tf_added = 0, tf_removed = 1\<rparr>"
  have f: "?f \<in> set (j_files demo_deleted)" by (simp add: demo_deleted_def)
  note all = revert_restores[OF r d(1) e ru t d(2) m demo_real d(3) u, THEN conjunct2, THEN conjunct1]
  from bspec[OF all f] r show ?thesis by (simp add: w demo_create d(4))
qed

end
