(* ===== verification/Kaed_Query_Facts.thy ===== *)
theory Kaed_Query_Facts
  imports Kaed_History
begin

text \<open>
  What a query over the journal shows and leaves out, and what a diff can reveal.
\<close>

section \<open>Queries\<close>

definition txn_wanted :: "history_filter \<Rightarrow> journal \<Rightarrow> txn_row \<Rightarrow> bool" where
  "txn_wanted f j t \<longleftrightarrow> opt_eq (hf_root f) (tx_root t) \<and> opt_eq (hf_author f) (tx_author t)
     \<and> opt_since (hf_since f) (tx_started t)
     \<and> (case hf_path f of None \<Rightarrow> True | Some p \<Rightarrow> \<exists>x\<in>set (files_of j (tx_id t)). at_or_under p (tf_path x))"

definition failure_wanted :: "history_filter \<Rightarrow> failure_row \<Rightarrow> bool" where
  "failure_wanted f r \<longleftrightarrow> opt_eq (hf_root f) (fl_root r) \<and> opt_eq (hf_author f) (fl_author r)
     \<and> opt_since (hf_since f) (fl_failed r)
     \<and> (case hf_path f of None \<Rightarrow> True | Some p \<Rightarrow> sql_like (''%'' @ p @ ''%'') (fl_paths r))"

definition feedback_wanted :: "history_filter \<Rightarrow> feedback_row \<Rightarrow> bool" where
  "feedback_wanted f r \<longleftrightarrow> opt_eq (hf_author f) (fbk_author r) \<and> opt_since (hf_since f) (fbk_created r)"

definition event_wanted :: "history_filter \<Rightarrow> event_row \<Rightarrow> bool" where
  "event_wanted f r \<longleftrightarrow> opt_eq (hf_root f) (se_root (ev_event r)) \<and> opt_eq (hf_author f) (se_author (ev_event r))
     \<and> opt_since (hf_since f) (ev_created r)
     \<and> (case hf_path f of None \<Rightarrow> True | Some p \<Rightarrow> at_or_under p (se_path (ev_event r)))"

lemma newest_set: "set (newest k n rows) \<subseteq> set rows"
  unfolding newest_def using set_take_subset by fastforce

lemma newest_all: "length (newest k n rows) < n \<Longrightarrow> set (newest k n rows) = set rows"
  by (auto simp: newest_def)

lemma newest_length: "length (newest k n rows) \<le> n"
  by (simp add: newest_def)

lemma txns_set:
  "set (txns j f) \<subseteq> (\<lambda>t. (t, files_of j (tx_id t))) ` {t \<in> set (j_txns j). txn_wanted f j t}"
  "length (txns j f) < hf_limit f \<Longrightarrow>
     set (txns j f) = (\<lambda>t. (t, files_of j (tx_id t))) ` {t \<in> set (j_txns j). txn_wanted f j t}"
proof -
  have eq: "txns j f = map (\<lambda>t. (t, files_of j (tx_id t))) (newest tx_id (hf_limit f) (filter (txn_wanted f j) (j_txns j)))"
    unfolding txns_def txn_wanted_def[abs_def] ..
  show "set (txns j f) \<subseteq> (\<lambda>t. (t, files_of j (tx_id t))) ` {t \<in> set (j_txns j). txn_wanted f j t}"
    unfolding eq using newest_set[of tx_id "hf_limit f" "filter (txn_wanted f j) (j_txns j)"] by fastforce
  assume "length (txns j f) < hf_limit f"
  then show "set (txns j f) = (\<lambda>t. (t, files_of j (tx_id t))) ` {t \<in> set (j_txns j). txn_wanted f j t}"
    unfolding eq using newest_all[of tx_id "hf_limit f" "filter (txn_wanted f j) (j_txns j)"] by auto
qed

lemma feedback_set:
  "set (feedback_rows j f) \<subseteq> {r \<in> set (j_feedback j). feedback_wanted f r}"
  "length (feedback_rows j f) < hf_limit f \<Longrightarrow> set (feedback_rows j f) = {r \<in> set (j_feedback j). feedback_wanted f r}"
proof -
  have eq: "feedback_rows j f = newest fbk_id (hf_limit f) (filter (feedback_wanted f) (j_feedback j))"
    unfolding feedback_rows_def feedback_wanted_def[abs_def] ..
  show "set (feedback_rows j f) \<subseteq> {r \<in> set (j_feedback j). feedback_wanted f r}"
    unfolding eq using newest_set[of fbk_id "hf_limit f" "filter (feedback_wanted f) (j_feedback j)"] by auto
  assume "length (feedback_rows j f) < hf_limit f"
  then show "set (feedback_rows j f) = {r \<in> set (j_feedback j). feedback_wanted f r}"
    unfolding eq using newest_all[of fbk_id "hf_limit f" "filter (feedback_wanted f) (j_feedback j)"] by auto
qed

lemma events_set:
  "set (secret_events j f) \<subseteq> {r \<in> set (j_events j). event_wanted f r}"
  "length (secret_events j f) < hf_limit f \<Longrightarrow> set (secret_events j f) = {r \<in> set (j_events j). event_wanted f r}"
proof -
  have eq: "secret_events j f = newest ev_id (hf_limit f) (filter (event_wanted f) (j_events j))"
    unfolding secret_events_def event_wanted_def[abs_def] ..
  show "set (secret_events j f) \<subseteq> {r \<in> set (j_events j). event_wanted f r}"
    unfolding eq using newest_set[of ev_id "hf_limit f" "filter (event_wanted f) (j_events j)"] by auto
  assume "length (secret_events j f) < hf_limit f"
  then show "set (secret_events j f) = {r \<in> set (j_events j). event_wanted f r}"
    unfolding eq using newest_all[of ev_id "hf_limit f" "filter (event_wanted f) (j_events j)"] by auto
qed

lemma path_matches_all: "hf_path f = None \<Longrightarrow> path_matches f p"
  by (simp add: path_matches_def)

lemma split_str_nonempty: "split_str sep s \<noteq> []"
  by (subst split_str.simps) (auto split: option.split)

definition failure_hit :: "history_filter \<Rightarrow> failure_row \<Rightarrow> bool" where
  "failure_hit f r \<longleftrightarrow> (\<exists>p\<in>set (split_str '', '' (fl_paths r)). path_matches f p)"

definition failure_window :: "history_filter \<Rightarrow> nat" where
  "failure_window f = (if hf_path f = None then hf_limit f else hf_limit f * 4 + 32)"

lemma failures_eq:
  "failures j f = take (hf_limit f) (filter (failure_hit f)
     (newest fl_id (failure_window f) (filter (failure_wanted f) (j_failures j))))"
  unfolding failures_def failure_wanted_def[abs_def] failure_hit_def[abs_def] failure_window_def ..

lemma failure_hit_all: "hf_path f = None \<Longrightarrow> failure_hit f r"
  using split_str_nonempty[of "'', ''" "fl_paths r"] by (auto simp: failure_hit_def path_matches_all ex_in_conv)

lemma failures_set:
  "set (failures j f) \<subseteq> {r \<in> set (j_failures j). failure_wanted f r \<and> failure_hit f r}"
  "length (failures j f) < hf_limit f \<Longrightarrow>
     hf_path f = None \<or> length (filter (failure_wanted f) (j_failures j)) \<le> hf_limit f * 4 + 32 \<Longrightarrow>
     set (failures j f) = {r \<in> set (j_failures j). failure_wanted f r \<and> failure_hit f r}"
proof -
  let ?c = "filter (failure_wanted f) (j_failures j)"
  have "set (failures j f) \<subseteq> set (filter (failure_hit f) ?c)"
    unfolding failures_eq using newest_set[of fl_id _ ?c] set_take_subset by fastforce
  then show "set (failures j f) \<subseteq> {r \<in> set (j_failures j). failure_wanted f r \<and> failure_hit f r}" by auto
  assume l: "length (failures j f) < hf_limit f"
    and w: "hf_path f = None \<or> length ?c \<le> hf_limit f * 4 + 32"
  let ?n = "newest fl_id (failure_window f) ?c"
  have n: "failures j f = filter (failure_hit f) ?n"
    using l unfolding failures_eq length_take by (intro take_all) linarith
  have "set ?n = set ?c"
  proof (cases "hf_path f = None")
    case True
    have "filter (failure_hit f) ?n = ?n" by (simp add: filter_id_conv failure_hit_all[OF True])
    with l n have "length ?n < failure_window f" by (simp add: failure_window_def True)
    then show ?thesis by (rule newest_all)
  next
    case False
    with w have "length ?c \<le> failure_window f" unfolding failure_window_def if_not_P[OF False] by blast
    then show ?thesis by (simp add: newest_def)
  qed
  then show "set (failures j f) = {r \<in> set (j_failures j). failure_wanted f r \<and> failure_hit f r}"
    unfolding n set_filter by auto
qed

lemma by_time_facts:
  "set (by_time es) = set es" "length (by_time es) = length es"
  "sorted_wrt (\<lambda>a b. entry_time b \<le> entry_time a) (by_time es)"
proof -
  have "sorted (map entry_time (sort_key entry_time (rev es)))" by simp
  then show "sorted_wrt (\<lambda>a b. entry_time b \<le> entry_time a) (by_time es)"
    by (simp add: by_time_def sorted_wrt_rev sorted_wrt_map)
qed (simp_all add: by_time_def)

text \<open>The rows of the journal that a query asks for, as entries.\<close>

definition asked_for :: "journal_env \<Rightarrow> journal \<Rightarrow> rroot list \<Rightarrow> rstr \<Rightarrow> journal_query \<Rightarrow> hentry set" where
  "asked_for je j live host q =
     (let f = query_filter q; kinds = set (query_kinds q) in
      (if KTxn \<in> kinds
       then {txn_entry je live host (t, files_of j (tx_id t)) | t. t \<in> set (j_txns j) \<and> txn_wanted f j t} else {})
      \<union> (if KFailure \<in> kinds
         then {failure_entry je live host r | r. r \<in> set (j_failures j) \<and> failure_wanted f r \<and> failure_hit f r} else {})
      \<union> (if KFeedback \<in> kinds \<and> jq_path q = None \<and> jq_root q = None
         then {feedback_entry je r | r. r \<in> set (j_feedback j) \<and> feedback_wanted f r} else {})
      \<union> (if KSecret \<in> kinds
         then {secret_entry je live host r | r. r \<in> set (j_events j) \<and> event_wanted f r} else {}))"

lemma gathered_sound: "set (gathered je j live host q) \<subseteq> asked_for je j live host q"
  using txns_set(1)[of j "query_filter q"] failures_set(1)[of j "query_filter q"]
    feedback_set(1)[of j "query_filter q"] events_set(1)[of j "query_filter q"]
  unfolding gathered_def asked_for_def Let_def by (auto 0 3)

lemma set_if: "set (if c then map f xs else []) = (if c then f ` set xs else {})"
  by simp

lemma gathered_complete:
  assumes "length (gathered je j live host q) \<le> query_max q"
    and "jq_path q = None \<or> KFailure \<notin> set (query_kinds q)
      \<or> length (filter (failure_wanted (query_filter q)) (j_failures j)) \<le> (query_max q + 1) * 4 + 32"
  shows "set (gathered je j live host q) = asked_for je j live host q"
proof -
  let ?f = "query_filter q"
  have lim: "hf_limit ?f = query_max q + 1" "hf_path ?f = jq_path q" by (simp_all add: query_filter_def)
  have t: "set (txns j ?f) = (\<lambda>t. (t, files_of j (tx_id t))) ` {t \<in> set (j_txns j). txn_wanted ?f j t}"
    if "KTxn \<in> set (query_kinds q)"
    using assms(1) that lim(1) by (intro txns_set(2)) (simp add: gathered_def Let_def)
  have fl: "set (failures j ?f) = {r \<in> set (j_failures j). failure_wanted ?f r \<and> failure_hit ?f r}"
    if k: "KFailure \<in> set (query_kinds q)"
  proof (rule failures_set(2))
    show "length (failures j ?f) < hf_limit ?f" using assms(1) k lim(1) by (simp add: gathered_def Let_def)
    show "hf_path ?f = None \<or> length (filter (failure_wanted ?f) (j_failures j)) \<le> hf_limit ?f * 4 + 32"
      using assms(2) k unfolding lim by blast
  qed
  have fb: "set (feedback_rows j ?f) = {r \<in> set (j_feedback j). feedback_wanted ?f r}"
    if "KFeedback \<in> set (query_kinds q)" "jq_path q = None" "jq_root q = None"
    using assms(1) that lim(1) by (intro feedback_set(2)) (simp add: gathered_def Let_def)
  have ev: "set (secret_events j ?f) = {r \<in> set (j_events j). event_wanted ?f r}" if "KSecret \<in> set (query_kinds q)"
    using assms(1) that lim(1) by (intro events_set(2)) (simp add: gathered_def Let_def)
  have T: "(if KTxn \<in> set (query_kinds q) then txn_entry je live host ` set (txns j ?f) else {})
      = (if KTxn \<in> set (query_kinds q)
         then {txn_entry je live host (t, files_of j (tx_id t)) | t. t \<in> set (j_txns j) \<and> txn_wanted ?f j t} else {})"
    using t by (auto simp: image_iff)
  have F: "(if KFailure \<in> set (query_kinds q) then failure_entry je live host ` set (failures j ?f) else {})
      = (if KFailure \<in> set (query_kinds q)
         then {failure_entry je live host r | r. r \<in> set (j_failures j) \<and> failure_wanted ?f r \<and> failure_hit ?f r} else {})"
    using fl by (simp only: setcompr_eq_image) auto
  have B: "(if KFeedback \<in> set (query_kinds q) \<and> jq_path q = None \<and> jq_root q = None
         then feedback_entry je ` set (feedback_rows j ?f) else {})
      = (if KFeedback \<in> set (query_kinds q) \<and> jq_path q = None \<and> jq_root q = None
         then {feedback_entry je r | r. r \<in> set (j_feedback j) \<and> feedback_wanted ?f r} else {})"
    using fb by (auto simp: image_iff)
  have S: "(if KSecret \<in> set (query_kinds q) then secret_entry je live host ` set (secret_events j ?f) else {})
      = (if KSecret \<in> set (query_kinds q)
         then {secret_entry je live host r | r. r \<in> set (j_events j) \<and> event_wanted ?f r} else {})"
    using ev by (auto simp: image_iff)
  have "set (gathered je j live host q) =
      (if KTxn \<in> set (query_kinds q) then txn_entry je live host ` set (txns j ?f) else {})
      \<union> (if KFailure \<in> set (query_kinds q) then failure_entry je live host ` set (failures j ?f) else {})
      \<union> (if KFeedback \<in> set (query_kinds q) \<and> jq_path q = None \<and> jq_root q = None
         then feedback_entry je ` set (feedback_rows j ?f) else {})
      \<union> (if KSecret \<in> set (query_kinds q) then secret_entry je live host ` set (secret_events j ?f) else {})"
    unfolding gathered_def Let_def set_append set_if by (simp only: Un_assoc)
  then show ?thesis unfolding T F B S asked_for_def Let_def by blast
qed

text \<open>C14: What a journal query answers. The entries stand in the order of descending time, there are at
  most as many as asked for and never more than the ceiling, and each is the entry of a row of the
  store that the filters match, of a kind that was asked for. When the answer is not marked
  truncated, nothing is missing: every matching row is there. For a query by path that includes
  failures, as one without kinds does, this completeness holds as long as the failures whose column of
  paths contains the path somewhere, with the other filters, are not more than the window the store
  scans, four times the limit plus 32 rows; beyond it matching failures can be missing unmarked.\<close>
theorem journal_query_faithful:
  "sorted_wrt (\<lambda>a b. entry_time b \<le> entry_time a) (jr_entries (journal_query_result je j live host q))
   \<and> length (jr_entries (journal_query_result je j live host q)) \<le> max 1 (min (jq_max q) MAX_ENTRIES_CEILING)
   \<and> set (jr_entries (journal_query_result je j live host q)) \<subseteq> asked_for je j live host q
   \<and> (\<not> jr_truncated (journal_query_result je j live host q) \<and> (jq_path q = None \<or> KFailure \<notin> set (query_kinds q)
          \<or> length (filter (failure_wanted (query_filter q)) (j_failures j)) \<le> (query_max q + 1) * 4 + 32) \<longrightarrow>
        set (jr_entries (journal_query_result je j live host q)) = asked_for je j live host q)"
proof (intro conjI impI)
  let ?g = "gathered je j live host q"
  have e: "jr_entries (journal_query_result je j live host q) = take (query_max q) (by_time ?g)"
    and t: "jr_truncated (journal_query_result je j live host q) \<longleftrightarrow> query_max q < length ?g"
    by (simp_all add: journal_query_result_def Let_def)
  show "sorted_wrt (\<lambda>a b. entry_time b \<le> entry_time a) (jr_entries (journal_query_result je j live host q))"
    unfolding e by (rule sorted_wrt_take[OF by_time_facts(3)])
  show "length (jr_entries (journal_query_result je j live host q)) \<le> max 1 (min (jq_max q) MAX_ENTRIES_CEILING)"
    unfolding e by (simp add: query_max_def)
  show "set (jr_entries (journal_query_result je j live host q)) \<subseteq> asked_for je j live host q"
  proof -
    have "set (take (query_max q) (by_time ?g)) \<subseteq> set ?g"
      using set_take_subset[of "query_max q" "by_time ?g"] by (simp add: by_time_facts)
    then show ?thesis unfolding e by (rule subset_trans[OF _ gathered_sound])
  qed
  assume "\<not> jr_truncated (journal_query_result je j live host q) \<and> (jq_path q = None \<or> KFailure \<notin> set (query_kinds q)
          \<or> length (filter (failure_wanted (query_filter q)) (j_failures j)) \<le> (query_max q + 1) * 4 + 32)"
  with gathered_complete show "set (jr_entries (journal_query_result je j live host q)) = asked_for je j live host q"
    unfolding e t by (simp add: by_time_facts)
qed

text \<open>A store with two failures, at \<open>a\<close> and at \<open>ab\<close>: the query by path answers with the first.\<close>

definition demo_failure :: "rstr \<Rightarrow> int \<Rightarrow> failure_row" where
  "demo_failure p n =
     \<lparr>fl_id = n, fl_author = ''me'', fl_node = ''h'', fl_intent = None, fl_root = ''r'', fl_paths = p,
      fl_code = ''internal'', fl_message = [], fl_expected = None, fl_actual = None, fl_failed = ''t''\<rparr>"

definition demo_failures :: journal where
  "demo_failures = (empty_journal 30 0)\<lparr>j_failures := [demo_failure ''a'' 1, demo_failure ''ab'' 2]\<rparr>"

definition demo_path_query :: "nat \<Rightarrow> journal_query" where
  "demo_path_query n =
     \<lparr>jq_root = None, jq_path = Some ''a'', jq_author = None, jq_since = None, jq_kinds = [KFailure], jq_max = n\<rparr>"

lemma journal_query_faithful_witness:
  "set (jr_entries (journal_query_result demo_je demo_failures [demo_root] ''h'' (demo_path_query 20)))
     = {failure_entry demo_je [demo_root] ''h'' (demo_failure ''a'' 1)}"
proof -
  let ?q = "demo_path_query 20"
  have f: "failures demo_failures (query_filter ?q) = [demo_failure ''a'' 1]" by code_simp
  have l: "length (filter (failure_wanted (query_filter ?q)) (j_failures demo_failures)) \<le> (query_max ?q + 1) * 4 + 32"
    by (simp add: demo_failures_def)
  have k: "query_kinds ?q = [KFailure]" by (simp add: query_kinds_def demo_path_query_def)
  have "gathered demo_je demo_failures [demo_root] ''h'' ?q = [failure_entry demo_je [demo_root] ''h'' (demo_failure ''a'' 1)]"
    unfolding gathered_def Let_def k f by simp
  moreover have "query_max ?q = 20" by code_simp
  ultimately have t: "\<not> jr_truncated (journal_query_result demo_je demo_failures [demo_root] ''h'' ?q)"
    by (simp add: journal_query_result_def Let_def)
  have w: "failure_wanted (query_filter ?q) (demo_failure ''a'' 1)" "failure_hit (query_filter ?q) (demo_failure ''a'' 1)"
    "\<not> failure_hit (query_filter ?q) (demo_failure ''ab'' 2)" by code_simp+
  have "asked_for demo_je demo_failures [demo_root] ''h'' ?q = {failure_entry demo_je [demo_root] ''h'' (demo_failure ''a'' 1)}"
    using w by (auto simp: asked_for_def k demo_failures_def Let_def)
  with journal_query_faithful[of demo_je demo_failures "[demo_root]" "''h''" ?q] t l show ?thesis by simp
qed

section \<open>Diffs\<close>

lemma materialise_blob_Inr:
  assumes "materialise_blob h rel classified v j = Inr m"
  obtains c r where "blob j v = Some (c, r)" "\<not> has_ignore_marker c" "mt_version m = v"
    "mt_redacted m \<longleftrightarrow> classified \<or> r"
    "mt_text m = (if classified \<and> \<not> r then (case Kaed_Dotenv.parse c of Some f \<Rightarrow> redact h f | None \<Rightarrow> withheld) else c)"
    "mt_source m = ''journal_blob''"
proof -
  obtain c r where b: "blob j v = Some (c, r)" using assms by (auto simp: materialise_blob_def split: option.splits)
  with assms have "\<not> has_ignore_marker c" by (auto simp: materialise_blob_def split: if_splits)
  with assms b that[of c r] show thesis by (auto simp: materialise_blob_def split: if_splits)
qed

text \<open>What one side of a diff may show of a stored content.\<close>

definition sealed_text :: "hasher \<Rightarrow> rstr \<Rightarrow> rstr \<Rightarrow> bool" where
  "sealed_text h content shown \<longleftrightarrow>
     (case Kaed_Dotenv.parse content of Some f \<Rightarrow> shown = redact h f | None \<Rightarrow> shown = withheld)"

lemma history_diff_Inr:
  assumes "history_diff ck fs base rel a b j lm = Inr d"
  obtains ap ma mb where "resolve_creatable ck fs base rel = Inr ap"
    "materialise ck fs base rel (classified_by (cr_globs ck) (rr_classify base) ap \<noteq> None) a j lm = Inr ma"
    "materialise ck fs base rel (classified_by (cr_globs ck) (rr_classify base) ap \<noteq> None) b j lm = Inr mb"
    "d = \<lparr>df_diff = cr_udiff ck (mt_text ma) (mt_text mb) rel, df_path = rel,
          df_from_version = mt_version ma, df_to_version = mt_version mb,
          df_redacted = (mt_redacted ma \<or> mt_redacted mb),
          df_from_source = mt_source ma, df_to_source = mt_source mb\<rparr>"
proof -
  obtain ap where ap: "resolve_creatable ck fs base rel = Inr ap"
    using assms unfolding history_diff_def and_then_Inr[of "resolve_creatable ck fs base rel"] by blast
  let ?cl = "classified_by (cr_globs ck) (rr_classify base) ap \<noteq> None"
  obtain ma where ma: "materialise ck fs base rel ?cl a j lm = Inr ma"
    using assms unfolding history_diff_def ap and_then_simps Let_def
      and_then_Inr[of "materialise ck fs base rel ?cl a j lm"] by blast
  obtain mb where mb: "materialise ck fs base rel ?cl b j lm = Inr mb"
    using assms unfolding history_diff_def ap and_then_simps Let_def ma
      and_then_Inr[of "materialise ck fs base rel ?cl b j lm"] by blast
  show thesis
    using assms that[OF ap ma mb] unfolding history_diff_def ap and_then_simps Let_def ma mb by simp
qed

lemma blob_side_seals:
  assumes "materialise_blob h rel (rule \<noteq> None) v j = Inr m"
  shows "mt_version m = v" "mt_source m = ''journal_blob''"
    "\<exists>c r. blob j (mt_version m) = Some (c, r) \<and> \<not> has_ignore_marker c
           \<and> (mt_redacted m \<longleftrightarrow> r \<or> rule \<noteq> None)
           \<and> (if r \<or> rule = None then mt_text m = c else sealed_text h c (mt_text m))"
proof -
  obtain c r where c: "blob j v = Some (c, r)" "\<not> has_ignore_marker c" "mt_version m = v"
    "mt_redacted m \<longleftrightarrow> rule \<noteq> None \<or> r"
    "mt_text m = (if rule \<noteq> None \<and> \<not> r then (case Kaed_Dotenv.parse c of Some f \<Rightarrow> redact h f | None \<Rightarrow> withheld) else c)"
    "mt_source m = ''journal_blob''"
    by (rule materialise_blob_Inr[OF assms])
  then show "mt_version m = v" "mt_source m = ''journal_blob''" by simp_all
  show "\<exists>c r. blob j (mt_version m) = Some (c, r) \<and> \<not> has_ignore_marker c
           \<and> (mt_redacted m \<longleftrightarrow> r \<or> rule \<noteq> None)
           \<and> (if r \<or> rule = None then mt_text m = c else sealed_text h c (mt_text m))"
  proof (intro exI[of _ c] exI[of _ r] conjI)
    show "if r \<or> rule = None then mt_text m = c else sealed_text h c (mt_text m)"
      unfolding c(5) sealed_text_def by (cases "Kaed_Dotenv.parse c") simp_all
  qed (use c in auto)
qed

lemma materialise_stored:
  assumes "materialise ck fs base rel classified sd j lm = Inr m" "sd \<noteq> SCurrent"
  shows "\<exists>v. materialise_blob (cr_h ck) rel classified v j = Inr m
    \<and> (case sd of SVersion u \<Rightarrow> v = u | STxn n \<Rightarrow> txn_version_for j n rel = Inr v | SCurrent \<Rightarrow> False)"
proof (cases sd)
  case (SVersion v)
  with assms(1) show ?thesis unfolding materialise_def SVersion side.case by blast
next
  case (STxn n)
  with assms(1) show ?thesis unfolding materialise_def STxn side.case and_then_Inr by blast
qed (use assms(2) in simp)

lemma current_side_seals:
  assumes "materialise ck fs base rel classified SCurrent j lm = Inr m"
  shows "\<exists>l. load_text ck fs base rel lm = Inr l \<and> mt_version m = ld_version l \<and> mt_source m = ''working_tree''
           \<and> (mt_redacted m \<longleftrightarrow> classified_by (cr_globs ck) (rr_classify base) (ld_abs l) \<noteq> None)
           \<and> (if mt_redacted m then sealed_text (cr_h ck) (ld_content l) (mt_text m) else mt_text m = ld_content l)"
proof -
  obtain l where l: "load_text ck fs base rel lm = Inr l"
    and "Inr \<lparr>mt_text = (case ld_secrecy l of Plain \<Rightarrow> ld_content l | ClassifiedDotenv _ f \<Rightarrow> redact (cr_h ck) f),
                 mt_version = ld_version l, mt_redacted = (ld_secrecy l \<noteq> Plain), mt_source = ''working_tree''\<rparr> = Inr m"
    using assms unfolding materialise_def side.case and_then_Inr by blast
  then have m: "mt_redacted m \<longleftrightarrow> ld_secrecy l \<noteq> Plain" "mt_version m = ld_version l" "mt_source m = ''working_tree''"
    "mt_text m = (case ld_secrecy l of Plain \<Rightarrow> ld_content l | ClassifiedDotenv _ f \<Rightarrow> redact (cr_h ck) f)" by auto
  obtain s: "secrecy_of rel (classified_by (cr_globs ck) (rr_classify base) (ld_abs l)) (ld_content l) = Inr (ld_secrecy l)"
    by (rule load_text_Inr[OF l])
  have p: "ld_secrecy l = Plain \<longleftrightarrow> classified_by (cr_globs ck) (rr_classify base) (ld_abs l) = None"
    using s by (cases "classified_by (cr_globs ck) (rr_classify base) (ld_abs l)")
      (auto simp: secrecy_of_def split: option.splits if_splits)
  show ?thesis
  proof (intro exI[of _ l] conjI l m(2,3))
    show "mt_redacted m \<longleftrightarrow> classified_by (cr_globs ck) (rr_classify base) (ld_abs l) \<noteq> None" using m(1) p by simp
    show "if mt_redacted m then sealed_text (cr_h ck) (ld_content l) (mt_text m) else mt_text m = ld_content l"
      using m(1,4) load_text_guard(4)[OF l] by (cases "ld_secrecy l") (simp_all add: sealed_text_def)
  qed
qed

text \<open>What a side of a diff is made of, given the path the request resolves to.\<close>

definition side_seals ::
  "crates \<Rightarrow> fsys \<Rightarrow> rroot \<Rightarrow> rstr \<Rightarrow> path \<Rightarrow> journal \<Rightarrow> limits \<Rightarrow> side \<Rightarrow> material \<Rightarrow> bool" where
  "side_seals ck fs base rel ap j lm sd m \<longleftrightarrow>
     (if sd = SCurrent
      then mt_source m = ''working_tree''
        \<and> (\<exists>l. load_text ck fs base rel lm = Inr l \<and> mt_version m = ld_version l
             \<and> (mt_redacted m \<longleftrightarrow> classified_by (cr_globs ck) (rr_classify base) (ld_abs l) \<noteq> None)
             \<and> (if mt_redacted m then sealed_text (cr_h ck) (ld_content l) (mt_text m) else mt_text m = ld_content l))
      else mt_source m = ''journal_blob''
        \<and> (case sd of SVersion u \<Rightarrow> mt_version m = u | STxn n \<Rightarrow> txn_version_for j n rel = Inr (mt_version m)
           | SCurrent \<Rightarrow> False)
        \<and> (\<exists>c r. blob j (mt_version m) = Some (c, r) \<and> \<not> has_ignore_marker c
             \<and> (mt_redacted m \<longleftrightarrow> r \<or> classified_by (cr_globs ck) (rr_classify base) ap \<noteq> None)
             \<and> (if r \<or> classified_by (cr_globs ck) (rr_classify base) ap = None then mt_text m = c
                else sealed_text (cr_h ck) c (mt_text m))))"

lemma materialise_seals:
  assumes "materialise ck fs base rel (classified_by (cr_globs ck) (rr_classify base) ap \<noteq> None) sd j lm = Inr m"
  shows "side_seals ck fs base rel ap j lm sd m"
proof (cases "sd = SCurrent")
  case True
  show ?thesis unfolding side_seals_def using True current_side_seals[OF assms[unfolded True]] by auto
next
  case False
  obtain v where v: "materialise_blob (cr_h ck) rel (classified_by (cr_globs ck) (rr_classify base) ap \<noteq> None) v j = Inr m"
    "case sd of SVersion u \<Rightarrow> v = u | STxn n \<Rightarrow> txn_version_for j n rel = Inr v | SCurrent \<Rightarrow> False"
    using materialise_stored[OF assms False] by blast
  note b = blob_side_seals[OF v(1)]
  have "case sd of SVersion u \<Rightarrow> mt_version m = u | STxn n \<Rightarrow> txn_version_for j n rel = Inr (mt_version m) | SCurrent \<Rightarrow> False"
    using v(2) b(1) by (cases sd) simp_all
  with False b(2,3) show ?thesis unfolding side_seals_def if_not_P[OF False] by blast
qed

text \<open>C15: The single door between stored content and a diff. The text a diff returns is computed from two
  materials and from nothing else, and it names their versions, their sources and whether one of them
  is redacted. Each material is sealed: under a path that is classified today, a side taken from the
  store, which is the version asked for or the one the named transaction produced, is marked redacted
  and shows either what the store already held as a redacted rendering, or the redacted rendering of
  the stored content, or the notice that it is withheld, never the content itself; stored content that
  carries the in-file marker is not shown at all. The side of the working tree is the redacted
  rendering exactly when a rule classifies the file it resolves to.\<close>
theorem diff_seals:
  assumes "history_diff ck fs base rel a b j lm = Inr d"
  shows "\<exists>ap ma mb. resolve_creatable ck fs base rel = Inr ap
    \<and> side_seals ck fs base rel ap j lm a ma \<and> side_seals ck fs base rel ap j lm b mb
    \<and> df_diff d = cr_udiff ck (mt_text ma) (mt_text mb) rel \<and> df_path d = rel
    \<and> df_from_version d = mt_version ma \<and> df_to_version d = mt_version mb
    \<and> (df_redacted d \<longleftrightarrow> mt_redacted ma \<or> mt_redacted mb)
    \<and> df_from_source d = mt_source ma \<and> df_to_source d = mt_source mb"
proof -
  obtain ap ma mb where ap: "resolve_creatable ck fs base rel = Inr ap"
    and two: "materialise ck fs base rel (classified_by (cr_globs ck) (rr_classify base) ap \<noteq> None) a j lm = Inr ma"
    "materialise ck fs base rel (classified_by (cr_globs ck) (rr_classify base) ap \<noteq> None) b j lm = Inr mb"
    and d: "d = \<lparr>df_diff = cr_udiff ck (mt_text ma) (mt_text mb) rel, df_path = rel,
          df_from_version = mt_version ma, df_to_version = mt_version mb,
          df_redacted = (mt_redacted ma \<or> mt_redacted mb),
          df_from_source = mt_source ma, df_to_source = mt_source mb\<rparr>"
    by (rule history_diff_Inr[OF assms])
  show ?thesis
    by (intro exI[of _ ap] exI[of _ ma] exI[of _ mb] conjI ap materialise_seals[OF two(1)] materialise_seals[OF two(2)])
      (simp_all add: d)
qed

text \<open>A blob that predates the rule which classifies its path: stored plain, shown sealed.\<close>

definition demo_legacy :: journal where
  "demo_legacy = (empty_journal 30 0)
     \<lparr>j_blobs := [\<lparr>bl_version = ''v'', bl_content = ''K=v'', bl_created = ''t'', bl_redacted = False\<rparr>]\<rparr>"

lemma demo_legacy_path:
  "resolve_creatable demo_ck demo_fs demo_root ''.env'' = Inr [''r'', ''.env'']"
  "classified_by (cr_globs demo_ck) (rr_classify demo_root) [''r'', ''.env''] \<noteq> None"
  by code_simp+

lemma demo_legacy_side: "\<exists>m. materialise demo_ck demo_fs demo_root ''.env'' True (SVersion ''v'') demo_legacy default_limits = Inr m"
proof -
  have "valid_utf8 ''K=v''" "\<not> has_ignore_marker ''K=v''" by code_simp+
  then have "\<exists>m. materialise_blob (cr_h demo_ck) ''.env'' True ''v'' demo_legacy = Inr m"
    by (simp add: materialise_blob_def blob_def demo_legacy_def)
  then show ?thesis unfolding materialise_def side.case .
qed

lemma diff_seals_witness:
  "\<exists>d s. history_diff demo_ck demo_fs demo_root ''.env'' (SVersion ''v'') (SVersion ''v'') demo_legacy default_limits = Inr d
     \<and> df_redacted d \<and> sealed_text (cr_h demo_ck) ''K=v'' s \<and> df_diff d = cr_udiff demo_ck s s ''.env''"
proof -
  have c: "(classified_by (cr_globs demo_ck) (rr_classify demo_root) [''r'', ''.env''] \<noteq> None) = True"
    using demo_legacy_path(2) by simp
  obtain m where m: "materialise demo_ck demo_fs demo_root ''.env'' True (SVersion ''v'') demo_legacy default_limits = Inr m"
    using demo_legacy_side by blast
  obtain d where d: "history_diff demo_ck demo_fs demo_root ''.env'' (SVersion ''v'') (SVersion ''v'') demo_legacy
      default_limits = Inr d"
    unfolding history_diff_def demo_legacy_path(1) and_then_simps Let_def c m by blast
  have "valid_utf8 ''K=v''" by code_simp
  then have bl: "blob demo_legacy ''v'' = Some (''K=v'', False)" by (simp add: blob_def demo_legacy_def del: valid_utf8.simps)
  have side: "mt_redacted x \<and> sealed_text (cr_h demo_ck) ''K=v'' (mt_text x)"
    if "side_seals demo_ck demo_fs demo_root ''.env'' [''r'', ''.env''] demo_legacy default_limits (SVersion ''v'') x" for x
    using that c bl by (auto simp: side_seals_def)
  obtain ma mb where two: "side_seals demo_ck demo_fs demo_root ''.env'' [''r'', ''.env''] demo_legacy default_limits (SVersion ''v'') ma"
    "side_seals demo_ck demo_fs demo_root ''.env'' [''r'', ''.env''] demo_legacy default_limits (SVersion ''v'') mb"
    and df: "df_diff d = cr_udiff demo_ck (mt_text ma) (mt_text mb) ''.env''" "df_redacted d \<longleftrightarrow> mt_redacted ma \<or> mt_redacted mb"
    using diff_seals[OF d] unfolding demo_legacy_path(1) by (elim exE conjE) (metis sum.inject(2))
  note s = side[OF two(1)] side[OF two(2)]
  have "mt_text ma = mt_text mb" using s by (auto simp: sealed_text_def split: option.splits)
  with d df s show ?thesis by auto
qed

section \<open>The window over failures\<close>

text \<open>
  A query by path takes the newest failures whose column of paths contains the path somewhere, a
  bounded number of them, and only then keeps those at or under the path. Forty newer failures at
  \<open>ab\<close> hide the one at \<open>a\<close>, and the answer is not marked truncated.
\<close>

definition demo_window :: journal where
  "demo_window = (empty_journal 30 0)\<lparr>j_failures := demo_failure ''a'' 1 # map (demo_failure ''ab'') [2..41]\<rparr>"

lemma failure_window_misses:
  "jr_entries (journal_query_result demo_je demo_window [] ''h'' (demo_path_query 1)) = []
   \<and> \<not> jr_truncated (journal_query_result demo_je demo_window [] ''h'' (demo_path_query 1))
   \<and> asked_for demo_je demo_window [] ''h'' (demo_path_query 1) \<noteq> {}"
proof -
  have "failures demo_window (query_filter (demo_path_query 1)) = []"
    by code_simp
  then have g: "gathered demo_je demo_window [] ''h'' (demo_path_query 1) = []"
    by (simp add: gathered_def query_kinds_def demo_path_query_def Let_def)
  have w: "failure_wanted (query_filter (demo_path_query 1)) (demo_failure ''a'' 1)
      \<and> failure_hit (query_filter (demo_path_query 1)) (demo_failure ''a'' 1)"
    by code_simp
  have "demo_failure ''a'' 1 \<in> set (j_failures demo_window)" by (simp add: demo_window_def)
  with w have "failure_entry demo_je [] ''h'' (demo_failure ''a'' 1) \<in> asked_for demo_je demo_window [] ''h'' (demo_path_query 1)"
    by (auto simp: asked_for_def query_kinds_def demo_path_query_def Let_def)
  with g show ?thesis by (auto simp: journal_query_result_def Let_def by_time_def)
qed

end
