(* ===== verification/Kaed_Secret_Tool.thy ===== *)
theory Kaed_Secret_Tool
  imports Kaed_Audit Kaed_Shapes
begin

text \<open>
  \<open>src/secret_tool.rs\<close>: the life cycle of a secret over the edit engine and the journal, and the one
  operation that gives a value out. The entropy of the operating system is a parameter, as for
  \<open>mint\<close>; a call sees the files and the journal through the world of the engine.
\<close>

section \<open>The context of a call\<close>

record resolved_secrets =
  sx_allow_reveal :: bool
  sx_shapes :: "(rstr \<times> shape) list"

record secret_ctx =
  cx_root :: rroot
  cx_roots :: "rroot list"
  cx_limits :: limits
  cx_author :: rstr
  cx_node :: rstr
  cx_secrets :: resolved_secrets

record handle =
  hd_root :: rstr
  hd_path :: rstr
  hd_key :: rstr
  hd_digest :: "rstr option"

definition handle_line :: "handle \<Rightarrow> rstr" where
  "handle_line hl =
     hd_root hl @ ''/'' @ hd_path hl @ ''#'' @ hd_key hl @ (case hd_digest hl of Some d \<Rightarrow> ''@'' @ d | None \<Rightarrow> [])"

text \<open>The digest of a value, withheld below the entropy floor.\<close>

definition floor_digest :: "hasher \<Rightarrow> rstr \<Rightarrow> rstr option" where
  "floor_digest h v = (if clears_floor v then Some (digest_of h v) else None)"

text \<open>The bare journal as a recorder: it stamps the unknown node.\<close>

definition bare_recorder :: "journal_env \<Rightarrow> journal recorder" where
  "bare_recorder je = as_node je UNKNOWN_NODE"

section \<open>Loading\<close>

definition load_file :: "crates \<Rightarrow> fsys \<Rightarrow> secret_ctx \<Rightarrow> rstr \<Rightarrow> (bool \<times> dotenv_file) res" where
  "load_file ck fs cx path =
     and_then (load_text ck fs (cx_root cx) path (cx_limits cx)) (\<lambda>l.
     case ld_secrecy l of
       ClassifiedDotenv _ file \<Rightarrow> Inr (True, file)
     | Plain \<Rightarrow> (case Kaed_Dotenv.parse (ld_content l) of
                  Some file \<Rightarrow> Inr (False, file)
                | None \<Rightarrow> Inl (invalid_input (Msg ''not dotenv-shaped'' [path]))))"

definition load_entry :: "crates \<Rightarrow> fsys \<Rightarrow> secret_ctx \<Rightarrow> rstr \<Rightarrow> rstr \<Rightarrow> (bool \<times> entry) res" where
  "load_entry ck fs cx path key =
     and_then (load_file ck fs cx path) (\<lambda>(classified, file).
     case get_entry file key of
       Some e \<Rightarrow> Inr (classified, e)
     | None \<Rightarrow> Inl (with_data (JObj [(''reason'', JStr ''no_such_key''), (''path'', JStr path), (''key'', JStr key)])
                      (not_found (Msg ''no such key'' [path, key]))))"

definition resolve_shape :: "secret_ctx \<Rightarrow> rstr \<Rightarrow> shape res" where
  "resolve_shape cx spec =
     (case map_of (sx_shapes (cx_secrets cx)) spec of
        Some sh \<Rightarrow> Inr sh
      | None \<Rightarrow> map_err
          (\<lambda>e. if sx_shapes (cx_secrets cx) = [] then e
               else new_error (code e) (Msg ''named shapes on this host'' 
                  (template (message e) # args (message e) @ map fst (sx_shapes (cx_secrets cx)))))
          (parse_spec spec))"

section \<open>Describe\<close>

record describe_result =
  de_key :: rstr
  de_shape :: rstr
  de_len :: nat
  de_digest :: "rstr option"
  de_placeholder :: "rstr option"
  de_handle :: handle
  de_handle_line :: rstr
  de_rotatable :: bool

definition describe :: "crates \<Rightarrow> fsys \<Rightarrow> secret_ctx \<Rightarrow> rstr \<Rightarrow> rstr \<Rightarrow> describe_result res" where
  "describe ck fs cx path key =
     and_then (load_entry ck fs cx path key) (\<lambda>(_, e).
     let v = e_value e; d = floor_digest (cr_h ck) v;
         hl = \<lparr>hd_root = rr_name (cx_root cx), hd_path = path, hd_key = key, hd_digest = d\<rparr> in
     Inr \<lparr>de_key = key, de_shape = shape_of v, de_len = char_count v, de_digest = d,
          de_placeholder = (if v = [] then None else Some (placeholder (cr_h ck) key v)),
          de_handle = hl, de_handle_line = handle_line hl,
          de_rotatable = (detect v \<noteq> None)\<rparr>)"

section \<open>Writing a value\<close>

text \<open>The edit that sets one key of one file, with its old value declared as dropped or not.\<close>

definition set_request :: "base_version list \<Rightarrow> edit_op list \<Rightarrow> rstr \<Rightarrow> bool \<Rightarrow> rstr list \<Rightarrow> edit_request" where
  "set_request bases ops intent show_diff drops =
     \<lparr>er_base = bases, er_ops = ops, er_dry_run = False, er_return_diff = show_diff, er_intent = Some intent,
      er_drop_keys = drops, er_allow_secrets = [], er_drop_paths = []\<rparr>"

definition secret_row ::
  "journal_env \<Rightarrow> secret_ctx \<Rightarrow> rstr \<Rightarrow> rstr \<Rightarrow> rstr \<Rightarrow> rstr \<Rightarrow> rstr option \<Rightarrow> rstr option \<Rightarrow> bool \<Rightarrow> rstr option
    \<Rightarrow> int option \<Rightarrow> rstr option \<Rightarrow> secret_event" where
  "secret_row je cx action base path key old new disclosed dest txn_id intent =
     \<lparr>se_author = cx_author cx, se_node = cx_node cx, se_action = action, se_root = base, se_path = path,
      se_key = key, se_old_digest = old, se_new_digest = new, se_disclosed = disclosed, se_destination = dest,
      se_txn_id = txn_id, se_intent = map_option (redact_note je) intent\<rparr>"

definition log_event :: "journal_env \<Rightarrow> secret_event \<Rightarrow> (journal, int) step" where
  "log_event je e w = (let (r, j) = add_secret_event je e (w_journal w) in (r, w\<lparr>w_journal := j\<rparr>))"

record generate_params =
  gp_path :: rstr
  gp_key :: rstr
  gp_version :: rstr
  gp_shape :: rstr
  gp_comment :: "rstr option"
  gp_intent :: "rstr option"

record generate_result =
  gr_txn_id :: "int option"
  gr_key :: rstr
  gr_shape :: rstr
  gr_placeholder :: rstr
  gr_handle :: handle
  gr_handle_line :: rstr
  gr_files :: "file_change list"
  gr_diff :: "rstr option"
  gr_warnings :: "msg list"

definition generate_edit :: "generate_params \<Rightarrow> shape \<Rightarrow> rstr \<Rightarrow> edit_request" where
  "generate_edit p sh v =
     set_request [\<lparr>bv_path = gp_path p, bv_version = gp_version p\<rparr>]
       [EnvSet (gp_path p) (gp_key p) (Some v) None (gp_comment p)]
       (case gp_intent p of Some i \<Rightarrow> i | None \<Rightarrow> ''generate '' @ gp_key p @ '' ('' @ shape_str sh @ '')'')
       True []"

definition generate ::
  "crates \<Rightarrow> journal_env \<Rightarrow> entropy \<Rightarrow> secret_ctx \<Rightarrow> generate_params \<Rightarrow> (journal, generate_result) step" where
  "generate ck je en cx p w =
     bind_step (lift_res (resolve_shape cx (gp_shape p))) (\<lambda>sh.
     bind_step (lift_res (load_file ck (w_fs w) cx (gp_path p))) (\<lambda>(_, file).
     if get_entry file (gp_key p) \<noteq> None
     then lift_res (Inl (invalid_input (Msg ''key already exists'' [gp_path p, gp_key p])))
     else bind_step (lift_res (mint en sh)) (\<lambda>v.
     bind_step (apply_txn ck (bare_recorder je) (cx_root cx) (generate_edit p sh v) (cx_limits cx) (cx_author cx)) (\<lambda>out.
     let d = floor_digest (cr_h ck) v;
         hl = \<lparr>hd_root = rr_name (cx_root cx), hd_path = gp_path p, hd_key = gp_key p, hd_digest = d\<rparr> in
     bind_step (log_event je (secret_row je cx ''generate'' (rr_name (cx_root cx)) (gp_path p) (gp_key p) None d
                  False None (eo_txn_id out) (gp_intent p))) (\<lambda>_.
     ret \<lparr>gr_txn_id = eo_txn_id out, gr_key = gp_key p, gr_shape = shape_str sh,
          gr_placeholder = placeholder (cr_h ck) (gp_key p) v,
          gr_handle = hl, gr_handle_line = handle_line hl,
          gr_files = eo_files out, gr_diff = eo_diff out, gr_warnings = eo_warnings out\<rparr>))))) w"

section \<open>Rotate\<close>

record also_target =
  at_root :: "rstr option"
  at_path :: rstr
  at_key :: "rstr option"
  at_version :: rstr

record rotated_target =
  rt_root :: rstr
  rt_path :: rstr
  rt_key :: rstr
  rt_applied :: bool
  rt_error :: "json option"
  rt_txn_id :: "int option"

record rotate_params =
  rp_path :: rstr
  rp_key :: rstr
  rp_version :: rstr
  rp_shape :: "rstr option"
  rp_also :: "also_target list"
  rp_intent :: "rstr option"

record rotate_result =
  ro_txn_id :: "int option"
  ro_key :: rstr
  ro_shape :: rstr
  ro_old_digest :: "rstr option"
  ro_new_digest :: "rstr option"
  ro_placeholder :: rstr
  ro_handle :: handle
  ro_handle_line :: rstr
  ro_targets :: "rotated_target list"
  ro_diff :: "rstr option"
  ro_warnings :: "msg list"

record rotation =
  rn_base :: "base_version list"
  rn_ops :: "edit_op list"
  rn_drop :: "rstr list"
  rn_targets :: "rotated_target list"

definition rotated :: "secret_ctx \<Rightarrow> rstr \<Rightarrow> rstr \<Rightarrow> rotated_target" where
  "rotated cx path key =
     \<lparr>rt_root = rr_name (cx_root cx), rt_path = path, rt_key = key, rt_applied = True, rt_error = None, rt_txn_id = None\<rparr>"

definition rotate_start :: "secret_ctx \<Rightarrow> rotate_params \<Rightarrow> rstr \<Rightarrow> rotation" where
  "rotate_start cx p v =
     \<lparr>rn_base = [\<lparr>bv_path = rp_path p, bv_version = rp_version p\<rparr>],
      rn_ops = [EnvSet (rp_path p) (rp_key p) (Some v) None None], rn_drop = [rp_key p],
      rn_targets = [rotated cx (rp_path p) (rp_key p)]\<rparr>"

definition rotate_also :: "secret_ctx \<Rightarrow> rotate_params \<Rightarrow> rstr \<Rightarrow> also_target \<Rightarrow> rotation \<Rightarrow> rotation res" where
  "rotate_also cx p v t rn =
     (if \<exists>r. at_root t = Some r \<and> r \<noteq> rr_name (cx_root cx)
      then Inl (invalid_input (Msg ''rotate_local only takes targets on the addressed root'' [at_path t]))
      else
        let key = (case at_key t of Some k \<Rightarrow> k | None \<Rightarrow> rp_key p);
            add = (\<lambda>bases. rn\<lparr>rn_base := bases,
                     rn_ops := rn_ops rn @ [EnvSet (at_path t) key (Some v) None None],
                     rn_drop := rn_drop rn @ [key], rn_targets := rn_targets rn @ [rotated cx (at_path t) key]\<rparr>)
        in if \<exists>b\<in>set (rn_base rn). bv_path b = at_path t
           then if \<exists>b\<in>set (rn_base rn). bv_path b = at_path t \<and> bv_version b \<noteq> at_version t
                then Inl (invalid_input (Msg ''version disagrees with an earlier declaration'' [at_path t]))
                else Inr (add (rn_base rn))
           else Inr (add (rn_base rn @ [\<lparr>bv_path = at_path t, bv_version = at_version t\<rparr>])))"

definition rotate_shape :: "secret_ctx \<Rightarrow> rotate_params \<Rightarrow> rstr \<Rightarrow> shape res" where
  "rotate_shape cx p v =
     (case rp_shape p of
        Some s \<Rightarrow> resolve_shape cx s
      | None \<Rightarrow> ok_or (detect v) (invalid_input (Msg ''no detectable shape'' [rp_path p, rp_key p, shape_of v])))"

definition rotate_edit :: "rotate_params \<Rightarrow> shape \<Rightarrow> rotation \<Rightarrow> edit_request" where
  "rotate_edit p sh rn =
     set_request (rn_base rn) (rn_ops rn)
       (case rp_intent p of Some i \<Rightarrow> i | None \<Rightarrow> ''rotate '' @ rp_key p @ '' ('' @ shape_str sh @ '')'')
       True (remdups_adj (sort (rn_drop rn)))"

fun log_rotations ::
  "journal_env \<Rightarrow> secret_ctx \<Rightarrow> rstr option \<Rightarrow> rstr option \<Rightarrow> int option \<Rightarrow> rstr option \<Rightarrow> rotated_target list
    \<Rightarrow> (journal, unit) step" where
  "log_rotations je cx old new txn_id intent [] = ret ()"
| "log_rotations je cx old new txn_id intent (t # ts) =
     bind_step (log_event je (secret_row je cx ''rotate'' (rt_root t) (rt_path t) (rt_key t) old new False None
                  txn_id intent)) (\<lambda>_. log_rotations je cx old new txn_id intent ts)"

definition rotate_local ::
  "crates \<Rightarrow> journal_env \<Rightarrow> entropy \<Rightarrow> secret_ctx \<Rightarrow> rotate_params \<Rightarrow> (journal, rotate_result \<times> rstr) step" where
  "rotate_local ck je en cx p w =
     bind_step (lift_res (load_entry ck (w_fs w) cx (rp_path p) (rp_key p))) (\<lambda>(_, e).
     if e_value e = []
     then lift_res (Inl (invalid_input (Msg ''empty, nothing to rotate'' [rp_path p, rp_key p])))
     else bind_step (lift_res (rotate_shape cx p (e_value e))) (\<lambda>sh.
     let old = floor_digest (cr_h ck) (e_value e) in
     bind_step (lift_res (mint en sh)) (\<lambda>v.
     let new = floor_digest (cr_h ck) v in
     bind_step (lift_res (fold_res (rotate_also cx p v) (rp_also p) (rotate_start cx p v))) (\<lambda>rn.
     bind_step (apply_txn ck (bare_recorder je) (cx_root cx) (rotate_edit p sh rn) (cx_limits cx) (cx_author cx)) (\<lambda>out.
     let hl = \<lparr>hd_root = rr_name (cx_root cx), hd_path = rp_path p, hd_key = rp_key p, hd_digest = new\<rparr>;
         targets = map (\<lambda>t. t\<lparr>rt_txn_id := eo_txn_id out\<rparr>) (rn_targets rn) in
     bind_step (log_rotations je cx old new (eo_txn_id out) (rp_intent p) targets) (\<lambda>_.
     ret (\<lparr>ro_txn_id = eo_txn_id out, ro_key = rp_key p, ro_shape = shape_str sh, ro_old_digest = old,
           ro_new_digest = new, ro_placeholder = placeholder (cr_h ck) (rp_key p) v,
           ro_handle = hl, ro_handle_line = handle_line hl,
           ro_targets = targets, ro_diff = eo_diff out, ro_warnings = eo_warnings out\<rparr>, v))))))) w"

definition write_value_local ::
  "crates \<Rightarrow> journal_env \<Rightarrow> secret_ctx \<Rightarrow> rstr \<Rightarrow> rstr \<Rightarrow> rstr \<Rightarrow> rstr \<Rightarrow> rstr option \<Rightarrow> (journal, int option) step" where
  "write_value_local ck je cx path key version v intent =
     bind_step
       (apply_txn ck (bare_recorder je) (cx_root cx)
          (set_request [\<lparr>bv_path = path, bv_version = version\<rparr>] [EnvSet path key (Some v) None None]
             (case intent of Some i \<Rightarrow> i | None \<Rightarrow> ''rotate '' @ key @ '' (cross-root, same host)'') False [key])
          (cx_limits cx) (cx_author cx))
       (\<lambda>out. ret (eo_txn_id out))"

section \<open>Reveal\<close>

record reveal_params =
  vp_path :: rstr
  vp_key :: rstr
  vp_intent :: rstr
  vp_expected_digest :: "rstr option"
  vp_destination :: "rstr option"

record reveal_result =
  vr_key :: rstr
  vr_value :: rstr
  vr_digest :: "rstr option"
  vr_disclosed :: bool

definition reveal_check :: "crates \<Rightarrow> fsys \<Rightarrow> secret_ctx \<Rightarrow> reveal_params \<Rightarrow> entry res" where
  "reveal_check ck fs cx p =
     (if \<not> sx_allow_reveal (cx_secrets cx)
      then Inl (refused (vp_path p) ''[secrets] allow_reveal = false'' RevealDisabled ''refuses secret_reveal entirely'')
      else if trim (vp_intent p) = []
      then Inl (invalid_input (Msg ''secret_reveal requires a non-empty intent'' []))
      else and_then (load_entry ck fs cx (vp_path p) (vp_key p)) (\<lambda>(classified, e).
        if \<not> classified
        then Inl (invalid_input (Msg ''not a classified file'' [vp_path p]))
        else (case vp_expected_digest p of
                None \<Rightarrow> Inr e
              | Some expected \<Rightarrow>
                  if digest_of (cr_h ck) (e_value e) \<noteq> expected
                  then Inl (with_data
                         (JObj [(''reason'', JStr ''digest_mismatch''), (''expected_digest'', JStr expected),
                                (''actual_digest'', opt_str (floor_digest (cr_h ck) (e_value e)))])
                         (invalid_input (Msg ''digest mismatch'' [vp_path p, vp_key p, expected])))
                  else Inr e)))"

definition reveal :: "crates \<Rightarrow> journal_env \<Rightarrow> secret_ctx \<Rightarrow> reveal_params \<Rightarrow> (journal, reveal_result) step" where
  "reveal ck je cx p w =
     bind_step (lift_res (reveal_check ck (w_fs w) cx p)) (\<lambda>e.
     let d = floor_digest (cr_h ck) (e_value e) in
     bind_step (log_event je (secret_row je cx (if vp_destination p \<noteq> None then ''transport'' else ''reveal'')
                  (rr_name (cx_root cx)) (vp_path p) (vp_key p) None d True (vp_destination p) None
                  (Some (vp_intent p)))) (\<lambda>_.
     ret \<lparr>vr_key = vp_key p, vr_value = e_value e, vr_digest = d, vr_disclosed = True\<rparr>)) w"

end
