(* ===== verification/Kaed_Engine_Live.thy ===== *)
theory Kaed_Engine_Live
  imports Kaed_Engine_Props Kaed_Shapes
begin

text \<open>
  That commits go through. When no system call is made to fail, the recorder accepts and every
  touched path has room, a directory to be written to and no other touched path above it, then
  staging, promoting and unlinking all succeed.
\<close>

section \<open>Room for a file\<close>

text \<open>The directories above a path exist or can be made.\<close>

definition clear :: "fsys \<Rightarrow> path \<Rightarrow> bool" where
  "clear fs p \<longleftrightarrow>
     (\<forall>q. prefix q p \<longrightarrow> node_at fs q = Some DirN \<or> node_at fs q = None) \<and>
     (\<forall>q c. prefix (q @ [c]) p \<and> node_at fs q = Some DirN \<and> node_at fs (q @ [c]) \<noteq> Some DirN \<longrightarrow> fs_write fs q)"

definition ready :: "fsys \<Rightarrow> path \<Rightarrow> bool" where
  "ready fs p \<longleftrightarrow>
     p \<noteq> [] \<and> clear fs (butlast p) \<and> node_at fs p \<noteq> Some DirN
     \<and> (node_at fs (butlast p) = Some DirN \<longrightarrow> fs_write fs (butlast p))
     \<and> (node_at fs p \<noteq> None \<longrightarrow> node_at fs (butlast p) = Some DirN)"

text \<open>Only writable directories are added.\<close>

definition more :: "fsys \<Rightarrow> fsys \<Rightarrow> bool" where
  "more fs fs' \<longleftrightarrow>
     (\<forall>q. node_at fs' q = node_at fs q \<and> (fs_write fs q \<longrightarrow> fs_write fs' q)
        \<or> node_at fs q = None \<and> node_at fs' q = Some DirN \<and> fs_write fs' q)"

lemma more_refl [simp]: "more fs fs"
  by (simp add: more_def)

lemma more_trans: "more fs fs' \<Longrightarrow> more fs' fs'' \<Longrightarrow> more fs fs''"
  unfolding more_def by metis

lemma clear_more: "clear fs p \<Longrightarrow> more fs fs' \<Longrightarrow> clear fs' p"
  unfolding clear_def more_def by (metis option.distinct(1))

lemma ready_more: "ready fs p \<Longrightarrow> more fs fs' \<Longrightarrow> node_at fs' p \<noteq> Some DirN \<Longrightarrow> ready fs' p"
  unfolding ready_def using clear_more more_def by metis

lemma new_dir_more: "p \<noteq> [] \<Longrightarrow> node_at fs p = None \<Longrightarrow> more fs (new_dir p fs)"
  by (auto simp: more_def new_dir_def set_node_def node_at_def)

lemma new_dir_node: "node_at (new_dir p fs) q = (if q = p then Some DirN else node_at fs q)"
  by (auto simp: new_dir_def set_node_def node_at_def)

lemma mkdirs_live:
  assumes "clear fs (d @ cs)" "node_at fs d = Some DirN"
  shows "\<exists>fs'. mkdirs d cs fs = (None, fs') \<and> more fs fs' \<and> node_at fs' (d @ cs) = Some DirN
    \<and> (\<forall>q. node_at fs' q \<noteq> node_at fs q \<longrightarrow> prefix q (d @ cs))"
  using assms
proof (induction cs arbitrary: d fs)
  case (Cons c cs)
  have p: "prefix (d @ [c]) (d @ c # cs)" by simp
  have c: "clear fs ((d @ [c]) @ cs)" using Cons.prems(1) by simp
  show ?case
  proof (cases "node_at fs (d @ [c]) = Some DirN")
    case True
    with Cons.IH[OF c True] show ?thesis by simp
  next
    case False
    with Cons.prems p have n: "node_at fs (d @ [c]) = None" "fs_write fs d" unfolding clear_def by blast+
    let ?fs = "new_dir (d @ [c]) fs"
    have m: "more fs ?fs" by (rule new_dir_more) (use n in auto)
    have "node_at ?fs (d @ [c]) = Some DirN" by (simp add: new_dir_node)
    from Cons.IH[OF clear_more[OF c m] this] obtain fs' where fs': "mkdirs (d @ [c]) cs ?fs = (None, fs')"
      "more ?fs fs'" "node_at fs' (d @ c # cs) = Some DirN" "\<forall>q. node_at fs' q \<noteq> node_at ?fs q \<longrightarrow> prefix q (d @ c # cs)"
      by auto
    have "prefix q (d @ c # cs)" if "node_at fs' q \<noteq> node_at fs q" for q
      using fs'(4) that p by (cases "q = d @ [c]") (auto simp: new_dir_node)
    with fs' n more_trans[OF m fs'(2)] show ?thesis by auto
  qed
qed simp

text \<open>What a path and its parents have is all that counts.\<close>

lemma clear_cong:
  assumes "\<And>q. prefix q p \<Longrightarrow> node_at fs' q = node_at fs q" "fs_write fs' = fs_write fs" "clear fs p"
  shows "clear fs' p"
  unfolding clear_def
proof (intro conjI allI impI; (elim conjE)?)
  fix q assume "prefix q p"
  with assms(1,3) show "node_at fs' q = Some DirN \<or> node_at fs' q = None" by (auto simp: clear_def)
next
  fix q c assume a: "prefix (q @ [c]) p" "node_at fs' q = Some DirN" "node_at fs' (q @ [c]) \<noteq> Some DirN"
  then have "prefix q p" by (auto simp: prefix_def)
  with a assms show "fs_write fs' q" by (auto simp: clear_def)
qed

lemma ready_cong:
  assumes "\<And>q. prefix q p \<Longrightarrow> node_at fs' q = node_at fs q" "fs_write fs' = fs_write fs" "ready fs p"
  shows "ready fs' p"
proof -
  have b: "prefix (butlast p) p" by (simp add: prefix_def) (metis append_butlast_last_id append_Nil2 butlast.simps(1))
  then have "clear fs' (butlast p)"
    using assms by (intro clear_cong[of "butlast p" fs' fs]) (auto simp: ready_def dest: prefix_order.trans)
  with assms b show ?thesis by (auto simp: ready_def)
qed

section \<open>Names of temporary files\<close>

text \<open>The paths of a transaction: none holds another, and none has the mark of a temporary file in it.\<close>

definition apart :: "path set \<Rightarrow> bool" where
  "apart D \<longleftrightarrow> (\<forall>p\<in>D. \<forall>q\<in>D. prefix p q \<longrightarrow> p = q) \<and> (\<forall>p\<in>D. \<forall>c\<in>set p. \<not> contains_sub ''.kaed-tmp.'' c)"

definition tmp_at :: "path \<Rightarrow> rstr \<Rightarrow> nat \<Rightarrow> path" where
  "tmp_at p pid n = butlast p @ [tmp_name (last p) pid n]"

lemma tmp_of_at: "tmp_of p w = tmp_at p (w_pid w) (w_seq w)"
  by (simp add: tmp_of_def tmp_at_def)

text \<open>No file has the name of a temporary file still to be made.\<close>

definition fresh :: "path set \<Rightarrow> 'j world \<Rightarrow> bool" where
  "fresh D w \<longleftrightarrow> (\<forall>p\<in>D. \<forall>n\<ge>w_seq w. node_at (w_fs w) (tmp_at p (w_pid w) n) = None)"

lemma dot_free_suffix:
  assumes "xs @ CHR ''.'' # a = ys @ CHR ''.'' # b" "CHR ''.'' \<notin> set a" "CHR ''.'' \<notin> set b"
  shows "a = b"
proof -
  have t: "takeWhile (\<lambda>c. c \<noteq> CHR ''.'') (rev (zs @ CHR ''.'' # s)) = rev s" if "CHR ''.'' \<notin> set s" for zs s
  proof -
    have "takeWhile (\<lambda>c. c \<noteq> CHR ''.'') (rev s @ CHR ''.'' # rev zs) = rev s"
      using that by (subst takeWhile_append2) auto
    then show ?thesis by simp
  qed
  from t[OF assms(2), of xs] t[OF assms(3), of ys] assms(1) show ?thesis by simp
qed

lemma tmp_at_inj:
  assumes "tmp_at p pid m = tmp_at q pid n"
  shows "m = n"
proof -
  have d: "CHR ''.'' \<notin> set (show_nat k)" for k
  proof
    assume "CHR ''.'' \<in> set (show_nat k)"
    then have "ascii_digit (CHR ''.'')" by (rule show_nat_digits)
    moreover have "\<not> ascii_digit (CHR ''.'')" by code_simp
    ultimately show False by simp
  qed
  from assms have "(''.'' @ last p @ ''.kaed-tmp.'' @ pid) @ CHR ''.'' # show_nat m
      = (''.'' @ last q @ ''.kaed-tmp.'' @ pid) @ CHR ''.'' # show_nat n"
    by (simp add: tmp_at_def tmp_name_def)
  from dot_free_suffix[OF this d d] show ?thesis using dec_value_show by metis
qed

lemma tmp_not_below:
  assumes "apart D" "q \<in> D"
  shows "\<not> prefix (tmp_at p pid n) q"
proof
  assume "prefix (tmp_at p pid n) q"
  then have "tmp_name (last p) pid n \<in> set q" by (auto simp: tmp_at_def prefix_def)
  with assms tmp_marked show False unfolding apart_def by blast
qed

section \<open>Staging\<close>

lemma io_step_free:
  assumes "w_faults w = []" "w_fs w = fs0" "act fs0 = (None, fs)"
  shows "io_step act w = (Inr (), w\<lparr>w_fs := fs\<rparr>)"
  using assms by (simp add: io_step_def io_call_def tick_def)

lemma set_node_twice: "node_at (set_node p a fs) p = (if p = [] then Some DirN else Some a)"
  "set_node p a (set_node p b fs) = set_node p a fs"
  by (simp_all add: set_node_def node_at_def)

lemma stage_live:
  assumes "w_faults w = []" "ready (w_fs w) p" "p \<in> D" "apart D" "fresh D w" "\<forall>d\<in>D. ready (w_fs w) d"
  obtains w' where "stage p c md w = (Inr \<lparr>st_tmp = tmp_of p w, st_dest = p\<rparr>, w')" "w_faults w' = []"
    "fresh D w'" "\<forall>d\<in>D. ready (w_fs w') d" "w_journal w' = w_journal w"
    "node_at (w_fs w') (butlast p) = Some DirN" "\<forall>d. node_at (w_fs w) d = Some DirN \<longrightarrow> node_at (w_fs w') d = Some DirN"
proof -
  let ?t = "tmp_of p w"
  have p: "p \<noteq> []" "clear (w_fs w) ([] @ butlast p)" using assms(2) by (simp_all add: ready_def)
  obtain fs where fs: "mkdirs [] (butlast p) (w_fs w) = (None, fs)" "more (w_fs w) fs"
    "node_at fs (butlast p) = Some DirN" "\<forall>q. node_at fs q \<noteq> node_at (w_fs w) q \<longrightarrow> prefix q (butlast p)"
    using mkdirs_live[OF p(2)] by (auto simp: node_at_def)
  have above: "\<not> prefix d (butlast p)" if "d \<in> D" for d
  proof
    assume "prefix d (butlast p)"
    then have s: "strict_prefix d p"
      using p(1) by (metis append_butlast_last_id prefix_order.less_le_trans prefix_snoc strict_prefix_def prefixI not_Cons_self2 append_self_conv prefix_order.le_less_trans)
    with that assms(3,4) show False by (auto simp: apart_def strict_prefix_def)
  qed
  have r: "ready fs d" if "d \<in> D" for d
  proof (rule ready_more[OF _ fs(2)])
    show "ready (w_fs w) d" using assms(6) that by blast
    then show "node_at fs d \<noteq> Some DirN" using above[OF that] fs(4) by (auto simp: ready_def)
  qed
  have tn: "node_at fs (tmp_at q (w_pid w) n) = None" if "q \<in> D" "w_seq w \<le> n" for q n
  proof -
    have "\<not> prefix (tmp_at q (w_pid w) n) (butlast p)"
      using tmp_not_below[OF assms(4,3)] prefixeq_butlast prefix_order.trans by blast
    then have "node_at fs (tmp_at q (w_pid w) n) = node_at (w_fs w) (tmp_at q (w_pid w) n)" using fs(4) by blast
    then show ?thesis using assms(5) that by (simp add: fresh_def)
  qed
  have t: "node_at fs ?t = None" "?t \<noteq> []" using tn[OF assms(3)] by (simp_all add: tmp_of_at tmp_at_def)
  have wr: "fs_write fs (butlast ?t)" using r[OF assms(3)] fs(3) by (simp add: ready_def tmp_of_def)
  let ?fs = "set_node ?t (FileN c md) fs"
  let ?w = "w\<lparr>w_fs := ?fs, w_seq := w_seq w + 1\<rparr>"
  have nd: "node_at ?fs q = (if q = ?t then Some (FileN c md) else node_at fs q)" for q
    using t(2) by (auto simp: set_node_def node_at_def)
  have o1: "open_new ?t fs = (None, set_node ?t (FileN [] CREATE_MODE) fs)" using t wr by (simp add: open_new_def)
  have o2: "write_all ?t c (set_node ?t (FileN [] CREATE_MODE) fs) = (None, set_node ?t (FileN c CREATE_MODE) fs)"
    "set_permissions ?t md (set_node ?t (FileN c CREATE_MODE) fs) = (None, ?fs)"
    using t(2) by (simp_all add: write_all_def set_permissions_def set_node_twice)
  have nt: "next_tmp p (w\<lparr>w_fs := fs\<rparr>) = (Inr ?t, w\<lparr>w_fs := fs, w_seq := w_seq w + 1\<rparr>)"
    by (simp add: next_tmp_def tmp_of_def)
  have st: "stage p c md w = (Inr \<lparr>st_tmp = ?t, st_dest = p\<rparr>, ?w)"
    unfolding stage_def using p(1) assms(1) fs(1)
    by (simp add: bind_step_def io_step_free o1 o2 no_effect_def nt ret_def)
  moreover have "fresh D ?w"
    unfolding fresh_def
  proof (intro ballI allI impI)
    fix q n assume q: "q \<in> D" "w_seq ?w \<le> n"
    then have "tmp_at q (w_pid w) n \<noteq> ?t" unfolding tmp_of_at using tmp_at_inj[of q "w_pid w" n p "w_seq w"] by auto
    with tn[of q n] q show "node_at (w_fs ?w) (tmp_at q (w_pid ?w) n) = None" by (simp add: nd)
  qed
  moreover have "ready (w_fs ?w) d" if "d \<in> D" for d
  proof -
    have "node_at ?fs q = node_at fs q" if "prefix q d" for q
    proof -
      have "q \<noteq> ?t" using tmp_not_below[OF assms(4) \<open>d \<in> D\<close>] that unfolding tmp_of_at by blast
      then show ?thesis by (simp add: nd)
    qed
    then show ?thesis using ready_cong[OF _ _ r[OF that], of ?fs] by (simp add: set_node_def)
  qed
  moreover have "node_at ?fs d = Some DirN" if "node_at fs d = Some DirN" for d
    using that t(1) by (auto simp: nd)
  moreover have "node_at fs d = Some DirN" if "node_at (w_fs w) d = Some DirN" for d
    using that fs(2) by (metis more_def option.distinct(1))
  ultimately show thesis using assms(1) fs(3) by (intro that[OF st]) auto
qed

lemma stage_all_live:
  assumes "w_faults w = []" "fb_abs ` snd ` set touched \<subseteq> D" "apart D" "fresh D w" "\<forall>d\<in>D. ready (w_fs w) d"
    and "\<forall>s\<in>set staged. node_at (w_fs w) (butlast (st_dest s)) = Some DirN"
    and "st_tmp ` set staged \<subseteq> {t. \<exists>p\<in>D. \<exists>pid n. t = tmp_at p pid n}"
  shows "\<exists>ss w'. stage_all base touched staged w = (Inr ss, w') \<and> w_faults w' = []
    \<and> (\<forall>d\<in>D. ready (w_fs w') d) \<and> w_journal w' = w_journal w
    \<and> (\<forall>s\<in>set ss. node_at (w_fs w') (butlast (st_dest s)) = Some DirN)
    \<and> st_tmp ` set ss \<subseteq> {t. \<exists>p\<in>D. \<exists>pid n. t = tmp_at p pid n}"
  using assms
proof (induction touched arbitrary: staged w)
  case (Cons pb touched)
  obtain path b where pb: "pb = (path, b)" by (cases pb)
  show ?case
  proof (cases "fb_deleted b")
    case True
    with Cons pb show ?thesis by simp
  next
    case False
    have b: "fb_abs b \<in> D" "ready (w_fs w) (fb_abs b)" and t: "fb_abs ` snd ` set touched \<subseteq> D"
      using Cons.prems(2,5) pb by auto
    let ?s = "\<lparr>st_tmp = tmp_of (fb_abs b) w, st_dest = fb_abs b\<rparr>"
    obtain w1 where w1: "stage (fb_abs b) (fb_content b) (perm_bits (fb_mode b)) w = (Inr ?s, w1)"
      "w_faults w1 = []" "fresh D w1" "\<forall>d\<in>D. ready (w_fs w1) d" "w_journal w1 = w_journal w"
      "node_at (w_fs w1) (butlast (fb_abs b)) = Some DirN"
      "\<forall>d. node_at (w_fs w) d = Some DirN \<longrightarrow> node_at (w_fs w1) d = Some DirN"
      by (rule stage_live[OF Cons.prems(1) b(2,1) Cons.prems(3,4,5)])
    have "tmp_of (fb_abs b) w \<in> {t. \<exists>p\<in>D. \<exists>pid n. t = tmp_at p pid n}"
      using b(1) tmp_of_at by blast
    with Cons.prems(7) have "st_tmp ` set (staged @ [?s]) \<subseteq> {t. \<exists>p\<in>D. \<exists>pid n. t = tmp_at p pid n}" by simp
    moreover have "\<forall>s\<in>set (staged @ [?s]). node_at (w_fs w1) (butlast (st_dest s)) = Some DirN"
      using Cons.prems(6) w1(6,7) by simp
    ultimately show ?thesis
      using Cons.IH[OF w1(2) t Cons.prems(3) w1(3,4)] False pb w1(1,5) by simp
  qed
qed simp

section \<open>Promoting and unlinking\<close>

text \<open>A write at a path of the transaction, or the removal of a temporary file, leaves the others ready.\<close>

lemma ready_away:
  assumes "ready (w_fs w) d" "\<And>q. prefix q d \<Longrightarrow> node_at fs q = node_at (w_fs w) q" "fs_write fs = fs_write (w_fs w)"
  shows "ready fs d"
  using ready_cong[of d fs "w_fs w"] assms by blast

lemma promote_live:
  assumes "w_faults w = []" "node_at (w_fs w) (st_tmp s) = Some (FileN c md)" "ready (w_fs w) (st_dest s)"
    "node_at (w_fs w) (butlast (st_dest s)) = Some DirN"
  shows "promote s w = (Inr (), w\<lparr>w_fs := set_node (st_dest s) (FileN c md) (remove_node (st_tmp s) (w_fs w))\<rparr>)"
proof -
  have "rename_node (st_tmp s) (st_dest s) (w_fs w)
      = (None, set_node (st_dest s) (FileN c md) (remove_node (st_tmp s) (w_fs w)))"
    using assms(2-4) by (simp add: rename_node_def ready_def)
  then show ?thesis using assms(1) by (simp add: promote_def bind_step_def io_step_free no_effect_def)
qed

lemma promote_all_live:
  assumes "w_faults w = []" "\<forall>s\<in>set ss. \<exists>c md. node_at (w_fs w) (st_tmp s) = Some (FileN c md)"
    and "\<forall>s\<in>set ss. node_at (w_fs w) (butlast (st_dest s)) = Some DirN"
    and "distinct (map st_tmp ss)" "distinct (map st_dest ss)" "apart D" "st_dest ` set ss \<subseteq> D"
    and "\<forall>s\<in>set ss. \<exists>p\<in>D. \<exists>pid n. st_tmp s = tmp_at p pid n" "\<forall>d\<in>D - X. ready (w_fs w) d" "X \<inter> st_dest ` set ss = {}"
  shows "\<exists>w'. promote_all ss w = (Inr (), w') \<and> w_faults w' = [] \<and> w_journal w' = w_journal w
    \<and> (\<forall>d\<in>D - X - st_dest ` set ss. ready (w_fs w') d)"
  using assms
proof (induction ss arbitrary: w X)
  case (Cons s ss)
  let ?t = "st_tmp s" and ?p = "st_dest s"
  obtain c md where n: "node_at (w_fs w) ?t = Some (FileN c md)" using Cons.prems(2) by auto
  have p: "?p \<in> D" "?p \<notin> X" "ready (w_fs w) ?p" using Cons.prems(7,9,10) by auto
  have tD: "\<not> prefix ?t d" if "d \<in> D" for d
    using Cons.prems(8) tmp_not_below[OF Cons.prems(6) that] by (metis list.set_intros(1))
  define fs where "fs = set_node ?p (FileN c md) (remove_node ?t (w_fs w))"
  have pn: "?p \<noteq> []" "?t \<noteq> []" using p(3) tD[OF p(1)] by (auto simp: ready_def)
  have nd: "node_at fs q = (if q = ?p then Some (FileN c md) else if q = ?t then None else node_at (w_fs w) q)" for q
    using pn by (auto simp: fs_def set_node_def remove_node_def node_at_def)
  have pr: "promote s w = (Inr (), w\<lparr>w_fs := fs\<rparr>)"
    using promote_live[OF Cons.prems(1) n p(3)] Cons.prems(3) by (simp add: fs_def)
  have away: "node_at fs q = node_at (w_fs w) q" if "prefix q d" "d \<in> D" "d \<noteq> ?p" for q d
    using that tD[OF that(2)] p(1) Cons.prems(6) by (auto simp: nd apart_def)
  have wr: "fs_write fs = fs_write (w_fs w)" by (simp add: fs_def set_node_def remove_node_def)
  have others: "st_tmp u \<noteq> ?t \<and> st_dest u \<noteq> ?p \<and> st_dest u \<in> D \<and> st_tmp u \<noteq> ?p" if "u \<in> set ss" for u
  proof -
    have "\<not> prefix (st_tmp u) ?p"
      using that Cons.prems(8) tmp_not_below[OF Cons.prems(6) p(1)] by (metis list.set_intros(2))
    moreover have "st_tmp u \<in> st_tmp ` set ss" "st_dest u \<in> st_dest ` set ss" using that by simp_all
    ultimately show ?thesis using Cons.prems(4,5,7) by (auto simp del: imageI image_eqI)
  qed
  have "\<exists>w'. promote_all ss (w\<lparr>w_fs := fs\<rparr>) = (Inr (), w') \<and> w_faults w' = [] \<and> w_journal w' = w_journal (w\<lparr>w_fs := fs\<rparr>)
    \<and> (\<forall>d\<in>D - insert ?p X - st_dest ` set ss. ready (w_fs w') d)"
  proof (rule Cons.IH)
    show "\<forall>u\<in>set ss. \<exists>c md. node_at (w_fs (w\<lparr>w_fs := fs\<rparr>)) (st_tmp u) = Some (FileN c md)"
      using others Cons.prems(2) by (simp add: nd)
    show "\<forall>u\<in>set ss. node_at (w_fs (w\<lparr>w_fs := fs\<rparr>)) (butlast (st_dest u)) = Some DirN"
    proof
      fix u assume u: "u \<in> set ss"
      have "node_at fs (butlast (st_dest u)) = node_at (w_fs w) (butlast (st_dest u))"
        by (rule away[OF prefixeq_butlast]) (use others[OF u] in auto)
      with u Cons.prems(3) show "node_at (w_fs (w\<lparr>w_fs := fs\<rparr>)) (butlast (st_dest u)) = Some DirN" by simp
    qed
    show "\<forall>d\<in>D - insert ?p X. ready (w_fs (w\<lparr>w_fs := fs\<rparr>)) d"
      using ready_away[OF _ away wr] Cons.prems(9) by auto
    show "insert ?p X \<inter> st_dest ` set ss = {}" using Cons.prems(5,10) by auto
  qed (use Cons.prems in auto)
  then show ?case using pr by (auto simp: bind_step_def)
qed simp

lemma unlink_all_live:
  assumes "w_faults w = []" "\<forall>b\<in>set (removed_of touched). ready (w_fs w) (fb_abs b)"
    and "distinct (map fb_abs (removed_of touched))" "apart (fb_abs ` set (removed_of touched))"
  shows "\<exists>w'. unlink_all touched w = (Inr (), w') \<and> w_faults w' = [] \<and> w_journal w' = w_journal w"
  using assms
proof (induction touched arbitrary: w)
  case (Cons pb touched)
  obtain path b where pb: "pb = (path, b)" by (cases pb)
  show ?case
  proof (cases "fb_deleted b")
    case False
    with Cons pb show ?thesis by simp
  next
    case True
    let ?p = "fb_abs b"
    have r: "ready (w_fs w) ?p" and rs: "\<forall>u\<in>set (removed_of touched). ready (w_fs w) (fb_abs u)"
      and d: "distinct (map fb_abs (removed_of touched))" "apart (fb_abs ` set (removed_of touched))"
      using Cons.prems(2-4) pb True by (auto simp: apart_def)
    show ?thesis
    proof (cases "node_at (w_fs w) ?p")
      case None
      then have "io_call (unlink ?p) w = (Some io_not_found, w)"
        using Cons.prems(1) by (simp add: io_call_def tick_def unlink_def)
      then show ?thesis using Cons.IH[OF Cons.prems(1) rs d] True pb by (simp add: io_not_found_def)
    next
      case (Some nd)
      with r have u: "unlink ?p (w_fs w) = (None, remove_node ?p (w_fs w))"
        by (auto simp: unlink_def ready_def split: node.splits)
      let ?w = "w\<lparr>w_fs := remove_node ?p (w_fs w)\<rparr>"
      have "ready (w_fs ?w) (fb_abs v)" if v: "v \<in> set (removed_of touched)" for v
      proof (rule ready_away[of w])
        show "ready (w_fs w) (fb_abs v)" using rs v by blast
        fix q assume q: "prefix q (fb_abs v)"
        have "?p \<noteq> fb_abs v" using Cons.prems(3) pb True v by auto
        with q v Cons.prems(4) pb True have "q \<noteq> ?p" by (auto simp: apart_def)
        then show "node_at (w_fs ?w) q = node_at (w_fs w) q" by (simp add: remove_node_def node_at_def)
      qed (simp add: remove_node_def)
      then show ?thesis
        using Cons.IH[of ?w] Cons.prems(1) d u True pb by (simp add: io_call_def tick_def)
    qed
  qed
qed simp

section \<open>The commit\<close>

definition room :: "path list \<Rightarrow> 'j world \<Rightarrow> bool" where
  "room ps w \<longleftrightarrow> distinct ps \<and> apart (set ps) \<and> fresh (set ps) w \<and> (\<forall>p\<in>set ps. ready (w_fs w) p)"

definition accepts :: "'j recorder \<Rightarrow> 'j \<Rightarrow> bool" where
  "accepts rc j \<longleftrightarrow> (\<forall>author intent base files. \<exists>n j1 j2.
     rec_begin rc author intent base files j = (Inr n, j1) \<and> rec_complete rc n j1 = (Inr (), j2))"

lemma map_written: "map f (written_of touched) = map (f \<circ> snd) (filter (\<lambda>pb. \<not> fb_deleted (snd pb)) touched)"
  "map f (removed_of touched) = map (f \<circ> snd) (filter (\<lambda>pb. fb_deleted (snd pb)) touched)"
  by (induction touched) (auto simp: written_of_def removed_of_def)

lemma distinct_filter_map: "distinct (map f xs) \<Longrightarrow> distinct (map f (filter P xs))"
  by (induction xs) auto

lemma apart_mono: "apart D \<Longrightarrow> E \<subseteq> D \<Longrightarrow> apart E"
  unfolding apart_def by blast

lemma commit_live:
  assumes "w_faults w = []" "room (map (fb_abs \<circ> snd) (pl_touched pl)) w" "accepts rc (w_journal w)"
  shows "\<exists>n w'. commit ck rc base author req pl w = (Inr n, w')"
proof -
  let ?T = "pl_touched pl" and ?D = "set (map (fb_abs \<circ> snd) (pl_touched pl))"
  have r: "distinct (map (fb_abs \<circ> snd) ?T)" "apart ?D" "fresh ?D w" "\<forall>d\<in>?D. ready (w_fs w) d"
    using assms(2) by (simp_all add: room_def)
  have "fb_abs ` snd ` set ?T \<subseteq> ?D" by auto
  from stage_all_live[OF assms(1) this r(2-4), where staged = "[]" and base = base] obtain ss w1 where
    ss: "stage_all base ?T [] w = (Inr ss, w1)" "w_faults w1 = []" "\<forall>d\<in>?D. ready (w_fs w1) d"
      "w_journal w1 = w_journal w" "\<forall>s\<in>set ss. node_at (w_fs w1) (butlast (st_dest s)) = Some DirN"
      "st_tmp ` set ss \<subseteq> {t. \<exists>p\<in>?D. \<exists>pid n. t = tmp_at p pid n}"
    by auto
  have h: "holds w1 ss (written_of ?T)" using stage_all_holds[OF ss(1) holds_Nil] by simp
  have dest: "map st_dest ss = map fb_abs (written_of ?T)" by (rule holds_dests(1)[OF h])
  have "\<exists>c md. node_at (w_fs w1) (st_tmp s) = Some (FileN c md)" if "s \<in> set ss" for s
    using h that by (auto simp: holds_def list_all2_conv_all_nth in_set_conv_nth final_node_def node_at_def)
  then have files: "\<forall>s\<in>set ss. \<exists>c md. node_at (w_fs w1) (st_tmp s) = Some (FileN c md)" by blast
  obtain n j1 j2 where j: "rec_begin rc author (er_intent req) base (map (record_of ck) ?T) (w_journal w) = (Inr n, j1)"
    "rec_complete rc n j1 = (Inr (), j2)" using assms(3) unfolding accepts_def by blast
  let ?w = "w1\<lparr>w_journal := j1\<rparr>"
  let ?R = "fb_abs ` set (removed_of ?T)"
  have "distinct (map st_dest ss)" "?R \<inter> st_dest ` set ss = {}" "?R \<subseteq> ?D" "st_dest ` set ss \<subseteq> ?D"
    "distinct (map fb_abs (removed_of ?T))"
  proof -
    show "distinct (map st_dest ss)" "distinct (map fb_abs (removed_of ?T))"
      unfolding dest map_written using r(1) by (simp_all add: distinct_filter_map)
    have e: "st_dest ` set ss = fb_abs ` set (written_of ?T)" by (metis dest set_map)
    show "?R \<inter> st_dest ` set ss = {}" unfolding e using distinct_written(2)[OF r(1)] by blast
    show "?R \<subseteq> ?D" "st_dest ` set ss \<subseteq> ?D" unfolding e by (auto simp: removed_of_def written_of_def)
  qed
  note d = this
  have "\<exists>w2. promote_all ss ?w = (Inr (), w2) \<and> w_faults w2 = [] \<and> w_journal w2 = w_journal ?w
      \<and> (\<forall>d\<in>?D - {} - st_dest ` set ss. ready (w_fs w2) d)"
    by (rule promote_all_live[where D = ?D])
      (use ss files d r h in \<open>auto simp: holds_def\<close>)
  then obtain w2 where w2: "promote_all ss ?w = (Inr (), w2)" "w_faults w2 = []" "w_journal w2 = j1"
    "\<forall>d\<in>?D - st_dest ` set ss. ready (w_fs w2) d" by auto
  have "\<forall>b\<in>set (removed_of ?T). ready (w_fs w2) (fb_abs b)" using w2(4) d(2,3) by blast
  from unlink_all_live[OF w2(2) this d(5) apart_mono[OF r(2) d(3)]] obtain w3 where
    w3: "unlink_all ?T w2 = (Inr (), w3)" "w_journal w3 = j1" using w2(3) by auto
  have "begin_txn rc author req base (map (record_of ck) ?T) ss w1 = (Inr n, ?w)"
    using j(1) ss(4) by (simp add: begin_txn_def)
  then have "commit ck rc base author req pl w
      = (Inr n, journal_leaks rc author base req (pl_leaks pl) n (w3\<lparr>w_journal := j2\<rparr>))"
    using ss(1) w2(1) w3 j(2) by (simp add: commit_def bind_step_def complete_txn_def)
  then show ?thesis by blast
qed

text \<open>C8: A prepared edit commits. When no system call is made to fail, the recorder accepts the
  transaction, and the touched paths have room (distinct, none inside another, no name with the mark
  of a temporary file, no left-over temporary file of this process, every directory above one real
  or absent, the deepest one writable, no directory in the file's place), an edit that passed every check
  is applied: the call succeeds with the outcome that was planned, every written path holds its new
  content and mode and every deleted path is gone. So what a dry run promises is what a run gives.\<close>
theorem edit_commits:
  assumes "prepare ck rc base lm author req w = (Inr pl, w)" "\<not> er_dry_run req" "w_faults w = []"
    and "room (map (fb_abs \<circ> snd) (pl_touched pl)) w" "accepts rc (w_journal w)"
  shows "\<exists>n w'. apply_txn ck rc base req lm author w = (Inr (outcome_of pl (Some n)), w')
    \<and> (\<forall>p b. (p, b) \<in> set (pl_touched pl) \<longrightarrow> fs_nodes (w_fs w') (fb_abs b) =
         (if fb_deleted b then None else Some (FileN (fb_content b) (perm_bits (fb_mode b)))))"
proof -
  obtain n w' where c: "commit ck rc base author req pl w = (Inr n, w')"
    using commit_live[OF assms(3-5)] by blast
  have a: "apply_txn ck rc base req lm author w = (Inr (outcome_of pl (Some n)), w')"
    using assms(1,2) c by (simp add: apply_txn_def apply_inner_def bind_step_def ret_def)
  have r: "distinct (map (fb_abs \<circ> snd) (pl_touched pl))" "apart (set (map (fb_abs \<circ> snd) (pl_touched pl)))"
    "\<forall>p\<in>set (map (fb_abs \<circ> snd) (pl_touched pl)). p \<noteq> []"
    using assms(4) by (auto simp: room_def ready_def)
  have u: "unmarked (pl_touched pl)" using r(2,3) by (fastforce simp: unmarked_def apart_def)
  have h: "honest w" using assms(3) by (simp add: honest_def)
  have ne: "\<forall>b\<in>set (removed_of (pl_touched pl)). fb_abs b \<noteq> []" using r(3) by (auto simp: removed_of_def)
  note e = commit_effect[OF c h u r(1) ne]
  have "fs_nodes (w_fs w') (fb_abs b) = (if fb_deleted b then None else Some (FileN (fb_content b) (perm_bits (fb_mode b))))"
    if m: "(p, b) \<in> set (pl_touched pl)" for p b
  proof -
    have "b \<in> set (if fb_deleted b then removed_of (pl_touched pl) else written_of (pl_touched pl))"
      using m by (force simp: removed_of_def written_of_def)
    then show ?thesis using e by (auto simp: final_node_def split: if_splits)
  qed
  with a show ?thesis by blast
qed

lemma demo_room:
  assumes "nm = ''n'' \<or> nm = ''.env''"
  shows "room [[''r'', nm]] (demo_with j)"
proof -
  have t: "tmp_name nm pid n \<notin> {''a'', ''.env''}" for pid n using assms by (auto simp: tmp_name_def)
  have m: "\<not> contains_sub ''.kaed-tmp.'' ''r''" "\<not> contains_sub ''.kaed-tmp.'' ''n''" "\<not> contains_sub ''.kaed-tmp.'' ''.env''"
    by code_simp+
  have f: "fs_nodes demo_fs [''r''] = Some DirN" "fs_write demo_fs q" "fs_nodes demo_fs [''r'', nm] \<noteq> Some DirN" for q
    using assms by (auto simp: demo_fs_def)
  have "clear demo_fs [''r'']"
    using f by (auto simp: clear_def prefix_Cons node_at_def)
  with f have "ready demo_fs [''r'', nm]" by (simp add: ready_def node_at_def)
  moreover have "apart {[''r'', nm]}" using assms m by (auto simp: apart_def)
  moreover have "fresh {[''r'', nm]} (demo_with j)"
    using t by (auto simp: fresh_def demo_with_def tmp_at_def node_at_def demo_fs_def)
  ultimately show ?thesis by (simp add: room_def demo_with_def)
qed

theorem edit_commits_witness:
  "\<exists>n w'. apply_txn demo_ck noop_recorder demo_root (demo_req False) default_limits ''me'' (demo_with ())
     = (Inr (outcome_of demo_plan (Some n)), w')"
proof -
  have "\<not> er_dry_run (demo_req False)" "w_faults (demo_with ()) = []" "accepts noop_recorder ()"
    by (simp_all add: demo_req_def demo_with_def accepts_def noop_recorder_def)
  moreover have "room (map (fb_abs \<circ> snd) (pl_touched demo_plan)) (demo_with ())"
    using demo_room[of "''n''"] by (simp add: demo_plan_def demo_buf_def)
  ultimately show ?thesis
    using edit_commits[OF demo_prepare[of noop_recorder False "()"]] by (simp add: demo_with_def) blast
qed

end
