(* ===== verification/Kaed_Secret_Facts.thy ===== *)
theory Kaed_Secret_Facts
  imports Kaed_Secret_Tool Kaed_Engine_Live
begin

text \<open>
  The secret verbs over the engine and the journal: what a value that was given out is traced by,
  what a minted value did to the file it was written to, and that a rotation reached every target.
\<close>

section \<open>Audit rows\<close>

text \<open>A row of the audit stream for an event, numbered after the last.\<close>

definition logged :: "journal_env \<Rightarrow> secret_event \<Rightarrow> journal \<Rightarrow> journal \<Rightarrow> bool" where
  "logged je e j j' \<longleftrightarrow>
     j_events j' = j_events j @ [\<lparr>ev_id = j_event_seq j + 1, ev_event = e, ev_created = now je j\<rparr>]
     \<and> j_event_seq j' = j_event_seq j + 1 \<and> j_txns j' = j_txns j \<and> j_files j' = j_files j
     \<and> j_blobs j' = j_blobs j \<and> j_digests j' = j_digests j"

lemma log_event_cases:
  assumes "log_event je e w = (r, w')"
  obtains (failed) j0 where "statement (w_journal w) = (False, j0)" "r = Inl db_err" "w' = w\<lparr>w_journal := j0\<rparr>"
  | (stored) j0 where "statement (w_journal w) = (True, j0)" "r = Inr (j_event_seq j0 + 1)"
    "w' = w\<lparr>w_journal := j0\<lparr>j_events := j_events j0 @ [\<lparr>ev_id = j_event_seq j0 + 1, ev_event = e, ev_created = now je j0\<rparr>],
       j_event_seq := j_event_seq j0 + 1\<rparr>\<rparr>"
proof (cases "statement (w_journal w)")
  case (Pair ok j0)
  show thesis
  proof (cases ok)
    case True
    with Pair assms that(2)[of j0] show thesis by (simp add: log_event_def add_secret_event_def Let_def)
  next
    case False
    with Pair assms that(1)[of j0] show thesis by (simp add: log_event_def add_secret_event_def)
  qed
qed

lemma log_event_Inr:
  assumes "log_event je e w = (Inr n, w')"
  shows "w' = w\<lparr>w_journal := w_journal w'\<rparr> \<and> logged je e (w_journal w) (w_journal w')"
  using assms
proof (cases rule: log_event_cases)
  case (stored j0)
  note f = statement_fields[OF stored(1)]
  have "now je j0 = now je (w_journal w)" by (simp add: now_def f)
  then show ?thesis using stored(3) by (simp add: logged_def f)
qed simp

lemma log_event_Inl:
  assumes "log_event je e w = (Inl x, w')"
  shows "w' = w\<lparr>w_journal := w_journal w'\<rparr> \<and> j_events (w_journal w') = j_events (w_journal w)"
  using assms
proof (cases rule: log_event_cases)
  case (failed j0)
  then show ?thesis using statement_fields(6)[OF failed(1)] by simp
qed simp

lemma log_event_fs: "log_event je e w = (r, w') \<Longrightarrow> w_fs w' = w_fs w"
  by (erule log_event_cases) simp_all

section \<open>What a successful edit adds to the journal\<close>

definition leak_actions :: "rstr set" where
  "leak_actions = {''leak_allowed'', ''leak_flagged''}"

lemma leak_one_actions:
  "\<forall>x\<in>set (lf_applied lf). fst (snd x) \<in> leak_actions \<Longrightarrow>
   \<forall>x\<in>set (lf_applied (fold (leak_one req base p) ms lf)). fst (snd x) \<in> leak_actions"
proof (induction ms arbitrary: lf)
  case (Cons m ms)
  have "\<forall>x\<in>set (lf_applied (leak_one req base p m lf)). fst (snd x) \<in> leak_actions"
    using Cons.prems by (auto simp: leak_one_def Let_def leak_actions_def)
  then show ?case using Cons.IH by simp
qed simp

lemma leak_files_actions:
  "\<forall>x\<in>set (lf_applied lf). fst (snd x) \<in> leak_actions \<Longrightarrow>
   \<forall>x\<in>set (lf_applied (fold (leak_file ck kn base req) bs lf)). fst (snd x) \<in> leak_actions"
proof (induction bs arbitrary: lf)
  case (Cons b bs)
  have "\<forall>x\<in>set (lf_applied (leak_file ck kn base req b lf)). fst (snd x) \<in> leak_actions"
    unfolding leak_file_def using leak_one_actions[OF Cons.prems] Cons.prems by simp
  then show ?case using Cons.IH by simp
qed simp

lemma leak_phase_actions: "\<forall>x\<in>set (lf_applied (leak_phase ck kn base req touched)). fst (snd x) \<in> leak_actions"
proof (cases "rr_leak_checks base = LcOff")
  case True
  then show ?thesis by (simp add: leak_phase_def Let_def)
next
  case False
  show ?thesis unfolding leak_phase_alt[OF False] by (rule leak_files_actions) simp
qed

lemma leak_events_rows:
  "\<exists>ls. j_events (leak_events_as je author node base evs j) = j_events j @ ls
     \<and> j_txns (leak_events_as je author node base evs j) = j_txns j
     \<and> (\<forall>x\<in>set ls. \<exists>e\<in>set evs. se_action (ev_event x) = le_action e \<and> se_txn_id (ev_event x) = le_txn_id e)"
proof (induction evs arbitrary: j)
  case Nil
  then show ?case by (simp add: leak_events_as_def)
next
  case (Cons e evs)
  let ?ev = "\<lparr>se_author = author, se_node = node, se_action = le_action e, se_root = rr_name base,
      se_path = le_path e, se_key = (case le_source_key e of Some k \<Rightarrow> k | None \<Rightarrow> le_detail e),
      se_old_digest = None, se_new_digest = le_digest e, se_disclosed = False, se_destination = None,
      se_txn_id = le_txn_id e, se_intent = map_option (redact_note je) (le_intent e)\<rparr>"
  let ?j = "snd (add_secret_event je ?ev j)"
  have one: "leak_events_as je author node base (e # evs) j = leak_events_as je author node base evs ?j"
    by (simp add: leak_events_as_def)
  have "\<exists>l. j_events ?j = j_events j @ l \<and> j_txns ?j = j_txns j \<and> (\<forall>x\<in>set l. ev_event x = ?ev)"
  proof (cases "statement j")
    case (Pair ok j0)
    then show ?thesis using statement_fields(1,6)[OF Pair] by (cases ok) (simp_all add: add_secret_event_def Let_def)
  qed
  then obtain l where l: "j_events ?j = j_events j @ l" "j_txns ?j = j_txns j" "\<forall>x\<in>set l. ev_event x = ?ev" by blast
  from Cons[of ?j] obtain ls where ls: "j_events (leak_events_as je author node base evs ?j) = j_events ?j @ ls"
    "j_txns (leak_events_as je author node base evs ?j) = j_txns ?j"
    "\<forall>x\<in>set ls. \<exists>e\<in>set evs. se_action (ev_event x) = le_action e \<and> se_txn_id (ev_event x) = le_txn_id e" by blast
  show ?case unfolding one ls(1,2) l(1,2) append_assoc
  proof (intro exI[of _ "l @ ls"] conjI refl ballI)
    fix x assume "x \<in> set (l @ ls)"
    then show "\<exists>e\<in>set (e # evs). se_action (ev_event x) = le_action e \<and> se_txn_id (ev_event x) = le_txn_id e"
      using l(3) ls(3) by auto
  qed
qed

lemma gc_if_due_rows: "j_events (gc_if_due je j) = j_events j" "j_txns (gc_if_due je j) = j_txns j"
  by (auto simp: gc_if_due_def gc_blobs_def Let_def split: prod.splits)

lemma begin_as_rows:
  "begin_as je author node intent base files j = (Inr n, j') \<Longrightarrow>
     j_events j' = j_events j \<and> map tx_id (j_txns j') = map tx_id (j_txns j) @ [n]"
  by (auto simp: begin_as_def Let_def begin_files_frame split: prod.splits if_splits)

lemma complete_rows:
  "complete je n j = (Inr u, j') \<Longrightarrow> j_events j' = j_events j \<and> map tx_id (j_txns j') = map tx_id (j_txns j)"
  by (auto simp: complete_def Let_def gc_if_due_rows comp_def split: prod.splits if_splits)

text \<open>
  One transaction, and after the audit rows there were only those of the leaks the edit was allowed.
\<close>

definition one_txn_more :: "int \<Rightarrow> journal \<Rightarrow> event_row list \<Rightarrow> journal \<Rightarrow> bool" where
  "one_txn_more n j ls j' \<longleftrightarrow>
     map tx_id (j_txns j') = map tx_id (j_txns j) @ [n] \<and> j_events j' = j_events j @ ls
     \<and> (\<forall>x\<in>set ls. se_action (ev_event x) \<in> leak_actions \<and> se_txn_id (ev_event x) = Some n)"

lemma edit_journal:
  assumes "apply_txn ck (as_node je node) base req lm author w = (Inr eo, w')" "\<not> er_dry_run req"
  shows "\<exists>n ls. eo_txn_id eo = Some n \<and> one_txn_more n (w_journal w) ls (w_journal w')"
  using assms(1)
proof (cases rule: apply_txn_Inr)
  case dry
  with assms(2) show ?thesis by simp
next
  case (real pl n)
  let ?rc = "as_node je node"
  obtain bufs where "pl = plan_of ck (w_fs w) req (leaks_in ck ?rc base req w (touched_of bufs)) (touched_of bufs)"
    by (rule prepare_Inr[OF real(2)])
  then have act: "\<forall>x\<in>set (lf_applied (pl_leaks pl)). fst (snd x) \<in> leak_actions"
    using leak_phase_actions by (simp add: plan_of_def leaks_in_def)
  have n: "eo_txn_id eo = Some n" using real by (simp add: outcome_of_def)
  from real(3) show ?thesis
  proof (cases rule: commit_cases)
    case (finished m staged w1 j w2 w3 j')
    have m: "m = n" using finished(1) by simp
    have b: "j_events j = j_events (w_journal w)" "map tx_id (j_txns j) = map tx_id (j_txns (w_journal w)) @ [n]"
      using finished(3) begin_as_rows m by (fastforce simp: as_node_def)+
    have j3: "w_journal w3 = j"
      using promote_all_journal[OF finished(4)] unlink_all_journal[OF finished(5)] by simp
    have c: "j_events j' = j_events j" "map tx_id (j_txns j') = map tx_id (j_txns j)"
      using finished(6) complete_rows unfolding j3 by (fastforce simp: as_node_def)+
    let ?evs = "map (\<lambda>(p, action, k). mk_leak_event p action k (Some n) (er_intent req)) (lf_applied (pl_leaks pl))"
    have j': "w_journal w' = (if lf_applied (pl_leaks pl) = [] then j' else leak_events_as je author node base ?evs j')"
      unfolding finished(7) m by (simp add: leaked_def as_node_def)
    have evs: "\<forall>e\<in>set ?evs. le_action e \<in> leak_actions \<and> le_txn_id e = Some n"
      using act by (fastforce simp: mk_leak_event_def)
    obtain ls where "j_events (w_journal w') = j_events j' @ ls" "j_txns (w_journal w') = j_txns j'"
      "\<forall>x\<in>set ls. \<exists>e\<in>set ?evs. se_action (ev_event x) = le_action e \<and> se_txn_id (ev_event x) = le_txn_id e"
    proof (cases "lf_applied (pl_leaks pl) = []")
      case True
      with that[of "[]"] j' show ?thesis by simp
    next
      case False
      with that leak_events_rows[of je author node base ?evs j'] j' show ?thesis by auto
    qed
    with b c evs have "one_txn_more n (w_journal w) ls (w_journal w')" unfolding one_txn_more_def by fastforce
    with n show ?thesis by blast
  qed simp_all
qed

lemma load_entry_Inr:
  "load_entry ck fs cx path key = Inr (c, e) \<longleftrightarrow>
     (\<exists>f. load_file ck fs cx path = Inr (c, f) \<and> get_entry f key = Some e)"
  by (auto simp: load_entry_def and_then_def split: sum.splits option.splits)

lemma load_file_Inr:
  assumes "load_file ck fs cx path = Inr (c, f)"
  obtains l where "load_text ck fs (cx_root cx) path (cx_limits cx) = Inr l"
    "Kaed_Dotenv.parse (ld_content l) = Some f"
    "c \<longleftrightarrow> rule_blocks (cr_globs ck) (rr_classify (cx_root cx)) (ld_abs l)"
proof -
  from assms obtain l where l: "load_text ck fs (cx_root cx) path (cx_limits cx) = Inr l"
    by (cases "load_text ck fs (cx_root cx) path (cx_limits cx)") (auto simp: load_file_def and_then_def)
  show thesis
  proof (cases "ld_secrecy l")
    case Plain
    with assms l load_text_guard(3)[OF l] that[OF l] show thesis
      by (auto simp: load_file_def split: option.splits)
  next
    case (ClassifiedDotenv rule g)
    with assms l load_text_guard(3,4)[OF l] that[OF l] show thesis by (simp add: load_file_def)
  qed
qed

section \<open>Reveal\<close>

lemma reveal_check_Inr:
  assumes "reveal_check ck fs cx p = Inr e"
  shows "sx_allow_reveal (cx_secrets cx)" "trim (vp_intent p) \<noteq> []"
    "load_entry ck fs cx (vp_path p) (vp_key p) = Inr (True, e)"
    "vp_expected_digest p = Some d \<Longrightarrow> digest_of (cr_h ck) (e_value e) = d"
  using assms by (auto simp: reveal_check_def and_then_def split: if_splits sum.splits option.splits)

text \<open>The row a disclosure leaves.\<close>

definition disclosure :: "crates \<Rightarrow> journal_env \<Rightarrow> secret_ctx \<Rightarrow> reveal_params \<Rightarrow> rstr \<Rightarrow> secret_event" where
  "disclosure ck je cx p v =
     secret_row je cx (if vp_destination p \<noteq> None then ''transport'' else ''reveal'') (rr_name (cx_root cx))
       (vp_path p) (vp_key p) None (floor_digest (cr_h ck) v) True (vp_destination p) None (Some (vp_intent p))"

lemma reveal_cases:
  assumes "reveal ck je cx p w = (r, w')"
  obtains (refused) x where "reveal_check ck (w_fs w) cx p = Inl x" "r = Inl x" "w' = w"
  | (unlogged) e x where "reveal_check ck (w_fs w) cx p = Inr e" "r = Inl x"
      "log_event je (disclosure ck je cx p (e_value e)) w = (Inl x, w')"
  | (given) e n where "reveal_check ck (w_fs w) cx p = Inr e"
      "log_event je (disclosure ck je cx p (e_value e)) w = (Inr n, w')"
      "r = Inr \<lparr>vr_key = vp_key p, vr_value = e_value e, vr_digest = floor_digest (cr_h ck) (e_value e),
                vr_disclosed = True\<rparr>"
proof (cases "reveal_check ck (w_fs w) cx p")
  case (Inl x)
  then have "reveal ck je cx p w = (Inl x, w)" by (simp add: reveal_def)
  with assms refused[OF Inl] show thesis by simp
next
  case (Inr e)
  obtain q w1 where q: "log_event je (disclosure ck je cx p (e_value e)) w = (q, w1)" by (rule prod.exhaust)
  let ?out = "\<lparr>vr_key = vp_key p, vr_value = e_value e, vr_digest = floor_digest (cr_h ck) (e_value e),
    vr_disclosed = True\<rparr>"
  have u: "reveal ck je cx p w = bind_step (log_event je (disclosure ck je cx p (e_value e))) (\<lambda>_. ret ?out) w"
    unfolding reveal_def Let_def Inr bind_step_lift disclosure_def ..
  have r: "(r, w') = (case q of Inl x \<Rightarrow> (Inl x, w1) | Inr n \<Rightarrow> (Inr ?out, w1))"
    unfolding assms[symmetric] u by (simp add: bind_step_def q ret_def split: sum.splits)
  show thesis
  proof (cases q)
    case (Inl x)
    with r have "r = Inl x" "w' = w1" by simp_all
    with unlogged[OF \<open>reveal_check ck (w_fs w) cx p = Inr e\<close>] q Inl show thesis by blast
  next
    case (Inr n)
    with r have "r = Inr ?out" "w' = w1" by simp_all
    with given[OF \<open>reveal_check ck (w_fs w) cx p = Inr e\<close>] q Inr show thesis by blast
  qed
qed

text \<open>C11: No value leaves without its row. When reveal succeeds it was enabled on the host, the intent
  was not blank, the file is classified and holds the key with exactly the value that is returned,
  which has the digest the caller expected if it named one; no file has changed, and the journal is the
  old one with one more audit row, marked disclosed, with the caller's author, node, path, key,
  redacted intent and destination and the value's digest (never below the entropy floor). When it
  fails, whatever the reason, the files and the audit stream are as before and no value is in the answer.\<close>
theorem reveal_audited:
  assumes "reveal ck je cx p w = (r, w')"
  shows "w' = w\<lparr>w_journal := w_journal w'\<rparr>
    \<and> (\<forall>out. r = Inr out \<longrightarrow>
         sx_allow_reveal (cx_secrets cx) \<and> trim (vp_intent p) \<noteq> []
         \<and> (\<exists>l f. load_text ck (w_fs w) (cx_root cx) (vp_path p) (cx_limits cx) = Inr l
              \<and> rule_blocks (cr_globs ck) (rr_classify (cx_root cx)) (ld_abs l)
              \<and> Kaed_Dotenv.parse (ld_content l) = Some f
              \<and> map_option e_value (get_entry f (vp_key p)) = Some (vr_value out))
         \<and> (\<forall>d. vp_expected_digest p = Some d \<longrightarrow> digest_of (cr_h ck) (vr_value out) = d)
         \<and> logged je
             \<lparr>se_author = cx_author cx, se_node = cx_node cx,
              se_action = (if vp_destination p \<noteq> None then ''transport'' else ''reveal''),
              se_root = rr_name (cx_root cx), se_path = vp_path p, se_key = vp_key p, se_old_digest = None,
              se_new_digest = (if clears_floor (vr_value out) then Some (digest_of (cr_h ck) (vr_value out)) else None),
              se_disclosed = True, se_destination = vp_destination p, se_txn_id = None,
              se_intent = Some (redact_note je (vp_intent p))\<rparr>
             (w_journal w) (w_journal w'))
    \<and> (\<forall>x. r = Inl x \<longrightarrow> j_events (w_journal w') = j_events (w_journal w))"
  using assms
proof (cases rule: reveal_cases)
  case (refused x)
  then show ?thesis by simp
next
  case (unlogged e x)
  from log_event_Inl[OF unlogged(3)] unlogged(2) show ?thesis by simp
next
  case (given e n)
  note c = reveal_check_Inr[OF given(1)]
  from c(3) obtain f where f: "load_file ck (w_fs w) cx (vp_path p) = Inr (True, f)" "get_entry f (vp_key p) = Some e"
    unfolding load_entry_Inr by blast
  from f(1) obtain l where l: "load_text ck (w_fs w) (cx_root cx) (vp_path p) (cx_limits cx) = Inr l"
    "Kaed_Dotenv.parse (ld_content l) = Some f" "rule_blocks (cr_globs ck) (rr_classify (cx_root cx)) (ld_abs l)"
    by (rule load_file_Inr) simp
  have "\<exists>l f. load_text ck (w_fs w) (cx_root cx) (vp_path p) (cx_limits cx) = Inr l
      \<and> rule_blocks (cr_globs ck) (rr_classify (cx_root cx)) (ld_abs l)
      \<and> Kaed_Dotenv.parse (ld_content l) = Some f \<and> map_option e_value (get_entry f (vp_key p)) = Some (e_value e)"
    using l f(2) by auto
  then show ?thesis
    using log_event_Inr[OF given(2)] given(3) c(1,2,4)
    by (simp add: disclosure_def secret_row_def floor_digest_def split del: if_split cong: if_cong)
qed

section \<open>Typed writes of one value\<close>

text \<open>A value a typed write stores as it is.\<close>

definition storable :: "rstr \<Rightarrow> bool" where
  "storable v \<longleftrightarrow> \<not> contains_placeholder_syntax v \<and> quotable v"

lemma tag_chars_storable:
  assumes "\<forall>c\<in>set v. tag_char c"
  shows "storable v"
proof -
  have "\<not> tag_char (CHR 0xE2)" "\<not> tag_char dquote" "\<not> tag_char backslash"
    by code_simp+
  moreover have "CHR 0xE2 \<in> set PLACEHOLDER_OPEN" by (simp add: PLACEHOLDER_OPEN_def angle_open_def)
  ultimately show ?thesis
    using assms find_sub_in_set[of PLACEHOLDER_OPEN v]
    by (auto simp: storable_def quotable_def contains_placeholder_syntax_def)
qed

lemma env_set_op:
  assumes "run_op ck fs base lm (EnvSet path key (Some v) None cm) bufs = Inr bufs'" "storable v"
  obtains b f f' where "map_of bufs path = Some b" "\<not> fb_deleted b" "Kaed_Dotenv.parse (fb_content b) = Some f"
    "env_set f key (Some v) cm = Inr f'" "Kaed_Dotenv.parse (render f') = Some f'"
    "bufs' = write_buf path b (render f') bufs"
proof -
  from assms(1) have d: "op_env_set ck fs base lm path key (Some v) None cm bufs = Inr bufs'"
    by (auto simp: run_op_def and_then_def split: sum.splits option.splits if_splits)
  then obtain b where b: "map_of bufs path = Some b" "\<not> fb_deleted b" "declared bufs path = Inr b"
    by (auto simp: op_env_set_def and_then_def declared_def declared_any_def ok_or_def
        split: sum.splits option.splits if_splits)
  with d obtain f where f: "Kaed_Dotenv.parse (fb_content b) = Some f"
    by (auto simp: op_env_set_def and_then_def parse_dotenv_buf_def ok_or_def split: sum.splits option.splits)
  have r: "resolve_value (cr_h ck) f path v = Inr v" using assms(2) by (intro resolve_plain) (simp add: storable_def)
  obtain f' where f': "env_set f key (Some v) cm = Inr f'" "bufs' = write_buf path b (render f') bufs"
    using d b(3) f r
    by (cases "env_set f key (Some v) cm") (auto simp: op_env_set_def parse_dotenv_buf_def ok_or_def map_err_def and_then_def)
  have "Kaed_Dotenv.parse (render f') = Some f'"
    using env_set_parse[OF f f'(1)] assms(2) by (simp add: storable_def)
  with b f f' that show thesis by blast
qed

lemma load_base_shape:
  assumes "load_base ck bl fs base lm b bufs = Inr bufs'"
  obtains l where "load_text ck fs base (bv_path b) lm = Inr l" "ld_version l = bv_version b"
    "map_of bufs (bv_path b) = None" "bufs' = om_insert (bv_path b) (buf_of_loaded l) bufs"
  using assms by (auto simp: load_base_def and_then_def map_err_def split: if_splits sum.splits)

text \<open>One declared file and one typed write of it.\<close>

definition set_one :: "rstr \<Rightarrow> rstr \<Rightarrow> rstr \<Rightarrow> rstr \<Rightarrow> rstr option \<Rightarrow> rstr \<Rightarrow> bool \<Rightarrow> rstr list \<Rightarrow> edit_request" where
  "set_one path version key v cm intent show_diff drops =
     set_request [\<lparr>bv_path = path, bv_version = version\<rparr>] [EnvSet path key (Some v) None cm] intent show_diff drops"

lemma set_one_run:
  assumes "run_ops ck rc w base lm (set_one path version key v cm intent sd drops) = Inr bufs" "storable v"
  obtains l f f' where "load_text ck (w_fs w) base path lm = Inr l" "ld_version l = version"
    "Kaed_Dotenv.parse (ld_content l) = Some f" "env_set f key (Some v) cm = Inr f'"
    "Kaed_Dotenv.parse (render f') = Some f'"
    "bufs = [(path, (buf_of_loaded l)\<lparr>fb_content := render f', fb_touched := True\<rparr>)]"
proof -
  define q where "q = set_one path version key v cm intent sd drops"
  have q: "er_base q = [\<lparr>bv_path = path, bv_version = version\<rparr>]" "er_ops q = [EnvSet path key (Some v) None cm]"
    by (simp_all add: q_def set_one_def set_request_def)
  let ?lb = "load_base ck (\<lambda>v. rec_blob rc v (w_journal w)) (w_fs w) base lm \<lparr>bv_path = path, bv_version = version\<rparr> []"
  from assms(1)[folded q_def] obtain bs where bs: "?lb = Inr bs"
    "run_op ck (w_fs w) base lm (EnvSet path key (Some v) None cm) bs = Inr bufs"
    by (cases ?lb) (auto simp: run_ops_def q and_then_def split: sum.splits)
  from bs(1) obtain l where l: "load_text ck (w_fs w) base path lm = Inr l" "ld_version l = version"
    "bs = [(path, buf_of_loaded l)]"
    by (rule load_base_shape) simp
  from bs(2) assms(2) obtain b f f' where o: "map_of bs path = Some b" "Kaed_Dotenv.parse (fb_content b) = Some f"
    "env_set f key (Some v) cm = Inr f'" "Kaed_Dotenv.parse (render f') = Some f'"
    "bufs = write_buf path b (render f') bs"
    by (rule env_set_op)
  have b: "b = buf_of_loaded l" using o(1) l(3) by simp
  show thesis
    by (rule that[OF l(1,2) _ o(3,4)]) (use o(2,5) l(3) b in \<open>simp_all add: buf_of_loaded_def write_buf_def\<close>)
qed

definition unmarked_path :: "path \<Rightarrow> bool" where
  "unmarked_path p \<longleftrightarrow> \<not> contains_sub ''.kaed-tmp.'' (last p)"

lemma set_one_effect:
  assumes "apply_txn ck rc base (set_one path version key v cm intent sd drops) lm author w = (Inr out, w')"
    and "storable v" "real_dir (w_fs w) (rr_path base)" "honest w"
    and "\<forall>l. load_text ck (w_fs w) base path lm = Inr l \<longrightarrow> unmarked_path (ld_abs l)"
  obtains l f f' where "load_text ck (w_fs w) base path lm = Inr l" "ld_version l = version"
    "Kaed_Dotenv.parse (ld_content l) = Some f" "env_set f key (Some v) cm = Inr f'"
    "Kaed_Dotenv.parse (render f') = Some f'"
    "fs_nodes (w_fs w') (ld_abs l) = Some (FileN (render f') (perm_bits (ld_mode l)))"
    "\<forall>q nd. q \<noteq> ld_abs l \<and> fs_nodes (w_fs w) q = Some nd \<longrightarrow> fs_nodes (w_fs w') q = Some nd"
    "eo_files out = [\<lparr>fc_path = path, fc_old_version = Some version, fc_new_version = Some (version_of (cr_h ck) (render f')),
       fc_deleted = False, fc_recoverable = None, fc_unrecoverable_because = None\<rparr>]"
    "sd \<Longrightarrow> eo_diff out = Some (if rule_blocks (cr_globs ck) (rr_classify base) (ld_abs l)
       then cr_udiff ck (redact_view (cr_h ck) (ld_content l)) (redact_view (cr_h ck) (render f')) path
       else cr_udiff ck (ld_content l) (render f') path)"
proof -
  let ?req = "set_one path version key v cm intent sd drops"
  have nd: "\<not> er_dry_run ?req" by (simp add: set_one_def set_request_def)
  from assms(1) nd obtain pl n where pl: "prepare ck rc base lm author ?req w = (Inr pl, w)" "out = outcome_of pl (Some n)"
    by (rule_tac apply_txn_Inr[OF assms(1)]) auto
  from pl(1) obtain bufs where bufs: "run_ops ck rc w base lm ?req = Inr bufs"
      "pl_diff pl = (if er_return_diff ?req then Some (concat (map (diff_one ck) (touched_of bufs))) else None)"
    by (rule prepare_Inr) (simp add: plan_of_def)
  from bufs(1) assms(2) obtain l f f' where l: "load_text ck (w_fs w) base path lm = Inr l" "ld_version l = version"
    "Kaed_Dotenv.parse (ld_content l) = Some f" "env_set f key (Some v) cm = Inr f'"
    "Kaed_Dotenv.parse (render f') = Some f'"
    and b: "bufs = [(path, (buf_of_loaded l)\<lparr>fb_content := render f', fb_touched := True\<rparr>)]"
    by (rule set_one_run)
  have t: "touched_of bufs = bufs" using b by (simp add: touched_of_def)
  have "distinct (map (fb_abs \<circ> snd) (touched_of bufs))" "unmarked (touched_of bufs)"
    using b t l(1) assms(5) by (simp_all add: unmarked_def unmarked_path_def buf_of_loaded_def)
  note e = apply_effect[OF assms(1) nd bufs(1) assms(3,4) this, unfolded t]
  have s: "ld_secrecy l = Plain \<longleftrightarrow> \<not> rule_blocks (cr_globs ck) (rr_classify base) (ld_abs l)"
    by (rule load_text_guard(3)[OF l(1)])
  show thesis
  proof (rule that[OF l])
    show "fs_nodes (w_fs w') (ld_abs l) = Some (FileN (render f') (perm_bits (ld_mode l)))"
      using e b by (simp add: buf_of_loaded_def)
    show "\<forall>q nd. q \<noteq> ld_abs l \<and> fs_nodes (w_fs w) q = Some nd \<longrightarrow> fs_nodes (w_fs w') q = Some nd"
      using e b by (simp add: buf_of_loaded_def)
    show "eo_files out = [\<lparr>fc_path = path, fc_old_version = Some version,
        fc_new_version = Some (version_of (cr_h ck) (render f')), fc_deleted = False, fc_recoverable = None,
        fc_unrecoverable_because = None\<rparr>]"
      using e b l(2) by (simp add: buf_of_loaded_def change_of_def)
    assume sd
    then show "eo_diff out = Some (if rule_blocks (cr_globs ck) (rr_classify base) (ld_abs l)
        then cr_udiff ck (redact_view (cr_h ck) (ld_content l)) (redact_view (cr_h ck) (render f')) path
        else cr_udiff ck (ld_content l) (render f') path)"
      using pl(2) bufs(2) t b s
      by (cases "ld_secrecy l") (simp_all add: outcome_of_def set_one_def set_request_def diff_one_def buf_of_loaded_def)
  qed
qed

section \<open>Generate\<close>

lemma resolve_shape_valid:
  assumes "resolve_shape cx spec = Inr sh" "\<forall>(n, s)\<in>set (sx_shapes (cx_secrets cx)). valid_shape s"
  shows "valid_shape sh"
proof (cases "map_of (sx_shapes (cx_secrets cx)) spec")
  case None
  with assms(1) have "parse_spec spec = Inr sh" by (auto simp: resolve_shape_def map_err_def split: sum.splits)
  then show ?thesis using parse_inner_valid by (auto simp: parse_spec_def)
next
  case (Some s)
  with assms show ?thesis by (auto simp: resolve_shape_def dest: map_of_SomeD)
qed

lemma generate_edit_set_one:
  "generate_edit p sh v = set_one (gp_path p) (gp_version p) (gp_key p) v (gp_comment p)
     (case gp_intent p of Some i \<Rightarrow> i | None \<Rightarrow> ''generate '' @ gp_key p @ '' ('' @ shape_str sh @ '')'') True []"
  by (simp add: generate_edit_def set_one_def)

lemma generate_Inr:
  assumes "generate ck je en cx p w = (Inr out, w')"
  obtains sh c f v eo w1 n where "resolve_shape cx (gp_shape p) = Inr sh"
    "load_file ck (w_fs w) cx (gp_path p) = Inr (c, f)" "get_entry f (gp_key p) = None" "mint en sh = Inr v"
    "apply_txn ck (bare_recorder je) (cx_root cx) (generate_edit p sh v) (cx_limits cx) (cx_author cx) w = (Inr eo, w1)"
    "log_event je (secret_row je cx ''generate'' (rr_name (cx_root cx)) (gp_path p) (gp_key p) None
       (floor_digest (cr_h ck) v) False None (eo_txn_id eo) (gp_intent p)) w1 = (Inr n, w')"
    "gr_txn_id out = eo_txn_id eo" "gr_files out = eo_files eo" "gr_diff out = eo_diff eo"
    "gr_key out = gp_key p" "gr_shape out = shape_str sh" "gr_placeholder out = placeholder (cr_h ck) (gp_key p) v"
    "gr_handle out = \<lparr>hd_root = rr_name (cx_root cx), hd_path = gp_path p, hd_key = gp_key p,
       hd_digest = floor_digest (cr_h ck) v\<rparr>"
proof -
  from assms obtain sh c f where a: "resolve_shape cx (gp_shape p) = Inr sh"
    "load_file ck (w_fs w) cx (gp_path p) = Inr (c, f)" "get_entry f (gp_key p) = None"
    by (cases "resolve_shape cx (gp_shape p)"; cases "load_file ck (w_fs w) cx (gp_path p)")
      (auto simp: generate_def lift_res_def split: if_splits)
  from assms obtain v where v: "mint en sh = Inr v"
    unfolding generate_def a bind_step_lift prod.case by (cases "mint en sh") (simp_all add: a(3))
  let ?hl = "\<lparr>hd_root = rr_name (cx_root cx), hd_path = gp_path p, hd_key = gp_key p,
       hd_digest = floor_digest (cr_h ck) v\<rparr>"
  have "\<exists>eo w1 n. apply_txn ck (bare_recorder je) (cx_root cx) (generate_edit p sh v) (cx_limits cx) (cx_author cx) w = (Inr eo, w1)
    \<and> log_event je (secret_row je cx ''generate'' (rr_name (cx_root cx)) (gp_path p) (gp_key p) None
       (floor_digest (cr_h ck) v) False None (eo_txn_id eo) (gp_intent p)) w1 = (Inr n, w')
    \<and> out = \<lparr>gr_txn_id = eo_txn_id eo, gr_key = gp_key p, gr_shape = shape_str sh,
          gr_placeholder = placeholder (cr_h ck) (gp_key p) v, gr_handle = ?hl, gr_handle_line = handle_line ?hl,
          gr_files = eo_files eo, gr_diff = eo_diff eo, gr_warnings = eo_warnings eo\<rparr>"
    using assms unfolding generate_def a v bind_step_lift prod.case Let_def
    by (simp add: a(3) v bind_step_Inr ret_def eq_commute[of out])
  then show thesis using that[OF a v] by auto
qed

text \<open>C10: What generating a secret did. A successful call minted a value of the shape it names, of exactly
  the shape's length, and wrote it under a key the file did not have: what is on disk parses, holds
  that value under the new key as its last key, and every other key as before; every other existing file is
  untouched and the base version was the file's. The answer carries the placeholder, the handle with
  the digest (only above the entropy floor) and the diff, which for a classified file is one of
  redacted renderings; and the journal has one transaction more and its audit stream, after all it held before
  and the rows of the leaks that transaction was allowed, one row that says who generated which key, not
  disclosed, with the digest and the transaction.\<close>
theorem generate_effect:
  assumes "generate ck je en cx p w = (Inr out, w')" "fills en"
    and "\<forall>(n, s)\<in>set (sx_shapes (cx_secrets cx)). valid_shape s"
    and "real_dir (w_fs w) (rr_path (cx_root cx))" "honest w"
    and "\<forall>l. load_text ck (w_fs w) (cx_root cx) (gp_path p) (cx_limits cx) = Inr l \<longrightarrow> unmarked_path (ld_abs l)"
  shows "\<exists>sh v l f f'.
      resolve_shape cx (gp_shape p) = Inr sh \<and> valid_shape sh \<and> gr_shape out = shape_str sh \<and> mint en sh = Inr v \<and> length v = minted_len sh
    \<and> load_text ck (w_fs w) (cx_root cx) (gp_path p) (cx_limits cx) = Inr l \<and> ld_version l = gp_version p
    \<and> Kaed_Dotenv.parse (ld_content l) = Some f \<and> get_entry f (gp_key p) = None
    \<and> fs_nodes (w_fs w') (ld_abs l) = Some (FileN (render f') (perm_bits (ld_mode l)))
    \<and> Kaed_Dotenv.parse (render f') = Some f' \<and> keys f' = keys f @ [gp_key p]
    \<and> map_option e_value (get_entry f' (gp_key p)) = Some v
    \<and> (\<forall>k. k \<noteq> gp_key p \<longrightarrow> get_entry f' k = get_entry f k)
    \<and> (\<forall>q nd. q \<noteq> ld_abs l \<and> fs_nodes (w_fs w) q = Some nd \<longrightarrow> fs_nodes (w_fs w') q = Some nd)
    \<and> gr_placeholder out = placeholder (cr_h ck) (gp_key p) v
    \<and> hd_digest (gr_handle out) = (if clears_floor v then Some (digest_of (cr_h ck) v) else None)
    \<and> gr_diff out = Some (if rule_blocks (cr_globs ck) (rr_classify (cx_root cx)) (ld_abs l)
        then cr_udiff ck (redact_view (cr_h ck) (ld_content l)) (redact_view (cr_h ck) (render f')) (gp_path p)
        else cr_udiff ck (ld_content l) (render f') (gp_path p))
    \<and> (\<exists>n ls r. gr_txn_id out = Some n \<and> j_events (w_journal w') = j_events (w_journal w) @ ls @ [r]
        \<and> map tx_id (j_txns (w_journal w')) = map tx_id (j_txns (w_journal w)) @ [n]
        \<and> (\<forall>x\<in>set ls. se_action (ev_event x) \<in> leak_actions \<and> se_txn_id (ev_event x) = Some n)
        \<and> ev_event r =
        \<lparr>se_author = cx_author cx, se_node = cx_node cx, se_action = ''generate'', se_root = rr_name (cx_root cx),
         se_path = gp_path p, se_key = gp_key p, se_old_digest = None, se_new_digest = hd_digest (gr_handle out),
         se_disclosed = False, se_destination = None, se_txn_id = gr_txn_id out,
         se_intent = map_option (redact_note je) (gp_intent p)\<rparr>)"
  using assms(1)
proof (rule generate_Inr)
  fix sh c g v eo w1 n
  assume a: "resolve_shape cx (gp_shape p) = Inr sh" "load_file ck (w_fs w) cx (gp_path p) = Inr (c, g)"
    "get_entry g (gp_key p) = None" "mint en sh = Inr v"
    "apply_txn ck (bare_recorder je) (cx_root cx) (generate_edit p sh v) (cx_limits cx) (cx_author cx) w = (Inr eo, w1)"
    "log_event je (secret_row je cx ''generate'' (rr_name (cx_root cx)) (gp_path p) (gp_key p) None
       (floor_digest (cr_h ck) v) False None (eo_txn_id eo) (gp_intent p)) w1 = (Inr n, w')"
  assume o: "gr_txn_id out = eo_txn_id eo" "gr_files out = eo_files eo" "gr_diff out = eo_diff eo"
    "gr_key out = gp_key p" "gr_shape out = shape_str sh" "gr_placeholder out = placeholder (cr_h ck) (gp_key p) v"
    "gr_handle out = \<lparr>hd_root = rr_name (cx_root cx), hd_path = gp_path p, hd_key = gp_key p,
       hd_digest = floor_digest (cr_h ck) v\<rparr>"
  have sh: "valid_shape sh" by (rule resolve_shape_valid[OF a(1) assms(3)])
  have st: "storable v" using mint_chars[OF assms(2) a(4) sh] by (intro tag_chars_storable) blast
  have dr: "\<not> er_dry_run (generate_edit p sh v)" by (simp add: generate_edit_def set_request_def)
  obtain m ls where m: "eo_txn_id eo = Some m" "one_txn_more m (w_journal w) ls (w_journal w1)"
    using edit_journal[OF a(5)[unfolded bare_recorder_def] dr] by blast
  have ev: "w_fs w' = w_fs w1 \<and> (\<exists>n ls r. gr_txn_id out = Some n \<and> j_events (w_journal w') = j_events (w_journal w) @ ls @ [r]
        \<and> map tx_id (j_txns (w_journal w')) = map tx_id (j_txns (w_journal w)) @ [n]
        \<and> (\<forall>x\<in>set ls. se_action (ev_event x) \<in> leak_actions \<and> se_txn_id (ev_event x) = Some n)
        \<and> ev_event r =
        \<lparr>se_author = cx_author cx, se_node = cx_node cx, se_action = ''generate'', se_root = rr_name (cx_root cx),
         se_path = gp_path p, se_key = gp_key p, se_old_digest = None, se_new_digest = hd_digest (gr_handle out),
         se_disclosed = False, se_destination = None, se_txn_id = gr_txn_id out,
         se_intent = map_option (redact_note je) (gp_intent p)\<rparr>)"
  proof
    show "w_fs w' = w_fs w1" by (rule log_event_fs[OF a(6)])
    let ?r = "\<lparr>ev_id = j_event_seq (w_journal w1) + 1, ev_event = secret_row je cx ''generate'' (rr_name (cx_root cx)) (gp_path p)
       (gp_key p) None (floor_digest (cr_h ck) v) False None (eo_txn_id eo) (gp_intent p), ev_created = now je (w_journal w1)\<rparr>"
    have "logged je (ev_event ?r) (w_journal w1) (w_journal w')" using log_event_Inr[OF a(6)] by simp
    then have lg: "j_events (w_journal w') = j_events (w_journal w1) @ [?r]" "j_txns (w_journal w') = j_txns (w_journal w1)"
      by (simp_all add: logged_def)
    show "\<exists>n ls r. gr_txn_id out = Some n \<and> j_events (w_journal w') = j_events (w_journal w) @ ls @ [r]
        \<and> map tx_id (j_txns (w_journal w')) = map tx_id (j_txns (w_journal w)) @ [n]
        \<and> (\<forall>x\<in>set ls. se_action (ev_event x) \<in> leak_actions \<and> se_txn_id (ev_event x) = Some n)
        \<and> ev_event r =
        \<lparr>se_author = cx_author cx, se_node = cx_node cx, se_action = ''generate'', se_root = rr_name (cx_root cx),
         se_path = gp_path p, se_key = gp_key p, se_old_digest = None, se_new_digest = hd_digest (gr_handle out),
         se_disclosed = False, se_destination = None, se_txn_id = gr_txn_id out,
         se_intent = map_option (redact_note je) (gp_intent p)\<rparr>"
      using m by (intro exI[of _ m] exI[of _ ls] exI[of _ ?r]) (simp add: lg one_txn_more_def secret_row_def o(1,7))
  qed
  show ?thesis
  proof (rule set_one_effect[OF a(5)[unfolded generate_edit_set_one] st assms(4,5,6)])
    fix l f f'
    assume l: "load_text ck (w_fs w) (cx_root cx) (gp_path p) (cx_limits cx) = Inr l" "ld_version l = gp_version p"
      "Kaed_Dotenv.parse (ld_content l) = Some f" "env_set f (gp_key p) (Some v) (gp_comment p) = Inr f'"
      "Kaed_Dotenv.parse (render f') = Some f'"
      "fs_nodes (w_fs w1) (ld_abs l) = Some (FileN (render f') (perm_bits (ld_mode l)))"
      "\<forall>q nd. q \<noteq> ld_abs l \<and> fs_nodes (w_fs w) q = Some nd \<longrightarrow> fs_nodes (w_fs w1) q = Some nd"
      "True \<Longrightarrow> eo_diff eo = Some (if rule_blocks (cr_globs ck) (rr_classify (cx_root cx)) (ld_abs l)
        then cr_udiff ck (redact_view (cr_h ck) (ld_content l)) (redact_view (cr_h ck) (render f')) (gp_path p)
        else cr_udiff ck (ld_content l) (render f') (gp_path p))"
    from a(2) l(1,3) have "g = f" by (auto elim: load_file_Inr)
    with a(3) have n: "get_entry f (gp_key p) = None" "gp_key p \<notin> set (keys f)"
      by (auto simp: get_entry_append find_None_iff keys_def)
    have k: "keys f' = keys f @ [gp_key p]" using env_set_keys[OF l(4)] n(2) by simp
    have e: "map_option e_value (get_entry f' (gp_key p)) = Some v"
      "\<forall>k. k \<noteq> gp_key p \<longrightarrow> get_entry f' k = get_entry f k"
      using env_set_get[OF l(4)] by blast+
    have fs: "w_fs w' = w_fs w1" using ev by blast
    have h: "hd_digest (gr_handle out) = (if clears_floor v then Some (digest_of (cr_h ck) v) else None)"
      unfolding o floor_digest_def by simp
    show ?thesis
      unfolding fs
      by (intro exI[of _ sh] exI[of _ v] exI[of _ l] exI[of _ f] exI[of _ f'] conjI;
        (rule a(1) sh o(5,6) o(3)[unfolded l(8)[OF TrueI]] a(4) minted_len[OF assms(2) a(4)] l(1-3,5-7) n(1) k e h
          ev[THEN conjunct2])?)
  qed
qed

section \<open>Witnesses\<close>

definition demo_env :: dotenv_file where
  "demo_env = \<lparr>dlines = [\<lparr>l_raw = ''K=v'', l_kind = Entry \<lparr>e_export = False, e_key = ''K'', e_value = ''v''\<rparr>\<rparr>],
     trailing_newline = True\<rparr>"

definition demo_bytes :: rstr where "demo_bytes = ''K=v'' @ [nl]"

definition demo_minted :: rstr where "demo_minted = ''123456789012345678901234''"

definition demo_env2 :: dotenv_file where
  "demo_env2 = \<lparr>dlines = dlines demo_env @ [\<lparr>l_raw = ''S='' @ demo_minted, l_kind =
       Entry \<lparr>e_export = False, e_key = ''S'', e_value = demo_minted\<rparr>\<rparr>], trailing_newline = True\<rparr>"

definition demo_cx :: secret_ctx where
  "demo_cx = \<lparr>cx_root = demo_root, cx_roots = [demo_root], cx_limits = default_limits, cx_author = ''me'',
     cx_node = ''h'', cx_secrets = \<lparr>sx_allow_reveal = True, sx_shapes = [(''tok'', Hex 24)]\<rparr>\<rparr>"

definition demo_sealed :: loaded where
  "demo_sealed = \<lparr>ld_abs = [''r'', ''.env''], ld_content = demo_bytes, ld_version = version_of zero_hash demo_bytes,
     ld_mode = 384, ld_secrecy = ClassifiedDotenv ''.env'' demo_env\<rparr>"

lemma demo_env_parse: "Kaed_Dotenv.parse demo_bytes = Some demo_env"
  unfolding demo_env_def demo_bytes_def by code_simp

lemma demo_sealed_load: "load_text demo_ck demo_fs demo_root ''.env'' default_limits = Inr demo_sealed"
proof -
  have r: "resolve_existing demo_ck demo_fs demo_root ''.env'' = Inr [''r'', ''.env'']" by code_simp
  have c: "classified_by (cr_globs demo_ck) (rr_classify demo_root) [''r'', ''.env''] = Some ''.env''" by code_simp
  have v: "valid_utf8 demo_bytes" "\<not> has_ignore_marker demo_bytes" unfolding demo_bytes_def by code_simp+
  have b: "\<not> looks_binary demo_bytes" "length demo_bytes = 4" by (simp_all add: looks_binary_def BINARY_SNIFF_LEN_def demo_bytes_def)
  have n: "node_at demo_fs [''r'', ''.env''] = Some (FileN demo_bytes 384)" "fs_read demo_fs p" for p
    by (simp_all add: node_at_def demo_fs_def demo_bytes_def)
  have lim: "lim_file_bytes default_limits = 8388608" by (simp add: default_limits_def)
  have h: "cr_h demo_ck = zero_hash" by (simp add: demo_ck_def)
  show ?thesis
    unfolding load_text_def r and_then_Inr n option.case node.case lim c h
    using v b demo_env_parse by (simp add: n c as_text_def secrecy_of_def demo_sealed_def)
qed

lemma demo_load_entry: "load_entry demo_ck demo_fs demo_cx ''.env'' ''K'' =
    Inr (True, \<lparr>e_export = False, e_key = ''K'', e_value = ''v''\<rparr>)"
proof -
  have "load_file demo_ck demo_fs demo_cx ''.env'' = Inr (True, demo_env)"
    by (simp add: load_file_def demo_cx_def demo_sealed_load demo_sealed_def)
  moreover have "get_entry demo_env ''K'' = Some \<lparr>e_export = False, e_key = ''K'', e_value = ''v''\<rparr>"
    unfolding demo_env_def by code_simp
  ultimately show ?thesis by (simp add: load_entry_def)
qed

definition demo_reveal :: reveal_params where
  "demo_reveal = \<lparr>vp_path = ''.env'', vp_key = ''K'', vp_intent = ''why'', vp_expected_digest = None, vp_destination = None\<rparr>"

theorem reveal_audited_witness:
  "\<exists>out w'. reveal demo_ck demo_je demo_cx demo_reveal (demo_with (empty_journal 30 0)) = (Inr out, w')
     \<and> w_fs w' = demo_fs \<and> length (j_events (w_journal w')) = 1"
proof -
  have c: "reveal_check demo_ck demo_fs demo_cx demo_reveal = Inr \<lparr>e_export = False, e_key = ''K'', e_value = ''v''\<rparr>"
  proof -
    have "trim ''why'' \<noteq> []" by code_simp
    then show ?thesis by (simp add: reveal_check_def demo_reveal_def demo_load_entry) (simp add: demo_cx_def)
  qed
  have w: "w_fs (demo_with (empty_journal 30 0)) = demo_fs" "w_journal (demo_with (empty_journal 30 0)) = empty_journal 30 0"
    by (simp_all add: demo_with_def)
  obtain r w' where r: "reveal demo_ck demo_je demo_cx demo_reveal (demo_with (empty_journal 30 0)) = (r, w')"
    by (rule prod.exhaust)
  from r have "\<exists>out. r = Inr out"
  proof (cases rule: reveal_cases)
    case (unlogged e x)
    from unlogged(3) show ?thesis
      by (cases rule: log_event_cases) (simp_all add: demo_with_def statement_def empty_journal_def)
  qed (simp_all add: w c)
  then obtain out where o: "r = Inr out" ..
  note p = reveal_audited[OF r]
  have "w_fs w' = demo_fs" using p[THEN conjunct1] w(1) by (metis world.select_convs(1) world.surjective world.update_convs(5))
  moreover have "length (j_events (w_journal w')) = 1"
    using p[THEN conjunct2, THEN conjunct1] o by (auto simp: logged_def demo_with_def empty_journal_def)
  ultimately show ?thesis using r o by blast
qed

definition demo_generate :: generate_params where
  "demo_generate = \<lparr>gp_path = ''.env'', gp_key = ''S'', gp_version = version_of zero_hash demo_bytes, gp_shape = ''tok'',
     gp_comment = None, gp_intent = None\<rparr>"

definition demo_buf_of :: "dotenv_file \<Rightarrow> file_buf" where
  "demo_buf_of f = (buf_of_loaded demo_sealed)\<lparr>fb_content := render f, fb_touched := True\<rparr>"

text \<open>A request that sets one key of the classified demo file and passes its guards.\<close>

definition demo_sets :: "rstr \<Rightarrow> dotenv_file \<Rightarrow> edit_request \<Rightarrow> bool" where
  "demo_sets key f req \<longleftrightarrow>
     env_set demo_env key (Some demo_minted) None = Inr f \<and> length (render f) \<le> 8388608
     \<and> er_base req = [\<lparr>bv_path = ''.env'', bv_version = version_of zero_hash demo_bytes\<rparr>]
     \<and> er_ops req = [EnvSet ''.env'' key (Some demo_minted) None None] \<and> \<not> er_dry_run req
     \<and> filter (\<lambda>k. k \<notin> set (er_drop_keys req)) (vanished_values (Some demo_env) (Some f)) = []"

lemma demo_minted_storable: "storable demo_minted"
proof (rule tag_chars_storable)
  show "\<forall>c\<in>set demo_minted. tag_char c" unfolding demo_minted_def by code_simp
qed

lemma demo_sets_run:
  assumes "demo_sets key f req"
  shows "run_ops demo_ck rc (demo_with j) demo_root default_limits req = Inr [(''.env'', demo_buf_of f)]"
proof -
  have q: "env_set demo_env key (Some demo_minted) None = Inr f" "length (render f) \<le> 8388608"
    "er_base req = [\<lparr>bv_path = ''.env'', bv_version = version_of zero_hash demo_bytes\<rparr>]"
    "er_ops req = [EnvSet ''.env'' key (Some demo_minted) None None]"
    using assms by (simp_all add: demo_sets_def)
  have fs: "w_fs (demo_with j) = demo_fs" by (simp add: demo_with_def)
  let ?b = "\<lparr>bv_path = ''.env'', bv_version = version_of zero_hash demo_bytes\<rparr>"
  have l: "load_base demo_ck bl demo_fs demo_root default_limits ?b [] = Inr [(''.env'', buf_of_loaded demo_sealed)]" for bl
    by (simp add: load_base_def demo_sealed_load) (simp add: demo_sealed_def)
  have d: "declared [(''.env'', buf_of_loaded demo_sealed)] ''.env'' = Inr (buf_of_loaded demo_sealed)"
    "parse_dotenv_buf ''.env'' (buf_of_loaded demo_sealed) = Inr demo_env"
    using demo_env_parse by (simp_all add: declared_def declared_any_def parse_dotenv_buf_def buf_of_loaded_def demo_sealed_def)
  have lim: "lim_file_bytes default_limits = 8388608" by (simp add: default_limits_def)
  have nd: "\<not> fb_deleted (demo_buf_of f)" "fb_content (demo_buf_of f) = render f"
    by (simp_all add: demo_buf_of_def buf_of_loaded_def)
  have v: "resolve_value h demo_env ''.env'' demo_minted = Inr demo_minted" for h
    using demo_minted_storable by (intro resolve_plain) (simp add: storable_def)
  have o: "dispatch_op demo_ck demo_fs demo_root default_limits (EnvSet ''.env'' key (Some demo_minted) None None)
      [(''.env'', buf_of_loaded demo_sealed)] = Inr [(''.env'', demo_buf_of f)]"
    by (simp add: op_env_set_def d q(1) v write_buf_def demo_buf_of_def)
  have "run_op demo_ck demo_fs demo_root default_limits (EnvSet ''.env'' key (Some demo_minted) None None)
      [(''.env'', buf_of_loaded demo_sealed)] = Inr [(''.env'', demo_buf_of f)]"
    using nd q(2) by (simp add: run_op_def o[unfolded dispatch_op.simps] lim)
  then show ?thesis by (simp add: run_ops_def q(3,4) fs l)
qed

lemma demo_sets_prepare:
  assumes "demo_sets key f req"
  shows "\<exists>pl. prepare demo_ck rc demo_root default_limits ''me'' req (demo_with j) = (Inr pl, demo_with j)
     \<and> pl_touched pl = [(''.env'', demo_buf_of f)]"
proof -
  let ?T = "[(''.env'', demo_buf_of f)]"
  have q: "env_set demo_env key (Some demo_minted) None = Inr f"
    "er_ops req = [EnvSet ''.env'' key (Some demo_minted) None None]"
    "filter (\<lambda>k. k \<notin> set (er_drop_keys req)) (vanished_values (Some demo_env) (Some f)) = []"
    using assms by (simp_all add: demo_sets_def)
  have p: "Kaed_Dotenv.parse (render f) = Some f"
    using env_set_parse[OF demo_env_parse q(1)] demo_minted_storable by (simp add: storable_def)
  have b: "fb_classified (demo_buf_of f) \<noteq> None" "\<not> fb_deleted (demo_buf_of f)" "fb_touched (demo_buf_of f)"
    "fb_old_content (demo_buf_of f) = Some demo_bytes" "fb_content (demo_buf_of f) = render f"
    "fb_abs (demo_buf_of f) = [''r'', ''.env'']"
    by (simp_all add: demo_buf_of_def buf_of_loaded_def demo_sealed_def)
  have "vanished_in req (demo_buf_of f) = []" using q(3) by (simp add: vanished_in_def b demo_env_parse p)
  then have "vanish_guard req ?T = Inr ()" by (simp add: vanish_guard_def)
  moreover have "leak_phase demo_ck kn demo_root req ?T = \<lparr>lf_refused = [], lf_applied = [], lf_warnings = []\<rparr>" for kn
    using b(1,2) by (auto simp: leak_phase_def Let_def)
  moreover have "delete_guard req ?T = Inr ()" using b(2) by (simp add: delete_guard_def List.map_filter_def)
  moreover have "probe_writable demo_fs demo_root ?T = Inr ()"
  proof -
    have "dir_is_writable demo_fs (deepest_existing demo_fs [''r''])" by code_simp
    then show ?thesis using b(6) by (simp add: probe_writable_def probe_dir_def)
  qed
  moreover have "check_ops req = Inr ()"
  proof -
    have "\<not> is_kaedignore_path ''.env''" by code_simp
    then show ?thesis by (simp add: check_ops_def q(2))
  qed
  moreover have "w_fs (demo_with j) = demo_fs" by (simp add: demo_with_def)
  moreover have "touched_of ?T = ?T" using b(3) by (simp add: touched_of_def)
  ultimately show ?thesis
    by (simp add: prepare_def demo_sets_run[OF assms] refuse_leaks_def bind_step_def lift_res_def ret_def Let_def plan_of_def)
qed

lemma begin_file_faultless: "j_faults (begin_file je base n f j) = j_faults j"
  by (simp add: begin_file_def Let_def split: option.splits prod.splits)

lemma accepts_journal:
  assumes "j_faults j = []"
  shows "accepts (as_node je node) j"
  unfolding accepts_def
proof (intro allI)
  fix author intent base files
  have k: "j_faults (fold (begin_file je base n) fs j0) = j_faults j0" for n fs j0
    by (induction fs arbitrary: j0) (simp_all add: begin_file_faultless)
  have "statement i = (True, i)" if "j_faults i = []" for i using that by (simp add: statement_def)
  then show "\<exists>n j1 j2. rec_begin (as_node je node) author intent base files j = (Inr n, j1)
      \<and> rec_complete (as_node je node) n j1 = (Inr (), j2)"
    using assms k by (simp add: as_node_def begin_as_def complete_def Let_def)
qed

lemma generate_run:
  assumes "resolve_shape cx (gp_shape p) = Inr sh" "load_file ck (w_fs w) cx (gp_path p) = Inr (c, f)"
    "get_entry f (gp_key p) = None" "mint en sh = Inr v"
    "apply_txn ck (bare_recorder je) (cx_root cx) (generate_edit p sh v) (cx_limits cx) (cx_author cx) w = (Inr eo, w1)"
    "log_event je (secret_row je cx ''generate'' (rr_name (cx_root cx)) (gp_path p) (gp_key p) None
       (floor_digest (cr_h ck) v) False None (eo_txn_id eo) (gp_intent p)) w1 = (Inr n, w')"
  shows "\<exists>out. generate ck je en cx p w = (Inr out, w')"
  unfolding generate_def assms(1,2) bind_step_lift prod.case Let_def
  by (simp add: assms(3,4,5,6) bind_step_Inr ret_def)

text \<open>A store without faults to come stays one.\<close>

lemma quiet_statement: "j_faults j = [] \<Longrightarrow> statement j = (True, j)"
  by (simp add: statement_def)

lemma quiet_gc: "j_faults j = [] \<Longrightarrow> j_faults (gc_if_due je j) = []"
  by (simp add: gc_if_due_def gc_blobs_def quiet_statement Let_def)

lemma quiet_begin: "j_faults j = [] \<Longrightarrow> begin_as je author node intent base files j = (r, j') \<Longrightarrow> j_faults j' = []"
proof -
  assume a: "j_faults j = []" "begin_as je author node intent base files j = (r, j')"
  have k: "j_faults (fold (begin_file je base n) fs j0) = j_faults j0" for n fs j0
    by (induction fs arbitrary: j0) (simp_all add: begin_file_faultless)
  from a(2) show "j_faults j' = []" unfolding begin_as_def quiet_statement[OF a(1)] Let_def prod.case by (auto simp: k a(1))
qed

lemma quiet_complete: "j_faults j = [] \<Longrightarrow> complete je n j = (r, j') \<Longrightarrow> j_faults j' = []"
  by (auto simp: complete_def quiet_statement quiet_gc)

lemma quiet_event: "j_faults j = [] \<Longrightarrow> j_faults (snd (add_secret_event je e j)) = []"
  by (simp add: add_secret_event_def quiet_statement Let_def)

lemma fold_keeps: "(\<And>x s. P s \<Longrightarrow> P (f x s)) \<Longrightarrow> P s \<Longrightarrow> P (fold f xs s)"
  by (induction xs arbitrary: s) auto

lemma quiet_leaks: "j_faults j = [] \<Longrightarrow> j_faults (leak_events_as je author node base evs j) = []"
  unfolding leak_events_as_def by (rule fold_keeps[where P = "\<lambda>j. j_faults j = []"]) (rule quiet_event)

lemma quiet_commit:
  assumes "commit ck (as_node je node) base author req pl w = (Inr n, w')" "j_faults (w_journal w) = []"
  shows "j_faults (w_journal w') = []"
  using assms(1)
proof (cases rule: commit_cases)
  case (finished id staged w1 j w2 w3 j')
  have b: "begin_as je author node (er_intent req) base (map (record_of ck) (pl_touched pl)) (w_journal w) = (Inr id, j)"
    using finished(3) unfolding as_node_def recorder.select_convs .
  have w3: "w_journal w3 = j"
    using promote_all_journal[OF finished(4)] unlink_all_journal[OF finished(5)] by simp
  have c: "complete je id j = (Inr (), j')" using finished(6) unfolding as_node_def recorder.select_convs w3 .
  have q: "j_faults j' = []" by (rule quiet_complete[OF quiet_begin[OF assms(2) b] c])
  show ?thesis using q finished(7) quiet_leaks[OF q] by (simp add: leaked_def as_node_def)
qed simp_all

lemma demo_sets_apply:
  assumes "demo_sets key f req"
  shows "\<exists>eo w1. apply_txn demo_ck (bare_recorder demo_je) demo_root req default_limits ''me'' (demo_with (empty_journal 30 0))
     = (Inr eo, w1) \<and> j_faults (w_journal w1) = []"
proof -
  let ?w = "demo_with (empty_journal 30 0)"
  obtain pl where pl: "prepare demo_ck (bare_recorder demo_je) demo_root default_limits ''me'' req ?w = (Inr pl, ?w)"
    "pl_touched pl = [(''.env'', demo_buf_of f)]"
    using demo_sets_prepare[OF assms, of "bare_recorder demo_je" "empty_journal 30 0"] by (elim exE conjE)
  have "room (map (fb_abs \<circ> snd) (pl_touched pl)) ?w"
    using demo_room[of "''.env''"] pl(2) by (simp add: demo_buf_of_def buf_of_loaded_def demo_sealed_def)
  moreover have "accepts (bare_recorder demo_je) (w_journal ?w)"
    unfolding bare_recorder_def by (rule accepts_journal) (simp add: demo_with_def empty_journal_def)
  moreover have "w_faults ?w = []" by (simp add: demo_with_def)
  ultimately obtain n w1 where c: "commit demo_ck (bare_recorder demo_je) demo_root ''me'' req pl ?w = (Inr n, w1)"
    using commit_live by blast
  have "apply_txn demo_ck (bare_recorder demo_je) demo_root req default_limits ''me'' ?w = (Inr (outcome_of pl (Some n)), w1)"
    using pl(1) c assms by (simp add: apply_txn_def apply_inner_def bind_step_def ret_def demo_sets_def)
  moreover have "j_faults (w_journal w1) = []"
    using c unfolding bare_recorder_def by (rule quiet_commit) (simp add: demo_with_def empty_journal_def)
  ultimately show ?thesis by blast
qed

lemma demo_shape: "resolve_shape demo_cx ''tok'' = Inr (Hex 24)" "valid_shape (Hex 24)"
  by (simp_all add: resolve_shape_def demo_cx_def MIN_HEX_CHARS_def MAX_HEX_CHARS_def)

lemma demo_mint: "mint digits_entropy (Hex 24) = Inr demo_minted"
  unfolding demo_minted_def by code_simp

lemma demo_ctx: "cx_root demo_cx = demo_root" "cx_limits demo_cx = default_limits" "cx_author demo_cx = ''me''"
  by (simp_all add: demo_cx_def)

lemma demo_hyps: "fills digits_entropy" "\<forall>(n, s)\<in>set (sx_shapes (cx_secrets demo_cx)). valid_shape s"
  "real_dir (w_fs (demo_with j)) (rr_path (cx_root demo_cx))" "honest (demo_with j)"
  using fills_digits demo_shape(2) demo_real_dir by (simp_all add: demo_cx_def demo_world_def demo_with_def honest_def)

lemma demo_env_unmarked: "unmarked_path [''r'', ''.env'']"
  unfolding unmarked_path_def by code_simp

theorem generate_effect_witness:
  "\<exists>out w' c md. generate demo_ck demo_je digits_entropy demo_cx demo_generate (demo_with (empty_journal 30 0)) = (Inr out, w')
     \<and> fs_nodes (w_fs w') [''r'', ''.env''] = Some (FileN c md)"
proof -
  let ?w = "demo_with (empty_journal 30 0)"
  let ?q = "generate_edit demo_generate (Hex 24) demo_minted"
  have w: "w_fs ?w = demo_fs" by (simp add: demo_with_def)
  have "demo_sets ''S'' demo_env2 ?q"
  proof -
    have "env_set demo_env ''S'' (Some demo_minted) None = Inr demo_env2" "vanished_values (Some demo_env) (Some demo_env2) = []"
      unfolding demo_env_def demo_minted_def demo_env2_def by code_simp+
    moreover have "length (render demo_env2) = 31" unfolding demo_env2_def demo_env_def demo_minted_def by code_simp
    ultimately show ?thesis by (simp add: demo_sets_def generate_edit_def set_request_def demo_generate_def)
  qed
  then obtain eo w1 where a: "apply_txn demo_ck (bare_recorder demo_je) demo_root ?q default_limits ''me'' ?w = (Inr eo, w1)"
    "j_faults (w_journal w1) = []" using demo_sets_apply by blast
  have lf: "load_file demo_ck demo_fs demo_cx ''.env'' = Inr (True, demo_env)" "get_entry demo_env ''S'' = None"
    by (simp add: load_file_def demo_cx_def demo_sealed_load demo_sealed_def) (unfold demo_env_def, code_simp)
  have p: "gp_shape demo_generate = ''tok''" "gp_path demo_generate = ''.env''" "gp_key demo_generate = ''S''"
    by (simp_all add: demo_generate_def)
  let ?e = "secret_row demo_je demo_cx ''generate'' (rr_name demo_root) ''.env'' ''S'' None
    (floor_digest (cr_h demo_ck) demo_minted) False None (eo_txn_id eo) (gp_intent demo_generate)"
  obtain k w' where l: "log_event demo_je ?e w1 = (Inr k, w')"
    by (simp add: log_event_def add_secret_event_def quiet_statement[OF a(2)] Let_def)
  obtain out where g: "generate demo_ck demo_je digits_entropy demo_cx demo_generate ?w = (Inr out, w')"
    using generate_run[of demo_cx demo_generate _ demo_ck ?w, unfolded p w demo_ctx, OF demo_shape(1) lf demo_mint a(1) l] by blast
  have u: "\<forall>l. load_text demo_ck (w_fs ?w) (cx_root demo_cx) (gp_path demo_generate) (cx_limits demo_cx) = Inr l
      \<longrightarrow> unmarked_path (ld_abs l)"
    using demo_env_unmarked by (simp add: w p demo_ctx demo_sealed_load) (simp add: demo_sealed_def)
  from generate_effect[OF g demo_hyps u] obtain s v l f f' where f: "gr_shape out = shape_str s"
    "load_text demo_ck (w_fs ?w) (cx_root demo_cx) (gp_path demo_generate) (cx_limits demo_cx) = Inr l"
    "fs_nodes (w_fs w') (ld_abs l) = Some (FileN (render f') (perm_bits (ld_mode l)))"
    by (elim exE conjE)
  have "l = demo_sealed" using f(2) by (simp add: w p demo_ctx demo_sealed_load)
  with f(3) have "fs_nodes (w_fs w') [''r'', ''.env''] = Some (FileN (render f') (perm_bits 384))"
    by (simp add: demo_sealed_def)
  with g show ?thesis by blast
qed

end
