(* ===== verification/Kaed_Rotate_Facts.thy ===== *)
theory Kaed_Rotate_Facts
  imports Kaed_Secret_Facts
begin

text \<open>
  Rotation: the new value reaches every target in one transaction, and every target has its row in
  the audit stream.
\<close>

section \<open>Values held by buffers\<close>

text \<open>The buffer of a path holds a value under a key.\<close>

definition held :: "bufs \<Rightarrow> rstr \<Rightarrow> rstr \<Rightarrow> rstr \<Rightarrow> bool" where
  "held bufs path key v \<longleftrightarrow>
     (\<exists>b f. map_of bufs path = Some b \<and> fb_touched b \<and> Kaed_Dotenv.parse (fb_content b) = Some f
        \<and> map_option e_value (get_entry f key) = Some v)"

definition all_loaded :: "crates \<Rightarrow> fsys \<Rightarrow> rroot \<Rightarrow> limits \<Rightarrow> bufs \<Rightarrow> bool" where
  "all_loaded ck fs base lm bufs \<longleftrightarrow>
     om_sorted bufs \<and> (\<forall>p b. map_of bufs p = Some b \<longrightarrow> \<not> fb_deleted b \<and>
       (\<exists>l. load_text ck fs base p lm = Inr l \<and> fb_abs b = ld_abs l \<and> fb_mode b = ld_mode l))"

lemma held_step:
  assumes "run_op ck fs base lm (EnvSet path key (Some v) None cm) bufs = Inr bufs'" "storable v"
    "all_loaded ck fs base lm bufs"
  shows "held bufs' path key v" "held bufs q k v \<Longrightarrow> held bufs' q k v" "all_loaded ck fs base lm bufs'"
    "fst ` set bufs' = fst ` set bufs"
proof -
  from assms(1,2) obtain b f f' where o: "map_of bufs path = Some b" "\<not> fb_deleted b"
    "Kaed_Dotenv.parse (fb_content b) = Some f" "env_set f key (Some v) cm = Inr f'"
    "Kaed_Dotenv.parse (render f') = Some f'" "bufs' = write_buf path b (render f') bufs"
    by (rule env_set_op)
  note e = env_set_get[OF o(4)]
  have m: "map_of bufs' p = (if p = path then Some (b\<lparr>fb_content := render f', fb_touched := True\<rparr>) else map_of bufs p)" for p
    using assms(3) unfolding o(6) write_buf_def by (simp add: map_of_om_insert all_loaded_def)
  show "held bufs' path key v" using e(1) o(5) by (auto simp: held_def m)
  show "held bufs q k v \<Longrightarrow> held bufs' q k v"
  proof (cases "q = path")
    case True
    assume "held bufs q k v"
    with True o(1,3) have "map_option e_value (get_entry f k) = Some v" by (auto simp: held_def)
    with e have "map_option e_value (get_entry f' k) = Some v" by (cases "k = key") auto
    then show ?thesis using True o(5) by (auto simp: held_def m)
  next
    case False
    then show "held bufs q k v \<Longrightarrow> held bufs' q k v" by (simp add: held_def m)
  qed
  show "fst ` set bufs' = fst ` set bufs"
    using o(1) unfolding o(6) write_buf_def om_insert_keys by (metis fst_conv image_eqI insert_absorb map_of_SomeD)
  show "all_loaded ck fs base lm bufs'"
    unfolding all_loaded_def
  proof (intro conjI allI impI)
    show "om_sorted bufs'" using assms(3) unfolding o(6) write_buf_def by (simp add: om_sorted_insert all_loaded_def)
    fix p b' assume p: "map_of bufs' p = Some b'"
    show "\<not> fb_deleted b'" "\<exists>l. load_text ck fs base p lm = Inr l \<and> fb_abs b' = ld_abs l \<and> fb_mode b' = ld_mode l"
      using assms(3) o(1,2) p by (auto simp: m all_loaded_def split: if_splits)
  qed
qed

lemma sets_held:
  assumes "fold_res (run_op ck fs base lm) (map (\<lambda>(p, k). EnvSet p k (Some v) None None) pks) bufs = Inr bufs'"
    "storable v" "all_loaded ck fs base lm bufs"
  shows "(\<forall>(p, k)\<in>set pks. held bufs' p k v) \<and> (\<forall>q k. held bufs q k v \<longrightarrow> held bufs' q k v)
    \<and> all_loaded ck fs base lm bufs' \<and> fst ` set bufs' = fst ` set bufs"
  using assms
proof (induction pks arbitrary: bufs)
  case (Cons pk pks)
  obtain p k where pk: "pk = (p, k)" by (cases pk)
  from Cons.prems(1) pk obtain b1 where b1: "run_op ck fs base lm (EnvSet p k (Some v) None None) bufs = Inr b1"
    "fold_res (run_op ck fs base lm) (map (\<lambda>(p, k). EnvSet p k (Some v) None None) pks) b1 = Inr bufs'"
    by (auto simp: and_then_def split: sum.splits)
  note s = held_step[OF b1(1) Cons.prems(2,3)]
  from Cons.IH[OF b1(2) Cons.prems(2) s(3)] s pk show ?case by auto
qed simp

lemma loads_all:
  assumes "fold_res (load_base ck bl fs base lm) bs bufs = Inr bufs'" "all_loaded ck fs base lm bufs"
  shows "all_loaded ck fs base lm bufs' \<and> fst ` set bufs' = fst ` set bufs \<union> bv_path ` set bs"
  using assms
proof (induction bs arbitrary: bufs)
  case (Cons b bs)
  from Cons.prems(1) obtain b1 where b1: "load_base ck bl fs base lm b bufs = Inr b1"
    "fold_res (load_base ck bl fs base lm) bs b1 = Inr bufs'"
    by (auto simp: and_then_def split: sum.splits)
  from b1(1) obtain l where l: "load_text ck fs base (bv_path b) lm = Inr l" "b1 = om_insert (bv_path b) (buf_of_loaded l) bufs"
    by (rule load_base_shape)
  have "all_loaded ck fs base lm b1"
    using Cons.prems(2) l by (auto simp: all_loaded_def om_sorted_insert map_of_om_insert buf_of_loaded_def split: if_splits)
  from Cons.IH[OF b1(2) this] l(2) show ?case by (simp add: om_insert_keys)
qed simp

lemma detect_valid: "detect v = Some sh \<Longrightarrow> valid_shape sh"
  by (auto simp: detect_def Let_def split: if_splits)

lemma rotate_shape_valid:
  assumes "rotate_shape cx p v = Inr sh" "\<forall>(n, s)\<in>set (sx_shapes (cx_secrets cx)). valid_shape s"
  shows "valid_shape sh" "rp_shape p = None \<Longrightarrow> detect v = Some sh" "rp_shape p = Some s \<Longrightarrow> resolve_shape cx s = Inr sh"
  using assms resolve_shape_valid[of cx _ sh]
  by (auto simp: rotate_shape_def ok_or_def dest: detect_valid split: option.splits)

text \<open>The targets a rotation is asked for, the primary one first, and what is gathered for them.\<close>

definition also_key :: "rotate_params \<Rightarrow> also_target \<Rightarrow> rstr" where
  "also_key p t = (case at_key t of Some k \<Rightarrow> k | None \<Rightarrow> rp_key p)"

definition asked :: "rotate_params \<Rightarrow> (rstr \<times> rstr) list" where
  "asked p = (rp_path p, rp_key p) # map (\<lambda>t. (at_path t, also_key p t)) (rp_also p)"

definition gathered_for :: "secret_ctx \<Rightarrow> rstr \<Rightarrow> (rstr \<times> rstr) list \<Rightarrow> rotation \<Rightarrow> bool" where
  "gathered_for cx v pks rn \<longleftrightarrow>
     rn_targets rn = map (\<lambda>(p, k). rotated cx p k) pks \<and> bv_path ` set (rn_base rn) = fst ` set pks
     \<and> rn_ops rn = map (\<lambda>(p, k). EnvSet p k (Some v) None None) pks \<and> rn_drop rn = map snd pks"

lemma rotate_also_Inr:
  assumes "rotate_also cx p v t rn = Inr rn'"
  shows "rn_ops rn' = rn_ops rn @ [EnvSet (at_path t) (also_key p t) (Some v) None None]"
    "rn_drop rn' = rn_drop rn @ [also_key p t]" "rn_targets rn' = rn_targets rn @ [rotated cx (at_path t) (also_key p t)]"
    "bv_path ` set (rn_base rn') = insert (at_path t) (bv_path ` set (rn_base rn))"
  using assms by (force simp: rotate_also_def also_key_def Let_def split: if_splits)+

lemma rotate_also_gathered:
  assumes "rotate_also cx p v t rn = Inr rn'" "gathered_for cx v pks rn"
  shows "gathered_for cx v (pks @ [(at_path t, also_key p t)]) rn'"
  using assms(2) rotate_also_Inr[OF assms(1)] by (simp add: gathered_for_def)

lemma rotate_gathered:
  assumes "fold_res (rotate_also cx p v) ts rn = Inr rn'" "gathered_for cx v pks rn"
  shows "gathered_for cx v (pks @ map (\<lambda>t. (at_path t, also_key p t)) ts) rn'"
  using assms
proof (induction ts arbitrary: rn pks)
  case (Cons t ts)
  from Cons.prems(1) obtain rn1 where r: "rotate_also cx p v t rn = Inr rn1" "fold_res (rotate_also cx p v) ts rn1 = Inr rn'"
    by (auto simp: and_then_def split: sum.splits)
  from Cons.IH[OF r(2) rotate_also_gathered[OF r(1) Cons.prems(2)]] show ?case by simp
qed simp

lemma log_rotations_Inr:
  assumes "log_rotations je cx old new n intent ts w = (Inr u, w')"
  shows "w_fs w' = w_fs w \<and> j_txns (w_journal w') = j_txns (w_journal w) \<and> (\<exists>rs. j_events (w_journal w') = j_events (w_journal w) @ rs
    \<and> map ev_event rs = map (\<lambda>t. secret_row je cx ''rotate'' (rt_root t) (rt_path t) (rt_key t) old new False None n intent) ts)"
  using assms
proof (induction ts arbitrary: w)
  case Nil
  then show ?case by (simp add: ret_def)
next
  case (Cons t ts)
  let ?e = "secret_row je cx ''rotate'' (rt_root t) (rt_path t) (rt_key t) old new False None n intent"
  from Cons.prems obtain k w1 where l: "log_event je ?e w = (Inr k, w1)"
    "log_rotations je cx old new n intent ts w1 = (Inr u, w')"
    by (auto simp: bind_step_Inr)
  from Cons.IH[OF l(2)] obtain rs where rs: "w_fs w' = w_fs w1" "j_events (w_journal w') = j_events (w_journal w1) @ rs"
    "map ev_event rs = map (\<lambda>t. secret_row je cx ''rotate'' (rt_root t) (rt_path t) (rt_key t) old new False None n intent) ts"
    "j_txns (w_journal w') = j_txns (w_journal w1)"
    by blast
  from log_event_Inr[OF l(1)] have e: "j_events (w_journal w1) = j_events (w_journal w) @
      [\<lparr>ev_id = j_event_seq (w_journal w) + 1, ev_event = ?e, ev_created = now je (w_journal w)\<rparr>]"
    and tx: "j_txns (w_journal w1) = j_txns (w_journal w)"
    by (simp_all add: logged_def)
  let ?r = "\<lparr>ev_id = j_event_seq (w_journal w) + 1, ev_event = ?e, ev_created = now je (w_journal w)\<rparr>"
  have "w_fs w' = w_fs w" using rs(1) log_event_fs[OF l(1)] by simp
  moreover have "j_events (w_journal w') = j_events (w_journal w) @ (?r # rs)" using rs(2) e by simp
  moreover have "map ev_event (?r # rs) = map (\<lambda>t. secret_row je cx ''rotate'' (rt_root t) (rt_path t) (rt_key t) old new False None n intent) (t # ts)"
    using rs(3) by simp
  ultimately show ?case using rs(4) tx by (intro conjI exI[of _ "?r # rs"]) simp_all
qed

lemma rotate_Inr:
  assumes "rotate_local ck je en cx p w = (Inr (out, v), w')"
  obtains c e sh rn eo w1 where "load_entry ck (w_fs w) cx (rp_path p) (rp_key p) = Inr (c, e)" "e_value e \<noteq> []"
    "rotate_shape cx p (e_value e) = Inr sh" "mint en sh = Inr v"
    "fold_res (rotate_also cx p v) (rp_also p) (rotate_start cx p v) = Inr rn"
    "apply_txn ck (bare_recorder je) (cx_root cx) (rotate_edit p sh rn) (cx_limits cx) (cx_author cx) w = (Inr eo, w1)"
    "ro_targets out = map (\<lambda>t. t\<lparr>rt_txn_id := eo_txn_id eo\<rparr>) (rn_targets rn)" "ro_txn_id out = eo_txn_id eo"
    "log_rotations je cx (floor_digest (cr_h ck) (e_value e)) (floor_digest (cr_h ck) v) (eo_txn_id eo) (rp_intent p)
       (ro_targets out) w1 = (Inr (), w')"
    "ro_placeholder out = placeholder (cr_h ck) (rp_key p) v" "ro_old_digest out = floor_digest (cr_h ck) (e_value e)"
    "ro_new_digest out = floor_digest (cr_h ck) v"
proof -
  from assms obtain c e where a: "load_entry ck (w_fs w) cx (rp_path p) (rp_key p) = Inr (c, e)" "e_value e \<noteq> []"
    by (cases "load_entry ck (w_fs w) cx (rp_path p) (rp_key p)") (auto simp: rotate_local_def lift_res_def split: if_splits)
  have b: "(e_value e = []) = False" using a(2) by simp
  note u1 = assms[unfolded rotate_local_def a(1) bind_step_lift prod.case b if_False]
  from u1 obtain sh where sh: "rotate_shape cx p (e_value e) = Inr sh"
    by (cases "rotate_shape cx p (e_value e)") simp_all
  note u2 = u1[unfolded sh bind_step_lift Let_def]
  from u2 obtain x where x: "mint en sh = Inr x" by (cases "mint en sh") simp_all
  note u3 = u2[unfolded x bind_step_lift]
  from u3 obtain rn where rn: "fold_res (rotate_also cx p x) (rp_also p) (rotate_start cx p x) = Inr rn"
    by (cases "fold_res (rotate_also cx p x) (rp_also p) (rotate_start cx p x)") simp_all
  note u4 = u3[unfolded rn bind_step_lift bind_step_Inr ret_def]
  then have "x = v" by auto
  with u4 show thesis by (elim exE conjE) (rule that[OF a sh, of rn], use x rn in auto)
qed

text \<open>A rotation asks for its targets' files under different real paths.\<close>

definition unaliased :: "crates \<Rightarrow> fsys \<Rightarrow> rroot \<Rightarrow> limits \<Rightarrow> rstr set \<Rightarrow> bool" where
  "unaliased ck fs base lm ps \<longleftrightarrow>
     (\<forall>p\<in>ps. \<forall>l. load_text ck fs base p lm = Inr l \<longrightarrow> unmarked_path (ld_abs l) \<and>
        (\<forall>q\<in>ps. \<forall>m. load_text ck fs base q lm = Inr m \<and> ld_abs m = ld_abs l \<longrightarrow> q = p))"

lemma rotation_run:
  assumes "run_ops ck rc w base lm (rotate_edit p sh rn) = Inr bufs" "gathered_for cx v pks rn" "storable v"
  shows "all_loaded ck (w_fs w) base lm bufs" "fst ` set bufs = fst ` set pks" "\<forall>(q, k)\<in>set pks. held bufs q k v"
proof -
  let ?bl = "\<lambda>v. rec_blob rc v (w_journal w)"
  have g: "er_base (rotate_edit p sh rn) = rn_base rn" "er_ops (rotate_edit p sh rn) = map (\<lambda>(p, k). EnvSet p k (Some v) None None) pks"
    "bv_path ` set (rn_base rn) = fst ` set pks"
    using assms(2) by (simp_all add: rotate_edit_def set_request_def gathered_for_def)
  from assms(1) obtain bs where bs: "fold_res (load_base ck ?bl (w_fs w) base lm) (rn_base rn) [] = Inr bs"
    "fold_res (run_op ck (w_fs w) base lm) (map (\<lambda>(p, k). EnvSet p k (Some v) None None) pks) bs = Inr bufs"
    unfolding run_ops_def g by (auto simp: and_then_def split: sum.splits)
  have "all_loaded ck (w_fs w) base lm []" by (simp add: all_loaded_def om_sorted_def)
  from loads_all[OF bs(1) this] have l: "all_loaded ck (w_fs w) base lm bs" "fst ` set bs = fst ` set pks"
    using g(3) by simp_all
  from sets_held[OF bs(2) assms(3) l(1)] l(2)
  show "all_loaded ck (w_fs w) base lm bufs" "fst ` set bufs = fst ` set pks" "\<forall>(q, k)\<in>set pks. held bufs q k v"
    by simp_all
qed

lemma loaded_buf:
  assumes "all_loaded ck fs base lm bufs" "(p, b) \<in> set bufs"
  shows "\<not> fb_deleted b" "\<exists>l. load_text ck fs base p lm = Inr l \<and> fb_abs b = ld_abs l \<and> fb_mode b = ld_mode l"
    "map_of bufs p = Some b"
proof -
  have "distinct (map fst bufs)" using assms(1) by (simp add: all_loaded_def om_sorted_def strict_sorted_iff)
  then show m: "map_of bufs p = Some b" using assms(2) by simp
  then show "\<not> fb_deleted b" "\<exists>l. load_text ck fs base p lm = Inr l \<and> fb_abs b = ld_abs l \<and> fb_mode b = ld_mode l"
    using assms(1) by (auto simp: all_loaded_def)
qed

lemma unaliased_touched:
  assumes "all_loaded ck fs base lm bufs" "unaliased ck fs base lm (fst ` set bufs)"
  shows "distinct (map (fb_abs \<circ> snd) (touched_of bufs))" "unmarked (touched_of bufs)"
proof -
  have "inj_on (fb_abs \<circ> snd) (set bufs)"
  proof (rule inj_onI)
    fix x y assume xy: "x \<in> set bufs" "y \<in> set bufs" "(fb_abs \<circ> snd) x = (fb_abs \<circ> snd) y"
    obtain p b q c where e: "x = (p, b)" "y = (q, c)" by (cases x, cases y)
    have pb: "(p, b) \<in> set bufs" and qc: "(q, c) \<in> set bufs" and eq: "fb_abs c = fb_abs b" using xy e by simp_all
    obtain l where l: "load_text ck fs base p lm = Inr l" "fb_abs b = ld_abs l" using loaded_buf(2)[OF assms(1) pb] by blast
    obtain m where m: "load_text ck fs base q lm = Inr m" "fb_abs c = ld_abs m" using loaded_buf(2)[OF assms(1) qc] by blast
    have "p \<in> fst ` set bufs" "q \<in> fst ` set bufs" using image_eqI[OF _ pb, of p fst] image_eqI[OF _ qc, of q fst] by simp_all
    then have "q = p" using assms(2) l m eq unfolding unaliased_def by metis
    then show "x = y" using loaded_buf(3)[OF assms(1) pb] loaded_buf(3)[OF assms(1) qc] e by simp
  qed
  moreover have "distinct bufs"
    using assms(1) by (auto simp: all_loaded_def om_sorted_def strict_sorted_iff distinct_map)
  ultimately show "distinct (map (fb_abs \<circ> snd) (touched_of bufs))"
    by (auto simp: touched_of_def distinct_map intro: inj_on_subset)
  show "unmarked (touched_of bufs)"
    unfolding unmarked_def
  proof
    fix b assume "b \<in> set (map snd (touched_of bufs))"
    then obtain p where p: "(p, b) \<in> set bufs" by (auto simp: touched_of_def)
    then obtain l where "load_text ck fs base p lm = Inr l" "fb_abs b = ld_abs l" using loaded_buf(2)[OF assms(1)] by blast
    with assms(2) p show "\<not> contains_sub ''.kaed-tmp.'' (last (fb_abs b))"
      unfolding unaliased_def unmarked_path_def by force
  qed
qed

lemma rotation_apply:
  assumes "apply_txn ck rc base (rotate_edit p sh rn) lm author w = (Inr eo, w')" "gathered_for cx v pks rn" "storable v"
    and "real_dir (w_fs w) (rr_path base)" "honest w" "unaliased ck (w_fs w) base lm (fst ` set pks)"
  shows "(\<forall>(q, k)\<in>set pks. \<exists>l c f. load_text ck (w_fs w) base q lm = Inr l
      \<and> fs_nodes (w_fs w') (ld_abs l) = Some (FileN c (perm_bits (ld_mode l)))
      \<and> Kaed_Dotenv.parse c = Some f \<and> map_option e_value (get_entry f k) = Some v)
    \<and> (\<forall>x nd. fs_nodes (w_fs w) x = Some nd \<and>
         (\<forall>q l. q \<in> fst ` set pks \<and> load_text ck (w_fs w) base q lm = Inr l \<longrightarrow> x \<noteq> ld_abs l)
         \<longrightarrow> fs_nodes (w_fs w') x = Some nd)"
proof -
  have nd: "\<not> er_dry_run (rotate_edit p sh rn)" by (simp add: rotate_edit_def set_request_def)
  obtain pl n where pl: "prepare ck rc base lm author (rotate_edit p sh rn) w = (Inr pl, w)"
    by (rule apply_txn_Inr[OF assms(1)]) (use nd in auto)
  then obtain bufs where bufs: "run_ops ck rc w base lm (rotate_edit p sh rn) = Inr bufs" by (rule prepare_Inr)
  note r = rotation_run[OF bufs assms(2,3)]
  note u = unaliased_touched[OF r(1) assms(6)[folded r(2)]]
  note e = apply_effect[OF assms(1) nd bufs assms(4,5) u]
  have one: "\<exists>l c f. load_text ck (w_fs w) base q lm = Inr l
      \<and> fs_nodes (w_fs w') (ld_abs l) = Some (FileN c (perm_bits (ld_mode l)))
      \<and> Kaed_Dotenv.parse c = Some f \<and> map_option e_value (get_entry f k) = Some v" if "(q, k) \<in> set pks" for q k
  proof -
    from r(3) that have "held bufs q k v" by blast
    then obtain b f where b: "map_of bufs q = Some b" "fb_touched b" "Kaed_Dotenv.parse (fb_content b) = Some f"
      "map_option e_value (get_entry f k) = Some v" by (auto simp: held_def)
    have m: "(q, b) \<in> set bufs" "(q, b) \<in> set (touched_of bufs)"
      using b(1,2) map_of_SomeD by (fastforce simp: touched_of_def)+
    obtain l where l: "load_text ck (w_fs w) base q lm = Inr l" "fb_abs b = ld_abs l" "fb_mode b = ld_mode l"
      using loaded_buf(2)[OF r(1) m(1)] by blast
    have "fs_nodes (w_fs w') (fb_abs b) = Some (FileN (fb_content b) (perm_bits (fb_mode b)))"
      using e[THEN conjunct2, THEN conjunct1, rule_format, OF m(2)] loaded_buf(1)[OF r(1) m(1)] by simp
    then show ?thesis using l b(3,4) by auto
  qed
  have "fs_nodes (w_fs w') x = Some nd" if x: "fs_nodes (w_fs w) x = Some nd"
    "\<forall>q l. q \<in> fst ` set pks \<and> load_text ck (w_fs w) base q lm = Inr l \<longrightarrow> x \<noteq> ld_abs l" for x nd
  proof -
    have "x \<noteq> fb_abs b" if m: "(q, b) \<in> set (touched_of bufs)" for q b
    proof -
      have "(q, b) \<in> set bufs" using m by (simp add: touched_of_def)
      then obtain l where "load_text ck (w_fs w) base q lm = Inr l" "fb_abs b = ld_abs l" "q \<in> fst ` set bufs"
        using loaded_buf(2)[OF r(1)] image_eqI[of q fst "(q, b)"] by (metis fst_conv)
      then show ?thesis using x(2) r(2) by simp
    qed
    then have "x \<notin> fb_abs ` snd ` set (touched_of bufs)" by force
    then show ?thesis using e[THEN conjunct2, THEN conjunct2, rule_format, of x nd] x(1) by simp
  qed
  with one show ?thesis by blast
qed

text \<open>C9: A rotation reaches every place it names. When rotate succeeds the key held a non-empty value, and
  one new value was minted, of the shape the request resolves to when it names one and otherwise of the
  shape the old value was detected to have; the targets reported are exactly the primary and the listed
  ones, in order, each applied in the one transaction the journal has gained; the file of every target now parses and holds the new value under its key; no other
  existing file has changed; and the audit stream is what it was, then the rows of the leaks that
  transaction was allowed, then, in the order of the targets, exactly one row per target with the digests
  of the old and of the new value, none of them a disclosure. The values themselves are in none of these
  rows. (No two paths of the targets lead to one file.)\<close>
theorem rotate_effect:
  assumes "rotate_local ck je en cx p w = (Inr (out, v), w')" "fills en"
    and "\<forall>(n, s)\<in>set (sx_shapes (cx_secrets cx)). valid_shape s"
    and "real_dir (w_fs w) (rr_path (cx_root cx))" "honest w"
    and "unaliased ck (w_fs w) (cx_root cx) (cx_limits cx) (insert (rp_path p) (at_path ` set (rp_also p)))"
  shows "\<exists>c e sh n ls rs.
      load_entry ck (w_fs w) cx (rp_path p) (rp_key p) = Inr (c, e) \<and> e_value e \<noteq> []
    \<and> mint en sh = Inr v \<and> length v = minted_len sh \<and> (rp_shape p = None \<longrightarrow> detect (e_value e) = Some sh)
    \<and> (\<forall>s. rp_shape p = Some s \<longrightarrow> resolve_shape cx s = Inr sh)
    \<and> map (\<lambda>t. (rt_path t, rt_key t)) (ro_targets out) = asked p
    \<and> (\<forall>t\<in>set (ro_targets out). rt_applied t \<and> rt_txn_id t = ro_txn_id out \<and>
         (\<exists>l c f. load_text ck (w_fs w) (cx_root cx) (rt_path t) (cx_limits cx) = Inr l
            \<and> fs_nodes (w_fs w') (ld_abs l) = Some (FileN c (perm_bits (ld_mode l)))
            \<and> Kaed_Dotenv.parse c = Some f \<and> map_option e_value (get_entry f (rt_key t)) = Some v))
    \<and> (\<forall>x nd. fs_nodes (w_fs w) x = Some nd \<and>
         (\<forall>q l. q \<in> insert (rp_path p) (at_path ` set (rp_also p))
            \<and> load_text ck (w_fs w) (cx_root cx) q (cx_limits cx) = Inr l \<longrightarrow> x \<noteq> ld_abs l)
         \<longrightarrow> fs_nodes (w_fs w') x = Some nd)
    \<and> ro_txn_id out = Some n \<and> map tx_id (j_txns (w_journal w')) = map tx_id (j_txns (w_journal w)) @ [n]
    \<and> j_events (w_journal w') = j_events (w_journal w) @ ls @ rs
    \<and> (\<forall>x\<in>set ls. se_action (ev_event x) \<in> leak_actions \<and> se_txn_id (ev_event x) = Some n)
    \<and> map ev_event rs = map (\<lambda>t.
         \<lparr>se_author = cx_author cx, se_node = cx_node cx, se_action = ''rotate'', se_root = rr_name (cx_root cx),
          se_path = rt_path t, se_key = rt_key t, se_old_digest = floor_digest (cr_h ck) (e_value e),
          se_new_digest = floor_digest (cr_h ck) v, se_disclosed = False, se_destination = None,
          se_txn_id = ro_txn_id out, se_intent = map_option (redact_note je) (rp_intent p)\<rparr>) (ro_targets out)"
  using assms(1)
proof (rule rotate_Inr)
  fix c e sh rn eo w1
  assume a: "load_entry ck (w_fs w) cx (rp_path p) (rp_key p) = Inr (c, e)" "e_value e \<noteq> []"
    "rotate_shape cx p (e_value e) = Inr sh" "mint en sh = Inr v"
    "fold_res (rotate_also cx p v) (rp_also p) (rotate_start cx p v) = Inr rn"
    "apply_txn ck (bare_recorder je) (cx_root cx) (rotate_edit p sh rn) (cx_limits cx) (cx_author cx) w = (Inr eo, w1)"
    "ro_targets out = map (\<lambda>t. t\<lparr>rt_txn_id := eo_txn_id eo\<rparr>) (rn_targets rn)" "ro_txn_id out = eo_txn_id eo"
    "log_rotations je cx (floor_digest (cr_h ck) (e_value e)) (floor_digest (cr_h ck) v) (eo_txn_id eo) (rp_intent p)
       (ro_targets out) w1 = (Inr (), w')"
  have "gathered_for cx v [(rp_path p, rp_key p)] (rotate_start cx p v)" by (simp add: gathered_for_def rotate_start_def)
  from rotate_gathered[OF a(5) this] have g: "gathered_for cx v (asked p) rn" by (simp add: asked_def)
  have ps: "fst ` set (asked p) = insert (rp_path p) (at_path ` set (rp_also p))" by (auto simp: asked_def image_iff)
  have sh: "valid_shape sh" "rp_shape p = None \<Longrightarrow> detect (e_value e) = Some sh"
    "\<And>s. rp_shape p = Some s \<Longrightarrow> resolve_shape cx s = Inr sh"
    using rotate_shape_valid[OF a(3) assms(3)] by auto
  have st: "storable v" using mint_chars[OF assms(2) a(4) sh(1)] by (intro tag_chars_storable) blast
  note ap = rotation_apply[OF a(6) g st assms(4,5) assms(6)[folded ps], unfolded ps]
  have ts: "ro_targets out = map (\<lambda>(q, k). (rotated cx q k)\<lparr>rt_txn_id := eo_txn_id eo\<rparr>) (asked p)"
    using a(7) g by (auto simp: gathered_for_def)
  have rt: "rt_root t = rr_name (cx_root cx)" if "t \<in> set (ro_targets out)" for t
    using that unfolding ts by (auto simp: rotated_def)
  have dr: "\<not> er_dry_run (rotate_edit p sh rn)" by (simp add: rotate_edit_def set_request_def)
  obtain n ls where n: "eo_txn_id eo = Some n" "one_txn_more n (w_journal w) ls (w_journal w1)"
    using edit_journal[OF a(6)[unfolded bare_recorder_def] dr] by blast
  obtain rs where rs: "w_fs w' = w_fs w1" "j_events (w_journal w') = j_events (w_journal w1) @ rs"
    "map ev_event rs = map (\<lambda>t. secret_row je cx ''rotate'' (rt_root t) (rt_path t) (rt_key t)
       (floor_digest (cr_h ck) (e_value e)) (floor_digest (cr_h ck) v) False None (eo_txn_id eo) (rp_intent p)) (ro_targets out)"
    "j_txns (w_journal w') = j_txns (w_journal w1)"
    using log_rotations_Inr[OF a(9)] by blast
  have rows: "map ev_event rs = map (\<lambda>t.
         \<lparr>se_author = cx_author cx, se_node = cx_node cx, se_action = ''rotate'', se_root = rr_name (cx_root cx),
          se_path = rt_path t, se_key = rt_key t, se_old_digest = floor_digest (cr_h ck) (e_value e),
          se_new_digest = floor_digest (cr_h ck) v, se_disclosed = False, se_destination = None,
          se_txn_id = ro_txn_id out, se_intent = map_option (redact_note je) (rp_intent p)\<rparr>) (ro_targets out)"
    unfolding rs(3) by (intro map_cong refl) (simp add: secret_row_def a(8) rt)
  have lg: "ro_txn_id out = Some n" "map tx_id (j_txns (w_journal w')) = map tx_id (j_txns (w_journal w)) @ [n]"
    "j_events (w_journal w') = j_events (w_journal w) @ ls @ rs"
    "\<forall>x\<in>set ls. se_action (ev_event x) \<in> leak_actions \<and> se_txn_id (ev_event x) = Some n"
    using n rs(2,4) a(8) by (simp_all add: one_txn_more_def)
  have as: "map (\<lambda>t. (rt_path t, rt_key t)) (ro_targets out) = asked p"
    unfolding ts by (auto simp: rotated_def intro: map_idI)
  have each: "rt_applied t \<and> rt_txn_id t = ro_txn_id out \<and>
         (\<exists>l c f. load_text ck (w_fs w) (cx_root cx) (rt_path t) (cx_limits cx) = Inr l
            \<and> fs_nodes (w_fs w1) (ld_abs l) = Some (FileN c (perm_bits (ld_mode l)))
            \<and> Kaed_Dotenv.parse c = Some f \<and> map_option e_value (get_entry f (rt_key t)) = Some v)"
    if t: "t \<in> set (ro_targets out)" for t
  proof -
    obtain q k where qk: "(q, k) \<in> set (asked p)" "t = (rotated cx q k)\<lparr>rt_txn_id := eo_txn_id eo\<rparr>"
      using t unfolding ts by auto
    have f: "rt_path t = q" "rt_key t = k" "rt_applied t" "rt_txn_id t = ro_txn_id out"
      unfolding qk(2) a(8) by (simp_all add: rotated_def)
    show ?thesis unfolding f(1,2) using ap[THEN conjunct1] qk(1) f(3,4) by blast
  qed
  show ?thesis
    unfolding rs(1)
    by (intro exI[of _ c] exI[of _ e] exI[of _ sh] exI[of _ n] exI[of _ ls] exI[of _ rs] conjI;
        ((rule a(1,2,4) minted_len[OF assms(2) a(4)] as lg rows ap[THEN conjunct2] | use sh(2,3) each in blast); fail))
qed

definition demo_rotate :: rotate_params where
  "demo_rotate = \<lparr>rp_path = ''.env'', rp_key = ''K'', rp_version = version_of zero_hash demo_bytes, rp_shape = Some ''tok'',
     rp_also = [], rp_intent = None\<rparr>"

definition demo_env3 :: dotenv_file where
  "demo_env3 = \<lparr>dlines = [\<lparr>l_raw = ''K='' @ demo_minted, l_kind =
       Entry \<lparr>e_export = False, e_key = ''K'', e_value = demo_minted\<rparr>\<rparr>], trailing_newline = True\<rparr>"

lemma rotate_run:
  assumes "load_entry ck (w_fs w) cx (rp_path p) (rp_key p) = Inr (c, e)" "e_value e \<noteq> []"
    "rotate_shape cx p (e_value e) = Inr sh" "mint en sh = Inr v"
    "fold_res (rotate_also cx p v) (rp_also p) (rotate_start cx p v) = Inr rn"
    "apply_txn ck (bare_recorder je) (cx_root cx) (rotate_edit p sh rn) (cx_limits cx) (cx_author cx) w = (Inr eo, w1)"
    "log_rotations je cx (floor_digest (cr_h ck) (e_value e)) (floor_digest (cr_h ck) v) (eo_txn_id eo) (rp_intent p)
       (map (\<lambda>t. t\<lparr>rt_txn_id := eo_txn_id eo\<rparr>) (rn_targets rn)) w1 = (Inr (), w')"
  shows "\<exists>out. rotate_local ck je en cx p w = (Inr (out, v), w')"
  unfolding rotate_local_def assms(1,3) bind_step_lift prod.case Let_def
  by (simp add: assms(2,4,5,6,7) bind_step_Inr ret_def)

lemma demo_rotate_runs:
  "\<exists>out w'. rotate_local demo_ck demo_je digits_entropy demo_cx demo_rotate (demo_with (empty_journal 30 0))
     = (Inr (out, demo_minted), w')"
proof -
  let ?w = "demo_with (empty_journal 30 0)" and ?p = demo_rotate
  have w: "w_fs ?w = demo_fs" by (simp add: demo_with_def)
  have p: "rp_path ?p = ''.env''" "rp_key ?p = ''K''" "rp_also ?p = []" "rp_shape ?p = Some ''tok''"
    by (simp_all add: demo_rotate_def)
  let ?e = "\<lparr>e_export = False, e_key = ''K'', e_value = ''v''\<rparr>"
  let ?rn = "rotate_start demo_cx ?p demo_minted"
  have "demo_sets ''K'' demo_env3 (rotate_edit ?p (Hex 24) ?rn)"
  proof -
    have "env_set demo_env ''K'' (Some demo_minted) None = Inr demo_env3"
      "vanished_values (Some demo_env) (Some demo_env3) = [''K'']"
      unfolding demo_env_def demo_minted_def demo_env3_def by code_simp+
    moreover have "length (render demo_env3) = 27" unfolding demo_env3_def demo_minted_def by code_simp
    ultimately show ?thesis
      by (simp add: demo_sets_def rotate_edit_def rotate_start_def set_request_def demo_rotate_def)
  qed
  then obtain eo w1 where a: "apply_txn demo_ck (bare_recorder demo_je) demo_root (rotate_edit ?p (Hex 24) ?rn) default_limits ''me'' ?w
      = (Inr eo, w1)" "j_faults (w_journal w1) = []" using demo_sets_apply by blast
  have sh: "rotate_shape demo_cx ?p (e_value ?e) = Inr (Hex 24)" using demo_shape(1) by (simp add: rotate_shape_def p)
  have fr: "fold_res (rotate_also demo_cx ?p demo_minted) (rp_also ?p) ?rn = Inr ?rn" by (simp add: p)
  obtain w' where l: "log_rotations demo_je demo_cx (floor_digest (cr_h demo_ck) (e_value ?e)) (floor_digest (cr_h demo_ck) demo_minted)
      (eo_txn_id eo) (rp_intent ?p) (map (\<lambda>t. t\<lparr>rt_txn_id := eo_txn_id eo\<rparr>) (rn_targets ?rn)) w1 = (Inr (), w')"
    by (simp add: rotate_start_def log_event_def add_secret_event_def quiet_statement[OF a(2)] Let_def bind_step_def ret_def)
  have ne: "e_value ?e \<noteq> []" by simp
  have le: "load_entry demo_ck demo_fs demo_cx (rp_path ?p) (rp_key ?p) = Inr (True, ?e)"
    unfolding p by (rule demo_load_entry)
  show ?thesis
    using rotate_run[of demo_ck ?w demo_cx ?p, unfolded w, OF le ne sh demo_mint fr
      a(1)[folded demo_ctx] l] by blast
qed

theorem rotate_effect_witness:
  "\<exists>out v w'. rotate_local demo_ck demo_je digits_entropy demo_cx demo_rotate (demo_with (empty_journal 30 0))
     = (Inr (out, v), w') \<and> map (\<lambda>t. (rt_path t, rt_key t)) (ro_targets out) = [(''.env'', ''K'')]
     \<and> length v = 24"
proof -
  let ?w = "demo_with (empty_journal 30 0)" and ?p = demo_rotate
  have w: "w_fs ?w = demo_fs" by (simp add: demo_with_def)
  have p: "rp_path ?p = ''.env''" "rp_key ?p = ''K''" "rp_also ?p = []" by (simp_all add: demo_rotate_def)
  obtain out w' where g: "rotate_local demo_ck demo_je digits_entropy demo_cx ?p ?w = (Inr (out, demo_minted), w')"
    using demo_rotate_runs by (elim exE)
  have u: "unaliased demo_ck (w_fs ?w) (cx_root demo_cx) (cx_limits demo_cx) (insert (rp_path ?p) (at_path ` set (rp_also ?p)))"
    using demo_env_unmarked by (simp add: unaliased_def p w demo_ctx demo_sealed_load) (simp add: demo_sealed_def)
  from rotate_effect[OF g demo_hyps u] obtain sh' where "length demo_minted = minted_len sh'"
    "map (\<lambda>t. (rt_path t, rt_key t)) (ro_targets out) = asked ?p" by (elim exE conjE)
  moreover have "asked ?p = [(''.env'', ''K'')]" by (simp add: asked_def p)
  moreover have "length demo_minted = 24" by (simp add: demo_minted_def)
  ultimately show ?thesis
    by (intro exI[of _ out] exI[of _ demo_minted] exI[of _ w'] conjI g) simp_all
qed

end
