(* ===== verification/Kaed_Enumerate.thy ===== *)
theory Kaed_Enumerate
  imports Kaed_Fs_Facts
begin

text \<open>
  \<open>src/fsops.rs\<close>, \<open>stat\<close> and \<open>list\<close>, with the filter that \<open>list\<close> and \<open>search\<close> give their walk.
  The walker of the crate \<open>ignore\<close> is a parameter: it yields the tree below a directory that its own
  rules (gitignore files, depth) leave, without following links and without the directory itself,
  which both callers drop. What the closure given to \<open>filter_entry\<close> does with that tree, the deny
  layer, its cache and its counter, is the code's and is written out here.
\<close>

section \<open>The walk\<close>

datatype walk_tree = Found path "walk_tree list" | Walk_denied | Walk_failed rstr

datatype walk_item = Walked path | Refused_by_os | Failed_with rstr

record walk_opts =
  wo_max_depth :: "nat option"
  wo_gitignore :: bool

record walkers =
  wk_tree :: "walk_opts \<Rightarrow> fsys \<Rightarrow> path \<Rightarrow> walk_tree list"
  wk_glob :: "rstr \<Rightarrow> rstr + (rstr \<Rightarrow> bool)"

text \<open>The state of the closure: the matchers built so far and the counter \<open>denied_hidden\<close>.\<close>

type_synonym filter_state = "ignore_cache \<times> nat"

definition filter_entry :: "crates \<Rightarrow> fsys \<Rightarrow> rroot \<Rightarrow> path \<Rightarrow> filter_state \<Rightarrow> bool \<times> filter_state" where
  "filter_entry ck fs base p st =
     (if p \<noteq> [] \<and> last p = ''.git'' then (False, st)
      else if is_denied (cr_globs ck) (rr_deny base) p then (False, fst st, snd st + 1)
      else let (m, cache) = denied_cached (build_ignore ck fs) (is_dir fs) (rr_path base) p (fst st)
           in if m \<noteq> None then (False, cache, snd st + 1) else (True, cache, snd st))"

text \<open>Depth first: a rejected entry is neither yielded nor descended into; errors are yielded.\<close>

fun visit :: "(path \<Rightarrow> filter_state \<Rightarrow> bool \<times> filter_state) \<Rightarrow> walk_tree list \<Rightarrow> filter_state
    \<Rightarrow> walk_item list \<times> filter_state" where
  "visit keep [] st = ([], st)"
| "visit keep (Walk_denied # ts) st = (let (is, st') = visit keep ts st in (Refused_by_os # is, st'))"
| "visit keep (Walk_failed e # ts) st = (let (is, st') = visit keep ts st in (Failed_with e # is, st'))"
| "visit keep (Found p below # ts) st =
     (let (k, st1) = keep p st in
      if k then
        (let (is1, st2) = visit keep below st1; (is2, st3) = visit keep ts st2
         in (Walked p # is1 @ is2, st3))
      else visit keep ts st1)"

definition walk :: "crates \<Rightarrow> walkers \<Rightarrow> walk_opts \<Rightarrow> fsys \<Rightarrow> rroot \<Rightarrow> path \<Rightarrow> walk_item list \<times> nat" where
  "walk ck wk opts fs base dir =
     (let (is, st) = visit (filter_entry ck fs base) (wk_tree wk opts fs dir) (Map.empty, 0)
      in (is, snd st))"

definition rel_of :: "rroot \<Rightarrow> path \<Rightarrow> rstr" where
  "rel_of base p = (case strip_root (rr_path base) p of Some r \<Rightarrow> join_with ''/'' r | None \<Rightarrow> path_str p)"

definition compile_glob :: "walkers \<Rightarrow> rstr option \<Rightarrow> (rstr \<Rightarrow> bool) option res" where
  "compile_glob wk g =
     (case g of
        None \<Rightarrow> Inr None
      | Some pat \<Rightarrow>
          (case wk_glob wk pat of
             Inl e \<Rightarrow> Inl (invalid_input (Msg ''bad glob'' [pat, e]))
           | Inr m \<Rightarrow> Inr (Some m)))"

section \<open>An empty result explains itself\<close>

record scope_reason =
  em_code :: rstr
  em_hint :: msg

record scope_tally =
  ty_candidates :: nat
  ty_kept :: nat
  ty_opened :: nat

definition explain :: "scope_tally \<Rightarrow> rstr option \<Rightarrow> rstr \<Rightarrow> scope_reason option" where
  "explain t glob path =
     (if ty_candidates t = 0
      then Some \<lparr>em_code = ''no_files_under_path'',
                 em_hint = Msg ''nothing was scanned'' [if path = [] then ''the root'' else path]\<rparr>
      else if glob \<noteq> None \<and> ty_kept t = 0
      then Some \<lparr>em_code = ''glob_matched_no_files'',
                 em_hint = (let g = the glob in
                   if path = [] then Msg ''no path under the root matched glob'' [g]
                   else Msg ''glob is matched against ROOT-relative paths''
                          [path, g, rev (dropWhile (\<lambda>c. c = CHR ''/'') (rev path)) @ ''/'' @ g, ''**/'' @ g])\<rparr>
      else if 0 < ty_kept t \<and> ty_opened t = 0
      then Some \<lparr>em_code = ''all_files_skipped'', em_hint = Msg ''none could be searched'' []\<rparr>
      else None)"

section \<open>stat\<close>

datatype entry_kind = KFile | KDir | KSymlink

text \<open>
  What \<open>symlink_metadata\<close> reports beyond the model of the file system: times, and the size and mode
  of what is not a regular file. A time the platform cannot report is an error.
\<close>

record inode_info =
  in_modified :: "path \<Rightarrow> rstr + rstr"
  in_size :: "path \<Rightarrow> nat"
  in_mode :: "path \<Rightarrow> nat"

record stat_result =
  sr_kind :: entry_kind
  sr_size :: nat
  sr_version :: "rstr option"
  sr_line_count :: "nat option"
  sr_language :: "rstr option"
  sr_executable :: bool
  sr_modified :: rstr
  sr_binary :: bool
  sr_classified :: bool

fun kind_of :: "node \<Rightarrow> entry_kind" where
  "kind_of (FileN _ _) = KFile"
| "kind_of DirN = KDir"
| "kind_of (LinkN _) = KSymlink"

text \<open>\<open>Path::extension\<close>: what follows the last dot of the file name, unless nothing precedes it.\<close>

definition extension :: "rstr \<Rightarrow> rstr option" where
  "extension rel =
     (case file_name rel of
        None \<Rightarrow> None
      | Some n \<Rightarrow>
          (case find_char (CHR ''.'') (rev n) of
             None \<Rightarrow> None
           | Some i \<Rightarrow> if Suc i = length n then None else Some (drop (length n - i) n)))"

definition language_of :: "rstr \<Rightarrow> rstr option" where
  "language_of rel = Option.bind (extension rel) (map_of
     [(''rs'', ''rust''), (''py'', ''python''), (''md'', ''markdown''), (''toml'', ''toml''),
      (''yaml'', ''yaml''), (''yml'', ''yaml''), (''json'', ''json''), (''sh'', ''bash''), (''bash'', ''bash''),
      (''js'', ''javascript''), (''mjs'', ''javascript''), (''ts'', ''typescript''), (''tsx'', ''typescript'')])"

definition stat_path :: "crates \<Rightarrow> fsys \<Rightarrow> rroot \<Rightarrow> path \<Rightarrow> path res" where
  "stat_path ck fs base cleaned =
     (if cleaned = [] then Inr (rr_path base)
      else and_then (resolve_existing ck fs base (join_with ''/'' (butlast cleaned)))
             (\<lambda>d. Inr (d @ [last cleaned])))"

definition stat :: "crates \<Rightarrow> inode_info \<Rightarrow> fsys \<Rightarrow> rroot \<Rightarrow> rstr \<Rightarrow> limits \<Rightarrow> stat_result res" where
  "stat ck ino fs base rel lm =
     and_then (clean_rel rel) (\<lambda>cleaned.
     and_then (stat_path ck fs base cleaned) (\<lambda>ap.
     and_then (check_denied ck fs base rel ap) (\<lambda>_.
     and_then (map_err (\<lambda>e. case io_kind e of
                  IoNotFound \<Rightarrow> not_found (Msg ''not found'' [rel])
                | _ \<Rightarrow> internal_error (Msg ''io'' [rel, io_text e])) (lstat fs ap)) (\<lambda>nd.
     and_then (map_err (\<lambda>e. internal_error (Msg ''io'' [e])) (in_modified ino ap)) (\<lambda>modified.
     let len = (case nd of FileN bytes _ \<Rightarrow> length bytes | _ \<Rightarrow> in_size ino ap);
         mode = (case nd of FileN _ m \<Rightarrow> m | _ \<Rightarrow> in_mode ino ap);
         out = \<lparr>sr_kind = kind_of nd, sr_size = len, sr_version = None, sr_line_count = None,
                sr_language = language_of rel, sr_executable = (and mode 73 \<noteq> 0),
                sr_modified = modified, sr_binary = False,
                sr_classified = (classified_by (cr_globs ck) (rr_classify base) ap \<noteq> None)\<rparr>
     in (case nd of
           FileN bytes _ \<Rightarrow>
             if len \<le> lim_file_bytes lm then
               if \<not> fs_read fs ap then Inl (from_io io_denied)
               else
                 let binary = (looks_binary bytes \<or> \<not> valid_utf8 bytes) in
                 Inr (out\<lparr>sr_binary := binary, sr_version := Some (version_of (cr_h ck) bytes),
                          sr_line_count := if binary then None else Some (lines_count (lines_split bytes))\<rparr>)
             else Inr out
         | _ \<Rightarrow> Inr out))))))"

section \<open>list\<close>

record list_entry =
  le_path :: rstr
  le_kind :: entry_kind
  le_size :: nat

record list_result =
  lr_entries :: "list_entry list"
  lr_truncated :: bool
  lr_next_offset :: "nat option"
  lr_scanned :: nat
  lr_reason :: "scope_reason option"
  lr_denied_hidden :: nat
  lr_unreadable_hidden :: nat

record list_params =
  lp_path :: rstr
  lp_glob :: "rstr option"
  lp_depth :: nat
  lp_max :: nat
  lp_offset :: nat
  lp_ignored :: bool

record listing =
  li_entries :: "list_entry list"
  li_candidates :: nat
  li_kept :: nat
  li_unreadable :: nat

definition list_entry_of :: "rroot \<Rightarrow> path \<Rightarrow> node \<Rightarrow> list_entry" where
  "list_entry_of base p nd =
     \<lparr>le_path = rel_of base p, le_kind = kind_of nd,
      le_size = (case nd of FileN bytes _ \<Rightarrow> length bytes | _ \<Rightarrow> 0)\<rparr>"

fun list_item :: "fsys \<Rightarrow> rroot \<Rightarrow> (rstr \<Rightarrow> bool) option \<Rightarrow> walk_item \<Rightarrow> listing \<Rightarrow> listing res" where
  "list_item fs base m Refused_by_os l = Inr (l\<lparr>li_unreadable := li_unreadable l + 1\<rparr>)"
| "list_item fs base m (Failed_with e) l = Inl (internal_error (Msg ''walk'' [e]))"
| "list_item fs base m (Walked p) l =
     (let l1 = l\<lparr>li_candidates := li_candidates l + 1\<rparr> in
      if (case m of Some g \<Rightarrow> \<not> g (rel_of base p) | None \<Rightarrow> False) then Inr l1
      else
        let l2 = l1\<lparr>li_kept := li_kept l1 + 1\<rparr> in
        (case lstat fs p of
           Inl e \<Rightarrow>
             if io_kind e = IoPermissionDenied then Inr (l2\<lparr>li_unreadable := li_unreadable l2 + 1\<rparr>)
             else Inl (internal_error (Msg ''walk'' [io_text e]))
         | Inr nd \<Rightarrow> Inr (l2\<lparr>li_entries := li_entries l2 @ [list_entry_of base p nd]\<rparr>)))"

definition list_page :: "list_params \<Rightarrow> nat \<Rightarrow> listing \<Rightarrow> list_result" where
  "list_page p denied l =
     (let es = sort_key le_path (li_entries l);
          page = take (lp_max p) (drop (lp_offset p) es);
          cut = (lp_offset p + length page < length es)
      in \<lparr>lr_entries = page, lr_truncated = cut,
          lr_next_offset = (if cut then Some (lp_offset p + length page) else None),
          lr_scanned = li_candidates l,
          lr_reason =
            (if es = []
             then explain \<lparr>ty_candidates = li_candidates l, ty_kept = li_kept l, ty_opened = li_kept l\<rparr>
                    (lp_glob p) (lp_path p)
             else None),
          lr_denied_hidden = denied, lr_unreadable_hidden = li_unreadable l\<rparr>)"

definition list_dir :: "crates \<Rightarrow> walkers \<Rightarrow> fsys \<Rightarrow> rroot \<Rightarrow> list_params \<Rightarrow> list_result res" where
  "list_dir ck wk fs base p =
     and_then (resolve_existing ck fs base (lp_path p)) (\<lambda>dir.
     if \<not> is_dir fs dir then Inl (invalid_input (Msg ''not a directory'' [lp_path p]))
     else if \<not> dir_is_readable fs dir then Inl (not_readable fs base (lp_path p) dir)
     else
       and_then (compile_glob wk (lp_glob p)) (\<lambda>m.
       let (items, denied) =
             walk ck wk \<lparr>wo_max_depth = Some (lp_depth p), wo_gitignore = \<not> lp_ignored p\<rparr> fs base dir
       in and_then
            (fold_res (list_item fs base m) items
               \<lparr>li_entries = [], li_candidates = 0, li_kept = 0, li_unreadable = 0\<rparr>) (\<lambda>l.
          Inr (list_page p denied l))))"

end
