(* ===== verification/Kaed_Search.thy ===== *)
theory Kaed_Search
  imports Kaed_Enumerate
begin

text \<open>
  \<open>src/search.rs\<close>: the walk, the filters, the loop over the files in sorted order with its budget, and
  the sink that turns what the searcher reports into matches. The crates \<open>grep_regex\<close> and
  \<open>grep_searcher\<close> are parameters: building a matcher, its \<open>find\<close> on a line, and the events that a
  search of a slice reports, in order, with the error it may end in.
\<close>

section \<open>Parameters and results\<close>

datatype sink_event = Matched rstr "nat option" | After_line rstr | Other_line rstr

record 'm searcher =
  sc_build :: "bool \<Rightarrow> rstr \<Rightarrow> rstr + 'm"
  sc_find :: "'m \<Rightarrow> rstr \<Rightarrow> nat option"
  sc_events :: "'m \<Rightarrow> nat \<Rightarrow> rstr \<Rightarrow> sink_event list \<times> rstr option"

record search_match =
  sm_path :: rstr
  sm_version :: rstr
  sm_line :: nat
  sm_col :: nat
  sm_text :: rstr
  sm_before :: "rstr list"
  sm_after :: "rstr list"

record search_result =
  so_matches :: "search_match list"
  so_truncated :: bool
  so_files_searched :: nat
  so_reason :: "scope_reason option"
  so_denied_hidden :: nat
  so_classified_hidden :: nat
  so_unreadable_hidden :: nat

record search_params =
  sp_pattern :: rstr
  sp_regex :: bool
  sp_glob :: "rstr option"
  sp_path :: rstr
  sp_context :: nat
  sp_max_results :: nat

section \<open>Lines\<close>

text \<open>\<open>String::from_utf8_lossy\<close>: every maximal ill-formed part becomes U+FFFD.\<close>

definition replacement :: rstr where
  "replacement = [CHR 0xEF, CHR 0xBF, CHR 0xBD]"

fun utf8_lossy :: "rstr \<Rightarrow> rstr" where
  "utf8_lossy [] = []"
| "utf8_lossy (a # s) =
     (if byte a < 128 then a # utf8_lossy s
      else (case s of
          [] \<Rightarrow> replacement
        | b # s1 \<Rightarrow>
            if in_range 194 223 a \<and> is_cont b then a # b # utf8_lossy s1
            else if lead3 a b
            then (case s1 of
                    [] \<Rightarrow> replacement
                  | c # s2 \<Rightarrow> if is_cont c then a # b # c # utf8_lossy s2 else replacement @ utf8_lossy s1)
            else if lead4 a b
            then (case s1 of
                    [] \<Rightarrow> replacement
                  | c # s2 \<Rightarrow>
                      if is_cont c
                      then (case s2 of
                              [] \<Rightarrow> replacement
                            | d # s3 \<Rightarrow>
                                if is_cont d then a # b # c # d # utf8_lossy s3 else replacement @ utf8_lossy s2)
                      else replacement @ utf8_lossy s1)
            else replacement @ utf8_lossy s))"

definition as_line :: "rstr \<Rightarrow> rstr" where
  "as_line bytes = rev (dropWhile (\<lambda>c. c = nl) (rev (utf8_lossy bytes)))"

section \<open>The sink\<close>

record collect_sink =
  ks_version :: "rstr option"
  ks_matches :: "search_match list"
  ks_before :: "rstr list"
  ks_hit_budget :: bool

text \<open>One call of the sink; the flag is what it returns to the searcher: go on or stop.\<close>

definition sink_matched ::
  "hasher \<Rightarrow> ('m \<Rightarrow> rstr \<Rightarrow> nat option) \<Rightarrow> 'm \<Rightarrow> rstr \<Rightarrow> rstr \<Rightarrow> nat \<Rightarrow> rstr \<Rightarrow> nat option \<Rightarrow> collect_sink
     \<Rightarrow> collect_sink \<times> bool" where
  "sink_matched h locate m rel bytes budget line n s =
     (if budget \<le> length (ks_matches s) then (s\<lparr>ks_hit_budget := True\<rparr>, False)
      else
        let v = (case ks_version s of Some v \<Rightarrow> v | None \<Rightarrow> version_of h bytes);
            col = (case locate m line of Some i \<Rightarrow> i + 1 | None \<Rightarrow> 1);
            hit = \<lparr>sm_path = rel, sm_version = v, sm_line = (case n of Some i \<Rightarrow> i | None \<Rightarrow> 0), sm_col = col,
                   sm_text = as_line line, sm_before = ks_before s, sm_after = []\<rparr>
        in (s\<lparr>ks_version := Some v, ks_matches := ks_matches s @ [hit], ks_before := []\<rparr>, True))"

definition sink_after :: "rstr \<Rightarrow> rstr \<Rightarrow> collect_sink \<Rightarrow> collect_sink" where
  "sink_after rel line s =
     (if ks_matches s \<noteq> [] \<and> sm_path (last (ks_matches s)) = rel
      then s\<lparr>ks_matches := butlast (ks_matches s) @
               [(last (ks_matches s))\<lparr>sm_after := sm_after (last (ks_matches s)) @ [as_line line]\<rparr>]\<rparr>
      else s)"

fun sink_call ::
  "hasher \<Rightarrow> ('m \<Rightarrow> rstr \<Rightarrow> nat option) \<Rightarrow> 'm \<Rightarrow> rstr \<Rightarrow> rstr \<Rightarrow> nat \<Rightarrow> sink_event \<Rightarrow> collect_sink
     \<Rightarrow> collect_sink \<times> bool" where
  "sink_call h locate m rel bytes budget (Matched line n) s = sink_matched h locate m rel bytes budget line n s"
| "sink_call h locate m rel bytes budget (After_line line) s = (sink_after rel line s, True)"
| "sink_call h locate m rel bytes budget (Other_line line) s = (s\<lparr>ks_before := ks_before s @ [as_line line]\<rparr>, True)"

text \<open>\<open>search_slice\<close> feeds its sink until it says stop; its own error comes after its events.\<close>

fun feed ::
  "(sink_event \<Rightarrow> collect_sink \<Rightarrow> collect_sink \<times> bool) \<Rightarrow> rstr option \<Rightarrow> sink_event list \<Rightarrow> collect_sink
     \<Rightarrow> rstr + collect_sink" where
  "feed sink err [] s = (case err of None \<Rightarrow> Inr s | Some e \<Rightarrow> Inl e)"
| "feed sink err (ev # evs) s =
     (let (s', go) = sink ev s in if go then feed sink err evs s' else Inr s')"

definition search_slice ::
  "hasher \<Rightarrow> 'm searcher \<Rightarrow> 'm \<Rightarrow> nat \<Rightarrow> rstr \<Rightarrow> nat \<Rightarrow> rstr option \<Rightarrow> rstr \<Rightarrow> search_match list
     \<Rightarrow> rstr + collect_sink" where
  "search_slice h sc m context rel budget version bytes ms =
     (let (evs, err) = sc_events sc m context bytes
      in feed (sink_call h (sc_find sc) m rel bytes budget) err evs
           \<lparr>ks_version = version, ks_matches = ms, ks_before = [], ks_hit_budget = False\<rparr>)"

section \<open>The files\<close>

text \<open>The loop over the walk: permission errors are counted, other errors end the search.\<close>

fun collect_file :: "fsys \<Rightarrow> walk_item \<Rightarrow> path list \<times> nat \<Rightarrow> (path list \<times> nat) res" where
  "collect_file fs Refused_by_os (files, unreadable) = Inr (files, unreadable + 1)"
| "collect_file fs (Failed_with e) st = Inl (internal_error (Msg ''walk'' [e]))"
| "collect_file fs (Walked p) (files, unreadable) =
     (case fs_nodes fs p of
        Some (FileN _ _) \<Rightarrow> Inr (files @ [p], unreadable)
      | _ \<Rightarrow> Inr (files, unreadable))"

record search_state =
  st_matches :: "search_match list"
  st_truncated :: bool
  st_denied :: nat
  st_classified :: nat
  st_unreadable :: nat
  st_kept :: nat
  st_opened :: nat

text \<open>The bytes that are searched and the version a hit carries, when the file is searched at all.\<close>

datatype searched = Search_in "rstr option" rstr | Marked | Opaque | Not_text

definition searched_of :: "crates \<Rightarrow> rroot \<Rightarrow> path \<Rightarrow> rstr \<Rightarrow> searched" where
  "searched_of ck base ap bytes =
     (let content = (if looks_binary bytes \<or> \<not> valid_utf8 bytes then None else Some bytes) in
      if (case content of Some c \<Rightarrow> has_ignore_marker c | None \<Rightarrow> False) then Marked
      else if classified_by (cr_globs ck) (rr_classify base) ap \<noteq> None
      then (case Option.bind content Kaed_Dotenv.parse of
              None \<Rightarrow> Opaque
            | Some f \<Rightarrow> Search_in (Some (version_of (cr_h ck) bytes)) (redact (cr_h ck) f))
      else if content = None then Not_text else Search_in None bytes)"

text \<open>One round of the loop (\<open>metadata\<close> follows links); the flag says that the budget is used up (\<open>break 'files\<close>).\<close>

definition search_file ::
  "crates \<Rightarrow> 'm searcher \<Rightarrow> 'm \<Rightarrow> (rstr \<Rightarrow> bool) option \<Rightarrow> fsys \<Rightarrow> rroot \<Rightarrow> search_params \<Rightarrow> limits \<Rightarrow> bool
     \<Rightarrow> path \<Rightarrow> search_state \<Rightarrow> (search_state \<times> bool) res" where
  "search_file ck sc m glob fs base p lm addressed ap s =
     (let rel = rel_of base ap in
      if (case glob of Some g \<Rightarrow> \<not> g rel | None \<Rightarrow> False) then Inr (s, False)
      else
        let s = s\<lparr>st_kept := st_kept s + 1\<rparr>; skip = Inr (s, False);
            refused_one = Inr (s\<lparr>st_unreadable := st_unreadable s + 1\<rparr>, False) in
        case canonicalize fs ap of
          Inl e \<Rightarrow> if io_kind e = IoPermissionDenied then refused_one else skip
        | Inr q \<Rightarrow>
            (case node_at fs q of
               Some (FileN bytes _) \<Rightarrow>
                 if lim_file_bytes lm < length bytes then skip
                 else if \<not> fs_read fs q
                 then if addressed then Inl (not_readable fs base (sp_path p) ap) else refused_one
                 else
                   (case searched_of ck base ap bytes of
                      Marked \<Rightarrow> Inr (s\<lparr>st_denied := st_denied s + 1\<rparr>, False)
                    | Opaque \<Rightarrow> Inr (s\<lparr>st_classified := st_classified s + 1\<rparr>, False)
                    | Not_text \<Rightarrow> skip
                    | Search_in v content \<Rightarrow>
                        (case search_slice (cr_h ck) sc m (sp_context p) rel (sp_max_results p) v content
                                (st_matches s) of
                           Inl e \<Rightarrow> Inl (internal_error (Msg ''search'' [rel, e]))
                         | Inr k \<Rightarrow>
                             Inr (s\<lparr>st_opened := st_opened s + 1, st_matches := ks_matches k,
                                    st_truncated := ks_hit_budget k\<rparr>, ks_hit_budget k)))
             | _ \<Rightarrow> skip))"

fun search_files ::
  "(path \<Rightarrow> search_state \<Rightarrow> (search_state \<times> bool) res) \<Rightarrow> path list \<Rightarrow> search_state \<Rightarrow> search_state res" where
  "search_files body [] s = Inr s"
| "search_files body (ap # aps) s =
     and_then (body ap s) (\<lambda>(s', stop). if stop then Inr s' else search_files body aps s')"

definition search_result_of :: "search_params \<Rightarrow> nat \<Rightarrow> search_state \<Rightarrow> search_result" where
  "search_result_of p candidates s =
     \<lparr>so_matches = st_matches s, so_truncated = st_truncated s, so_files_searched = st_opened s,
      so_reason =
        (if st_matches s = []
         then explain \<lparr>ty_candidates = candidates, ty_kept = st_kept s, ty_opened = st_opened s\<rparr>
                (sp_glob p) (sp_path p)
         else None),
      so_denied_hidden = st_denied s, so_classified_hidden = st_classified s,
      so_unreadable_hidden = st_unreadable s\<rparr>"

text \<open>\<open>is_file\<close> of a path that is canonical already.\<close>

definition is_file :: "fsys \<Rightarrow> path \<Rightarrow> bool" where
  "is_file fs p \<longleftrightarrow> (case node_at fs p of Some (FileN _ _) \<Rightarrow> True | _ \<Rightarrow> False)"

definition files_to_search ::
  "crates \<Rightarrow> walkers \<Rightarrow> fsys \<Rightarrow> rroot \<Rightarrow> search_params \<Rightarrow> path \<Rightarrow> (path list \<times> nat \<times> nat) res" where
  "files_to_search ck wk fs base p start =
     (if is_file fs start then Inr ([start], 0, 0)
      else if \<not> dir_is_readable fs start then Inl (not_readable fs base (sp_path p) start)
      else
        let (items, denied) = walk ck wk \<lparr>wo_max_depth = None, wo_gitignore = True\<rparr> fs base start
        in and_then (fold_res (collect_file fs) items ([], 0)) (\<lambda>(files, unreadable).
             Inr (sort files, denied, unreadable)))"

definition search ::
  "crates \<Rightarrow> walkers \<Rightarrow> 'm searcher \<Rightarrow> fsys \<Rightarrow> rroot \<Rightarrow> search_params \<Rightarrow> limits \<Rightarrow> search_result res" where
  "search ck wk sc fs base p lm =
     and_then (map_err (\<lambda>e. invalid_input (Msg ''bad pattern'' [sp_pattern p, e])) (sc_build sc (sp_regex p) (sp_pattern p))) (\<lambda>m.
     and_then (compile_glob wk (sp_glob p)) (\<lambda>glob.
     and_then (resolve_existing ck fs base (sp_path p)) (\<lambda>start.
     and_then (files_to_search ck wk fs base p start) (\<lambda>(files, denied, unreadable).
     and_then
       (search_files
          (search_file ck sc m glob fs base p lm (is_file fs start)) files
          \<lparr>st_matches = [], st_truncated = False, st_denied = denied, st_classified = 0,
           st_unreadable = unreadable, st_kept = 0, st_opened = 0\<rparr>) (\<lambda>s.
     Inr (search_result_of p (length files) s))))))"

end
