(* ===== verification/Kaed_Enumerate_Facts.thy ===== *)
theory Kaed_Enumerate_Facts
  imports Kaed_Enumerate
begin

text \<open>
  What an enumeration shows: every path it yields passed the deny layer, the cache of matchers
  notwithstanding, and a listing cuts one fixed sorted list into pages.
\<close>

section \<open>The walk\<close>

fun found :: "walk_tree list \<Rightarrow> path list" where
  "found [] = []"
| "found (Found p below # ts) = p # found below @ found ts"
| "found (_ # ts) = found ts"

text \<open>
  What is relied on of the walker: what it finds lies strictly below the directory it walks, and it
  follows no links, so that only real directories lie between.
\<close>

definition walks :: "walkers \<Rightarrow> bool" where
  "walks wk \<longleftrightarrow> (\<forall>opts fs d p. p \<in> set (found (wk_tree wk opts fs d)) \<longrightarrow>
     strict_prefix d p \<and> (real_dir fs d \<longrightarrow> real_dir fs (butlast p)))"

lemma visit_sound:
  assumes "visit keep ts st = (is, st')" "I st"
    and "\<And>p st. I st \<Longrightarrow> I (snd (keep p st)) \<and> (fst (keep p st) \<longrightarrow> Q p)"
  shows "I st' \<and> (\<forall>p. Walked p \<in> set is \<longrightarrow> Q p \<and> p \<in> set (found ts))"
  using assms
proof (induction keep ts st arbitrary: "is" st' rule: visit.induct)
  case (4 keep p below ts st)
  obtain k st1 where k: "keep p st = (k, st1)" by (cases "keep p st")
  have q: "I st1" "k \<longrightarrow> Q p" using "4.prems"(3)[OF "4.prems"(2), of p] k by simp_all
  show ?case
  proof (cases k)
    case True
    obtain is1 st2 where v1: "visit keep below st1 = (is1, st2)" by (cases "visit keep below st1")
    obtain is2 st3 where v2: "visit keep ts st2 = (is2, st3)" by (cases "visit keep ts st2")
    have r: "is = Walked p # is1 @ is2" "st' = st3"
      using "4.prems"(1) k True v1 v2 by simp_all
    have i1: "I st2 \<and> (\<forall>x. Walked x \<in> set is1 \<longrightarrow> Q x \<and> x \<in> set (found below))"
      by (rule "4.IH"(1)[OF k[symmetric] refl True v1 q(1)]) (rule "4.prems"(3))
    have "I st3 \<and> (\<forall>x. Walked x \<in> set is2 \<longrightarrow> Q x \<and> x \<in> set (found ts))"
      by (rule "4.IH"(2)[OF k[symmetric] refl True v1[symmetric] refl v2]) (use i1 "4.prems"(3) in blast)+
    with i1 q True r show ?thesis by auto
  next
    case False
    have "I st' \<and> (\<forall>x. Walked x \<in> set is \<longrightarrow> Q x \<and> x \<in> set (found ts))"
      by (rule "4.IH"(3)[OF k[symmetric] refl False _ q(1)]) (use "4.prems"(1,3) k False in auto)
    then show ?thesis by auto
  qed
qed (auto split: prod.splits)

text \<open>What the closure lets through, whatever is in its cache.\<close>

definition shown :: "crates \<Rightarrow> fsys \<Rightarrow> rroot \<Rightarrow> path \<Rightarrow> bool" where
  "shown ck fs base p \<longleftrightarrow>
     (p = [] \<or> last p \<noteq> ''.git'') \<and> \<not> is_denied (cr_globs ck) (rr_deny base) p \<and>
     kaedignore_denied (build_ignore ck fs) (is_dir fs) (rr_path base) p = None"

lemma filter_entry_sound:
  assumes "coherent (build_ignore ck fs) (fst st)"
  shows "coherent (build_ignore ck fs) (fst (snd (filter_entry ck fs base p st)))
    \<and> (fst (filter_entry ck fs base p st) \<longrightarrow> shown ck fs base p)"
  using assms denied_cached_transparent[OF assms, of "is_dir fs" "rr_path base" p]
  by (auto simp: filter_entry_def shown_def split: prod.splits)

lemma walk_sound:
  assumes "walk ck wk opts fs base dir = (is, n)" "Walked p \<in> set is"
  shows "shown ck fs base p" "p \<in> set (found (wk_tree wk opts fs dir))"
proof -
  obtain st where v: "visit (filter_entry ck fs base) (wk_tree wk opts fs dir) (Map.empty, 0) = (is, st)"
    using assms(1) by (auto simp: walk_def split: prod.splits)
  have "\<forall>p. Walked p \<in> set is \<longrightarrow> shown ck fs base p \<and> p \<in> set (found (wk_tree wk opts fs dir))"
    using visit_sound[OF v, where I="\<lambda>st. coherent (build_ignore ck fs) (fst st)" and Q="shown ck fs base"]
      filter_entry_sound by auto
  with assms(2) show "shown ck fs base p" "p \<in> set (found (wk_tree wk opts fs dir))" by blast+
qed

lemma walk_permitted:
  assumes "walk ck wk opts fs base dir = (is, n)" "Walked p \<in> set is" "walks wk" "prefix (rr_path base) dir"
  shows "permitted ck fs base p" "strict_prefix dir p"
proof -
  from walk_sound[OF assms(1,2)] assms(3) show s: "strict_prefix dir p" by (auto simp: walks_def)
  from walk_sound(1)[OF assms(1,2)] assms(4) s show "permitted ck fs base p"
    by (auto simp: permitted_def shown_def strict_prefix_def intro: prefix_order.trans)
qed

lemma compile_glob_Inr:
  "compile_glob wk g = Inr m \<Longrightarrow> (g = None \<longleftrightarrow> m = None) \<and> (\<forall>pat. g = Some pat \<longrightarrow> (\<exists>f. wk_glob wk pat = Inr f \<and> m = Some f))"
  by (auto simp: compile_glob_def split: option.splits sum.splits)

section \<open>Listings\<close>

text \<open>An entry a listing may hold: a path of the walk that the glob admits, as it is on disk.\<close>

definition listed :: "crates \<Rightarrow> fsys \<Rightarrow> rroot \<Rightarrow> (rstr \<Rightarrow> bool) option \<Rightarrow> path \<Rightarrow> list_entry \<Rightarrow> bool" where
  "listed ck fs base m dir e \<longleftrightarrow>
     (\<exists>q nd. e = list_entry_of base q nd \<and> lstat fs q = Inr nd \<and> strict_prefix dir q
        \<and> permitted ck fs base q \<and> last q \<noteq> ''.git'' \<and> (\<forall>g. m = Some g \<longrightarrow> g (le_path e)))"

lemma list_item_listed:
  assumes "list_item fs base m i l = Inr l'" "\<forall>e\<in>set (li_entries l). listed ck fs base m dir e"
    and "\<And>q. i = Walked q \<Longrightarrow> permitted ck fs base q \<and> strict_prefix dir q \<and> last q \<noteq> ''.git''"
  shows "\<forall>e\<in>set (li_entries l'). listed ck fs base m dir e"
proof (cases i)
  case (Walked q)
  have "listed ck fs base m dir (list_entry_of base q nd)"
    if "lstat fs q = Inr nd" "\<forall>g. m = Some g \<longrightarrow> g (rel_of base q)" for nd
    using assms(3)[OF Walked] that by (auto simp: listed_def list_entry_of_def)
  with assms(1,2) Walked show ?thesis
    by (auto simp: Let_def split: if_splits option.splits sum.splits)
qed (use assms in auto)

lemma list_items_listed:
  assumes "fold_res (list_item fs base m) is l = Inr l'" "\<forall>e\<in>set (li_entries l). listed ck fs base m dir e"
    and "\<And>q. Walked q \<in> set is \<Longrightarrow> permitted ck fs base q \<and> strict_prefix dir q \<and> last q \<noteq> ''.git''"
  shows "\<forall>e\<in>set (li_entries l'). listed ck fs base m dir e"
  using assms(1,2)
proof (rule fold_res_invariant[where P="\<lambda>l. \<forall>e\<in>set (li_entries l). listed ck fs base m dir e"])
  fix i s t
  assume a: "i \<in> set is" "\<forall>e\<in>set (li_entries s). listed ck fs base m dir e" "list_item fs base m i s = Inr t"
  show "\<forall>e\<in>set (li_entries t). listed ck fs base m dir e"
    by (rule list_item_listed[OF a(3,2)]) (use a(1) assms(3) in simp)
qed

text \<open>Everything but the page is settled before the page is cut.\<close>

lemma list_dir_Inr:
  assumes "list_dir ck wk fs base p = Inr out"
  obtains dir m items n l where "resolve_existing ck fs base (lp_path p) = Inr dir" "compile_glob wk (lp_glob p) = Inr m"
    "walk ck wk \<lparr>wo_max_depth = Some (lp_depth p), wo_gitignore = \<not> lp_ignored p\<rparr> fs base dir = (items, n)"
    "fold_res (list_item fs base m) items \<lparr>li_entries = [], li_candidates = 0, li_kept = 0, li_unreadable = 0\<rparr> = Inr l"
    "out = list_page p n l"
    "\<And>mx off. list_dir ck wk fs base (p\<lparr>lp_max := mx, lp_offset := off\<rparr>)
       = Inr (list_page (p\<lparr>lp_max := mx, lp_offset := off\<rparr>) n l)"
proof -
  let ?rest = "\<lambda>p dir. if \<not> is_dir fs dir then Inl (invalid_input (Msg ''not a directory'' [lp_path p]))
     else if \<not> dir_is_readable fs dir then Inl (not_readable fs base (lp_path p) dir)
     else
       and_then (compile_glob wk (lp_glob p)) (\<lambda>m.
       let (items, denied) =
             walk ck wk \<lparr>wo_max_depth = Some (lp_depth p), wo_gitignore = \<not> lp_ignored p\<rparr> fs base dir
       in and_then
            (fold_res (list_item fs base m) items
               \<lparr>li_entries = [], li_candidates = 0, li_kept = 0, li_unreadable = 0\<rparr>) (\<lambda>l.
          Inr (list_page p denied l)))"
  have u: "list_dir ck wk fs base p = and_then (resolve_existing ck fs base (lp_path p)) (?rest p)" for p
    by (simp only: list_dir_def)
  from assms[unfolded u and_then_Inr] obtain dir where
    d: "resolve_existing ck fs base (lp_path p) = Inr dir" and r: "?rest p dir = Inr out" by (elim exE conjE)
  have k: "is_dir fs dir" "dir_is_readable fs dir" using r by (simp_all split: if_splits)
  obtain items n where w: "walk ck wk \<lparr>wo_max_depth = Some (lp_depth p), wo_gitignore = \<not> lp_ignored p\<rparr> fs base dir = (items, n)"
    by (rule prod.exhaust)
  from r k w have "and_then (compile_glob wk (lp_glob p)) (\<lambda>m. and_then
       (fold_res (list_item fs base m) items \<lparr>li_entries = [], li_candidates = 0, li_kept = 0, li_unreadable = 0\<rparr>)
       (\<lambda>l. Inr (list_page p n l))) = Inr out" by simp
  then obtain m l where m: "compile_glob wk (lp_glob p) = Inr m"
    "fold_res (list_item fs base m) items \<lparr>li_entries = [], li_candidates = 0, li_kept = 0, li_unreadable = 0\<rparr> = Inr l"
    "out = list_page p n l"
    unfolding and_then_Inr by (elim exE conjE) simp
  show thesis
    by (rule that[OF d m(1) w m(2,3)]) (simp add: u d k m w)
qed

lemma list_page_simps [simp]:
  "lr_entries (list_page p n l) = take (lp_max p) (drop (lp_offset p) (sort_key le_path (li_entries l)))"
  "lr_truncated (list_page p n l) \<longleftrightarrow>
     lp_offset p + length (lr_entries (list_page p n l)) < length (li_entries l)"
  "lr_next_offset (list_page p n l) =
     (if lr_truncated (list_page p n l) then Some (lp_offset p + length (lr_entries (list_page p n l))) else None)"
  by (auto simp: list_page_def Let_def)

text \<open>A listing is one sorted list of what may be seen, cut into pages. Every entry is a path below the
  listed directory that passed the deny list and every kaedignore file, is no git directory, satisfies
  the glob, and is reported with the kind and size it has on disk, unfollowed. The list does not depend
  on the page asked for: any limit and offset answer with that window of the same list, and the page
  says that it is cut exactly when entries are left behind it, naming the offset that continues it.\<close>
theorem list_pages:
  assumes "list_dir ck wk fs base p = Inr out" "walks wk"
  shows "\<exists>dir m es. resolve_existing ck fs base (lp_path p) = Inr dir \<and> compile_glob wk (lp_glob p) = Inr m
    \<and> sorted (map le_path es)
    \<and> (\<forall>e\<in>set es. \<exists>q nd. e = list_entry_of base q nd \<and> lstat fs q = Inr nd \<and> strict_prefix dir q
         \<and> permitted ck fs base q \<and> last q \<noteq> ''.git'' \<and> (\<forall>g. m = Some g \<longrightarrow> g (le_path e)))
    \<and> lr_entries out = take (lp_max p) (drop (lp_offset p) es)
    \<and> (lr_truncated out \<longleftrightarrow> lp_offset p + length (lr_entries out) < length es)
    \<and> lr_next_offset out = (if lr_truncated out then Some (lp_offset p + length (lr_entries out)) else None)
    \<and> (\<forall>mx off. \<exists>out'. list_dir ck wk fs base (p\<lparr>lp_max := mx, lp_offset := off\<rparr>) = Inr out'
         \<and> lr_entries out' = take mx (drop off es))"
  using assms(1)
proof (rule list_dir_Inr)
  fix dir m items n l
  assume a: "resolve_existing ck fs base (lp_path p) = Inr dir" "compile_glob wk (lp_glob p) = Inr m"
    "walk ck wk \<lparr>wo_max_depth = Some (lp_depth p), wo_gitignore = \<not> lp_ignored p\<rparr> fs base dir = (items, n)"
    "fold_res (list_item fs base m) items \<lparr>li_entries = [], li_candidates = 0, li_kept = 0, li_unreadable = 0\<rparr> = Inr l"
    "out = list_page p n l"
    "\<And>mx off. list_dir ck wk fs base (p\<lparr>lp_max := mx, lp_offset := off\<rparr>)
       = Inr (list_page (p\<lparr>lp_max := mx, lp_offset := off\<rparr>) n l)"
  have dir: "prefix (rr_path base) dir" using resolve_existing_Inr[OF a(1)] by (auto simp: permitted_def)
  have "permitted ck fs base q \<and> strict_prefix dir q \<and> last q \<noteq> ''.git''" if "Walked q \<in> set items" for q
    using walk_permitted[OF a(3) that assms(2) dir] walk_sound(1)[OF a(3) that] by (auto simp: shown_def)
  then have es: "\<forall>e\<in>set (li_entries l). listed ck fs base m dir e"
    using a(4) by (rule_tac list_items_listed) auto
  show ?thesis
    by (intro exI[of _ dir] exI[of _ m] exI[of _ "sort_key le_path (li_entries l)"])
      (use a es in \<open>auto simp: listed_def\<close>)
qed

definition demo_walkers :: walkers where
  "demo_walkers = \<lparr>wk_tree = (\<lambda>opts fs d. map (\<lambda>n. Found (d @ [n]) []) [''a'', ''.git'', ''.env'']),
     wk_glob = (\<lambda>g. Inr (\<lambda>rel. True))\<rparr>"

lemma demo_walks: "walks demo_walkers"
  by (auto simp: walks_def demo_walkers_def strict_prefix_def)

definition demo_list :: list_params where
  "demo_list = \<lparr>lp_path = [], lp_glob = None, lp_depth = 1, lp_max = 1, lp_offset = 0, lp_ignored = False\<rparr>"

theorem list_pages_witness:
  "\<exists>out. list_dir demo_ck demo_walkers demo_fs demo_root demo_list = Inr out
     \<and> (\<exists>out'. list_dir demo_ck demo_walkers demo_fs demo_root (demo_list\<lparr>lp_max := 1, lp_offset := 1\<rparr>) = Inr out'
          \<and> map le_path (lr_entries out @ lr_entries out') = [''.env'', ''a''])"
proof -
  let ?o = "\<lambda>p k (n::nat). \<lparr>lr_entries = [\<lparr>le_path = p, le_kind = KFile, le_size = k\<rparr>], lr_truncated = (n = 1),
     lr_next_offset = (if n = 1 then Some 1 else None), lr_scanned = 2, lr_reason = None,
     lr_denied_hidden = 0, lr_unreadable_hidden = 0\<rparr>"
  have "list_dir demo_ck demo_walkers demo_fs demo_root demo_list = Inr (?o ''.env'' 4 1)" by code_simp
  moreover have "list_dir demo_ck demo_walkers demo_fs demo_root (demo_list\<lparr>lp_max := 1, lp_offset := 1\<rparr>)
    = Inr (?o ''a'' 2 2)" by code_simp
  moreover have "\<exists>es. (\<forall>mx off. \<exists>out'. list_dir demo_ck demo_walkers demo_fs demo_root (demo_list\<lparr>lp_max := mx, lp_offset := off\<rparr>)
      = Inr out' \<and> lr_entries out' = take mx (drop off es))"
    using list_pages[OF calculation(1) demo_walks] by blast
  ultimately show ?thesis by simp
qed

end
