(* ===== verification/Kaed_Search_Facts.thy ===== *)
theory Kaed_Search_Facts
  imports Kaed_Search Kaed_Enumerate_Facts
begin

text \<open>
  The stateful sink with its budget computes a plain grouping of the searcher's events, and the loop
  over the files concatenates these groups up to the budget. Every match is therefore accounted for:
  it belongs to a permitted file, carries the version of that file, and shows only what the file's
  served rendering holds.
\<close>

section \<open>The sink as a grouping of events\<close>

fun afters :: "sink_event list \<Rightarrow> rstr list" where
  "afters [] = []"
| "afters (Matched l n # evs) = []"
| "afters (After_line l # evs) = as_line l # afters evs"
| "afters (Other_line l # evs) = afters evs"

fun gather ::
  "('m \<Rightarrow> rstr \<Rightarrow> nat option) \<Rightarrow> 'm \<Rightarrow> rstr \<Rightarrow> rstr \<Rightarrow> sink_event list \<Rightarrow> rstr list \<Rightarrow> search_match list" where
  "gather locate m rel v [] bs = []"
| "gather locate m rel v (Matched line n # evs) bs =
     \<lparr>sm_path = rel, sm_version = v, sm_line = (case n of Some i \<Rightarrow> i | None \<Rightarrow> 0),
      sm_col = (case locate m line of Some i \<Rightarrow> i + 1 | None \<Rightarrow> 1), sm_text = as_line line,
      sm_before = bs, sm_after = afters evs\<rparr> # gather locate m rel v evs []"
| "gather locate m rel v (After_line l # evs) bs = gather locate m rel v evs bs"
| "gather locate m rel v (Other_line l # evs) bs = gather locate m rel v evs (bs @ [as_line l])"

definition attach :: "rstr \<Rightarrow> rstr list \<Rightarrow> search_match list \<Rightarrow> search_match list" where
  "attach rel ls ms =
     (if ms \<noteq> [] \<and> sm_path (last ms) = rel
      then butlast ms @ [(last ms)\<lparr>sm_after := sm_after (last ms) @ ls\<rparr>] else ms)"

lemma attach_Nil [simp]: "attach rel [] ms = ms"
  by (simp add: attach_def)

lemma attach_attach [simp]: "attach rel ls (attach rel ks ms) = attach rel (ks @ ls) ms"
  by (simp add: attach_def)

lemma length_attach [simp]: "length (attach rel ls ms) = length ms"
  by (simp add: attach_def)

lemma attach_snoc [simp]:
  "sm_path x = rel \<Longrightarrow> attach rel ls (ms @ [x]) = ms @ [x\<lparr>sm_after := sm_after x @ ls\<rparr>]"
  by (simp add: attach_def)

lemma sink_after_attach: "sink_after rel line s = s\<lparr>ks_matches := attach rel [as_line line] (ks_matches s)\<rparr>"
  by (simp add: sink_after_def attach_def)

lemma feed_gather:
  assumes "feed (sink_call h locate m rel bytes budget) err evs s = Inr k"
    and "length (ks_matches s) \<le> budget" "\<not> ks_hit_budget s"
    and "v = (case ks_version s of Some v \<Rightarrow> v | None \<Rightarrow> version_of h bytes)"
  shows "ks_matches k = attach rel (afters evs) (ks_matches s)
           @ take (budget - length (ks_matches s)) (gather locate m rel v evs (ks_before s))
    \<and> (ks_hit_budget k \<longleftrightarrow> budget < length (ks_matches s) + length (gather locate m rel v evs (ks_before s)))"
  using assms
proof (induction evs arbitrary: s)
  case Nil
  then show ?case by (auto split: option.splits)
next
  case (Cons ev evs)
  show ?case
  proof (cases ev)
    case (Matched line n)
    show ?thesis
    proof (cases "budget \<le> length (ks_matches s)")
      case True
      with Cons.prems Matched show ?thesis by (auto simp: sink_matched_def)
    next
      case False
      let ?x = "\<lparr>sm_path = rel, sm_version = v, sm_line = (case n of Some i \<Rightarrow> i | None \<Rightarrow> 0),
        sm_col = (case locate m line of Some i \<Rightarrow> i + 1 | None \<Rightarrow> 1), sm_text = as_line line,
        sm_before = ks_before s, sm_after = []\<rparr>"
      let ?s = "s\<lparr>ks_version := Some v, ks_matches := ks_matches s @ [?x], ks_before := []\<rparr>"
      have "sink_call h locate m rel bytes budget ev s = (?s, True)"
        using False Matched Cons.prems(4) by (simp add: sink_matched_def Let_def)
      with Cons.prems(1) have f: "feed (sink_call h locate m rel bytes budget) err evs ?s = Inr k" by simp
      from False have d: "budget - length (ks_matches s) = Suc (budget - Suc (length (ks_matches s)))" by simp
      with Cons.IH[OF f] False Cons.prems(3) Matched show ?thesis by (simp add: d)
    qed
  next
    case (After_line l)
    let ?s = "s\<lparr>ks_matches := attach rel [as_line l] (ks_matches s)\<rparr>"
    have f: "feed (sink_call h locate m rel bytes budget) err evs ?s = Inr k"
      using Cons.prems(1) After_line by (simp add: sink_after_attach)
    from Cons.IH[OF f] Cons.prems(2-4) After_line show ?thesis by simp
  next
    case (Other_line l)
    let ?s = "s\<lparr>ks_before := ks_before s @ [as_line l]\<rparr>"
    have f: "feed (sink_call h locate m rel bytes budget) err evs ?s = Inr k"
      using Cons.prems(1) Other_line by simp
    from Cons.IH[OF f] Cons.prems(2-4) Other_line show ?thesis by simp
  qed
qed

section \<open>The loop over the files\<close>

text \<open>All matches of one file, budget or not: none for a file that is skipped.\<close>

definition hits_in ::
  "crates \<Rightarrow> 'm searcher \<Rightarrow> 'm \<Rightarrow> (rstr \<Rightarrow> bool) option \<Rightarrow> fsys \<Rightarrow> rroot \<Rightarrow> nat \<Rightarrow> limits \<Rightarrow> path \<Rightarrow> search_match list" where
  "hits_in ck sc m glob fs base context lm ap =
     (if \<exists>g. glob = Some g \<and> \<not> g (rel_of base ap) then []
      else (case canonicalize fs ap of
          Inl _ \<Rightarrow> []
        | Inr q \<Rightarrow>
            (case node_at fs q of
               Some (FileN bytes _) \<Rightarrow>
                 if lim_file_bytes lm < length bytes \<or> \<not> fs_read fs q then []
                 else (case searched_of ck base ap bytes of
                         Search_in v content \<Rightarrow>
                           gather (sc_find sc) m (rel_of base ap)
                             (case v of Some v \<Rightarrow> v | None \<Rightarrow> version_of (cr_h ck) content)
                             (fst (sc_events sc m context content)) []
                       | _ \<Rightarrow> [])
             | _ \<Rightarrow> [])))"

text \<open>What is relied on of the searcher: a line of after-context follows some match.\<close>

definition greps :: "'m searcher \<Rightarrow> bool" where
  "greps sc \<longleftrightarrow> (\<forall>m context bytes. afters (fst (sc_events sc m context bytes)) = [])"

lemma search_slice_gather:
  assumes "search_slice h sc m context rel budget version bytes ms = Inr k" "length ms \<le> budget" "greps sc"
  shows "ks_matches k = take budget (ms @ gather (sc_find sc) m rel
             (case version of Some v \<Rightarrow> v | None \<Rightarrow> version_of h bytes) (fst (sc_events sc m context bytes)) [])
    \<and> (ks_hit_budget k \<longleftrightarrow> budget < length ms + length (gather (sc_find sc) m rel
             (case version of Some v \<Rightarrow> v | None \<Rightarrow> version_of h bytes) (fst (sc_events sc m context bytes)) []))"
proof -
  obtain evs err where e: "sc_events sc m context bytes = (evs, err)" by (cases "sc_events sc m context bytes")
  have "afters evs = []" using assms(3) e unfolding greps_def by (metis fst_conv)
  with assms(1,2) e show ?thesis
    by (auto simp: search_slice_def dest!: feed_gather)
qed

text \<open>The ways a round goes by without a search, and the one in which it searches.\<close>

lemma search_file_cases:
  assumes "search_file ck sc m glob fs base p lm addressed ap s = Inr (s', stop)"
  obtains (passed) "hits_in ck sc m glob fs base (sp_context p) lm ap = []" "\<not> stop"
      "st_matches s' = st_matches s" "st_truncated s' = st_truncated s"
  | (searched) v content k where
      "search_slice (cr_h ck) sc m (sp_context p) (rel_of base ap) (sp_max_results p) v content (st_matches s) = Inr k"
      "hits_in ck sc m glob fs base (sp_context p) lm ap = gather (sc_find sc) m (rel_of base ap)
         (case v of Some v \<Rightarrow> v | None \<Rightarrow> version_of (cr_h ck) content) (fst (sc_events sc m (sp_context p) content)) []"
      "st_matches s' = ks_matches k" "st_truncated s' = ks_hit_budget k" "stop = ks_hit_budget k"
proof (cases "\<exists>g. glob = Some g \<and> \<not> g (rel_of base ap)")
  case True
  with assms show thesis by (intro passed) (auto simp: search_file_def hits_in_def)
next
  case admitted: False
  show thesis
  proof (cases "canonicalize fs ap")
    case (Inl e)
    with assms admitted show thesis
      by (intro passed) (auto simp: search_file_def hits_in_def Let_def split: if_splits option.splits)
  next
    case q: (Inr q)
    show thesis
    proof (cases "\<exists>bytes mode. node_at fs q = Some (FileN bytes mode) \<and> length bytes \<le> lim_file_bytes lm \<and> fs_read fs q")
      case False
      with assms admitted q show thesis
        by (intro passed) (auto simp: search_file_def hits_in_def Let_def split: if_splits option.splits node.splits)
    next
      case True
      then obtain bytes mode where n: "node_at fs q = Some (FileN bytes mode)"
        "length bytes \<le> lim_file_bytes lm" "fs_read fs q" by blast
      note f = assms admitted q n
      have e: "search_file ck sc m glob fs base p lm addressed ap s =
        (let s = s\<lparr>st_kept := st_kept s + 1\<rparr> in
         case searched_of ck base ap bytes of
           Marked \<Rightarrow> Inr (s\<lparr>st_denied := st_denied s + 1\<rparr>, False)
         | Opaque \<Rightarrow> Inr (s\<lparr>st_classified := st_classified s + 1\<rparr>, False)
         | Not_text \<Rightarrow> Inr (s, False)
         | Search_in v content \<Rightarrow>
             (case search_slice (cr_h ck) sc m (sp_context p) (rel_of base ap) (sp_max_results p) v content (st_matches s) of
                Inl e \<Rightarrow> Inl (internal_error (Msg ''search'' [rel_of base ap, e]))
              | Inr k \<Rightarrow> Inr (s\<lparr>st_opened := st_opened s + 1, st_matches := ks_matches k,
                               st_truncated := ks_hit_budget k\<rparr>, ks_hit_budget k)))"
        using admitted q n by (cases glob) (simp_all add: search_file_def Let_def)
      have h: "hits_in ck sc m glob fs base (sp_context p) lm ap =
        (case searched_of ck base ap bytes of
           Search_in v content \<Rightarrow> gather (sc_find sc) m (rel_of base ap)
             (case v of Some v \<Rightarrow> v | None \<Rightarrow> version_of (cr_h ck) content) (fst (sc_events sc m (sp_context p) content)) []
         | _ \<Rightarrow> [])"
        using admitted q n by (auto simp: hits_in_def)
      show thesis
      proof (cases "searched_of ck base ap bytes")
        case (Search_in v content)
        show thesis
        proof (cases "search_slice (cr_h ck) sc m (sp_context p) (rel_of base ap) (sp_max_results p) v content (st_matches s)")
          case (Inl x)
          with assms e Search_in show thesis by (simp add: Let_def)
        next
          case (Inr k)
          note r = assms[unfolded e Let_def Search_in searched.case, simplified Inr]
          show thesis by (rule searched[OF Inr]) (use r h Search_in Inr in auto)
        qed
      next
        case Marked
        with assms e h show thesis by (intro passed) (auto simp: Let_def)
      next
        case Opaque
        with assms e h show thesis by (intro passed) (auto simp: Let_def)
      next
        case Not_text
        with assms e h show thesis by (intro passed) (auto simp: Let_def)
      qed
    qed
  qed
qed

lemma search_file_hits:
  assumes "search_file ck sc m glob fs base p lm addressed ap s = Inr (s', stop)"
    and "length (st_matches s) \<le> sp_max_results p" "\<not> st_truncated s" "greps sc"
  shows "st_matches s' = take (sp_max_results p) (st_matches s @ hits_in ck sc m glob fs base (sp_context p) lm ap)
    \<and> (stop \<longleftrightarrow> st_truncated s')
    \<and> (st_truncated s' \<longleftrightarrow> sp_max_results p < length (st_matches s @ hits_in ck sc m glob fs base (sp_context p) lm ap))"
  using assms(1)
proof (cases rule: search_file_cases)
  case passed
  with assms(2,3) show ?thesis by simp
next
  case (searched v content k)
  from search_slice_gather[OF searched(1) assms(2,4)] searched(2-) show ?thesis by simp
qed

lemma search_files_hits:
  assumes "search_files (search_file ck sc m glob fs base p lm addressed) files s = Inr s'"
    and "length (st_matches s) \<le> sp_max_results p" "\<not> st_truncated s" "greps sc"
  defines "hits \<equiv> concat (map (hits_in ck sc m glob fs base (sp_context p) lm) files)"
  shows "st_matches s' = take (sp_max_results p) (st_matches s @ hits)
    \<and> (st_truncated s' \<longleftrightarrow> sp_max_results p < length (st_matches s @ hits))"
  using assms(1-3) unfolding hits_def
proof (induction files arbitrary: s)
  case Nil
  then show ?case by simp
next
  case (Cons ap files)
  from Cons.prems(1) obtain s1 stop where
    r: "search_file ck sc m glob fs base p lm addressed ap s = Inr (s1, stop)"
    and rest: "(if stop then Inr s1 else search_files (search_file ck sc m glob fs base p lm addressed) files s1) = Inr s'"
    by (auto simp: and_then_def split: sum.splits)
  note h = search_file_hits[OF r Cons.prems(2,3) assms(4)]
  show ?case
  proof (cases stop)
    case True
    with h rest show ?thesis by auto
  next
    case False
    with h have "length (st_matches s1) \<le> sp_max_results p" "\<not> st_truncated s1"
      "st_matches s1 = st_matches s @ hits_in ck sc m glob fs base (sp_context p) lm ap" by auto
    with Cons.IH[of s1] rest False show ?thesis by simp
  qed
qed

section \<open>What is searched\<close>

text \<open>A file below real directories is its own canonical path.\<close>

lemma canon_real_id:
  assumes "canon fs n cur (map Normal cs) = Inr q" "real fs (cur @ cs)"
  shows "q = cur @ cs"
  using assms
proof (induction cs arbitrary: cur)
  case (Cons c cs)
  show ?case
  proof (cases "cs = []")
    case True
    with Cons.prems show ?thesis by (auto simp: real_def split: if_splits option.splits node.splits)
  next
    case False
    then have "strict_prefix (cur @ [c]) (cur @ c # cs)" by (auto simp: strict_prefix_def)
    with Cons.prems(2) have "node_at fs (cur @ [c]) = Some DirN" by (simp add: real_def)
    with Cons.prems Cons.IH[of "cur @ [c]"] show ?thesis by (auto split: if_splits)
  qed
qed simp

lemma canonicalize_real_id: "canonicalize fs p = Inr q \<Longrightarrow> real fs p \<Longrightarrow> q = p"
  using canon_real_id[of fs MAX_SYMLINKS "[]" p q] by (simp add: canonicalize_def)

lemma collect_files:
  assumes "fold_res (collect_file fs) items (fs0, n) = Inr (files, n')" "p \<in> set files" "p \<notin> set fs0"
  shows "Walked p \<in> set items \<and> (\<exists>b md. fs_nodes fs p = Some (FileN b md))"
  using assms
proof (induction items arbitrary: fs0 n)
  case (Cons i items)
  then show ?case
    by (cases i) (fastforce simp: and_then_def split: option.splits node.splits)+
qed simp

lemma files_to_search_sound:
  assumes "files_to_search ck wk fs base p start = Inr (files, d, u)" "walks wk"
    and "permitted ck fs base start" "real fs start" "ap \<in> set files"
  shows "permitted ck fs base ap" "real fs ap" "prefix start ap"
proof -
  have "permitted ck fs base ap \<and> real fs ap \<and> prefix start ap"
  proof (cases "is_file fs start")
    case True
    with assms show ?thesis by (auto simp: files_to_search_def)
  next
    case False
    obtain items d' where w: "walk ck wk \<lparr>wo_max_depth = None, wo_gitignore = True\<rparr> fs base start = (items, d')"
      by (rule prod.exhaust)
    from assms(1) False w obtain fs1 where c: "fold_res (collect_file fs) items ([], 0) = Inr (fs1, u)" "files = sort fs1"
      by (auto simp: files_to_search_def split: if_splits)
    have "Walked ap \<in> set items \<and> (\<exists>b md. fs_nodes fs ap = Some (FileN b md))"
      using collect_files[OF c(1), of ap] assms(5) c(2) by simp
    then obtain b md where ap: "Walked ap \<in> set items" "fs_nodes fs ap = Some (FileN b md)" by blast
    have "node_at fs start = Some DirN" using assms(4) False by (auto simp: real_def is_file_def)
    then have "real_dir fs start" using assms(4) by (auto simp: real_def real_dir_def strict_prefix_def)
    then have rd: "real_dir fs (butlast ap)"
      using walk_sound(2)[OF w ap(1)] assms(2) by (auto simp: walks_def)
    have pm: "permitted ck fs base ap" "strict_prefix start ap"
      using walk_permitted[OF w ap(1) assms(2)] assms(3) by (auto simp: permitted_def)
    then have ne: "ap = butlast ap @ [last ap]" "ap \<noteq> []" by (cases ap rule: rev_cases; auto)+
    then have "node_at fs (butlast ap @ [last ap]) = Some (FileN b md)" using ap(2) by (simp add: node_at_def)
    from real_file_snoc[OF rd this] ne(1) pm show ?thesis by simp
  qed
  then show "permitted ck fs base ap" "real fs ap" "prefix start ap" by simp_all
qed

section \<open>Properties\<close>

lemma search_Inr:
  assumes "search ck wk sc fs base p lm = Inr out" "greps sc"
  obtains m glob start files d u where
    "sc_build sc (sp_regex p) (sp_pattern p) = Inr m" "compile_glob wk (sp_glob p) = Inr glob"
    "resolve_existing ck fs base (sp_path p) = Inr start" "files_to_search ck wk fs base p start = Inr (files, d, u)"
    "so_matches out = take (sp_max_results p) (concat (map (hits_in ck sc m glob fs base (sp_context p) lm) files))"
    "so_truncated out \<longleftrightarrow>
       sp_max_results p < length (concat (map (hits_in ck sc m glob fs base (sp_context p) lm) files))"
proof -
  from assms(1)[unfolded search_def and_then_Inr] obtain m glob start fdu where
    r: "map_err (\<lambda>e. invalid_input (Msg ''bad pattern'' [sp_pattern p, e])) (sc_build sc (sp_regex p) (sp_pattern p)) = Inr m"
    "compile_glob wk (sp_glob p) = Inr glob" "resolve_existing ck fs base (sp_path p) = Inr start"
    "files_to_search ck wk fs base p start = Inr fdu"
    "(case fdu of (files, denied, unreadable) \<Rightarrow> and_then
       (search_files
          (search_file ck sc m glob fs base p lm (is_file fs start)) files
          \<lparr>st_matches = [], st_truncated = False, st_denied = denied, st_classified = 0,
           st_unreadable = unreadable, st_kept = 0, st_opened = 0\<rparr>) (\<lambda>s.
     Inr (search_result_of p (length files) s))) = Inr out"
    by (elim exE conjE)
  obtain files d u where f: "fdu = (files, d, u)" by (cases fdu)
  from r(5)[unfolded f prod.case and_then_Inr] obtain s where
    s: "search_files
          (search_file ck sc m glob fs base p lm (is_file fs start)) files
          \<lparr>st_matches = [], st_truncated = False, st_denied = d, st_classified = 0,
           st_unreadable = u, st_kept = 0, st_opened = 0\<rparr> = Inr s" "(Inr (search_result_of p (length files) s) :: search_result res) = Inr out"
    by (elim exE conjE)
  from search_files_hits[OF s(1) _ _ assms(2)] have
    "st_matches s = take (sp_max_results p) (concat (map (hits_in ck sc m glob fs base (sp_context p) lm) files))"
    "st_truncated s \<longleftrightarrow> sp_max_results p < length (concat (map (hits_in ck sc m glob fs base (sp_context p) lm) files))"
    by simp_all
  with r(1-4) f s(2) show thesis by (intro that) (auto simp: search_result_of_def)
qed

text \<open>C24: A search answers with the first matches and says so. The matcher is the one built from the pattern,
  read as a regular expression or literally as the request says, and the filter is the glob of the request,
  compiled. The files searched are those the walk finds under the addressed path, in sorted order; the
  matches of a file are its match events grouped with their context lines; the answer is the first max_results of the concatenation, and it is marked
  truncated exactly when there are more. So the same call on the same tree gives the same answer, a
  larger limit extends it, and an answer that is not truncated is complete.\<close>
theorem search_first_matches:
  assumes "search ck wk sc fs base p lm = Inr out" "greps sc"
  shows "\<exists>m glob start files d u.
      sc_build sc (sp_regex p) (sp_pattern p) = Inr m \<and> compile_glob wk (sp_glob p) = Inr glob
    \<and> resolve_existing ck fs base (sp_path p) = Inr start \<and> files_to_search ck wk fs base p start = Inr (files, d, u)
    \<and> sorted files
    \<and> (let hits = concat (map (hits_in ck sc m glob fs base (sp_context p) lm) files) in
         so_matches out = take (sp_max_results p) hits \<and> length (so_matches out) \<le> sp_max_results p
       \<and> (so_truncated out \<longleftrightarrow> sp_max_results p < length hits))"
  using assms
proof (rule search_Inr)
  fix m glob start files d u
  assume b: "sc_build sc (sp_regex p) (sp_pattern p) = Inr m" "compile_glob wk (sp_glob p) = Inr glob"
  assume a: "resolve_existing ck fs base (sp_path p) = Inr start"
    "files_to_search ck wk fs base p start = Inr (files, d, u)"
    "so_matches out = take (sp_max_results p) (concat (map (hits_in ck sc m glob fs base (sp_context p) lm) files))"
    "so_truncated out \<longleftrightarrow>
       sp_max_results p < length (concat (map (hits_in ck sc m glob fs base (sp_context p) lm) files))"
  have "sorted files"
    using a(2) by (auto simp: files_to_search_def split: if_splits prod.splits)
  with a b show ?thesis
    by (intro exI[of _ m] exI[of _ glob] exI[of _ start] exI[of _ files] exI[of _ d] exI[of _ u]) (simp add: Let_def)
qed

lemma hits_in_D:
  assumes "x \<in> set (hits_in ck sc m glob fs base context lm ap)"
  obtains q bytes md v content where "canonicalize fs ap = Inr q" "node_at fs q = Some (FileN bytes md)"
    "length bytes \<le> lim_file_bytes lm" "searched_of ck base ap bytes = Search_in v content"
    "x \<in> set (gather (sc_find sc) m (rel_of base ap) (case v of Some v \<Rightarrow> v | None \<Rightarrow> version_of (cr_h ck) content)
       (fst (sc_events sc m context content)) [])"
proof (cases "canonicalize fs ap")
  case (Inl e)
  with assms show thesis by (auto simp: hits_in_def split: if_splits)
next
  case q: (Inr q)
  show thesis
  proof (cases "\<exists>bytes md. node_at fs q = Some (FileN bytes md)")
    case False
    with q have "hits_in ck sc m glob fs base context lm ap = []"
      by (auto simp: hits_in_def split: option.split node.split)
    with assms show thesis by simp
  next
    case True
    then obtain bytes md where n: "node_at fs q = Some (FileN bytes md)" by blast
    show thesis
    proof (cases "searched_of ck base ap bytes")
      case (Search_in v content)
      have "length bytes \<le> lim_file_bytes lm"
        "x \<in> set (gather (sc_find sc) m (rel_of base ap) (case v of Some v \<Rightarrow> v | None \<Rightarrow> version_of (cr_h ck) content)
           (fst (sc_events sc m context content)) [])"
        using assms q n Search_in by (simp_all add: hits_in_def split: if_splits)
      then show thesis by (rule that[OF q n _ Search_in])
    qed (use assms q n in \<open>simp_all add: hits_in_def split: if_splits\<close>)
  qed
qed

lemma gather_lines:
  assumes "x \<in> set (gather locate m rel v evs bs)"
  shows "sm_path x = rel \<and> sm_version x = v
    \<and> (\<exists>l n. Matched l n \<in> set evs \<and> sm_text x = as_line l)
    \<and> set (sm_before x) \<subseteq> set bs \<union> {as_line l |l. Other_line l \<in> set evs}
    \<and> set (sm_after x) \<subseteq> {as_line l |l. After_line l \<in> set evs}"
  using assms
proof (induction locate m rel v evs bs rule: gather.induct)
  case (2 locate m rel v line n evs bs)
  have "set (afters evs) \<subseteq> {as_line l |l. After_line l \<in> set evs}"
    by (induction evs rule: afters.induct) auto
  with 2 show ?case by fastforce
next
  case (4 locate m rel v l evs bs)
  then show ?case by fastforce
qed auto

text \<open>C23: A search shows of a file only what a read of it would show. Every match lies in a permitted file
  below the addressed path, within the size limit and without an opt-out marker; the match line and the
  context lines are lines that the searcher reported of the content it was given, which is the redacted
  rendering when a rule classifies the file and the file's own text when none does; so the values of a
  classified file are never searched. The version is that of the bytes on disk in both cases, so a
  match is a valid edit base.\<close>
theorem search_shows_served:
  assumes "search ck wk sc fs base p lm = Inr out" "greps sc" "walks wk" "x \<in> set (so_matches out)"
  shows "\<exists>m start ap bytes md content.
      resolve_existing ck fs base (sp_path p) = Inr start \<and> prefix start ap \<and> permitted ck fs base ap
    \<and> node_at fs ap = Some (FileN bytes md) \<and> length bytes \<le> lim_file_bytes lm
    \<and> \<not> looks_binary bytes \<and> valid_utf8 bytes \<and> \<not> has_ignore_marker bytes
    \<and> (if classified_by (cr_globs ck) (rr_classify base) ap = None then content = bytes
       else \<exists>f. Kaed_Dotenv.parse bytes = Some f \<and> content = redact (cr_h ck) f)
    \<and> sm_path x = rel_of base ap \<and> sm_version x = version_of (cr_h ck) bytes
    \<and> (\<exists>l n. Matched l n \<in> set (fst (sc_events sc m (sp_context p) content)) \<and> sm_text x = as_line l)
    \<and> set (sm_before x) \<subseteq> {as_line l |l. Other_line l \<in> set (fst (sc_events sc m (sp_context p) content))}
    \<and> set (sm_after x) \<subseteq> {as_line l |l. After_line l \<in> set (fst (sc_events sc m (sp_context p) content))}"
  using assms(1,2)
proof (rule search_Inr)
  fix m glob start files d u
  assume a: "resolve_existing ck fs base (sp_path p) = Inr start"
    "files_to_search ck wk fs base p start = Inr (files, d, u)"
    "so_matches out = take (sp_max_results p) (concat (map (hits_in ck sc m glob fs base (sp_context p) lm) files))"
  have "x \<in> set (concat (map (hits_in ck sc m glob fs base (sp_context p) lm) files))"
    using assms(4) a(3) in_set_takeD by metis
  then obtain ap where ap: "ap \<in> set files" "x \<in> set (hits_in ck sc m glob fs base (sp_context p) lm ap)" by auto
  have st: "permitted ck fs base start" "real fs start" using resolve_existing_Inr[OF a(1)] by blast+
  note s = files_to_search_sound[OF a(2) assms(3) st ap(1)]
  obtain q bytes md v content where q: "canonicalize fs ap = Inr q" and h: "node_at fs q = Some (FileN bytes md)"
    "length bytes \<le> lim_file_bytes lm" "searched_of ck base ap bytes = Search_in v content"
    "x \<in> set (gather (sc_find sc) m (rel_of base ap) (case v of Some v \<Rightarrow> v | None \<Rightarrow> version_of (cr_h ck) content)
       (fst (sc_events sc m (sp_context p) content)) [])" by (rule hits_in_D[OF ap(2)])
  note h = h(1)[unfolded canonicalize_real_id[OF q s(2)]] h(2-)
  note g = gather_lines[OF h(4)]
  have "\<not> looks_binary bytes \<and> valid_utf8 bytes \<and> \<not> has_ignore_marker bytes
    \<and> (if classified_by (cr_globs ck) (rr_classify base) ap = None then content = bytes
       else \<exists>f. Kaed_Dotenv.parse bytes = Some f \<and> content = redact (cr_h ck) f)
    \<and> (case v of Some v \<Rightarrow> v | None \<Rightarrow> version_of (cr_h ck) content) = version_of (cr_h ck) bytes"
    using h(3) by (auto simp: searched_of_def Let_def split: if_splits option.splits)
  with a(1) s h(1,2) g show ?thesis
    by (intro exI[of _ m] exI[of _ start] exI[of _ ap] exI[of _ bytes] exI[of _ md] exI[of _ content]) auto
qed

definition demo_searcher :: "unit searcher" where
  "demo_searcher = \<lparr>sc_build = (\<lambda>regex pat. Inr ()), sc_find = (\<lambda>m line. Some 0),
     sc_events = (\<lambda>m context bytes. ([Matched bytes (Some 1)], None))\<rparr>"

definition demo_search :: search_params where
  "demo_search = \<lparr>sp_pattern = ''x'', sp_regex = False, sp_glob = None, sp_path = ''a'', sp_context = 0, sp_max_results = 1\<rparr>"

lemma demo_greps: "greps demo_searcher"
  by (simp add: greps_def demo_searcher_def)

lemma demo_searched: "searched_of demo_ck demo_root [''r'', ''a''] ''hi'' = Search_in None ''hi''"
proof -
  have c: "classified_by (cr_globs demo_ck) (rr_classify demo_root) [''r'', ''a''] = None" by code_simp
  have "valid_utf8 ''hi''" "\<not> looks_binary ''hi''"
    using demo_text(1)[of "[]"] by (auto simp: as_text_def split: if_splits)
  with c demo_text(2) show ?thesis by (simp add: searched_of_def)
qed

definition demo_hit :: search_match where
  "demo_hit = \<lparr>sm_path = ''a'', sm_version = version_of zero_hash ''hi'', sm_line = 1, sm_col = 1, sm_text = ''hi'',
     sm_before = [], sm_after = []\<rparr>"

lemma demo_slice:
  "search_slice zero_hash demo_searcher () 0 ''a'' 1 None ''hi'' []
     = Inr \<lparr>ks_version = Some (version_of zero_hash ''hi''), ks_matches = [demo_hit], ks_before = [], ks_hit_budget = False\<rparr>"
proof -
  have "as_line ''hi'' = ''hi''" by code_simp
  then show ?thesis by (simp add: search_slice_def demo_searcher_def sink_matched_def Let_def demo_hit_def)
qed

lemma demo_search_out:
  "search demo_ck demo_walkers demo_searcher demo_fs demo_root demo_search default_limits
     = Inr \<lparr>so_matches = [demo_hit], so_truncated = False, so_files_searched = 1, so_reason = None,
            so_denied_hidden = 0, so_classified_hidden = 0, so_unreadable_hidden = 0\<rparr>"
proof -
  have f: "is_file demo_fs [''r'', ''a'']" "rel_of demo_root [''r'', ''a''] = ''a''"
    "canonicalize demo_fs [''r'', ''a''] = Inr [''r'', ''a'']" "node_at demo_fs [''r'', ''a''] = Some (FileN ''hi'' 420)"
    "fs_read demo_fs [''r'', ''a'']" by code_simp+
  have h: "cr_h demo_ck = zero_hash" by (simp add: demo_ck_def)
  have b: "sc_build demo_searcher False ''x'' = Inr ()" by (simp add: demo_searcher_def)
  show ?thesis
    by (simp add: search_def demo_search_def b compile_glob_def demo_resolve files_to_search_def f search_file_def
        Let_def demo_searched demo_slice h default_limits_def search_result_of_def del: One_nat_def)
qed

theorem search_first_matches_witness:
  "\<exists>out. search demo_ck demo_walkers demo_searcher demo_fs demo_root demo_search default_limits = Inr out
     \<and> length (so_matches out) = 1 \<and> \<not> so_truncated out \<and> length (so_matches out) \<le> sp_max_results demo_search"
proof -
  have "length (so_matches out) \<le> sp_max_results demo_search"
    if "search demo_ck demo_walkers demo_searcher demo_fs demo_root demo_search default_limits = Inr out" for out
    using search_first_matches[OF that demo_greps] by (auto simp: Let_def)
  from this[OF demo_search_out] show ?thesis by (simp add: demo_search_out)
qed

theorem search_shows_served_witness:
  "\<exists>out. search demo_ck demo_walkers demo_searcher demo_fs demo_root demo_search default_limits = Inr out
     \<and> so_matches out = [demo_hit] \<and> (\<exists>ap. permitted demo_ck demo_fs demo_root ap \<and> sm_path demo_hit = rel_of demo_root ap)"
proof -
  have "\<exists>ap. permitted demo_ck demo_fs demo_root ap \<and> sm_path demo_hit = rel_of demo_root ap"
    using search_shows_served[OF demo_search_out demo_greps demo_walks, of demo_hit] by (simp del: split_paired_Ex) blast
  with demo_search_out show ?thesis by simp
qed

end
