(* ===== verification/Kaed_Occurrences.thy ===== *)
theory Kaed_Occurrences
  imports Kaed_Secret_Tool Kaed_Search_Facts
begin

text \<open>
  \<open>src/secret_tool.rs\<close>, \<open>occurrences\<close>: where else on this host the value of a key is stored, asked as a
  search for its digest over the redacted renderings of every root.
\<close>

record occurrence =
  oc_root :: rstr
  oc_path :: rstr
  oc_line :: nat
  oc_key :: "rstr option"
  oc_is_source :: bool

record occurrences_result =
  os_digest :: rstr
  os_occurrences :: "occurrence list"
  os_files_searched :: nat
  os_denied_hidden :: nat
  os_classified_hidden :: nat

text \<open>The key of the first placeholder of a line.\<close>

definition placeholder_key :: "rstr \<Rightarrow> rstr option" where
  "placeholder_key line =
     (case find_sub PLACEHOLDER_OPEN line of
        None \<Rightarrow> None
      | Some i \<Rightarrow>
          (let rest = drop (i + length PLACEHOLDER_OPEN) line;
               piece = (case find_sub PLACEHOLDER_OPEN rest of Some j \<Rightarrow> take j rest | None \<Rightarrow> rest);
               k = takeWhile (\<lambda>c. c \<noteq> CHR ''@'') piece
           in if k = [] then None else Some k))"

definition occurrence_of :: "secret_ctx \<Rightarrow> rstr \<Rightarrow> rstr \<Rightarrow> rroot \<Rightarrow> search_match \<Rightarrow> occurrence" where
  "occurrence_of cx path key base m =
     (let k = placeholder_key (sm_text m) in
      \<lparr>oc_root = rr_name base, oc_path = sm_path m, oc_line = sm_line m, oc_key = k,
       oc_is_source = (rr_name base = rr_name (cx_root cx) \<and> sm_path m = path \<and> k = Some key)\<rparr>)"

definition digest_search :: "rstr \<Rightarrow> search_params" where
  "digest_search digest =
     \<lparr>sp_pattern = digest, sp_regex = False, sp_glob = None, sp_path = [], sp_context = 0, sp_max_results = 500\<rparr>"

definition search_root ::
  "crates \<Rightarrow> walkers \<Rightarrow> 'm searcher \<Rightarrow> fsys \<Rightarrow> secret_ctx \<Rightarrow> rstr \<Rightarrow> rstr \<Rightarrow> rroot \<Rightarrow> occurrences_result
     \<Rightarrow> occurrences_result res" where
  "search_root ck wk sc fs cx path key base r =
     and_then (search ck wk sc fs base (digest_search (os_digest r)) (cx_limits cx)) (\<lambda>s.
     Inr (r\<lparr>os_files_searched := os_files_searched r + so_files_searched s,
            os_denied_hidden := os_denied_hidden r + so_denied_hidden s,
            os_classified_hidden := os_classified_hidden r + so_classified_hidden s,
            os_occurrences := os_occurrences r @ map (occurrence_of cx path key base) (so_matches s)\<rparr>))"

definition occurrences ::
  "crates \<Rightarrow> walkers \<Rightarrow> 'm searcher \<Rightarrow> fsys \<Rightarrow> secret_ctx \<Rightarrow> rstr \<Rightarrow> rstr \<Rightarrow> occurrences_result res" where
  "occurrences ck wk sc fs cx path key =
     and_then (load_entry ck fs cx path key) (\<lambda>(_, e).
     if \<not> clears_floor (e_value e)
     then Inl (invalid_input (Msg ''below the entropy floor'' [path, key]))
     else fold_res (search_root ck wk sc fs cx path key) (cx_roots cx)
            \<lparr>os_digest = digest_of (cr_h ck) (e_value e), os_occurrences = [], os_files_searched = 0,
             os_denied_hidden = 0, os_classified_hidden = 0\<rparr>)"

section \<open>What is reported\<close>

text \<open>An occurrence is a line that the search for the digest found under one of the roots.\<close>

definition reported :: "crates \<Rightarrow> walkers \<Rightarrow> 'm searcher \<Rightarrow> fsys \<Rightarrow> secret_ctx \<Rightarrow> rstr \<Rightarrow> rstr \<Rightarrow> rstr \<Rightarrow> occurrence \<Rightarrow> bool" where
  "reported ck wk sc fs cx path key digest oc \<longleftrightarrow>
     (\<exists>base\<in>set (cx_roots cx). \<exists>s m. search ck wk sc fs base (digest_search digest) (cx_limits cx) = Inr s
        \<and> m \<in> set (so_matches s) \<and> oc = occurrence_of cx path key base m)"

lemma search_root_reported:
  assumes "search_root ck wk sc fs cx path key base r = Inr r'" "base \<in> set (cx_roots cx)"
    and "\<forall>oc\<in>set (os_occurrences r). reported ck wk sc fs cx path key (os_digest r) oc"
  shows "os_digest r' = os_digest r \<and> (\<forall>oc\<in>set (os_occurrences r'). reported ck wk sc fs cx path key (os_digest r) oc)"
proof -
  from assms(1)[unfolded search_root_def and_then_Inr] obtain s where
    s: "search ck wk sc fs base (digest_search (os_digest r)) (cx_limits cx) = Inr s"
    "r' = r\<lparr>os_files_searched := os_files_searched r + so_files_searched s,
            os_denied_hidden := os_denied_hidden r + so_denied_hidden s,
            os_classified_hidden := os_classified_hidden r + so_classified_hidden s,
            os_occurrences := os_occurrences r @ map (occurrence_of cx path key base) (so_matches s)\<rparr>"
    by (elim exE conjE) simp
  have "reported ck wk sc fs cx path key (os_digest r) (occurrence_of cx path key base m)" if "m \<in> set (so_matches s)" for m
    unfolding reported_def using s(1) assms(2) that by blast
  with assms(3) s(2) show ?thesis by auto
qed

text \<open>
  A value that is guessable is not searched for. Otherwise the digest is that of the stored value, and
  every occurrence is a match of a search for it.
\<close>

lemma occurrences_reported:
  assumes "occurrences ck wk sc fs cx path key = Inr r"
  shows "\<exists>c e. load_entry ck fs cx path key = Inr (c, e) \<and> clears_floor (e_value e)
    \<and> os_digest r = digest_of (cr_h ck) (e_value e)
    \<and> (\<forall>oc\<in>set (os_occurrences r). reported ck wk sc fs cx path key (os_digest r) oc)"
proof -
  from assms[unfolded occurrences_def and_then_Inr] obtain ce where
    ce: "load_entry ck fs cx path key = Inr ce" "(case ce of (_, e) \<Rightarrow>
     if \<not> clears_floor (e_value e)
     then Inl (invalid_input (Msg ''below the entropy floor'' [path, key]))
     else fold_res (search_root ck wk sc fs cx path key) (cx_roots cx)
            \<lparr>os_digest = digest_of (cr_h ck) (e_value e), os_occurrences = [], os_files_searched = 0,
             os_denied_hidden = 0, os_classified_hidden = 0\<rparr>) = Inr r"
    by (elim exE conjE)
  obtain c e where e: "ce = (c, e)" by (cases ce)
  with ce(2) have f: "clears_floor (e_value e)"
    "fold_res (search_root ck wk sc fs cx path key) (cx_roots cx)
            \<lparr>os_digest = digest_of (cr_h ck) (e_value e), os_occurrences = [], os_files_searched = 0,
             os_denied_hidden = 0, os_classified_hidden = 0\<rparr> = Inr r" by (simp_all split: if_splits)
  let ?P = "\<lambda>r. os_digest r = digest_of (cr_h ck) (e_value e)
    \<and> (\<forall>oc\<in>set (os_occurrences r). reported ck wk sc fs cx path key (os_digest r) oc)"
  have "?P r" using f(2)
  proof (rule fold_res_invariant)
    fix base s t
    assume "base \<in> set (cx_roots cx)" "?P s" "search_root ck wk sc fs cx path key base s = Inr t"
    then show "?P t" using search_root_reported by metis
  qed simp
  with ce(1) e f(1) show ?thesis by blast
qed

end
