(* ===== verification/Kaed_Fleet.thy ===== *)
theory Kaed_Fleet
  imports Kaed_Errors
begin

text \<open>
  \<open>src/fleet.rs\<close>: routing a call to a peer. The session pool with its eviction and its one retry, what
  is observed about each peer, the errors a proxied call can end in, and the merge of a search over
  many roots. The network is the environment: whether a connect succeeds, what a call comes back
  with, and when a transport dies are inputs. Both locks of the pool are held for the whole of
  \<open>checkout\<close> and of \<open>drop_session\<close> as far as one slot is concerned, so each is one step on its slot; calls
  interleave between these steps. The clock, header validity, the HTTP client and globs are
  parameters.
\<close>

section \<open>Patterns\<close>

definition is_pattern :: "rstr \<Rightarrow> bool" where
  "is_pattern r \<longleftrightarrow> CHR ''*'' \<in> set r \<or> CHR ''?'' \<in> set r \<or> CHR ''['' \<in> set r"

record fleet_env =
  fe_glob :: "rstr \<Rightarrow> rstr + (rstr \<Rightarrow> bool)"
  fe_header_ok :: "rstr \<Rightarrow> bool"
  fe_http_client :: "rstr + unit"
  fe_rfc3339 :: "int \<Rightarrow> rstr"

definition pattern_admits_host :: "fleet_env \<Rightarrow> rstr \<Rightarrow> rstr \<Rightarrow> bool" where
  "pattern_admits_host fe pattern host =
     (case split_once (CHR '':'') pattern of
        None \<Rightarrow> True
      | Some (host_pat, _) \<Rightarrow> (case fe_glob fe host_pat of Inr g \<Rightarrow> g host | Inl _ \<Rightarrow> True))"

section \<open>Peers\<close>

datatype peer_status = Active | Deferred | Unreachable

record peer =
  pr_host :: rstr
  pr_status :: peer_status
  pr_reference :: "rstr option"
  pr_note :: "rstr option"
  pr_since :: "rstr option"
  pr_url :: "rstr option"

record peer_sight =
  ps_down_since :: "int option"
  ps_version :: "rstr option"
  ps_roots :: "json list option"

definition unseen :: peer_sight where
  "unseen = \<lparr>ps_down_since = None, ps_version = None, ps_roots = None\<rparr>"

text \<open>A session: the pool entry it was built for, where it leads and the headers it presents.\<close>

record session =
  ss_key :: "rstr \<times> rstr"
  ss_url :: rstr
  ss_headers :: "(rstr \<times> rstr) list"

text \<open>
  The pool. Sessions are numbered as they are built, so the counter \<open>sessions_built\<close> is the length of
  \<open>fl_built\<close>; \<open>fl_cancelled\<close> are the ones ended here, \<open>fl_closed\<close> those whose transport has died.
\<close>

record fleet =
  fl_this_host :: rstr
  fl_declared :: "peer list option"
  fl_slots :: "(rstr \<times> rstr) \<rightharpoonup> nat option"
  fl_sight :: "rstr \<rightharpoonup> peer_sight"
  fl_built :: "session list"
  fl_cancelled :: "nat set"
  fl_closed :: "nat set"

definition fleet_new :: "rstr \<Rightarrow> peer list option \<Rightarrow> fleet" where
  "fleet_new this_host declared =
     \<lparr>fl_this_host = this_host, fl_declared = declared, fl_slots = Map.empty, fl_sight = Map.empty,
      fl_built = [], fl_cancelled = {}, fl_closed = {}\<rparr>"

definition find_peer :: "fleet \<Rightarrow> rstr \<Rightarrow> peer option" where
  "find_peer f host = Option.bind (fl_declared f) (find (\<lambda>p. pr_host p = host))"

definition routable :: "fleet \<Rightarrow> rstr \<Rightarrow> peer option" where
  "routable f host =
     (case find_peer f host of
        Some p \<Rightarrow> if pr_status p \<noteq> Deferred \<and> pr_url p \<noteq> None then Some p else None
      | None \<Rightarrow> None)"

definition sessions_built :: "fleet \<Rightarrow> nat" where
  "sessions_built f = length (fl_built f)"

definition sight_of :: "fleet \<Rightarrow> rstr \<Rightarrow> peer_sight" where
  "sight_of f host = (case fl_sight f host of Some s \<Rightarrow> s | None \<Rightarrow> unseen)"

definition set_sight :: "rstr \<Rightarrow> (peer_sight \<Rightarrow> peer_sight) \<Rightarrow> fleet \<Rightarrow> fleet" where
  "set_sight host g f = f\<lparr>fl_sight := (fl_sight f)(host \<mapsto> g (sight_of f host))\<rparr>"

definition mark_up :: "rstr \<Rightarrow> fleet \<Rightarrow> fleet" where
  "mark_up host = set_sight host (\<lambda>s. s\<lparr>ps_down_since := None\<rparr>)"

definition mark_down :: "int \<Rightarrow> rstr \<Rightarrow> fleet \<Rightarrow> fleet" where
  "mark_down now host =
     set_sight host (\<lambda>s. s\<lparr>ps_down_since := (case ps_down_since s of Some t \<Rightarrow> Some t | None \<Rightarrow> Some now)\<rparr>)"

definition record_version :: "rstr \<Rightarrow> rstr option \<Rightarrow> fleet \<Rightarrow> fleet" where
  "record_version host v f =
     (case v of None \<Rightarrow> f | Some x \<Rightarrow> set_sight host (\<lambda>s. s\<lparr>ps_version := Some x\<rparr>) f)"

definition record_roots :: "rstr \<Rightarrow> json list \<Rightarrow> fleet \<Rightarrow> fleet" where
  "record_roots host roots = set_sight host (\<lambda>s. s\<lparr>ps_roots := Some roots\<rparr>)"

section \<open>Errors of the hop\<close>

definition CALL_TIMEOUT_SECS :: int where "CALL_TIMEOUT_SECS = 30"

definition looks_like_auth_rejection :: "rstr \<Rightarrow> bool" where
  "looks_like_auth_rejection detail \<longleftrightarrow>
     contains_sub ''Auth required'' detail \<or> contains_sub ''401'' detail
     \<or> contains_sub ''Unauthorized'' detail \<or> contains_sub ''unauthorized'' detail"

definition unforwardable_identity :: "fleet \<Rightarrow> peer \<Rightarrow> rstr \<Rightarrow> kaed_error" where
  "unforwardable_identity f p author =
     with_data (JObj [(''reason'', JStr ''unforwardable_identity''), (''this_host'', JStr (fl_this_host f)),
                      (''target_host'', JStr (pr_host p)), (''author'', JStr author)])
       (new_error Denied (Msg ''cannot be sent as an HTTP header value'' [author, pr_host p]))"

definition credential_rejected :: "fleet \<Rightarrow> peer \<Rightarrow> rstr \<Rightarrow> rstr \<Rightarrow> kaed_error" where
  "credential_rejected f p author detail =
     with_data (JObj [(''reason'', JStr ''peer_credential_rejected''), (''this_host'', JStr (fl_this_host f)),
                      (''target_host'', JStr (pr_host p)), (''author'', JStr author), (''detail'', JStr detail),
                      (''hint'', JStr (''add '' @ author @ '' to [auth] in kaed's config on '' @ pr_host p))])
       (new_error Denied (Msg ''host refused identity'' [pr_host p, author]))"

definition unreachable :: "fleet_env \<Rightarrow> fleet \<Rightarrow> peer \<Rightarrow> rstr \<Rightarrow> kaed_error" where
  "unreachable fe f p detail =
     with_data (JObj [(''reason'', JStr ''host_unreachable''), (''this_host'', JStr (fl_this_host f)),
                      (''target_host'', JStr (pr_host p)),
                      (''since'', opt_str (case ps_down_since (sight_of f (pr_host p)) of
                                            Some t \<Rightarrow> Some (fe_rfc3339 fe t) | None \<Rightarrow> pr_since p)),
                      (''url'', opt_str (pr_url p)), (''detail'', JStr detail)])
       (not_found (Msg ''declared part of the fleet but did not answer'' [pr_host p, detail]))"

definition in_flight_timeout :: "fleet \<Rightarrow> peer \<Rightarrow> rstr \<Rightarrow> kaed_error" where
  "in_flight_timeout f p tool =
     with_data (JObj [(''reason'', JStr ''peer_timeout''), (''this_host'', JStr (fl_this_host f)),
                      (''target_host'', JStr (pr_host p)), (''timeout_secs'', JNum CALL_TIMEOUT_SECS)])
       (internal_error (Msg ''the call MAY HAVE APPLIED there'' [tool, pr_host p]))"

definition mcp_error :: "fleet \<Rightarrow> peer \<Rightarrow> rstr \<Rightarrow> rstr \<Rightarrow> kaed_error" where
  "mcp_error f p tool m =
     (if contains_sub ''tool not found'' m
      then with_data
             (JObj [(''tool'', JStr tool), (''this_host'', JStr (fl_this_host f)), (''target_host'', JStr (pr_host p)),
                    (''target_version'', opt_str (ps_version (sight_of f (pr_host p))))])
             (new_error UnsupportedCapability (Msg ''does not support'' [pr_host p, tool]))
      else internal_error (Msg ''rejected the call at the protocol level'' [pr_host p, m]))"

section \<open>Sessions\<close>

definition AGENT_HEADER :: rstr where "AGENT_HEADER = ''x-homelab-agent''"
definition HOP_HEADER :: rstr where "HOP_HEADER = ''x-kaed-hop''"

text \<open>The identity must be expressible; the hop marker is dropped when it is not.\<close>

definition session_headers :: "fleet_env \<Rightarrow> fleet \<Rightarrow> rstr \<Rightarrow> (rstr \<times> rstr) list option" where
  "session_headers fe f author =
     (if \<not> fe_header_ok fe author then None
      else Some ((AGENT_HEADER, author)
             # (if fe_header_ok fe (fl_this_host f) then [(HOP_HEADER, fl_this_host f)] else [])))"

definition is_closed :: "fleet \<Rightarrow> nat \<Rightarrow> bool" where
  "is_closed f s \<longleftrightarrow> s \<in> fl_closed f \<or> s \<in> fl_cancelled f"

definition set_slot :: "rstr \<times> rstr \<Rightarrow> nat option \<Rightarrow> fleet \<Rightarrow> fleet" where
  "set_slot key x f = f\<lparr>fl_slots := (fl_slots f)(key \<mapsto> x)\<rparr>"

definition cancel :: "nat \<Rightarrow> fleet \<Rightarrow> fleet" where
  "cancel s f = f\<lparr>fl_cancelled := insert s (fl_cancelled f)\<rparr>"

definition http_client_error :: "rstr \<Rightarrow> kaed_error" where
  "http_client_error detail = internal_error (Msg ''cannot build an HTTP client for peer calls'' [detail])"

datatype connect_outcome = Connect_timed_out | Connect_failed rstr | Connected "rstr option"

text \<open>The miss: everything after the look at the slot.\<close>

definition connect :: "fleet_env \<Rightarrow> int \<Rightarrow> connect_outcome \<Rightarrow> peer \<Rightarrow> rstr \<Rightarrow> fleet \<Rightarrow> nat res \<times> fleet" where
  "connect fe now co p author f =
     (case session_headers fe f author of
        None \<Rightarrow> (Inl (unforwardable_identity f p author), f)
      | Some hs \<Rightarrow>
          (case fe_http_client fe of
             Inl detail \<Rightarrow> (Inl (http_client_error detail), f)
           | Inr _ \<Rightarrow>
               (case co of
                  Connect_timed_out \<Rightarrow>
                    (let f' = mark_down now (pr_host p) f in (Inl (unreachable fe f' p ''connect timed out''), f'))
                | Connect_failed detail \<Rightarrow>
                    if looks_like_auth_rejection detail then (Inl (credential_rejected f p author detail), f)
                    else (let f' = mark_down now (pr_host p) f in (Inl (unreachable fe f' p detail), f'))
                | Connected version \<Rightarrow>
                    (let f' = record_version (pr_host p) version (mark_up (pr_host p) f);
                         key = (pr_host p, author); s = length (fl_built f')
                     in (Inr s, set_slot key (Some s)
                          (f'\<lparr>fl_built := fl_built f' @ [\<lparr>ss_key = key, ss_url = the (pr_url p), ss_headers = hs\<rparr>]\<rparr>))))))"

definition checkout :: "fleet_env \<Rightarrow> int \<Rightarrow> connect_outcome \<Rightarrow> peer \<Rightarrow> rstr \<Rightarrow> fleet \<Rightarrow> nat res \<times> fleet" where
  "checkout fe now co p author f =
     (let key = (pr_host p, author) in
      case fl_slots f key of
        Some (Some s) \<Rightarrow>
          if is_closed f s then connect fe now co p author (cancel s (set_slot key None f)) else (Inr s, f)
      | _ \<Rightarrow> connect fe now co p author (set_slot key None f))"

definition drop_session :: "rstr \<Rightarrow> rstr \<Rightarrow> fleet \<Rightarrow> fleet" where
  "drop_session host author f =
     (case fl_slots f (host, author) of
        Some (Some s) \<Rightarrow> cancel s (set_slot (host, author) None f)
      | _ \<Rightarrow> f)"

definition live_sessions :: "fleet \<Rightarrow> (rstr \<times> rstr) list \<Rightarrow> nat" where
  "live_sessions f ks = length (filter (\<lambda>k. case fl_slots f k of Some (Some _) \<Rightarrow> True | _ \<Rightarrow> False) ks)"

section \<open>Calls\<close>

record call_result =
  rs_content :: json
  rs_is_error :: "bool option"
  rs_structured :: "json option"

text \<open>What a call on a session comes back with: rmcp's \<open>ServiceError\<close>, or the time limit.\<close>

datatype service_outcome =
    Call_timed_out | Answered call_result | Transport_down rstr | Protocol_error rstr | Other_failure rstr

text \<open>The one addition to a proxied result: error objects are tagged with the addressed root.\<close>

definition tag_root :: "rstr option \<Rightarrow> call_result \<Rightarrow> call_result" where
  "tag_root r res =
     (case (r, rs_structured res) of
        (Some name, Some (JObj m)) \<Rightarrow>
          if rs_is_error res = Some True
          then res\<lparr>rs_structured := Some (JObj (obj_insert ''root'' (JStr name) m))\<rparr> else res
      | _ \<Rightarrow> res)"

text \<open>
  Where a call is: about to check out for the attempt with this number, waiting for an answer on a
  session, about to evict for a retry, about to evict for good, or back with its result.
\<close>

datatype call_pc =
    Checking_out nat | Waiting nat nat | Evicting | Giving_up rstr | Returned "call_result res"

record job =
  jb_peer :: peer
  jb_author :: rstr
  jb_tool :: rstr
  jb_root :: "rstr option"
  jb_pc :: call_pc

definition checked_out :: "fleet_env \<Rightarrow> int \<Rightarrow> connect_outcome \<Rightarrow> job \<Rightarrow> nat \<Rightarrow> fleet \<Rightarrow> call_pc \<times> fleet" where
  "checked_out fe now co jb attempt f =
     (case checkout fe now co (jb_peer jb) (jb_author jb) f of
        (Inl e, f') \<Rightarrow> (Returned (Inl e), f')
      | (Inr s, f') \<Rightarrow> (Waiting attempt s, f'))"

definition answered :: "service_outcome \<Rightarrow> job \<Rightarrow> nat \<Rightarrow> fleet \<Rightarrow> call_pc \<times> fleet" where
  "answered so jb attempt f =
     (let p = jb_peer jb in
      case so of
        Call_timed_out \<Rightarrow> (Returned (Inl (in_flight_timeout f p (jb_tool jb))), f)
      | Answered res \<Rightarrow> (Returned (Inr (tag_root (jb_root jb) res)), mark_up (pr_host p) f)
      | Transport_down detail \<Rightarrow> (if attempt = 0 then Evicting else Giving_up detail, f)
      | Protocol_error m \<Rightarrow>
          (let f' = mark_up (pr_host p) f in (Returned (Inl (mcp_error f' p (jb_tool jb) m)), f'))
      | Other_failure t \<Rightarrow> (Returned (Inl (internal_error (Msg ''proxying failed'' [pr_host p, t]))), f))"

definition evicted :: "job \<Rightarrow> fleet \<Rightarrow> call_pc \<times> fleet" where
  "evicted jb f = (Checking_out 1, drop_session (pr_host (jb_peer jb)) (jb_author jb) f)"

definition gave_up :: "fleet_env \<Rightarrow> int \<Rightarrow> job \<Rightarrow> rstr \<Rightarrow> fleet \<Rightarrow> call_pc \<times> fleet" where
  "gave_up fe now jb detail f =
     (let p = jb_peer jb; f1 = drop_session (pr_host p) (jb_author jb) f in
      if looks_like_auth_rejection detail
      then (Returned (Inl (credential_rejected f1 p (jb_author jb) detail)), f1)
      else (let f2 = mark_down now (pr_host p) f1 in (Returned (Inl (unreachable fe f2 p detail)), f2)))"

text \<open>
  Calls side by side. A step belongs to one call, or to the environment: a call comes in, a transport
  dies. A call only fails for its transport when the transport of its session is gone.
\<close>

type_synonym fleet_world = "fleet \<times> (nat \<rightharpoonup> job)"

inductive fleet_step :: "fleet_env \<Rightarrow> nat option \<Rightarrow> fleet_world \<Rightarrow> fleet_world \<Rightarrow> bool" for fe where
  comes_in: "js i = None \<Longrightarrow> routable f (pr_host p) = Some p \<Longrightarrow> jb_peer jb = p \<Longrightarrow> jb_pc jb = Checking_out 0 \<Longrightarrow>
    fleet_step fe None (f, js) (f, js(i \<mapsto> jb))"
| transport_dies: "s < length (fl_built f) \<Longrightarrow>
    fleet_step fe None (f, js) (f\<lparr>fl_closed := insert s (fl_closed f)\<rparr>, js)"
| checks_out: "js i = Some jb \<Longrightarrow> jb_pc jb = Checking_out k \<Longrightarrow> checked_out fe now co jb k f = (pc, f') \<Longrightarrow>
    fleet_step fe (Some i) (f, js) (f', js(i \<mapsto> jb\<lparr>jb_pc := pc\<rparr>))"
| hears: "js i = Some jb \<Longrightarrow> jb_pc jb = Waiting k s \<Longrightarrow> (\<forall>d. so = Transport_down d \<longrightarrow> is_closed f s) \<Longrightarrow>
    answered so jb k f = (pc, f') \<Longrightarrow> fleet_step fe (Some i) (f, js) (f', js(i \<mapsto> jb\<lparr>jb_pc := pc\<rparr>))"
| evicts: "js i = Some jb \<Longrightarrow> jb_pc jb = Evicting \<Longrightarrow> evicted jb f = (pc, f') \<Longrightarrow>
    fleet_step fe (Some i) (f, js) (f', js(i \<mapsto> jb\<lparr>jb_pc := pc\<rparr>))"
| gives_up: "js i = Some jb \<Longrightarrow> jb_pc jb = Giving_up d \<Longrightarrow> gave_up fe now jb d f = (pc, f') \<Longrightarrow>
    fleet_step fe (Some i) (f, js) (f', js(i \<mapsto> jb\<lparr>jb_pc := pc\<rparr>))"

inductive_cases env_stepE: "fleet_step fe None (f, js) (f', js')"

inductive_cases call_stepE: "fleet_step fe (Some i) (f, js) (f', js')"

lemmas env_step_cases = env_stepE [consumes 1, case_names comes_in transport_dies]

lemmas call_step_cases = call_stepE [consumes 1, case_names checks_out hears evicts gives_up]

definition fleet_reachable :: "fleet_env \<Rightarrow> rstr \<Rightarrow> peer list option \<Rightarrow> fleet_world \<Rightarrow> bool" where
  "fleet_reachable fe this_host declared =
     (\<lambda>w. (\<lambda>a b. \<exists>l. fleet_step fe l a b)\<^sup>*\<^sup>* (fleet_new this_host declared, Map.empty) w)"

text \<open>What \<open>probe_roots\<close> makes of the answer to its \<open>roots\<close> call.\<close>

definition probed :: "peer \<Rightarrow> call_result res \<Rightarrow> fleet \<Rightarrow> json res \<times> fleet" where
  "probed p r f =
     (case r of
        Inl e \<Rightarrow> (Inl e, f)
      | Inr res \<Rightarrow>
          if rs_is_error res = Some True
          then (Inl (internal_error (Msg ''answered its own roots with an error'' [pr_host p])), f)
          else (case rs_structured res of
                  None \<Rightarrow> (Inl (internal_error (Msg ''roots without structured content'' [pr_host p])), f)
                | Some payload \<Rightarrow>
                    (Inr payload,
                     case json_get payload ''roots'' of
                       Some (JArr roots) \<Rightarrow> record_roots (pr_host p) roots f
                     | _ \<Rightarrow> f)))"

section \<open>Merging a search over many roots\<close>

record search_fanout =
  sf_root :: rstr
  sf_host :: rstr
  sf_outcome :: "json + json"

record merge_state =
  mg_matches :: "json list"
  mg_report :: "json list"
  mg_files :: nat
  mg_truncated :: bool

definition REPORTED_FIELDS :: "rstr list" where
  "REPORTED_FIELDS =
     [''files_searched'', ''truncated'', ''denied_hidden'', ''classified_hidden'', ''unreadable_hidden'', ''reason'']"

fun as_u64 :: "json \<Rightarrow> nat option" where
  "as_u64 (JNum n) = (if 0 \<le> n \<and> n < 2 ^ 64 then Some (nat n) else None)"
| "as_u64 _ = None"

fun as_array :: "json \<Rightarrow> json list option" where
  "as_array (JArr xs) = Some xs"
| "as_array _ = None"

fun tag_match :: "rstr \<Rightarrow> json \<Rightarrow> json" where
  "tag_match r (JObj m) = JObj (obj_insert ''root'' (JStr r) m)"
| "tag_match r j = j"

definition matches_of :: "json \<Rightarrow> json list" where
  "matches_of result =
     (case Option.bind (json_get result ''matches'') as_array of Some ms \<Rightarrow> ms | None \<Rightarrow> [])"

definition report_entry :: "search_fanout \<Rightarrow> json \<Rightarrow> (rstr \<times> json) list" where
  "report_entry part result =
     fold (\<lambda>k e. case json_get result k of Some v \<Rightarrow> obj_insert k v e | None \<Rightarrow> e) REPORTED_FIELDS
       [(''root'', JStr (sf_root part)), (''host'', JStr (sf_host part))]"

definition merge_part :: "nat \<Rightarrow> search_fanout \<Rightarrow> merge_state \<Rightarrow> merge_state" where
  "merge_part max_results part g =
     (case sf_outcome part of
        Inr result \<Rightarrow>
          (let ms = matches_of result;
               budget_left = max_results - length (mg_matches g);
               taken = min (length ms) budget_left;
               entry = report_entry part result;
               files = (case Option.bind (json_get result ''files_searched'') as_u64 of Some n \<Rightarrow> n | None \<Rightarrow> 0)
           in \<lparr>mg_matches = mg_matches g @ map (tag_match (sf_root part)) (take taken ms),
               mg_report = mg_report g @
                 [JObj (if taken < length ms then obj_insert ''merge_dropped'' (JNum (int (length ms - taken))) entry
                        else entry)],
               mg_files = (mg_files g + files) mod 2 ^ 64,
               mg_truncated = (mg_truncated g \<or> json_get result ''truncated'' = Some (JBool True) \<or> taken < length ms)\<rparr>)
      | Inl err \<Rightarrow>
          g\<lparr>mg_report := mg_report g @
             [JObj [(''root'', JStr (sf_root part)), (''host'', JStr (sf_host part)), (''error'', err)]]\<rparr>)"

definition merge_search :: "rstr \<Rightarrow> search_fanout list \<Rightarrow> json list \<Rightarrow> nat \<Rightarrow> rstr list \<Rightarrow> json" where
  "merge_search pattern fanout hosts_unavailable max_results known_roots =
     (let g = fold (merge_part max_results) fanout
                \<lparr>mg_matches = [], mg_report = [], mg_files = 0, mg_truncated = False\<rparr>;
          out = [(''fleet'', JBool True), (''root_pattern'', JStr pattern), (''matches'', JArr (mg_matches g)),
                 (''truncated'', JBool (mg_truncated g)), (''files_searched'', JNum (int (mg_files g))),
                 (''fanout'', JArr (mg_report g))];
          out1 = (if hosts_unavailable \<noteq> [] then obj_insert ''hosts_unavailable'' (JArr hosts_unavailable) out else out)
      in JObj (if mg_report g = []
               then obj_insert ''reason''
                      (JObj [(''code'', JStr ''root_pattern_matched_no_roots''),
                             (''hint'', JStr (join_with '', '' (pattern # known_roots)))]) out1
               else out1))"

end
