(* ===== verification/Kaed_Fleet_Facts.thy ===== *)
theory Kaed_Fleet_Facts
  imports Kaed_Fleet
begin

text \<open>
  The session pool under interleaved calls: every session that was ever built is either in the one
  slot of its host and author or has been cancelled, a call only ever speaks through a session of its
  own author, and a call is over after a few steps whatever the peer does. The merge of a fleet search
  keeps its budget and says who dropped what.
\<close>

section \<open>The pool\<close>

definition session_of :: "fleet \<Rightarrow> nat \<Rightarrow> rstr \<times> rstr \<Rightarrow> bool" where
  "session_of f s key \<longleftrightarrow> s < length (fl_built f) \<and> ss_key (fl_built f ! s) = key
     \<and> (AGENT_HEADER, snd key) \<in> set (ss_headers (fl_built f ! s))"

definition accounted :: "fleet \<Rightarrow> bool" where
  "accounted f \<longleftrightarrow>
     (\<forall>s<length (fl_built f). s \<notin> fl_cancelled f \<longrightarrow> fl_slots f (ss_key (fl_built f ! s)) = Some (Some s))
   \<and> (\<forall>key s. fl_slots f key = Some (Some s) \<longrightarrow> session_of f s key \<and> s \<notin> fl_cancelled f)
   \<and> (\<forall>s\<in>fl_cancelled f. s < length (fl_built f))"

text \<open>What a step on one slot may do, and what it leaves alone.\<close>

lemma set_sight_simps [simp]:
  "fl_slots (set_sight h g f) = fl_slots f" "fl_built (set_sight h g f) = fl_built f"
  "fl_cancelled (set_sight h g f) = fl_cancelled f" "fl_closed (set_sight h g f) = fl_closed f"
  "fl_this_host (set_sight h g f) = fl_this_host f"
  by (simp_all add: set_sight_def)

lemmas sight_defs = mark_up_def mark_down_def record_version_def record_roots_def

lemma accounted_sight [simp]: "accounted (set_sight h g f) = accounted f"
  by (simp add: accounted_def session_of_def)

lemma record_version_simps [simp]:
  "fl_slots (record_version h v f) = fl_slots f" "fl_built (record_version h v f) = fl_built f"
  "fl_cancelled (record_version h v f) = fl_cancelled f" "accounted (record_version h v f) = accounted f"
  by (cases v; simp add: record_version_def)+

lemma accounted_slot: "accounted f \<Longrightarrow> fl_slots f key = Some (Some s) \<Longrightarrow> session_of f s key \<and> s \<notin> fl_cancelled f"
  unfolding accounted_def by blast

lemma accounted_emptied:
  assumes "accounted f" "fl_slots f key = Some (Some s)"
  shows "accounted (cancel s (set_slot key None f))"
proof -
  have "key' = key" if "fl_slots f key' = Some (Some s)" for key'
    using accounted_slot[OF assms] accounted_slot[OF assms(1) that] by (simp add: session_of_def)
  then have others: "\<And>key'. key' \<noteq> key \<Longrightarrow> fl_slots f key' \<noteq> Some (Some s)" by blast
  let ?f = "cancel s (set_slot key None f)"
  have fs: "fl_built ?f = fl_built f" "fl_cancelled ?f = insert s (fl_cancelled f)"
    "fl_slots ?f = (fl_slots f)(key \<mapsto> None)" by (simp_all add: cancel_def set_slot_def)
  have live: "fl_slots f (ss_key (fl_built f ! t)) = Some (Some t)" if "t < length (fl_built f)" "t \<notin> fl_cancelled f" for t
    using assms(1) that by (simp add: accounted_def)
  show ?thesis
    unfolding accounted_def
  proof (intro conjI allI impI ballI)
    fix t
    assume t: "t < length (fl_built ?f)" "t \<notin> fl_cancelled ?f"
    with live[of t] assms(2) show "fl_slots ?f (ss_key (fl_built ?f ! t)) = Some (Some t)"
      by (auto simp: fs)
  next
    fix key' t
    assume t: "fl_slots ?f key' = Some (Some t)"
    then have k: "key' \<noteq> key" "fl_slots f key' = Some (Some t)" by (auto simp: fs split: if_splits)
    from k others[OF k(1)] have "t \<noteq> s" by auto
    with accounted_slot[OF assms(1) k(2)] show "session_of ?f t key'" "t \<notin> fl_cancelled ?f"
      by (auto simp: fs session_of_def)
  next
    fix t
    assume "t \<in> fl_cancelled ?f"
    with assms(1) accounted_slot[OF assms] show "t < length (fl_built ?f)"
      by (auto simp: fs accounted_def session_of_def)
  qed
qed

lemma accounted_opened:
  assumes "accounted f" "\<And>s. fl_slots f key \<noteq> Some (Some s)"
  shows "accounted (set_slot key None f)"
  using assms by (auto simp: accounted_def set_slot_def session_of_def simp del: split_paired_All)

lemma accounted_built:
  assumes "accounted f" "fl_slots f key = Some None" "ss_key x = key" "(AGENT_HEADER, snd key) \<in> set (ss_headers x)"
  shows "accounted (set_slot key (Some (length (fl_built f))) (f\<lparr>fl_built := fl_built f @ [x]\<rparr>))"
proof -
  let ?n = "length (fl_built f)"
  have n: "?n \<notin> fl_cancelled f" using assms(1) by (auto simp: accounted_def)
  have old: "session_of f s k \<Longrightarrow> s \<noteq> ?n" for s k by (simp add: session_of_def)
  from assms(1,2) have "\<forall>s<?n. s \<notin> fl_cancelled f \<longrightarrow> ss_key (fl_built f ! s) \<noteq> key"
    by (auto simp: accounted_def simp del: split_paired_All)
  with assms n old show ?thesis
    by (auto simp: accounted_def set_slot_def session_of_def nth_append less_Suc_eq simp del: split_paired_All)
qed

lemma session_headers_Some: "session_headers fe f a = Some hs \<Longrightarrow> (AGENT_HEADER, a) \<in> set hs"
  by (auto simp: session_headers_def split: if_splits)

lemma connect_accounted:
  assumes "connect fe now co p a f = (r, f')" "accounted f" "fl_slots f (pr_host p, a) = Some None"
  shows "accounted f'" "\<And>s. r = Inr s \<Longrightarrow> session_of f' s (pr_host p, a)" "fl_cancelled f' = fl_cancelled f"
    "dom (fl_slots f') = dom (fl_slots f)" "\<exists>xs. fl_built f' = fl_built f @ xs"
proof -
  have "accounted f' \<and> (\<forall>s. r = Inr s \<longrightarrow> session_of f' s (pr_host p, a)) \<and> fl_cancelled f' = fl_cancelled f
    \<and> dom (fl_slots f') = dom (fl_slots f) \<and> (\<exists>xs. fl_built f' = fl_built f @ xs)"
  proof (cases "\<exists>hs v. session_headers fe f a = Some hs \<and> fe_http_client fe = Inr () \<and> co = Connected v")
    case True
    then obtain hs v where h: "session_headers fe f a = Some hs" "fe_http_client fe = Inr ()" "co = Connected v" by blast
    let ?g = "record_version (pr_host p) v (mark_up (pr_host p) f)"
    let ?x = "\<lparr>ss_key = (pr_host p, a), ss_url = the (pr_url p), ss_headers = hs\<rparr>"
    have r: "r = Inr (length (fl_built f))"
      "f' = set_slot (pr_host p, a) (Some (length (fl_built ?g))) (?g\<lparr>fl_built := fl_built ?g @ [?x]\<rparr>)"
      using assms(1) h by (auto simp: connect_def Let_def mark_up_def)
    have "accounted ?g" "fl_slots ?g (pr_host p, a) = Some None" using assms(2,3) by (simp_all add: mark_up_def)
    from accounted_built[OF this, of ?x] session_headers_Some[OF h(1)] r(2) have "accounted f'" by simp
    moreover have "session_of f' (length (fl_built f)) (pr_host p, a)"
      using r(2) session_headers_Some[OF h(1)] by (simp add: session_of_def set_slot_def mark_up_def)
    moreover have "dom (fl_slots f') = dom (fl_slots f)" using r(2) assms(3) by (auto simp: set_slot_def mark_up_def)
    ultimately show ?thesis using r by (auto simp: set_slot_def mark_up_def)
  next
    case False
    with assms show ?thesis
      by (auto simp: connect_def Let_def mark_down_def split: option.splits sum.splits connect_outcome.splits if_splits)
  qed
  then show "accounted f'" "\<And>s. r = Inr s \<Longrightarrow> session_of f' s (pr_host p, a)" "fl_cancelled f' = fl_cancelled f"
    "dom (fl_slots f') = dom (fl_slots f)" "\<exists>xs. fl_built f' = fl_built f @ xs" by blast+
qed

text \<open>What every step keeps: the account, and the sessions built so far.\<close>

definition moves :: "(rstr \<times> rstr) \<Rightarrow> fleet \<Rightarrow> fleet \<Rightarrow> bool" where
  "moves key f f' \<longleftrightarrow> accounted f' \<and> dom (fl_slots f') \<subseteq> insert key (dom (fl_slots f))
     \<and> (\<exists>xs. fl_built f' = fl_built f @ xs)"

lemma moves_sight: "moves key f f' \<Longrightarrow> moves key f (set_sight h g f')"
  by (simp add: moves_def)

lemma moves_refl: "accounted f \<Longrightarrow> moves key f f"
  by (auto simp: moves_def)

lemma session_of_moves: "moves key f f' \<Longrightarrow> session_of f s k \<Longrightarrow> session_of f' s k"
  by (auto simp: moves_def session_of_def nth_append)

lemma checkout_moves:
  assumes "checkout fe now co p a f = (r, f')" "accounted f"
  shows "moves (pr_host p, a) f f'" "\<And>s. r = Inr s \<Longrightarrow> session_of f' s (pr_host p, a)"
proof -
  let ?k = "(pr_host p, a)"
  have "moves ?k f f' \<and> (\<forall>s. r = Inr s \<longrightarrow> session_of f' s ?k)"
  proof (cases "\<exists>s. fl_slots f ?k = Some (Some s)")
    case False
    then have c: "connect fe now co p a (set_slot ?k None f) = (r, f')"
      using assms(1) by (cases "fl_slots f ?k") (auto simp: checkout_def Let_def split: option.splits)
    have "accounted (set_slot ?k None f)" by (rule accounted_opened[OF assms(2)]) (use False in blast)
    from connect_accounted[OF c this] show ?thesis by (auto simp: moves_def set_slot_def)
  next
    case True
    then obtain s where s: "fl_slots f ?k = Some (Some s)" by blast
    show ?thesis
    proof (cases "is_closed f s")
      case True
      with assms(1) s have c: "connect fe now co p a (cancel s (set_slot ?k None f)) = (r, f')"
        by (simp add: checkout_def Let_def)
      from connect_accounted[OF c accounted_emptied[OF assms(2) s]] show ?thesis
        by (auto simp: moves_def set_slot_def cancel_def)
    next
      case False
      with assms s have "r = Inr s" "f' = f" by (simp_all add: checkout_def Let_def)
      with assms(2) s moves_refl show ?thesis by (auto simp: accounted_def)
    qed
  qed
  then show "moves ?k f f'" "\<And>s. r = Inr s \<Longrightarrow> session_of f' s ?k" by blast+
qed

lemma drop_session_moves: "accounted f \<Longrightarrow> moves (h, a) f (drop_session h a f)"
  using accounted_emptied[of f "(h, a)"]
  by (auto simp: drop_session_def moves_def set_slot_def cancel_def split: option.splits)

section \<open>Calls side by side\<close>

definition job_key :: "job \<Rightarrow> rstr \<times> rstr" where
  "job_key jb = (pr_host (jb_peer jb), jb_author jb)"

definition speaks :: "fleet \<Rightarrow> job \<Rightarrow> bool" where
  "speaks f jb \<longleftrightarrow> (\<forall>k s. jb_pc jb = Waiting k s \<longrightarrow> session_of f s (job_key jb))"

lemma job_key_pc [simp]: "job_key (jb\<lparr>jb_pc := pc\<rparr>) = job_key jb"
  by (simp add: job_key_def)

lemma speaks_moves: "moves key f f' \<Longrightarrow> speaks f jb \<Longrightarrow> speaks f' jb"
  using session_of_moves by (auto simp: speaks_def)

lemma mark_up_moves: "accounted f \<Longrightarrow> moves key f (mark_up h f)"
  unfolding mark_up_def by (rule moves_sight[OF moves_refl])

lemma answered_moves:
  assumes "answered so jb k f = (pc, f')" "accounted f"
  shows "moves (job_key jb) f f' \<and> (\<forall>k s. pc \<noteq> Waiting k s)"
  using assms(1) moves_refl[OF assms(2), of "job_key jb"]
    mark_up_moves[OF assms(2), of "job_key jb" "pr_host (jb_peer jb)"]
  by (cases so) (auto simp: answered_def Let_def split: if_splits)

lemma gave_up_moves:
  assumes "gave_up fe now jb d f = (pc, f')" "accounted f"
  shows "moves (job_key jb) f f' \<and> (\<forall>k s. pc \<noteq> Waiting k s)"
  using assms(1) drop_session_moves[OF assms(2)]
  by (auto simp: gave_up_def job_key_def mark_down_def Let_def moves_sight split: if_splits)

text \<open>A step of a call moves its own slot only, and leaves the call speaking for itself.\<close>

lemma fleet_step_moves:
  assumes "fleet_step fe (Some i) (f, js) (f', js')" "accounted f"
  shows "\<exists>jb pc. js i = Some jb \<and> js' = js(i \<mapsto> jb\<lparr>jb_pc := pc\<rparr>) \<and> moves (job_key jb) f f'
    \<and> speaks f' (jb\<lparr>jb_pc := pc\<rparr>)"
  using assms(1)
proof (cases rule: call_step_cases)
  case (checks_out jb k now co pc)
  have "moves (job_key jb) f f' \<and> speaks f' (jb\<lparr>jb_pc := pc\<rparr>)"
    using checks_out(4) checkout_moves[OF _ assms(2), of fe now co "jb_peer jb" "jb_author jb"]
    by (auto simp: checked_out_def speaks_def job_key_def split: prod.splits sum.splits)
  with checks_out show ?thesis by auto
next
  case (hears jb k s so pc)
  from answered_moves[OF hears(5) assms(2)] hears show ?thesis by (auto simp: speaks_def)
next
  case (evicts jb pc)
  with drop_session_moves[OF assms(2), of "pr_host (jb_peer jb)" "jb_author jb"] show ?thesis
    by (auto simp: evicted_def speaks_def job_key_def)
next
  case (gives_up jb d now pc)
  from gave_up_moves[OF gives_up(4) assms(2)] gives_up show ?thesis by (auto simp: speaks_def)
qed

definition fleet_ok :: "fleet_world \<Rightarrow> bool" where
  "fleet_ok w \<longleftrightarrow> (case w of (f, js) \<Rightarrow>
     accounted f \<and> (\<forall>jb\<in>ran js. speaks f jb) \<and> dom (fl_slots f) \<subseteq> job_key ` ran js)"

lemma fleet_ok_step:
  assumes "fleet_step fe l (f, js) (f', js')" "fleet_ok (f, js)"
  shows "fleet_ok (f', js')"
proof (cases l)
  case None
  from assms(1)[unfolded None] show ?thesis
  proof (cases rule: env_step_cases)
    case (comes_in i jb)
    then have "ran js' = insert jb (ran js)" by (simp add: ran_map_upd)
    with assms(2) comes_in show ?thesis by (auto simp: fleet_ok_def speaks_def)
  next
    case (transport_dies s)
    with assms(2) show ?thesis by (auto simp: fleet_ok_def accounted_def speaks_def session_of_def simp del: split_paired_All)
  qed
next
  case (Some i)
  have a: "accounted f" using assms(2) by (simp add: fleet_ok_def)
  from fleet_step_moves[OF assms(1)[unfolded Some] a] obtain jb pc where
    s: "js i = Some jb" "js' = js(i \<mapsto> jb\<lparr>jb_pc := pc\<rparr>)" "moves (job_key jb) f f'" "speaks f' (jb\<lparr>jb_pc := pc\<rparr>)"
    by blast
  have sub: "ran js' \<subseteq> insert (jb\<lparr>jb_pc := pc\<rparr>) (ran js)" using s(2) by (auto simp: ran_def)
  have keys: "job_key ` ran js' = job_key ` ran js"
  proof
    show "job_key ` ran js' \<subseteq> job_key ` ran js"
    proof (rule image_subsetI)
      fix x assume "x \<in> ran js'"
      with sub have "x = jb\<lparr>jb_pc := pc\<rparr> \<or> x \<in> ran js" by blast
      moreover have "jb \<in> ran js" using s(1) by (rule ranI)
      ultimately show "job_key x \<in> job_key ` ran js" by (auto intro: image_eqI[of _ _ jb])
    qed
    show "job_key ` ran js \<subseteq> job_key ` ran js'"
    proof
      fix x assume "x \<in> job_key ` ran js"
      then obtain n j where n: "js n = Some j" "x = job_key j" by (auto simp: ran_def)
      then have "job_key (the (js' n)) = x \<and> js' n \<noteq> None" using s(1,2) by auto
      then show "x \<in> job_key ` ran js'" by (force simp: ran_def)
    qed
  qed
  have "job_key jb \<in> job_key ` ran js" using s(1) by (auto simp: ran_def)
  moreover have "dom (fl_slots f') \<subseteq> insert (job_key jb) (dom (fl_slots f))" "accounted f'"
    using s(3) by (simp_all add: moves_def)
  moreover have "\<forall>j\<in>ran js'. speaks f' j"
  proof
    fix j assume "j \<in> ran js'"
    with sub have "j = jb\<lparr>jb_pc := pc\<rparr> \<or> j \<in> ran js" by blast
    then show "speaks f' j"
    proof
      assume "j \<in> ran js"
      then have "speaks f j" using assms(2) by (simp add: fleet_ok_def)
      with s(3) show ?thesis by (rule speaks_moves)
    qed (simp add: s(4))
  qed
  moreover have "dom (fl_slots f) \<subseteq> job_key ` ran js" using assms(2) by (simp add: fleet_ok_def)
  ultimately have "accounted f'" "\<forall>j\<in>ran js'. speaks f' j" "dom (fl_slots f') \<subseteq> job_key ` ran js" by blast+
  then show ?thesis by (simp add: fleet_ok_def keys)
qed

lemma fleet_ok_reachable: "fleet_reachable fe h d w \<Longrightarrow> fleet_ok w"
  unfolding fleet_reachable_def
proof (induction rule: rtranclp_induct)
  case base
  show ?case by (simp add: fleet_ok_def accounted_def fleet_new_def)
next
  case (step w w')
  then show ?case using fleet_ok_step by (cases w; cases w') blast
qed

text \<open>C31: No peer session leaks. However calls to peers interleave, and whenever transports die: a session
  that was built and not cancelled is the one held in the pool for its host and author, so at most one
  session per host and author that some call named is alive; and a call waiting for an answer waits on
  a session that was built for its own peer and presents its own author's name as identity.\<close>
theorem fleet_sessions:
  assumes "fleet_reachable fe h d (f, js)"
  shows "(\<forall>s<sessions_built f. s \<notin> fl_cancelled f \<longrightarrow> fl_slots f (ss_key (fl_built f ! s)) = Some (Some s))
    \<and> inj_on (\<lambda>s. ss_key (fl_built f ! s)) ({..<sessions_built f} - fl_cancelled f)
    \<and> (\<lambda>s. ss_key (fl_built f ! s)) ` ({..<sessions_built f} - fl_cancelled f) \<subseteq> job_key ` ran js
    \<and> (\<forall>jb\<in>ran js. \<forall>k s. jb_pc jb = Waiting k s \<longrightarrow> s < sessions_built f
         \<and> ss_key (fl_built f ! s) = (pr_host (jb_peer jb), jb_author jb)
         \<and> (AGENT_HEADER, jb_author jb) \<in> set (ss_headers (fl_built f ! s)))"
proof -
  from fleet_ok_reachable[OF assms] have ok: "accounted f" "\<forall>jb\<in>ran js. speaks f jb"
    "dom (fl_slots f) \<subseteq> job_key ` ran js" by (simp_all add: fleet_ok_def)
  have live: "\<forall>s<sessions_built f. s \<notin> fl_cancelled f \<longrightarrow> fl_slots f (ss_key (fl_built f ! s)) = Some (Some s)"
    using ok(1) by (simp add: accounted_def sessions_built_def)
  then have "inj_on (\<lambda>s. ss_key (fl_built f ! s)) ({..<sessions_built f} - fl_cancelled f)"
    by (auto intro!: inj_onI) (metis option.inject)
  with live ok(2,3) show ?thesis
    by (auto simp: speaks_def session_of_def job_key_def sessions_built_def)
qed

section \<open>Calls come to an end\<close>

fun call_rank :: "call_pc \<Rightarrow> nat" where
  "call_rank (Checking_out k) = (if k = 0 then 6 else 3)"
| "call_rank (Waiting k s) = (if k = 0 then 5 else 2)"
| "call_rank Evicting = 4"
| "call_rank (Giving_up d) = 1"
| "call_rank (Returned r) = 0"

text \<open>A run with the labels of its steps.\<close>

inductive fleet_run :: "fleet_env \<Rightarrow> nat option list \<Rightarrow> fleet_world \<Rightarrow> fleet_world \<Rightarrow> bool" for fe where
  stops: "fleet_run fe [] w w"
| goes: "fleet_step fe l w w' \<Longrightarrow> fleet_run fe ls w' w'' \<Longrightarrow> fleet_run fe (l # ls) w w''"

lemma answered_rank: "answered so jb k f = (pc, f') \<Longrightarrow> call_rank pc < call_rank (Waiting k s)"
  by (cases so) (auto simp: answered_def Let_def split: if_splits)

lemma gave_up_rank: "gave_up fe now jb d f = (pc, f') \<Longrightarrow> call_rank pc = 0"
  by (auto simp: gave_up_def Let_def split: if_splits)

lemma checked_out_rank: "checked_out fe now co jb k f = (pc, f') \<Longrightarrow> call_rank pc < call_rank (Checking_out k)"
  by (auto simp: checked_out_def split: prod.splits sum.splits)

lemma call_step_rank:
  assumes "fleet_step fe (Some i) (f, js) (f', js')"
  shows "\<exists>jb pc. js i = Some jb \<and> js' = js(i \<mapsto> jb\<lparr>jb_pc := pc\<rparr>) \<and> call_rank pc < call_rank (jb_pc jb)"
  using assms
proof (cases rule: call_step_cases)
  case (checks_out jb k now co pc)
  then show ?thesis using checked_out_rank by fastforce
next
  case (hears jb k s so pc)
  then show ?thesis using answered_rank by fastforce
next
  case (evicts jb pc)
  then show ?thesis by (fastforce simp: evicted_def)
next
  case (gives_up jb d now pc)
  then show ?thesis using gave_up_rank by fastforce
qed

lemma step_rank:
  assumes "fleet_step fe l (f, js) (f', js')" "js i = Some jb"
  shows "\<exists>jb'. js' i = Some jb' \<and> (if l = Some i then Suc (call_rank (jb_pc jb')) \<le> call_rank (jb_pc jb) else jb' = jb)"
proof (cases l)
  case None
  from assms(1)[unfolded None] assms(2) show ?thesis
    unfolding None by (cases rule: env_step_cases) auto
next
  case (Some n)
  from call_step_rank[OF assms(1)[unfolded Some]] assms(2) show ?thesis
    unfolding Some by (cases "n = i") auto
qed

lemma fleet_run_rank:
  assumes "fleet_run fe ls w w'" "snd w i = Some jb"
  shows "\<exists>jb'. snd w' i = Some jb' \<and> length (filter (\<lambda>l. l = Some i) ls) + call_rank (jb_pc jb') \<le> call_rank (jb_pc jb)"
  using assms
proof (induction arbitrary: jb)
  case (goes l w w' ls w'')
  obtain f js f' js' where w: "w = (f, js)" "w' = (f', js')" by (cases w; cases w')
  from step_rank[OF goes(1)[unfolded w]] goes(4) w obtain j where
    j: "js' i = Some j" "if l = Some i then Suc (call_rank (jb_pc j)) \<le> call_rank (jb_pc jb) else j = jb" by auto
  from goes(3)[of j] j(1) w obtain j' where
    "snd w'' i = Some j'" "length (filter (\<lambda>l. l = Some i) ls) + call_rank (jb_pc j') \<le> call_rank (jb_pc j)" by auto
  with j(2) show ?case by (auto split: if_splits)
qed auto

lemma call_can_step:
  assumes "js i = Some jb" "\<forall>r. jb_pc jb \<noteq> Returned r"
  shows "\<exists>w. fleet_step fe (Some i) (f, js) w"
proof (cases "jb_pc jb")
  case (Checking_out k)
  obtain pc f' where "checked_out fe 0 Connect_timed_out jb k f = (pc, f')" by (rule prod.exhaust)
  from checks_out[where js=js and i=i, OF assms(1) Checking_out this] show ?thesis by blast
next
  case (Waiting k s)
  obtain pc f' where "answered Call_timed_out jb k f = (pc, f')" by (rule prod.exhaust)
  from hears[where js=js and i=i, OF assms(1) Waiting _ this] show ?thesis by blast
next
  case Evicting
  obtain pc f' where "evicted jb f = (pc, f')" by (rule prod.exhaust)
  from evicts[where js=js and i=i, OF assms(1) Evicting this] show ?thesis by blast
next
  case (Giving_up d)
  obtain pc f' where "gave_up fe 0 jb d f = (pc, f')" by (rule prod.exhaust)
  from gives_up[where js=js and i=i, OF assms(1) Giving_up this] show ?thesis by blast
qed (use assms in auto)

text \<open>C32: Every proxied call ends. Whatever the network and the other calls do, a call makes at most six
  steps of its own from its arrival, with at most one retry among them; it is never stuck before it has
  returned, since the time limits always leave it a step to make; so it returns a result or an error.\<close>
theorem calls_end:
  assumes "fleet_run fe ls (f, js) (f', js')" "js i = Some jb" "jb_pc jb = Checking_out 0"
  shows "\<exists>jb'. js' i = Some jb' \<and> length (filter (\<lambda>l. l = Some i) ls) \<le> 6
    \<and> (length (filter (\<lambda>l. l = Some i) ls) = 6 \<longrightarrow> (\<exists>r. jb_pc jb' = Returned r))
    \<and> ((\<forall>r. jb_pc jb' \<noteq> Returned r) \<longrightarrow> (\<exists>w. fleet_step fe (Some i) (f', js') w))"
proof -
  from fleet_run_rank[OF assms(1), of i jb] assms(2,3) obtain jb' where
    j: "js' i = Some jb'" "length (filter (\<lambda>l. l = Some i) ls) + call_rank (jb_pc jb') \<le> 6" by auto
  have "\<exists>r. jb_pc jb' = Returned r" if "call_rank (jb_pc jb') = 0"
    using that by (cases "jb_pc jb'") (auto split: if_splits)
  with j call_can_step[where js=js' and i=i, OF j(1)] show ?thesis by auto
qed

section \<open>Merging\<close>

definition dropped_by_merge :: "json \<Rightarrow> nat" where
  "dropped_by_merge j = (case json_get j ''merge_dropped'' of Some (JNum n) \<Rightarrow> nat n | _ \<Rightarrow> 0)"

definition tagged :: "search_fanout \<Rightarrow> json list" where
  "tagged part = (case sf_outcome part of Inr r \<Rightarrow> map (tag_match (sf_root part)) (matches_of r) | Inl _ \<Rightarrow> [])"

definition host_cut :: "search_fanout \<Rightarrow> bool" where
  "host_cut part \<longleftrightarrow> (case sf_outcome part of Inr r \<Rightarrow> json_get r ''truncated'' = Some (JBool True) | Inl _ \<Rightarrow> False)"

lemma report_entry_get:
  "k \<notin> set REPORTED_FIELDS \<Longrightarrow> map_of (report_entry part r) k =
     map_of [(''root'', JStr (sf_root part)), (''host'', JStr (sf_host part))] k"
proof -
  have "k \<notin> set ks \<Longrightarrow> map_of (fold (\<lambda>k e. case json_get r k of Some v \<Rightarrow> obj_insert k v e | None \<Rightarrow> e) ks m) k = map_of m k"
    for ks m by (induction ks arbitrary: m) (auto split: option.splits)
  then show "k \<notin> set REPORTED_FIELDS \<Longrightarrow> ?thesis" by (simp add: report_entry_def)
qed

lemma merge_part_step:
  assumes "length (mg_matches g) \<le> mx"
  shows "mg_matches (merge_part mx part g) = take mx (mg_matches g @ tagged part)"
    and "mg_truncated (merge_part mx part g) \<longleftrightarrow>
      mg_truncated g \<or> host_cut part \<or> mx < length (mg_matches g) + length (tagged part)"
    and "\<exists>e. mg_report (merge_part mx part g) = mg_report g @ [e] \<and> json_get e ''root'' = Some (JStr (sf_root part))
      \<and> dropped_by_merge e + length (mg_matches (merge_part mx part g)) = length (mg_matches g) + length (tagged part)"
proof -
  show "mg_matches (merge_part mx part g) = take mx (mg_matches g @ tagged part)"
    using assms by (cases "sf_outcome part") (auto simp: merge_part_def tagged_def Let_def take_map min_def)
  show "mg_truncated (merge_part mx part g) \<longleftrightarrow>
      mg_truncated g \<or> host_cut part \<or> mx < length (mg_matches g) + length (tagged part)"
    using assms by (cases "sf_outcome part") (auto simp: merge_part_def tagged_def host_cut_def Let_def min_def)
  show "\<exists>e. mg_report (merge_part mx part g) = mg_report g @ [e] \<and> json_get e ''root'' = Some (JStr (sf_root part))
      \<and> dropped_by_merge e + length (mg_matches (merge_part mx part g)) = length (mg_matches g) + length (tagged part)"
    using assms report_entry_get[of "''root''" part] report_entry_get[of "''merge_dropped''" part]
    by (cases "sf_outcome part") (auto simp: merge_part_def tagged_def Let_def min_def REPORTED_FIELDS_def dropped_by_merge_def)
qed

lemma take_take_append: "take n (take n xs @ ys) = take n (xs @ ys)"
  by (cases "n \<le> length xs") auto

lemma merge_parts:
  assumes "length (mg_matches g) \<le> mx"
  defines "g' \<equiv> \<lambda>parts. fold (merge_part mx) parts g"
  shows "mg_matches (g' parts) = take mx (mg_matches g @ concat (map tagged parts))
    \<and> (mg_truncated (g' parts) \<longleftrightarrow> mg_truncated g \<or> (\<exists>p\<in>set parts. host_cut p)
         \<or> mx < length (mg_matches g) + length (concat (map tagged parts)))
    \<and> map (\<lambda>e. json_get e ''root'') (mg_report (g' parts)) =
         map (\<lambda>e. json_get e ''root'') (mg_report g) @ map (\<lambda>p. Some (JStr (sf_root p))) parts
    \<and> sum_list (map dropped_by_merge (mg_report (g' parts))) + length (mg_matches (g' parts)) =
         sum_list (map dropped_by_merge (mg_report g)) + length (mg_matches g) + length (concat (map tagged parts))"
  using assms(1) unfolding g'_def
proof (induction parts arbitrary: g)
  case (Cons part parts)
  note s = merge_part_step[OF Cons.prems, of part]
  obtain e where e: "mg_report (merge_part mx part g) = mg_report g @ [e]" "json_get e ''root'' = Some (JStr (sf_root part))"
    "dropped_by_merge e + length (mg_matches (merge_part mx part g)) = length (mg_matches g) + length (tagged part)"
    using s(3) by (elim exE conjE)
  have "length (mg_matches (merge_part mx part g)) \<le> mx" by (simp add: s(1))
  note ih = Cons.IH[OF this, THEN conjunct1] Cons.IH[OF this, THEN conjunct2, THEN conjunct1]
    Cons.IH[OF this, THEN conjunct2, THEN conjunct2, THEN conjunct1]
    Cons.IH[OF this, THEN conjunct2, THEN conjunct2, THEN conjunct2]
  let ?A = "mg_matches g @ tagged part" and ?B = "concat (map tagged parts)"
  have tk: "take mx (take mx ?A @ ?B) = take mx (?A @ ?B)" by (rule take_take_append)
  have tr: "mx < length ?A \<or> mx < length (take mx ?A) + length ?B \<longleftrightarrow> mx < length ?A + length ?B"
    by (cases "mx < length ?A") auto
  have c: "mg_matches g @ concat (map tagged (part # parts)) = ?A @ ?B"
    "length (concat (map tagged (part # parts))) = length (tagged part) + length ?B" by simp_all
  show ?case
  proof (intro conjI)
    show "mg_matches (fold (merge_part mx) (part # parts) g) = take mx (mg_matches g @ concat (map tagged (part # parts)))"
      unfolding c(1) using ih(1) s(1) tk by simp
    have "mg_truncated (fold (merge_part mx) (part # parts) g) \<longleftrightarrow> mg_truncated g
        \<or> (\<exists>p\<in>set (part # parts). host_cut p) \<or> mx < length ?A + length ?B"
      using ih(2) s(1,2) tr by (simp del: length_take length_append) auto
    then show "mg_truncated (fold (merge_part mx) (part # parts) g) \<longleftrightarrow> mg_truncated g
        \<or> (\<exists>p\<in>set (part # parts). host_cut p) \<or> mx < length (mg_matches g) + length (concat (map tagged (part # parts)))"
      by (simp only: c(2) length_append add.assoc)
    show "map (\<lambda>e. json_get e ''root'') (mg_report (fold (merge_part mx) (part # parts) g)) =
        map (\<lambda>e. json_get e ''root'') (mg_report g) @ map (\<lambda>p. Some (JStr (sf_root p))) (part # parts)"
      using ih(3) e(1,2) by simp
    have "sum_list (map dropped_by_merge (mg_report (fold (merge_part mx) (part # parts) g)))
        + length (mg_matches (fold (merge_part mx) (part # parts) g)) =
        sum_list (map dropped_by_merge (mg_report g)) + (dropped_by_merge e + length (mg_matches (merge_part mx part g)))
        + length ?B"
      using ih(4) e(1) by simp
    then show "sum_list (map dropped_by_merge (mg_report (fold (merge_part mx) (part # parts) g)))
        + length (mg_matches (fold (merge_part mx) (part # parts) g)) =
        sum_list (map dropped_by_merge (mg_report g)) + length (mg_matches g) + length (concat (map tagged (part # parts)))"
      unfolding c(2) e(3) by simp
  qed
qed auto

text \<open>C33: A fleet search answers under one budget and accounts for what it leaves out. The merged matches
  are the first max_results of all the roots' matches, in the order of the roots, each tagged with its
  root; there is one report per root, in that order; what the reports say the merge dropped adds up
  exactly to the matches that are missing; and the answer is marked truncated exactly when the merge
  dropped something or some host says its own answer was.\<close>
theorem merge_accounts:
  "\<exists>m ms reports. merge_search pattern fanout hosts_unavailable max_results known_roots = JObj m
    \<and> map_of m ''matches'' = Some (JArr ms) \<and> map_of m ''fanout'' = Some (JArr reports)
    \<and> ms = take max_results (concat (map tagged fanout))
    \<and> map (\<lambda>e. json_get e ''root'') reports = map (\<lambda>p. Some (JStr (sf_root p))) fanout
    \<and> sum_list (map dropped_by_merge reports) + length ms = length (concat (map tagged fanout))
    \<and> map_of m ''truncated'' = Some (JBool (0 < sum_list (map dropped_by_merge reports) \<or> (\<exists>p\<in>set fanout. host_cut p)))"
proof -
  let ?g = "fold (merge_part max_results) fanout \<lparr>mg_matches = [], mg_report = [], mg_files = 0, mg_truncated = False\<rparr>"
  let ?s = "\<lparr>mg_matches = [], mg_report = [], mg_files = 0, mg_truncated = False\<rparr>"
  have le: "length (mg_matches ?s) \<le> max_results" by simp
  note q = merge_parts[OF le, of fanout]
  have g: "mg_matches ?g = take max_results (concat (map tagged fanout))"
    "mg_truncated ?g \<longleftrightarrow> (\<exists>p\<in>set fanout. host_cut p) \<or> max_results < length (concat (map tagged fanout))"
    "map (\<lambda>e. json_get e ''root'') (mg_report ?g) = map (\<lambda>p. Some (JStr (sf_root p))) fanout"
    using q[THEN conjunct1] q[THEN conjunct2, THEN conjunct1] q[THEN conjunct2, THEN conjunct2, THEN conjunct1] by simp_all
  have g4: "sum_list (map dropped_by_merge (mg_report ?g)) + length (mg_matches ?g) = length (concat (map tagged fanout))"
    using q[THEN conjunct2, THEN conjunct2, THEN conjunct2] by simp
  note g = g g4
  have "0 < sum_list (map dropped_by_merge (mg_report ?g)) \<longleftrightarrow> max_results < length (concat (map tagged fanout))"
    using g(1,4) by (auto simp: min_def split: if_splits)
  with g(2) have t: "mg_truncated ?g \<longleftrightarrow> 0 < sum_list (map dropped_by_merge (mg_report ?g)) \<or> (\<exists>p\<in>set fanout. host_cut p)"
    by blast
  have "\<exists>m. merge_search pattern fanout hosts_unavailable max_results known_roots = JObj m
      \<and> map_of m ''matches'' = Some (JArr (mg_matches ?g)) \<and> map_of m ''fanout'' = Some (JArr (mg_report ?g))
      \<and> map_of m ''truncated'' = Some (JBool (mg_truncated ?g))"
    by (simp add: merge_search_def Let_def)
  then obtain m where m: "merge_search pattern fanout hosts_unavailable max_results known_roots = JObj m"
    "map_of m ''matches'' = Some (JArr (mg_matches ?g))" "map_of m ''fanout'' = Some (JArr (mg_report ?g))"
    "map_of m ''truncated'' = Some (JBool (mg_truncated ?g))" by (elim exE conjE)
  show ?thesis
    by (rule exI[of _ m], rule exI[of _ "mg_matches ?g"], rule exI[of _ "mg_report ?g"])
      (intro conjI m(1-3) g(1,3,4) m(4)[unfolded t])
qed

section \<open>A concrete fleet\<close>

definition demo_fe :: fleet_env where
  "demo_fe = \<lparr>fe_glob = (\<lambda>g. Inr (\<lambda>h. True)), fe_header_ok = (\<lambda>v. True), fe_http_client = Inr (), fe_rfc3339 = (\<lambda>t. [])\<rparr>"

definition demo_peer :: peer where
  "demo_peer = \<lparr>pr_host = ''k'', pr_status = Active, pr_reference = None, pr_note = None, pr_since = None, pr_url = Some ''u''\<rparr>"

definition demo_job :: "call_pc \<Rightarrow> job" where
  "demo_job pc = \<lparr>jb_peer = demo_peer, jb_author = ''me'', jb_tool = ''read'', jb_root = None, jb_pc = pc\<rparr>"

definition demo_session :: session where
  "demo_session = \<lparr>ss_key = (''k'', ''me''), ss_url = ''u'', ss_headers = [(AGENT_HEADER, ''me''), (HOP_HEADER, ''h'')]\<rparr>"

text \<open>The fleet after \<open>n\<close> sessions were built, with what the pool holds, what was ended and what died.\<close>

definition demo_fleet :: "nat option option \<Rightarrow> nat \<Rightarrow> nat set \<Rightarrow> nat set \<Rightarrow> fleet" where
  "demo_fleet slot n cancelled dead =
     \<lparr>fl_this_host = ''h'', fl_declared = Some [demo_peer],
      fl_slots = (case slot of None \<Rightarrow> Map.empty | Some x \<Rightarrow> Map.empty((''k'', ''me'') \<mapsto> x)),
      fl_sight = (if n = 0 then Map.empty else Map.empty(''k'' \<mapsto> unseen)),
      fl_built = replicate n demo_session, fl_cancelled = cancelled, fl_closed = dead\<rparr>"

abbreviation "demo_reach \<equiv> fleet_reachable demo_fe ''h'' (Some [demo_peer])"

lemma demo_reach_step: "demo_reach w \<Longrightarrow> fleet_step demo_fe l w w' \<Longrightarrow> demo_reach w'"
  unfolding fleet_reachable_def by (rule rtranclp.rtrancl_into_rtrancl) auto

lemma demo_job_simps [simp]:
  "jb_peer (demo_job pc) = demo_peer" "jb_author (demo_job pc) = ''me''" "jb_pc (demo_job pc) = pc"
  "(demo_job pc)\<lparr>jb_pc := pc'\<rparr> = demo_job pc'" "pr_host demo_peer = ''k''" "pr_url demo_peer = Some ''u''"
  by (simp_all add: demo_job_def demo_peer_def)

lemma demo_connects:
  assumes "slot = None \<or> slot = Some None"
  shows "checked_out demo_fe 0 (Connected None) (demo_job pc) k (demo_fleet slot n c d)
    = (Waiting k n, demo_fleet (Some (Some n)) (Suc n) c d)"
proof -
  have "checkout demo_fe 0 (Connected None) demo_peer ''me'' (demo_fleet slot n c d)
      = connect demo_fe 0 (Connected None) demo_peer ''me'' (demo_fleet (Some None) n c d)"
    using assms by (auto simp: checkout_def demo_fleet_def set_slot_def Let_def)
  moreover have "connect demo_fe 0 (Connected None) demo_peer ''me'' (demo_fleet (Some None) n c d)
      = (Inr n, demo_fleet (Some (Some n)) (Suc n) c d)"
    by (simp add: connect_def demo_fleet_def demo_fe_def session_headers_def record_version_def mark_up_def set_sight_def
        sight_of_def set_slot_def demo_session_def unseen_def Let_def replicate_append_same[symmetric])
  ultimately show ?thesis by (simp add: checked_out_def)
qed

lemma demo_starts: "demo_reach (demo_fleet None 0 {} {}, [0 \<mapsto> demo_job (Checking_out 0), 1 \<mapsto> demo_job (Checking_out 0)])"
proof -
  have r: "routable (demo_fleet None 0 {} {}) ''k'' = Some demo_peer"
    by (simp add: routable_def find_peer_def demo_fleet_def) (simp add: demo_peer_def)
  have "demo_reach (demo_fleet None 0 {} {}, Map.empty)"
    by (simp add: fleet_reachable_def fleet_new_def demo_fleet_def)
  from demo_reach_step[OF this comes_in[of _ 0 _ demo_peer "demo_job (Checking_out 0)"]] r
  have "demo_reach (demo_fleet None 0 {} {}, [0 \<mapsto> demo_job (Checking_out 0)])" by simp
  from demo_reach_step[OF this comes_in[of _ 1 _ demo_peer "demo_job (Checking_out 0)"]] r
  show ?thesis by simp
qed

lemma demo_shares:
  "demo_reach (demo_fleet (Some (Some 0)) 1 {} {}, [0 \<mapsto> demo_job (Waiting 0 0), 1 \<mapsto> demo_job (Waiting 0 0)])"
proof -
  have "demo_reach (demo_fleet (Some (Some 0)) 1 {} {}, [0 \<mapsto> demo_job (Waiting 0 0), 1 \<mapsto> demo_job (Checking_out 0)])"
    using demo_reach_step[OF demo_starts checks_out[where i=0, OF _ _ demo_connects]] by (simp add: fun_upd_twist)
  moreover have "checked_out demo_fe 0 (Connected None) (demo_job pc) 0 (demo_fleet (Some (Some 0)) 1 {} {})
      = (Waiting 0 0, demo_fleet (Some (Some 0)) 1 {} {})" for pc
    by (simp add: checked_out_def checkout_def is_closed_def demo_fleet_def Let_def)
  ultimately show ?thesis
    using demo_reach_step[OF _ checks_out[where i=1]] by fastforce
qed

theorem fleet_sessions_witness:
  "\<exists>f js. demo_reach (f, js) \<and> sessions_built f = 1 \<and> fl_slots f (ss_key (fl_built f ! 0)) = Some (Some 0)"
proof -
  note s = fleet_sessions[OF demo_shares, THEN conjunct1]
  have b: "sessions_built (demo_fleet (Some (Some 0)) 1 {} {}) = 1" by (simp add: sessions_built_def demo_fleet_def)
  have "0 \<notin> fl_cancelled (demo_fleet (Some (Some 0)) 1 {} {})" by (simp add: demo_fleet_def)
  with s b demo_shares show ?thesis by (metis less_one)
qed

theorem calls_end_witness:
  "\<exists>jb'. ([0 \<mapsto> demo_job (Waiting 0 0)] :: nat \<rightharpoonup> job) 0 = Some jb' \<and> length (filter (\<lambda>l. l = Some 0) [Some (0::nat)]) \<le> 6"
proof -
  have "fleet_step demo_fe (Some 0) (demo_fleet None 0 {} {}, [0 \<mapsto> demo_job (Checking_out 0)])
      (demo_fleet (Some (Some 0)) 1 {} {}, [0 \<mapsto> demo_job (Waiting 0 0)])"
    using checks_out[where i=0 and js="[0 \<mapsto> demo_job (Checking_out 0)]", OF _ _ demo_connects[of None]] by simp
  from calls_end[OF goes[OF this stops], of 0] show ?thesis by auto
qed

theorem merge_accounts_witness:
  "\<exists>m ms. merge_search ''*'' [] [] 0 [] = JObj m \<and> map_of m ''matches'' = Some (JArr ms) \<and> ms = []"
  using merge_accounts[of "''*''" "[]" "[]" 0 "[]"] by auto

section \<open>A race of evictions\<close>

text \<open>
  Two calls wait on one session when its transport dies. The first evicts it and builds another; the
  eviction of the second then ends that one, although its transport is alive and the first call is
  already waiting on it.
\<close>

definition evicts_healthy :: "fleet \<Rightarrow> fleet \<Rightarrow> (nat \<rightharpoonup> job) \<Rightarrow> bool" where
  "evicts_healthy f f' js' \<longleftrightarrow>
     (\<exists>s. \<not> is_closed f s \<and> is_closed f' s \<and> (\<exists>jb\<in>ran js'. jb_pc jb = Waiting 1 s))"

lemma demo_dies:
  "demo_reach (demo_fleet (Some (Some 0)) 1 {} {0}, [0 \<mapsto> demo_job (Waiting 0 0), 1 \<mapsto> demo_job (Waiting 0 0)])"
proof -
  have "0 < length (fl_built (demo_fleet (Some (Some 0)) 1 {} {}))" by (simp add: demo_fleet_def)
  from demo_reach_step[OF demo_shares transport_dies[OF this]] show ?thesis by (simp add: demo_fleet_def)
qed

lemma demo_hears:
  assumes "0 \<in> d"
  shows "js i = Some (demo_job (Waiting 0 0)) \<Longrightarrow>
    fleet_step demo_fe (Some i) (demo_fleet x n c d, js) (demo_fleet x n c d, js(i \<mapsto> demo_job Evicting))"
  using hears[of js i "demo_job (Waiting 0 0)" 0 0 "Transport_down []" "demo_fleet x n c d" Evicting "demo_fleet x n c d" demo_fe]
    assms by (auto simp: answered_def is_closed_def demo_fleet_def)

lemma demo_evicts:
  "js i = Some (demo_job Evicting) \<Longrightarrow>
    fleet_step demo_fe (Some i) (demo_fleet (Some (Some s)) n c d, js)
      (demo_fleet (Some None) n (insert s c) d, js(i \<mapsto> demo_job (Checking_out 1)))"
  using evicts[of js i "demo_job Evicting" "demo_fleet (Some (Some s)) n c d" "Checking_out 1"
      "demo_fleet (Some None) n (insert s c) d" demo_fe]
  by (auto simp: evicted_def drop_session_def cancel_def set_slot_def demo_fleet_def)

lemma eviction_race:
  "\<exists>f js f' js'. demo_reach (f, js) \<and> fleet_step demo_fe (Some 1) (f, js) (f', js') \<and> evicts_healthy f f' js'"
proof -
  let ?w = "demo_job (Waiting 0 0)" and ?e = "demo_job Evicting"
  have "demo_reach (demo_fleet (Some (Some 0)) 1 {} {0}, [0 \<mapsto> ?e, 1 \<mapsto> ?e])"
    using demo_reach_step[OF demo_reach_step[OF demo_dies demo_hears[of _ _ 0]] demo_hears[of _ _ 1]]
    by (simp add: fun_upd_twist)
  from demo_reach_step[OF this demo_evicts[of _ 0]]
  have "demo_reach (demo_fleet (Some None) 1 {0} {0}, [0 \<mapsto> demo_job (Checking_out 1), 1 \<mapsto> ?e])"
    by (simp add: fun_upd_twist)
  from demo_reach_step[OF this checks_out[where i=0, OF _ _ demo_connects]]
  have r: "demo_reach (demo_fleet (Some (Some 1)) 2 {0} {0}, [0 \<mapsto> demo_job (Waiting 1 1), 1 \<mapsto> ?e])"
    by (simp add: fun_upd_twist numeral_2_eq_2)
  have s: "fleet_step demo_fe (Some 1) (demo_fleet (Some (Some 1)) 2 {0} {0}, [0 \<mapsto> demo_job (Waiting 1 1), 1 \<mapsto> ?e])
      (demo_fleet (Some None) 2 {1, 0} {0}, [0 \<mapsto> demo_job (Waiting 1 1), 1 \<mapsto> demo_job (Checking_out 1)])"
    using demo_evicts[of "[0 \<mapsto> demo_job (Waiting 1 1), 1 \<mapsto> ?e]" 1 1 2 "{0}" "{0}"] by simp
  have "evicts_healthy (demo_fleet (Some (Some 1)) 2 {0} {0}) (demo_fleet (Some None) 2 {1, 0} {0})
      [0 \<mapsto> demo_job (Waiting 1 1), 1 \<mapsto> demo_job (Checking_out 1)]"
    unfolding evicts_healthy_def by (intro exI[of _ 1]) (auto simp: is_closed_def demo_fleet_def ran_def)
  with r s show ?thesis by blast
qed

end
