(* ===== verification/Kaed_Config.thy ===== *)
theory Kaed_Config
  imports Kaed_Secret_Tool Kaed_Fleet Kaed_Ordmap
begin

text \<open>
  \<open>src/config.rs\<close>: from the text of the configuration file to the validated runtime view. The TOML
  deserializer, the glob compiler and the environment of the process are parameters; the tables of the
  file are records, a \<open>BTreeMap\<close> is its sorted association list. A failure of the start-up is a
  message.
\<close>

section \<open>The configuration as data\<close>

record peer_config =
  pc_status :: peer_status
  pc_reference :: "rstr option"
  pc_note :: "rstr option"
  pc_since :: "rstr option"
  pc_url :: "rstr option"

record root_config =
  rg_name :: rstr
  rg_path :: rstr
  rg_description :: "rstr option"

record server_config =
  sv_bind :: rstr
  sv_allowed_hosts :: "rstr list"
  sv_host :: "rstr option"

record journal_config =
  jc_path :: "rstr option"
  jc_retention_days :: nat

record security_config =
  sy_deny :: "rstr list"
  sy_use_default_deny :: bool
  sy_classify :: "rstr list"
  sy_use_default_classify :: bool

record secrets_config =
  sk_shapes :: "(rstr \<times> rstr) list"
  sk_allow_reveal :: bool
  sk_leak_checks :: leak_checks

record whois_config =
  wc_enabled :: bool
  wc_enforce :: bool
  wc_ttl_secs :: nat
  wc_binary :: rstr

record config =
  cf_server :: server_config
  cf_roots :: "root_config list"
  cf_auth :: "(rstr \<times> rstr list) list"
  cf_limits :: limits
  cf_journal :: journal_config
  cf_security :: security_config
  cf_secrets :: secrets_config
  cf_whois :: whois_config
  cf_peers :: "(rstr \<times> peer_config) list option"

definition default_whois :: whois_config where
  "default_whois = \<lparr>wc_enabled = True, wc_enforce = False, wc_ttl_secs = 300, wc_binary = ''tailscale''\<rparr>"

definition default_secrets :: secrets_config where
  "default_secrets = \<lparr>sk_shapes = [], sk_allow_reveal = True, sk_leak_checks = LcRefuse\<rparr>"

definition default_security :: security_config where
  "default_security =
     \<lparr>sy_deny = [], sy_use_default_deny = True, sy_classify = [], sy_use_default_classify = True\<rparr>"

definition default_server :: server_config where
  "default_server = \<lparr>sv_bind = ''127.0.0.1:4870'', sv_allowed_hosts = [], sv_host = None\<rparr>"

definition default_journal :: journal_config where
  "default_journal = \<lparr>jc_path = None, jc_retention_days = 7\<rparr>"

text \<open>The identity allow-list, and the runtime view.\<close>

record identity =
  id_author :: rstr
  id_nodes :: "rstr list"

record resolved =
  rs_bind :: rstr
  rs_allowed_hosts :: "rstr list"
  rs_host :: rstr
  rs_roots :: "rroot list"
  rs_peers :: "peer list option"
  rs_identities :: "identity list"
  rs_limits :: limits
  rs_journal_path :: rstr
  rs_retention_days :: nat
  rs_deny :: deny_list
  rs_classify :: "rstr list"
  rs_auth :: "(rstr \<times> rstr list) list"
  rs_secrets :: resolved_secrets
  rs_leak_checks :: leak_checks
  rs_whois :: whois_config

section \<open>Retired fields\<close>

function remove_all :: "rstr \<Rightarrow> rstr \<Rightarrow> rstr" where
  "remove_all p s =
     (if p = [] then s
      else (case find_sub p s of
              None \<Rightarrow> s
            | Some i \<Rightarrow> take i s @ remove_all p (drop (i + length p) s)))"
  by pat_completeness auto
termination
  by (relation "measure (\<lambda>(p, s). length s)") (auto dest!: find_sub_Some intro: diff_less)

declare remove_all.simps [simp del]

definition RETIRED :: "rstr list" where
  "RETIRED = [''prev_token_file'', ''token_file'', ''token_env'']"

definition retire_field :: "rstr \<Rightarrow> rstr \<times> rstr list \<Rightarrow> rstr \<times> rstr list" where
  "retire_field field = (\<lambda>(code, found).
     if contains_sub field code
     then (remove_all field code, if field \<in> set found then found else found @ [field])
     else (code, found))"

definition retired_line :: "rstr \<Rightarrow> rstr list \<Rightarrow> rstr list" where
  "retired_line line found = snd (fold retire_field RETIRED (hd (split_on (CHR ''#'') line), found))"

definition retired_fields :: "rstr \<Rightarrow> rstr list option" where
  "retired_fields content =
     (let found = sort (fold retired_line (str_lines content) []) in if found = [] then None else Some found)"

section \<open>Names and directories\<close>

text \<open>The process: its environment variables, its directory, the host name file, and the crates.\<close>

record config_env =
  ce_var :: "rstr \<Rightarrow> rstr option"
  ce_cwd :: path
  ce_etc_hostname :: "rstr option"
  ce_toml :: "rstr \<Rightarrow> rstr + config"
  ce_glob_ok :: "rstr \<Rightarrow> bool"
  ce_globset_ok :: "rstr list \<Rightarrow> bool"
  ce_globs :: globs

definition short_name :: "rstr \<Rightarrow> rstr option" where
  "short_name raw =
     (let short = trim (hd (split_on (CHR ''.'') (trim raw))) in if short = [] then None else Some short)"

definition system_host :: "config_env \<Rightarrow> rstr option" where
  "system_host ce =
     (case List.map_filter short_name
             ((case ce_etc_hostname ce of Some t \<Rightarrow> [t] | None \<Rightarrow> [])
              @ (case ce_var ce ''HOSTNAME'' of Some t \<Rightarrow> [t] | None \<Rightarrow> [])) of
        [] \<Rightarrow> None
      | h # _ \<Rightarrow> Some h)"

definition check_host_name :: "rstr \<Rightarrow> rstr \<Rightarrow> msg + unit" where
  "check_host_name what name =
     (if name = [] \<or> CHR '':'' \<in> set name \<or> CHR ''/'' \<in> set name
      then Inl (Msg ''must be non-empty and free of the separators'' [what, name])
      else Inr ())"

text \<open>
  \<open>PathBuf::join\<close> on texts: an absolute right side replaces the left. \<open>$HOME\<close> must be set,
  the process panics without it; that is an error here.
\<close>

definition join_path :: "rstr \<Rightarrow> rstr \<Rightarrow> rstr" where
  "join_path base rel =
     (if is_absolute rel then rel
      else if base = [] \<or> last base = CHR ''/'' then base @ rel
      else base @ ''/'' @ rel)"

definition home :: "config_env \<Rightarrow> msg + rstr" where
  "home ce = ok_or (ce_var ce ''HOME'') (Msg ''HOME is set'' [])"

definition base_dir :: "config_env \<Rightarrow> rstr \<Rightarrow> rstr \<Rightarrow> msg + rstr" where
  "base_dir ce xdg_var home_fallback =
     (case ce_var ce xdg_var of
        Some dir \<Rightarrow> if dir \<noteq> [] then Inr dir else map_sum id (\<lambda>h. join_path h home_fallback) (home ce)
      | None \<Rightarrow> map_sum id (\<lambda>h. join_path h home_fallback) (home ce))"

definition expand_home :: "config_env \<Rightarrow> rstr \<Rightarrow> msg + rstr" where
  "expand_home ce p =
     (case strip_prefix ''~/'' p of
        Some rest \<Rightarrow> map_sum id (\<lambda>h. join_path h rest) (home ce)
      | None \<Rightarrow> Inr p)"

definition default_path :: "config_env \<Rightarrow> msg + rstr" where
  "default_path ce = map_sum id (\<lambda>d. join_path d ''kaed/config.toml'') (base_dir ce ''XDG_CONFIG_HOME'' ''.config'')"

text \<open>\<open>Path::parent\<close> and a path as the prefix \<open>starts_with\<close> compares: an absolute path is its
  components; a relative one, which begins no absolute path unless it is empty, is kept apart by a
  leading dot, a name no component has.\<close>

definition comp_name :: "component \<Rightarrow> rstr" where
  "comp_name c = (case c of RootDir \<Rightarrow> ''/'' | CurDir \<Rightarrow> ''.'' | ParentDir \<Rightarrow> ''..'' | Normal n \<Rightarrow> n)"

definition parent_comps :: "component list \<Rightarrow> component list option" where
  "parent_comps cs = (if cs = [] \<or> last cs = RootDir then None else Some (butlast cs))"

definition lexical :: "component list \<Rightarrow> path" where
  "lexical cs =
     (case cs of
        [] \<Rightarrow> []
      | RootDir # rest \<Rightarrow> map comp_name rest
      | _ \<Rightarrow> ''.'' # map comp_name cs)"

definition canonicalize_text :: "config_env \<Rightarrow> fsys \<Rightarrow> rstr \<Rightarrow> io_error + path" where
  "canonicalize_text ce fs t =
     (if t = [] then Inl io_not_found
      else if CHR 0x00 \<in> set t then Inl (io_other ''file name contained an unexpected NUL byte'')
      else canon fs MAX_SYMLINKS (ce_cwd ce) (components t))"

section \<open>Loading\<close>

definition read_to_string :: "config_env \<Rightarrow> fsys \<Rightarrow> rstr \<Rightarrow> rstr option" where
  "read_to_string ce fs t =
     (case canonicalize_text ce fs t of
        Inl _ \<Rightarrow> None
      | Inr p \<Rightarrow>
          (case node_at fs p of
             Some (FileN bytes mode) \<Rightarrow> if fs_read fs p \<and> valid_utf8 bytes then Some bytes else None
           | _ \<Rightarrow> None))"

definition load_config :: "config_env \<Rightarrow> fsys \<Rightarrow> rstr \<Rightarrow> msg + config" where
  "load_config ce fs t =
     (case read_to_string ce fs t of
        None \<Rightarrow> Inl (Msg ''reading config'' [t])
      | Some content \<Rightarrow>
          (case retired_fields content of
             Some found \<Rightarrow> Inl (Msg ''still carries retired credential fields'' [t, join_with '', '' found])
           | None \<Rightarrow> map_err (\<lambda>e. Msg ''parsing config'' [t, e]) (ce_toml ce content)))"

section \<open>Validation\<close>

text \<open>\<open>DenyList::new\<close>, and the classifier, which has no built-ins: every glob compiles, then the set builds.\<close>

definition globs_build :: "config_env \<Rightarrow> rstr list \<Rightarrow> rstr + unit" where
  "globs_build ce gs =
     (case find (\<lambda>g. \<not> ce_glob_ok ce g) gs of
        Some g \<Rightarrow> Inl g
      | None \<Rightarrow> if ce_globset_ok ce gs then Inr () else Inl ''glob set'')"

definition deny_list_new :: "config_env \<Rightarrow> (path \<times> rstr) list \<Rightarrow> rstr list \<Rightarrow> rstr + deny_list" where
  "deny_list_new ce builtin gs = map_sum id (\<lambda>_. \<lparr>dn_builtin = builtin, dn_patterns = gs\<rparr>) (globs_build ce gs)"

definition classifier_new :: "config_env \<Rightarrow> rstr list \<Rightarrow> rstr + rstr list" where
  "classifier_new ce gs = map_sum id (\<lambda>_. gs) (globs_build ce gs)"

definition journal_path :: "config_env \<Rightarrow> journal_config \<Rightarrow> msg + rstr" where
  "journal_path ce jc =
     (case jc_path jc of
        Some p \<Rightarrow> expand_home ce p
      | None \<Rightarrow> map_sum id (\<lambda>d. join_path d ''kaed/journal.db'') (base_dir ce ''XDG_DATA_HOME'' ''.local/share''))"

definition builtin_dirs :: "rstr \<Rightarrow> rstr \<Rightarrow> (path \<times> rstr) list" where
  "builtin_dirs config_path journal =
     (lexical (case parent_comps (components config_path) of Some cs \<Rightarrow> cs | None \<Rightarrow> [RootDir]),
      ''kaed's own config directory'')
     # (case parent_comps (components journal) of
          Some cs \<Rightarrow> [(lexical cs, ''kaed's journal directory'')]
        | None \<Rightarrow> [])"

definition qualify :: "rstr \<Rightarrow> rstr \<Rightarrow> rstr" where
  "qualify host local_name = host @ '':'' @ local_name"

definition resolve_root ::
  "config_env \<Rightarrow> fsys \<Rightarrow> rstr \<Rightarrow> deny_list \<Rightarrow> rstr list \<Rightarrow> leak_checks \<Rightarrow> root_config \<Rightarrow> rroot list \<Rightarrow> msg + rroot list" where
  "resolve_root ce fs host dl cl leaks r rs =
     (let name = qualify host (rg_name r) in
      if rg_name r = [] \<or> CHR ''/'' \<in> set (rg_name r) \<or> CHR '':'' \<in> set (rg_name r)
      then Inl (Msg ''root name must be non-empty and free of the separators'' [rg_name r])
      else if \<exists>x\<in>set rs. rr_name x = name then Inl (Msg ''duplicate root name'' [rg_name r])
      else and_then (expand_home ce (rg_path r)) (\<lambda>expanded.
        case canonicalize_text ce fs expanded of
          Inl e \<Rightarrow> Inl (Msg ''canonicalizing'' [rg_name r, expanded, io_text e])
        | Inr canonical \<Rightarrow>
            if \<not> is_dir fs canonical then Inl (Msg ''is not a directory'' [rg_name r, path_str canonical])
            else (case denied_by (ce_globs ce) dl canonical of
                    Some rule \<Rightarrow> Inl (Msg ''is refused by the deny list'' [rg_name r, path_str canonical, rule])
                  | None \<Rightarrow>
                      Inr (rs @ [\<lparr>rr_name = name, rr_local = rg_name r, rr_host = host, rr_path = canonical,
                                  rr_description = rg_description r, rr_deny = dl, rr_classify = cl,
                                  rr_leak_checks = leaks\<rparr>]))))"

definition resolve_identities :: "(rstr \<times> rstr list) list \<Rightarrow> identity list" where
  "resolve_identities auth = map (\<lambda>(author, nodes). \<lparr>id_author = author, id_nodes = nodes\<rparr>) auth"

definition resolve_peer :: "rstr \<Rightarrow> rstr \<times> peer_config \<Rightarrow> peer list \<Rightarrow> msg + peer list" where
  "resolve_peer host = (\<lambda>(name, p) ps.
     and_then (check_host_name ''peer name'' name) (\<lambda>_.
       if name = host then Inl (Msg ''peer is this host'' [name])
       else if pc_status p = Deferred \<and> pc_reference p = None then Inl (Msg ''status deferred needs ref'' [name])
       else if pc_status p = Unreachable \<and> pc_since p = None
       then Inl (Msg ''status unreachable needs since'' [name])
       else Inr (ps @ [\<lparr>pr_host = name, pr_status = pc_status p, pr_reference = pc_reference p,
                        pr_note = pc_note p, pr_since = pc_since p, pr_url = pc_url p\<rparr>])))"

definition resolve_peers :: "config \<Rightarrow> rstr \<Rightarrow> msg + peer list option" where
  "resolve_peers cfg host =
     (case cf_peers cfg of
        None \<Rightarrow> Inr None
      | Some table \<Rightarrow> map_sum id Some (fold_res (resolve_peer host) table []))"

definition resolve_named_shape :: "rstr \<times> rstr \<Rightarrow> (rstr \<times> shape) list \<Rightarrow> msg + (rstr \<times> shape) list" where
  "resolve_named_shape = (\<lambda>(name, spec) shapes.
     case parse_spec spec of
       Inl e \<Rightarrow> Inl (Msg ''[secrets] shapes'' (name # args (message e)))
     | Inr sh \<Rightarrow> Inr (om_insert name sh shapes))"

definition deny_globs :: "security_config \<Rightarrow> rstr list" where
  "deny_globs s = sy_deny s @ (if sy_use_default_deny s then DEFAULT_DENY else [])"

definition classify_globs :: "security_config \<Rightarrow> rstr list" where
  "classify_globs s = sy_classify s @ (if sy_use_default_classify s then DEFAULT_CLASSIFY else [])"

definition host_name :: "config_env \<Rightarrow> server_config \<Rightarrow> rstr" where
  "host_name ce s =
     (case sv_host s of
        Some h \<Rightarrow> trim h
      | None \<Rightarrow> (case system_host ce of Some h \<Rightarrow> h | None \<Rightarrow> []))"

definition resolve :: "config_env \<Rightarrow> fsys \<Rightarrow> config \<Rightarrow> rstr option \<Rightarrow> msg + resolved" where
  "resolve ce fs cfg config_path =
     (and_then (journal_path ce (cf_journal cfg)) (\<lambda>jp.
      and_then (default_path ce) (\<lambda>dp.
      let cp = (case config_path of Some t \<Rightarrow> t | None \<Rightarrow> dp) in
      and_then (map_err (\<lambda>g. Msg ''building the security deny list'' [g])
                  (deny_list_new ce (builtin_dirs cp jp) (deny_globs (cf_security cfg)))) (\<lambda>dl.
      and_then (map_err (\<lambda>g. Msg ''building the classification list'' [g])
                  (classifier_new ce (classify_globs (cf_security cfg)))) (\<lambda>cl.
      let host = host_name ce (cf_server cfg) in
      and_then (check_host_name ''host'' host) (\<lambda>_.
      and_then (fold_res (resolve_root ce fs host dl cl (sk_leak_checks (cf_secrets cfg))) (cf_roots cfg) []) (\<lambda>roots.
      and_then (resolve_peers cfg host) (\<lambda>peers.
      and_then (fold_res resolve_named_shape (sk_shapes (cf_secrets cfg)) []) (\<lambda>shapes.
      Inr \<lparr>rs_bind = sv_bind (cf_server cfg), rs_allowed_hosts = sv_allowed_hosts (cf_server cfg),
           rs_host = host, rs_roots = roots, rs_peers = peers,
           rs_identities = resolve_identities (cf_auth cfg), rs_limits = cf_limits cfg,
           rs_journal_path = jp, rs_retention_days = jc_retention_days (cf_journal cfg),
           rs_deny = dl, rs_classify = cl, rs_auth = cf_auth cfg,
           rs_secrets = \<lparr>sx_allow_reveal = sk_allow_reveal (cf_secrets cfg), sx_shapes = shapes\<rparr>,
           rs_leak_checks = sk_leak_checks (cf_secrets cfg), rs_whois = cf_whois cfg\<rparr>)))))))))"

end
