(* ===== verification/Kaed_Config_Facts.thy ===== *)
theory Kaed_Config_Facts
  imports Kaed_Config Kaed_Search_Facts
begin

text \<open>
  What start-up validation guarantees. \<open>valid_resolved\<close> is the type of the runtime view: everything the
  other components take for granted of roots, peers, identities and shapes. The relation of a
  \<open>BTreeMap\<close> to its list is the hypothesis \<open>tables_sorted\<close>, which the deserializer provides.
\<close>

definition name_ok :: "rstr \<Rightarrow> bool" where
  "name_ok n \<longleftrightarrow> n \<noteq> [] \<and> CHR '':'' \<notin> set n \<and> CHR ''/'' \<notin> set n"

definition tables_sorted :: "config \<Rightarrow> bool" where
  "tables_sorted cfg \<longleftrightarrow> om_sorted (cf_auth cfg) \<and> (case cf_peers cfg of None \<Rightarrow> True | Some ps \<Rightarrow> om_sorted ps)"

definition valid_root :: "config_env \<Rightarrow> fsys \<Rightarrow> rstr \<Rightarrow> deny_list \<Rightarrow> rstr list \<Rightarrow> leak_checks \<Rightarrow> rroot \<Rightarrow> bool" where
  "valid_root ce fs host dl cl leaks b \<longleftrightarrow>
     rr_host b = host \<and> name_ok (rr_local b) \<and> rr_name b = qualify host (rr_local b)
     \<and> real_dir fs (rr_path b) \<and> \<not> is_denied (ce_globs ce) dl (rr_path b)
     \<and> rr_deny b = dl \<and> rr_classify b = cl \<and> rr_leak_checks b = leaks"

definition valid_peer :: "rstr \<Rightarrow> peer \<Rightarrow> bool" where
  "valid_peer host p \<longleftrightarrow>
     name_ok (pr_host p) \<and> pr_host p \<noteq> host
     \<and> (pr_status p = Deferred \<longrightarrow> pr_reference p \<noteq> None)
     \<and> (pr_status p = Unreachable \<longrightarrow> pr_since p \<noteq> None)"

definition valid_resolved :: "config_env \<Rightarrow> fsys \<Rightarrow> resolved \<Rightarrow> bool" where
  "valid_resolved ce fs r \<longleftrightarrow>
     name_ok (rs_host r)
     \<and> (\<forall>b\<in>set (rs_roots r). valid_root ce fs (rs_host r) (rs_deny r) (rs_classify r) (rs_leak_checks r) b)
     \<and> distinct (map rr_name (rs_roots r))
     \<and> (\<forall>ps. rs_peers r = Some ps \<longrightarrow> (\<forall>p\<in>set ps. valid_peer (rs_host r) p) \<and> distinct (map pr_host ps))
     \<and> distinct (map id_author (rs_identities r))
     \<and> (\<forall>(n, sh)\<in>set (sx_shapes (rs_secrets r)). valid_shape sh)"

section \<open>Roots\<close>

lemma check_host_name_Inr [simp]: "check_host_name what n = Inr u \<longleftrightarrow> name_ok n"
  by (auto simp: check_host_name_def name_ok_def)

lemma is_dir_real_dir:
  assumes "real fs q" "is_dir fs q"
  shows "real_dir fs q"
proof -
  obtain q' where q': "canonicalize fs q = Inr q'" "node_at fs q' = Some DirN"
    using assms(2) by (auto simp: is_dir_def split: sum.splits)
  from canonicalize_real_id[OF q'(1) assms(1)] q'(2) have "node_at fs q = Some DirN" by simp
  with assms(1) show ?thesis by (auto simp: real_def real_dir_def strict_prefix_def)
qed

lemma canonicalize_text_real:
  assumes "canonicalize_text ce fs t = Inr q" "real_dir fs (ce_cwd ce)"
  shows "real fs q"
proof -
  have "canon fs MAX_SYMLINKS (ce_cwd ce) (components t) = Inr q"
    using assms(1) by (simp add: canonicalize_text_def split: if_splits)
  then show ?thesis using assms(2) by (rule canon_real)
qed

lemma resolve_root_step:
  assumes "resolve_root ce fs host dl cl leaks r rs = Inr rs'" "real_dir fs (ce_cwd ce)"
  obtains b where "rs' = rs @ [b]" "valid_root ce fs host dl cl leaks b" "rr_local b = rg_name r"
    "rr_name b \<notin> set (map rr_name rs)"
proof -
  have ok: "name_ok (rg_name r)" and new: "\<not> (\<exists>x\<in>set rs. rr_name x = qualify host (rg_name r))"
    using assms(1) by (auto simp: resolve_root_def name_ok_def Let_def split: if_splits)
  obtain expanded where e: "expand_home ce (rg_path r) = Inr expanded"
    "(case canonicalize_text ce fs expanded of
        Inl er \<Rightarrow> Inl (Msg ''canonicalizing'' [rg_name r, expanded, io_text er])
      | Inr canonical \<Rightarrow>
          if \<not> is_dir fs canonical then Inl (Msg ''is not a directory'' [rg_name r, path_str canonical])
          else (case denied_by (ce_globs ce) dl canonical of
                  Some rule \<Rightarrow> Inl (Msg ''is refused by the deny list'' [rg_name r, path_str canonical, rule])
                | None \<Rightarrow>
                    Inr (rs @ [\<lparr>rr_name = qualify host (rg_name r), rr_local = rg_name r, rr_host = host,
                                rr_path = canonical, rr_description = rg_description r, rr_deny = dl,
                                rr_classify = cl, rr_leak_checks = leaks\<rparr>]))) = Inr rs'"
    using assms(1) ok new by (auto simp: resolve_root_def name_ok_def Let_def split: if_splits)
  obtain q where q: "canonicalize_text ce fs expanded = Inr q" using e(2) by (cases "canonicalize_text ce fs expanded") auto
  have d: "is_dir fs q" "denied_by (ce_globs ce) dl q = None"
    using e(2) q by (auto split: if_splits option.splits)
  from is_dir_real_dir[OF canonicalize_text_real[OF q assms(2)] d(1)] have "real_dir fs q" .
  with e(2) q d ok new that show thesis
    by (force simp: valid_root_def is_denied_def)
qed

lemma resolve_roots_valid:
  assumes "fold_res (resolve_root ce fs host dl cl leaks) cs rs = Inr rs'" "real_dir fs (ce_cwd ce)"
    and "\<forall>b\<in>set rs. valid_root ce fs host dl cl leaks b" "distinct (map rr_name rs)"
  shows "(\<forall>b\<in>set rs'. valid_root ce fs host dl cl leaks b) \<and> distinct (map rr_name rs')
    \<and> map rr_local rs' = map rr_local rs @ map rg_name cs"
  using assms
proof (induction cs arbitrary: rs)
  case (Cons c cs)
  from Cons.prems(1) obtain rs1 where
    rs1: "resolve_root ce fs host dl cl leaks c rs = Inr rs1" "fold_res (resolve_root ce fs host dl cl leaks) cs rs1 = Inr rs'"
    by auto
  from rs1(1) Cons.prems(2) obtain b where b: "rs1 = rs @ [b]" "valid_root ce fs host dl cl leaks b"
    "rr_local b = rg_name c" "rr_name b \<notin> set (map rr_name rs)"
    by (rule resolve_root_step)
  have "\<forall>x\<in>set rs1. valid_root ce fs host dl cl leaks x" "distinct (map rr_name rs1)"
    using Cons.prems(3,4) b by auto
  from Cons.IH[OF rs1(2) Cons.prems(2) this] b show ?case by simp
qed simp

section \<open>Peers, identities, shapes\<close>

lemma resolve_peers_fold:
  assumes "fold_res (resolve_peer host) table ps = Inr ps'" "\<forall>p\<in>set ps. valid_peer host p"
  shows "(\<forall>p\<in>set ps'. valid_peer host p) \<and> map pr_host ps' = map pr_host ps @ map fst table"
  using assms
proof (induction table arbitrary: ps)
  case (Cons c table)
  obtain name pc where c: "c = (name, pc)" by fastforce
  obtain p where p: "resolve_peer host c ps = Inr (ps @ [p])" "valid_peer host p" "pr_host p = name"
    "fold_res (resolve_peer host) table (ps @ [p]) = Inr ps'"
    using Cons.prems(1) unfolding c by (auto simp: resolve_peer_def valid_peer_def split: if_splits)
  from Cons.IH[OF p(4)] Cons.prems(2) p(2,3) show ?case by (simp add: c)
qed simp

lemma resolve_peers_valid:
  assumes "resolve_peers cfg host = Inr (Some ps)" "tables_sorted cfg"
  shows "(\<forall>p\<in>set ps. valid_peer host p) \<and> distinct (map pr_host ps)"
proof -
  obtain table where t: "cf_peers cfg = Some table" "fold_res (resolve_peer host) table [] = Inr ps"
    using assms(1) by (auto simp: resolve_peers_def map_sum_def split: option.splits sum.splits)
  have "distinct (map fst table)"
    using assms(2) t(1) by (simp add: tables_sorted_def om_sorted_def strict_sorted_iff)
  with resolve_peers_fold[OF t(2)] show ?thesis by simp
qed

lemma identities_authors: "map id_author (resolve_identities auth) = map fst auth"
  by (simp add: resolve_identities_def split_def comp_def)

lemma resolve_shapes_valid:
  assumes "fold_res resolve_named_shape specs m = Inr m'" "\<forall>(n, sh)\<in>set m. valid_shape sh"
  shows "\<forall>(n, sh)\<in>set m'. valid_shape sh"
  using assms
proof (induction specs arbitrary: m)
  case (Cons c specs)
  obtain name spec where c: "c = (name, spec)" by fastforce
  obtain sh where sh: "parse_spec spec = Inr sh" "fold_res resolve_named_shape specs (om_insert name sh m) = Inr m'"
    using Cons.prems(1) unfolding c by (auto simp: resolve_named_shape_def split: sum.splits)
  have "valid_shape sh" using parse_inner_valid sh(1) by (simp add: parse_spec_def)
  with Cons.prems(2) have "\<forall>(n, x)\<in>set (om_insert name sh m). valid_shape x"
    by (induction name sh m rule: om_insert.induct) auto
  from Cons.IH[OF sh(2) this] show ?case .
qed simp

section \<open>The built-in directories\<close>

lemma builtin_config_dir:
  "(lexical (case parent_comps (components cp) of Some cs \<Rightarrow> cs | None \<Rightarrow> [RootDir]), ''kaed's own config directory'')
    \<in> set (builtin_dirs cp jp)"
  by (simp add: builtin_dirs_def)

lemma builtin_journal_dir:
  "parent_comps (components jp) = Some cs \<Longrightarrow> (lexical cs, ''kaed's journal directory'') \<in> set (builtin_dirs cp jp)"
  by (simp add: builtin_dirs_def)

lemma builtin_denied: "(dir, label) \<in> set (dn_builtin dl) \<Longrightarrow> prefix dir p \<Longrightarrow> is_denied globs dl p"
  by (force simp: is_denied_iff)

section \<open>Retired fields\<close>

lemma retire_fields_none:
  "snd (fold retire_field fs (cd, fd)) = [] \<longleftrightarrow> fd = [] \<and> (\<forall>f\<in>set fs. \<not> contains_sub f cd)"
proof (induction fs arbitrary: cd fd)
  case (Cons f fs)
  then show ?case by (auto simp: retire_field_def)
qed simp

lemma retired_fields_none:
  "retired_fields content = None \<longleftrightarrow>
     (\<forall>l\<in>set (str_lines content). \<forall>f\<in>set RETIRED. \<not> contains_sub f (hd (split_on (CHR ''#'') l)))"
proof -
  have "fold retired_line ls fd = [] \<longleftrightarrow>
      fd = [] \<and> (\<forall>l\<in>set ls. \<forall>f\<in>set RETIRED. \<not> contains_sub f (hd (split_on (CHR ''#'') l)))" for ls fd
    by (induction ls arbitrary: fd) (auto simp: retired_line_def retire_fields_none)
  moreover have "sort xs = [] \<longleftrightarrow> xs = []" for xs :: "rstr list"
    by (metis length_0_conv length_sort)
  ultimately show ?thesis by (simp add: retired_fields_def Let_def)
qed

text \<open>What is loaded names no retired field outside a comment.\<close>

theorem loaded_has_no_retired_field:
  assumes "load_config ce fs t = Inr cfg"
  obtains content where "read_to_string ce fs t = Some content" "ce_toml ce content = Inr cfg"
    "\<forall>l\<in>set (str_lines content). \<forall>f\<in>set RETIRED. \<not> contains_sub f (hd (split_on (CHR ''#'') l))"
  using assms retired_fields_none by (fastforce simp: load_config_def split: option.splits)

section \<open>The validated view\<close>

text \<open>The built-in rule for the directory of the configuration is lexical: a path given relative to the
  working directory protects nothing.\<close>


theorem relative_config_unprotected:
  assumes "components t = Normal d # cs" "cs \<noteq> []" "''.'' \<notin> set p"
  shows "\<not> prefix (lexical (case parent_comps (components t) of Some cs \<Rightarrow> cs | None \<Rightarrow> [RootDir])) p"
proof
  assume pre: "prefix (lexical (case parent_comps (components t) of Some cs \<Rightarrow> cs | None \<Rightarrow> [RootDir])) p"
  have "RootDir \<notin> set (components t)"
    using assms(1) by (auto simp: components_def to_component_def Let_def split: if_splits)
  with assms(1) have "last (components t) \<noteq> RootDir" by (metis last_in_set list.distinct(1))
  then have "parent_comps (components t) = Some (Normal d # butlast cs)"
    using assms(1,2) by (simp add: parent_comps_def)
  with pre assms(3) show False by (auto simp: lexical_def comp_name_def elim!: prefixE)
qed

lemma resolved_valid:
  assumes "resolve ce fs cfg (Some t) = Inr r" "tables_sorted cfg" "real_dir fs (ce_cwd ce)"
  shows "valid_resolved ce fs r
    \<and> map rr_local (rs_roots r) = map rg_name (cf_roots cfg)
    \<and> (\<forall>b\<in>set (rs_roots r). split_once (CHR '':'') (rr_name b) = Some (rs_host r, rr_local b))
    \<and> map id_author (rs_identities r) = map fst (cf_auth cfg)
    \<and> (rs_peers r = None \<longleftrightarrow> cf_peers cfg = None)
    \<and> (\<forall>dir f p. components t = RootDir # map Normal (dir @ [f]) \<and> prefix dir p \<longrightarrow> is_denied (ce_globs ce) (rs_deny r) p)
    \<and> (\<forall>dir f p. components (rs_journal_path r) = RootDir # map Normal (dir @ [f]) \<and> prefix dir p
         \<longrightarrow> is_denied (ce_globs ce) (rs_deny r) p)"
proof -
  obtain jp dl cl shapes roots peers where
    d: "deny_list_new ce (builtin_dirs t jp) (deny_globs (cf_security cfg)) = Inr dl"
    and h: "name_ok (host_name ce (cf_server cfg))"
    and rs: "fold_res (resolve_root ce fs (host_name ce (cf_server cfg)) dl cl (sk_leak_checks (cf_secrets cfg)))
        (cf_roots cfg) [] = Inr roots"
    and ps: "resolve_peers cfg (host_name ce (cf_server cfg)) = Inr peers"
    and sh: "fold_res resolve_named_shape (sk_shapes (cf_secrets cfg)) [] = Inr shapes"
    and r: "rs_host r = host_name ce (cf_server cfg)" "rs_roots r = roots" "rs_peers r = peers" "rs_deny r = dl"
      "rs_classify r = cl" "rs_leak_checks r = sk_leak_checks (cf_secrets cfg)" "rs_journal_path r = jp"
      "rs_identities r = resolve_identities (cf_auth cfg)" "sx_shapes (rs_secrets r) = shapes"
    using assms(1) by (auto simp: resolve_def Let_def)
  have bs: "dn_builtin dl = builtin_dirs t jp"
    using d by (auto simp: deny_list_new_def map_sum_def split: sum.splits)
  have v: "(\<forall>b\<in>set roots. valid_root ce fs (rs_host r) dl cl (rs_leak_checks r) b) \<and> distinct (map rr_name roots)
      \<and> map rr_local roots = map rg_name (cf_roots cfg)"
    using resolve_roots_valid[OF rs assms(3)] by (simp add: r)
  have p: "peers = Some xs \<Longrightarrow> (\<forall>p\<in>set xs. valid_peer (rs_host r) p) \<and> distinct (map pr_host xs)" for xs
    using resolve_peers_valid[OF _ assms(2)] ps by (simp add: r)
  have "distinct (map fst (cf_auth cfg))"
    using assms(2) by (simp add: tables_sorted_def om_sorted_def strict_sorted_iff)
  then have i: "map id_author (rs_identities r) = map fst (cf_auth cfg)" "distinct (map id_author (rs_identities r))"
    by (simp_all add: r identities_authors)
  have s: "\<forall>(n, x)\<in>set shapes. valid_shape x" by (rule resolve_shapes_valid[OF sh]) simp
  have "valid_resolved ce fs r"
    using h v p i s by (simp add: valid_resolved_def r)
  moreover have "\<forall>b\<in>set (rs_roots r). split_once (CHR '':'') (rr_name b) = Some (rs_host r, rr_local b)"
    using v h by (auto simp: valid_root_def qualify_def name_ok_def r split_once_append)
  moreover have "rs_peers r = None \<longleftrightarrow> cf_peers cfg = None"
    using ps by (auto simp: r resolve_peers_def map_sum_def split: option.splits sum.splits)
  moreover have plain: "parent_comps cs = Some (RootDir # map Normal dir) \<and> lexical (RootDir # map Normal dir) = dir"
    if "cs = RootDir # map Normal (dir @ [f])" for cs dir f
    using that by (simp add: parent_comps_def lexical_def comp_name_def comp_def)
  moreover have "is_denied (ce_globs ce) (rs_deny r) p"
    if "components t = RootDir # map Normal (dir @ [f])" "prefix dir p" for dir f p
    using builtin_denied[of dir _ dl p] builtin_config_dir[of t jp] plain[OF that(1)] that(2) bs r by auto
  moreover have "is_denied (ce_globs ce) (rs_deny r) p"
    if "components (rs_journal_path r) = RootDir # map Normal (dir @ [f])" "prefix dir p" for dir f p
    using builtin_denied[of dir _ dl p] builtin_journal_dir[of jp _ t] plain[OF that(1)] that(2) bs r by auto
  ultimately show ?thesis using v i by (auto simp: r)
qed

text \<open>C29: Start-up validation types the runtime view. When a configuration resolves, the host and every
  peer are names that can be half of a qualified root; every root is a real directory outside the deny
  list, under a distinct name that splits back into this host and its declared local name, with the policy
  of the instance; the roots are the declared ones in their order, and no allow-listed identity is dropped
  or doubled; a deferred peer has its reference and an unreachable one its date; every named shape is one
  that can be minted. The directory of the configuration file, when its path was given absolute and
  lexically plain, and that of the journal are denied with everything below them.\<close>
theorem resolve_valid:
  assumes "resolve ce fs cfg (Some t) = Inr r" "tables_sorted cfg" "real_dir fs (ce_cwd ce)"
  shows "valid_resolved ce fs r
    \<and> map rr_local (rs_roots r) = map rg_name (cf_roots cfg)
    \<and> (\<forall>b\<in>set (rs_roots r). split_once (CHR '':'') (rr_name b) = Some (rs_host r, rr_local b))
    \<and> map id_author (rs_identities r) = map fst (cf_auth cfg)
    \<and> (rs_peers r = None \<longleftrightarrow> cf_peers cfg = None)
    \<and> (\<forall>dir f p. components t = RootDir # map Normal (dir @ [f]) \<and> prefix dir p \<longrightarrow> is_denied (ce_globs ce) (rs_deny r) p)
    \<and> (\<forall>dir f p. components (rs_journal_path r) = RootDir # map Normal (dir @ [f]) \<and> prefix dir p
         \<longrightarrow> is_denied (ce_globs ce) (rs_deny r) p)"
  using assms by (rule resolved_valid)

section \<open>A configuration\<close>

definition demo_ce :: config_env where
  "demo_ce =
     \<lparr>ce_var = [''HOME'' \<mapsto> ''/h''], ce_cwd = [], ce_etc_hostname = Some ''kai.example.net'',
      ce_toml = (\<lambda>_. Inl []), ce_glob_ok = (\<lambda>_. True), ce_globset_ok = (\<lambda>_. True), ce_globs = (\<lambda>_ _. False)\<rparr>"

definition demo_config :: config where
  "demo_config =
     \<lparr>cf_server = default_server, cf_roots = [\<lparr>rg_name = ''src'', rg_path = ''/r'', rg_description = None\<rparr>],
      cf_auth = [(''claude'', [])], cf_limits = default_limits, cf_journal = default_journal,
      cf_security = default_security, cf_secrets = default_secrets, cf_whois = default_whois,
      cf_peers = Some [(''kubs0'', \<lparr>pc_status = Active, pc_reference = None, pc_note = None, pc_since = None,
                                  pc_url = Some ''u''\<rparr>)]\<rparr>"


lemma demo_tables: "tables_sorted demo_config"
  by (simp add: tables_sorted_def om_sorted_def demo_config_def)

lemma demo_host_name: "host_name demo_ce default_server = ''kai''"
  by code_simp

lemma demo_journal_path: "journal_path demo_ce default_journal = Inr ''/h/.local/share/kaed/journal.db''"
  by code_simp

lemma demo_default_path: "default_path demo_ce = Inr ''/h/.config/kaed/config.toml''"
  by code_simp

lemma demo_builtin:
  "builtin_dirs ''/c/k/config.toml'' ''/h/.local/share/kaed/journal.db'' =
     [([''c'', ''k''], ''kaed's own config directory''),
      ([''h'', ''.local'', ''share'', ''kaed''], ''kaed's journal directory'')]"
  by code_simp

lemma demo_canon: "canonicalize_text demo_ce demo_fs ''/r'' = Inr [''r'']"
  by code_simp

lemma demo_dir: "is_dir demo_fs [''r'']"
  by code_simp

lemma demo_expand: "expand_home demo_ce ''/r'' = Inr ''/r''"
  by code_simp

definition demo_peer :: peer where
  "demo_peer =
     \<lparr>pr_host = ''kubs0'', pr_status = Active, pr_reference = None, pr_note = None, pr_since = None, pr_url = Some ''u''\<rparr>"

lemma demo_resolves:
  "\<exists>r. resolve demo_ce demo_fs demo_config (Some ''/c/k/config.toml'') = Inr r \<and> rs_host r = ''kai''
     \<and> rs_peers r = Some [demo_peer] \<and> map rr_name (rs_roots r) = [''kai:src'']
     \<and> rs_identities r = [\<lparr>id_author = ''claude'', id_nodes = []\<rparr>]"
proof -
  have e: "cf_server demo_config = default_server" "cf_journal demo_config = default_journal"
    "cf_roots demo_config = [\<lparr>rg_name = ''src'', rg_path = ''/r'', rg_description = None\<rparr>]"
    "sk_shapes (cf_secrets demo_config) = []" "cf_auth demo_config = [(''claude'', [])]"
    "cf_peers demo_config = Some [(''kubs0'', \<lparr>pc_status = Active, pc_reference = None, pc_note = None, pc_since = None,
                                  pc_url = Some ''u''\<rparr>)]"
    by (simp_all add: demo_config_def default_secrets_def)
  have b: "globs_build demo_ce gs = Inr ()" for gs
    by (simp add: globs_build_def demo_ce_def find_None_iff split: option.splits)
  have n: "walk_rules (ce_globs demo_ce) gs ps = None" for gs ps
    by (simp add: walk_rules_None demo_ce_def)
  show ?thesis
    unfolding resolve_def e demo_journal_path demo_default_path demo_host_name
    by (simp add: deny_list_new_def classifier_new_def b demo_builtin check_host_name_def resolve_root_def demo_expand
        demo_canon demo_dir denied_by_def n resolve_peers_def resolve_peer_def resolve_identities_def qualify_def
        demo_peer_def e Let_def)
qed

theorem resolve_valid_witness:
  "\<exists>r. resolve demo_ce demo_fs demo_config (Some ''/c/k/config.toml'') = Inr r \<and> valid_resolved demo_ce demo_fs r
     \<and> is_denied (ce_globs demo_ce) (rs_deny r) [''c'', ''k'', ''env'']"
proof -
  obtain r where r: "resolve demo_ce demo_fs demo_config (Some ''/c/k/config.toml'') = Inr r"
    using demo_resolves by blast
  have c: "components ''/c/k/config.toml'' = RootDir # map Normal ([''c'', ''k''] @ [''config.toml''])" by code_simp
  have p: "prefix [''c'', ''k''] [''c'', ''k'', ''env'']" by simp
  have cwd: "real_dir demo_fs (ce_cwd demo_ce)" by (simp add: demo_ce_def)
  note v = resolve_valid[OF r demo_tables cwd]
  have "is_denied (ce_globs demo_ce) (rs_deny r) [''c'', ''k'', ''env'']" using v c p by blast
  with v r show ?thesis by blast
qed

end
