(* ===== verification/Kaed_Server.thy ===== *)
theory Kaed_Server
  imports Kaed_Config Kaed_Journal
begin

text \<open>
  \<open>src/whois.rs\<close> and the gate and address book of \<open>src/server.rs\<close>: which node a request came from,
  who its caller is, which root a name means, and whether a call is answered here or by a peer. HTTP and
  MCP framing belong to the crates \<open>axum\<close> and \<open>rmcp\<close>; a request is its headers, the address of its socket
  peer and its argument object. The JSON and address parsers, the \<open>tailscale\<close> process and the clock are
  parameters.
\<close>

section \<open>Which node a request came from\<close>

record whois_env =
  wh_json :: "rstr \<Rightarrow> json option"
  wh_lossy :: "rstr \<Rightarrow> rstr"
  wh_ip :: "rstr \<Rightarrow> rstr option"

text \<open>The short name: the first label of \<open>Node.Name\<close>.\<close>

definition parse_node_name :: "whois_env \<Rightarrow> rstr \<Rightarrow> rstr option" where
  "parse_node_name we stdout =
     Option.bind (wh_json we stdout) (\<lambda>parsed.
     Option.bind (json_get parsed ''Node'') (\<lambda>nd.
     Option.bind (json_get nd ''Name'') (\<lambda>nm.
     Option.bind (as_str nm) (\<lambda>name.
       let short = trim (hd (split_on (CHR ''.'') name)) in
       if short = [] then None else Some short))))"

text \<open>Headers are a list in arrival order with lower-case names; \<open>get\<close> takes the first, \<open>to_str\<close> wants
  visible ASCII and tabs.\<close>

type_synonym headers = "(rstr \<times> rstr) list"

definition header_str :: "headers \<Rightarrow> rstr \<Rightarrow> rstr option" where
  "header_str hs name =
     (case map_of hs name of
        Some v \<Rightarrow> if \<forall>c\<in>set v. in_range 32 126 c \<or> c = CHR 0x09 then Some v else None
      | None \<Rightarrow> None)"

definition caller_addr :: "whois_env \<Rightarrow> headers \<Rightarrow> rstr option \<Rightarrow> rstr option" where
  "caller_addr we hs peer_ip =
     (case Option.bind (header_str hs ''x-forwarded-for'') (\<lambda>v. wh_ip we (trim (hd (split_on (CHR '','') v)))) of
        Some ip \<Rightarrow> Some ip
      | None \<Rightarrow> peer_ip)"

text \<open>The cache: per address when it was asked and what came of it, a failure included.\<close>

type_synonym whois_cache = "rstr \<rightharpoonup> int \<times> rstr option"

datatype cache_lookup = Miss | Hit "rstr option"

definition cached_node :: "int \<Rightarrow> int \<Rightarrow> rstr \<Rightarrow> whois_cache \<Rightarrow> cache_lookup" where
  "cached_node ttl tick_at addr cache =
     (case cache addr of
        None \<Rightarrow> Miss
      | Some (since, v) \<Rightarrow> if ttl < tick_at - since then Miss else Hit v)"

definition store_node :: "int \<Rightarrow> rstr \<Rightarrow> rstr option \<Rightarrow> whois_cache \<Rightarrow> whois_cache" where
  "store_node tick_at addr v cache = cache(addr \<mapsto> (tick_at, v))"

text \<open>\<open>out\<close> is what the process printed, \<open>None\<close> when it could not be run; it ends at \<open>done_at\<close>.\<close>

definition whois_resolve ::
  "whois_env \<Rightarrow> int \<Rightarrow> int \<Rightarrow> int \<Rightarrow> rstr option \<Rightarrow> rstr \<Rightarrow> whois_cache \<Rightarrow> rstr option \<times> whois_cache" where
  "whois_resolve we ttl tick_at done_at out addr cache =
     (case cached_node ttl tick_at addr cache of
        Hit v \<Rightarrow> (v, cache)
      | Miss \<Rightarrow>
          (let v = (case out of Some stdout \<Rightarrow> parse_node_name we (wh_lossy we stdout) | None \<Rightarrow> None)
           in (v, store_node done_at addr v cache)))"

section \<open>Who the caller is\<close>

record auth_state =
  au_identities :: "identity list"
  au_spec :: "(rstr \<times> rstr list) list"
  au_whois :: bool
  au_enforce_nodes :: bool

definition reload :: "auth_state \<Rightarrow> auth_state" where
  "reload a =
     (let fresh = resolve_identities (au_spec a) in if fresh = [] then a else a\<lparr>au_identities := fresh\<rparr>)"

record request =
  rq_headers :: headers
  rq_peer_ip :: "rstr option"

text \<open>\<open>unauthorized\<close>: the challenge names the error only when there was something to describe.\<close>

datatype rejection = Unknown_name | Bearer_retired | No_credential

definition unauthorized :: "bool \<Rightarrow> bool \<Rightarrow> rejection" where
  "unauthorized declared_name had_bearer =
     (if declared_name then Unknown_name else if had_bearer then Bearer_retired else No_credential)"

definition challenge :: "rejection \<Rightarrow> msg" where
  "challenge r =
     (case r of
        Unknown_name \<Rightarrow> Msg ''Bearer realm=kaed, error=invalid_token'' [''X-Homelab-Agent names no configured identity'']
      | Bearer_retired \<Rightarrow> Msg ''Bearer realm=kaed, error=invalid_token'' [''kaed no longer accepts bearer tokens'']
      | No_credential \<Rightarrow> Msg ''Bearer realm=kaed'' [])"

datatype admission =
    Refused_401 rejection
  | Refused_403 (fb_author: rstr) (fb_node: rstr) (fb_allowed: "rstr list")
  | Admitted (ad_author: rstr) (ad_node: rstr) (ad_forwarded: "rstr option")

definition nonblank_header :: "headers \<Rightarrow> rstr \<Rightarrow> rstr option" where
  "nonblank_header hs name =
     (case map_option trim (header_str hs name) of
        Some d \<Rightarrow> if d = [] then None else Some d
      | None \<Rightarrow> None)"

definition node_name :: "rstr option \<Rightarrow> rstr" where
  "node_name node = (case node of Some n \<Rightarrow> n | None \<Rightarrow> UNKNOWN_NODE)"

definition auth_middleware ::
  "whois_env \<Rightarrow> int \<Rightarrow> int \<Rightarrow> int \<Rightarrow> rstr option \<Rightarrow> auth_state \<Rightarrow> request \<Rightarrow> whois_cache \<Rightarrow> admission \<times> whois_cache" where
  "auth_middleware we ttl tick_at done_at out a rq cache =
     (let declared_name = nonblank_header (rq_headers rq) AGENT_HEADER;
          had_bearer = (map_of (rq_headers rq) ''authorization'' \<noteq> None)
      in case Option.bind declared_name (\<lambda>name. find (\<lambda>i. id_author i = name) (au_identities a)) of
           None \<Rightarrow> (Refused_401 (unauthorized (declared_name \<noteq> None) had_bearer), cache)
         | Some i \<Rightarrow>
             (let (node, cache') =
                (case caller_addr we (rq_headers rq) (rq_peer_ip rq) of
                   Some ip \<Rightarrow> if au_whois a then whois_resolve we ttl tick_at done_at out ip cache else (None, cache)
                 | None \<Rightarrow> (None, cache))
              in (if au_enforce_nodes a \<and> id_nodes i \<noteq> [] \<and> node_name node \<notin> set (id_nodes i)
                  then Refused_403 (id_author i) (node_name node) (id_nodes i)
                  else Admitted (id_author i) (node_name node) (nonblank_header (rq_headers rq) HOP_HEADER),
                  cache')))"

section \<open>The state of an instance and its address book\<close>

record app_state =
  as_host :: rstr
  as_roots :: "rroot list"
  as_fleet :: fleet
  as_limits :: limits
  as_secrets :: resolved_secrets

text \<open>\<open>build_app\<close>: nothing to serve or nobody to serve is a failure of the start-up.\<close>

definition build_app :: "resolved \<Rightarrow> msg + app_state \<times> auth_state" where
  "build_app r =
     (if rs_roots r = [] then Inl (Msg ''no roots configured; nothing to serve'' [])
      else if rs_identities r = [] then Inl (Msg ''no auth identities resolved'' [])
      else Inr (\<lparr>as_host = rs_host r, as_roots = rs_roots r, as_fleet = fleet_new (rs_host r) (rs_peers r),
                 as_limits = rs_limits r, as_secrets = rs_secrets r\<rparr>,
                \<lparr>au_identities = rs_identities r, au_spec = rs_auth r, au_whois = wc_enabled (rs_whois r),
                 au_enforce_nodes = wc_enforce (rs_whois r)\<rparr>))"

fun status_str :: "peer_status \<Rightarrow> rstr" where
  "status_str Active = ''active''"
| "status_str Deferred = ''deferred''"
| "status_str Unreachable = ''unreachable''"

definition root_data :: "app_state \<Rightarrow> rstr \<Rightarrow> (rstr \<times> json) list \<Rightarrow> json" where
  "root_data st name extra =
     JObj (obj_extend
       [(''root'', JStr name), (''this_host'', JStr (as_host st)),
        (''known_roots'', JArr (map (\<lambda>b. JStr (rr_name b)) (as_roots st)))] extra)"

definition explain_peer :: "app_state \<Rightarrow> rstr \<Rightarrow> rstr \<Rightarrow> peer \<Rightarrow> kaed_error" where
  "explain_peer st name host p =
     (let ht = [(''target_host'', JStr host), (''host_status'', JStr (status_str (pr_status p)))] in
      case pr_status p of
        Deferred \<Rightarrow>
          with_data (root_data st name
              ((''reason'', JStr ''host_deferred'') # ht
                @ [(''ref'', opt_str (pr_reference p)), (''note'', opt_str (pr_note p))]))
            (not_found (Msg ''deliberately does not run kaed'' [host]))
      | Unreachable \<Rightarrow>
          with_data (root_data st name
              ((''reason'', JStr ''host_unreachable'') # ht @ [(''since'', opt_str (pr_since p))]))
            (not_found (Msg ''is declared part of the fleet but is not answering'' [host]))
      | Active \<Rightarrow>
          with_data (root_data st name
              ((''reason'', JStr ''peer_routing_unavailable'') # ht @ [(''url'', opt_str (pr_url p))]))
            (not_found (Msg ''is declared active but no url is configured for it here'' [host, as_host st])))"

definition explain_unknown_root :: "app_state \<Rightarrow> rstr \<Rightarrow> kaed_error" where
  "explain_unknown_root st name =
     (case split_once (CHR '':'') name of
        None \<Rightarrow>
          (case find (\<lambda>b. rr_local b = name) (as_roots st) of
             Some b \<Rightarrow>
               with_data (root_data st name
                   [(''reason'', JStr ''unqualified_root''), (''did_you_mean'', JStr (rr_name b))])
                 (not_found (Msg ''root names are host-qualified'' [rr_name b, name]))
           | None \<Rightarrow>
               with_data (root_data st name [(''reason'', JStr ''unqualified_root'')])
                 (not_found (Msg ''unknown root; roots are named host:root'' [name, as_host st])))
      | Some (host, local_name) \<Rightarrow>
          if host = as_host st
          then with_data (root_data st name [(''reason'', JStr ''unknown_root''), (''target_host'', JStr host)])
                 (not_found (Msg ''unknown root on this host'' [local_name, host]))
          else (case fl_declared (as_fleet st) of
                  None \<Rightarrow>
                    with_data (root_data st name [(''reason'', JStr ''fleet_undeclared''), (''target_host'', JStr host)])
                      (not_found (Msg ''declares no fleet'' [name, host, as_host st]))
                | Some peers \<Rightarrow>
                    (case find (\<lambda>p. pr_host p = host) peers of
                       Some p \<Rightarrow> explain_peer st name host p
                     | None \<Rightarrow>
                         with_data (root_data st name
                             [(''reason'', JStr ''host_never_declared''), (''target_host'', JStr host)])
                           (not_found (Msg ''is not in the declared fleet'' [host, as_host st])))))"

definition state_root :: "app_state \<Rightarrow> rstr \<Rightarrow> rroot res" where
  "state_root st name =
     (if is_pattern name then Inl (invalid_input (Msg ''root patterns are only supported by search'' [name]))
      else (case find (\<lambda>b. rr_name b = name) (as_roots st) of
              Some b \<Rightarrow> Inr b
            | None \<Rightarrow> Inl (explain_unknown_root st name)))"

section \<open>Here or elsewhere\<close>

text \<open>Decided on the raw argument object, before any tool sees it.\<close>

definition root_argument :: "json option \<Rightarrow> rstr option" where
  "root_argument arguments = Option.bind (Option.bind arguments (\<lambda>a. json_get a ''root'')) as_str"

definition remote_target :: "app_state \<Rightarrow> json option \<Rightarrow> (peer \<times> rstr) option" where
  "remote_target st arguments =
     Option.bind (root_argument arguments) (\<lambda>r.
       if is_pattern r then None
       else Option.bind (split_once (CHR '':'') r) (\<lambda>(host, _).
         if host = as_host st then None
         else map_option (\<lambda>p. (p, r)) (routable (as_fleet st) host)))"

text \<open>One call passing a host: the next host that gets it, if it is proxied. \<open>net\<close> is where a URL leads.\<close>

definition forwards :: "(rstr \<rightharpoonup> app_state) \<Rightarrow> json option \<Rightarrow> app_state \<Rightarrow> app_state \<Rightarrow> bool" where
  "forwards net arguments st st' \<longleftrightarrow>
     (\<exists>p r u. remote_target st arguments = Some (p, r) \<and> pr_url p = Some u \<and> net u = Some st')"

text \<open>\<open>kaed_error_from_value\<close> and \<open>kaed_error_result\<close>: an error through its JSON. Only the template and
  the arguments of a message are kept by the model; they travel as one text.\<close>

definition msg_text :: "msg \<Rightarrow> rstr" where
  "msg_text m = join_with '' '' (template m # args m)"

definition error_json :: "kaed_error \<Rightarrow> json" where
  "error_json e =
     JObj ([(''code'', JStr (code_str (code e))), (''message'', JStr (msg_text (message e)))]
           @ (case edata e of Some d \<Rightarrow> [(''data'', d)] | None \<Rightarrow> []))"

definition ALL_CODES :: "error_code list" where
  "ALL_CODES =
     [NotFound, OutsideRoot, Denied, VersionConflict, AmbiguousAnchor, AnchorNotFound, InvalidInput, TooLarge,
      IsBinary, ParseUnavailable, Internal, UnsupportedCapability]"

definition code_of_str :: "rstr \<Rightarrow> error_code option" where
  "code_of_str s = find (\<lambda>c. code_str c = s) ALL_CODES"

definition kaed_error_from_value :: "json \<Rightarrow> kaed_error" where
  "kaed_error_from_value v =
     (let c = (case Option.bind (Option.bind (json_get v ''code'') as_str) code_of_str of
                 Some c \<Rightarrow> c | None \<Rightarrow> Internal);
          m = (case Option.bind (json_get v ''message'') as_str of
                 Some m \<Rightarrow> m | None \<Rightarrow> ''peer returned an error without a message'');
          e = new_error c (Msg m [])
      in case json_get v ''data'' of Some d \<Rightarrow> with_data d e | None \<Rightarrow> e)"

definition kaed_error_result :: "kaed_error \<Rightarrow> call_result" where
  "kaed_error_result e =
     \<lparr>rs_content = error_json (with_feedback_invite e), rs_is_error = Some True,
      rs_structured = Some (error_json (with_feedback_invite e))\<rparr>"

end
