(* ===== verification/Kaed_Server_Facts.thy ===== *)
theory Kaed_Server_Facts
  imports Kaed_Server Kaed_Config_Facts
begin

text \<open>
  The gate and the address book: exactly who is admitted and as whom, which instance answers a call, and
  what an unknown root is told.
\<close>

section \<open>The node cache\<close>

lemma whois_cached:
  assumes "whois_resolve we ttl t d out addr cache = (v, cache')" "cached_node ttl t addr cache = Miss" "t' - d \<le> ttl"
  shows "whois_resolve we ttl t' d' out' addr cache' = (v, cache')"
  using assms by (auto simp: whois_resolve_def cached_node_def store_node_def Let_def split: option.splits if_splits)

lemma whois_expired: "cache addr = Some (since, v) \<Longrightarrow> ttl < t - since \<Longrightarrow> cached_node ttl t addr cache = Miss"
  by (simp add: cached_node_def)

lemma whois_other: "snd (whois_resolve we ttl t d out addr cache) x = (if x = addr then
    (case cached_node ttl t addr cache of Hit _ \<Rightarrow> cache x | Miss \<Rightarrow> Some (d, fst (whois_resolve we ttl t d out addr cache)))
    else cache x)"
  by (simp add: whois_resolve_def store_node_def Let_def split: cache_lookup.splits)

section \<open>The gate\<close>

text \<open>The node of a request, when whois is on and there is an address to ask about.\<close>

definition seen_node ::
  "whois_env \<Rightarrow> int \<Rightarrow> int \<Rightarrow> int \<Rightarrow> rstr option \<Rightarrow> auth_state \<Rightarrow> request \<Rightarrow> whois_cache \<Rightarrow> rstr option" where
  "seen_node we ttl t d out a rq cache =
     (case caller_addr we (rq_headers rq) (rq_peer_ip rq) of
        Some ip \<Rightarrow> if au_whois a then fst (whois_resolve we ttl t d out ip cache) else None
      | None \<Rightarrow> None)"

definition caller_identity :: "auth_state \<Rightarrow> request \<Rightarrow> identity option" where
  "caller_identity a rq =
     Option.bind (nonblank_header (rq_headers rq) AGENT_HEADER) (\<lambda>name. find (\<lambda>i. id_author i = name) (au_identities a))"

lemma auth_cases:
  "fst (auth_middleware we ttl t d out a rq cache) =
     (case caller_identity a rq of
        None \<Rightarrow> Refused_401 (unauthorized (nonblank_header (rq_headers rq) AGENT_HEADER \<noteq> None)
                  (map_of (rq_headers rq) ''authorization'' \<noteq> None))
      | Some i \<Rightarrow>
          (let n = node_name (seen_node we ttl t d out a rq cache) in
           if au_enforce_nodes a \<and> id_nodes i \<noteq> [] \<and> n \<notin> set (id_nodes i)
           then Refused_403 (id_author i) n (id_nodes i)
           else Admitted (id_author i) n (nonblank_header (rq_headers rq) HOP_HEADER)))"
  unfolding auth_middleware_def caller_identity_def seen_node_def Let_def
  by (simp add: split_def split: option.splits)

lemma caller_identity_Some:
  "caller_identity a rq = Some i \<longleftrightarrow>
     nonblank_header (rq_headers rq) AGENT_HEADER = Some (id_author i)
     \<and> find (\<lambda>j. id_author j = id_author i) (au_identities a) = Some i"
  using find_SomeD[of _ "au_identities a" i] by (auto simp: caller_identity_def bind_eq_Some_conv)

lemma map_of_without: "n \<noteq> m \<Longrightarrow> map_of (filter (\<lambda>h. fst h \<noteq> m) hs) n = map_of hs n"
  by (induction hs) auto

definition without_bearer :: "request \<Rightarrow> request" where
  "without_bearer rq = rq\<lparr>rq_headers := filter (\<lambda>h. fst h \<noteq> ''authorization'') (rq_headers rq)\<rparr>"

lemma header_without: "n \<noteq> ''authorization'' \<Longrightarrow> header_str (rq_headers (without_bearer rq)) n = header_str (rq_headers rq) n"
  by (simp add: header_str_def without_bearer_def map_of_without)

lemma identity_without_bearer: "caller_identity a (without_bearer rq) = caller_identity a rq"
  by (simp add: caller_identity_def nonblank_header_def header_without AGENT_HEADER_def)

lemma hop_without_bearer:
  "nonblank_header (rq_headers (without_bearer rq)) HOP_HEADER = nonblank_header (rq_headers rq) HOP_HEADER"
  by (simp add: nonblank_header_def header_without HOP_HEADER_def)

lemma seen_without_bearer: "seen_node we ttl t d out a (without_bearer rq) cache = seen_node we ttl t d out a rq cache"
proof -
  have "rq_peer_ip (without_bearer rq) = rq_peer_ip rq" by (simp add: without_bearer_def)
  then show ?thesis by (simp add: seen_node_def caller_addr_def header_without)
qed

section \<open>Routing\<close>

lemma remote_target_Some:
  "remote_target st arguments = Some (p, n) \<longleftrightarrow>
     root_argument arguments = Some n \<and> \<not> is_pattern n \<and> (\<exists>l. split_once (CHR '':'') n = Some (pr_host p, l))
     \<and> pr_host p \<noteq> as_host st \<and> routable (as_fleet st) (pr_host p) = Some p"
proof -
  have "routable (as_fleet st) h = Some p \<Longrightarrow> pr_host p = h" for h
    by (auto simp: routable_def find_peer_def bind_eq_Some_conv split: option.splits if_splits dest: find_SomeD)
  then show ?thesis
    by (auto simp: remote_target_def bind_eq_Some_conv split: if_splits)
qed

lemma routable_declared:
  "routable f h = Some p \<Longrightarrow> pr_host p = h \<and> pr_status p \<noteq> Deferred \<and> pr_url p \<noteq> None
     \<and> (\<exists>ps. fl_declared f = Some ps \<and> p \<in> set ps)"
  by (auto simp: routable_def find_peer_def bind_eq_Some_conv split: option.splits if_splits dest: find_SomeD)

lemma find_distinct:
  "distinct (map f xs) \<Longrightarrow> x \<in> set xs \<Longrightarrow> find (\<lambda>y. f y = f x) xs = Some x"
  by (induction xs) (auto simp: image_iff)

text \<open>An instance as it is built from a validated configuration.\<close>

definition well_built :: "app_state \<Rightarrow> bool" where
  "well_built st \<longleftrightarrow>
     name_ok (as_host st) \<and> distinct (map rr_name (as_roots st))
     \<and> (\<forall>b\<in>set (as_roots st). name_ok (rr_local b) \<and> rr_name b = qualify (as_host st) (rr_local b))
     \<and> (\<forall>ps. fl_declared (as_fleet st) = Some ps \<longrightarrow>
          distinct (map pr_host ps) \<and> (\<forall>p\<in>set ps. valid_peer (as_host st) p))"

lemma build_well_built:
  assumes "build_app r = Inr (st, a)" "valid_resolved ce fs r"
  shows "well_built st"
  using assms
  by (auto simp: build_app_def valid_resolved_def well_built_def valid_root_def fleet_new_def split: if_splits)

lemma own_root_local:
  assumes "well_built st" "b \<in> set (as_roots st)" "root_argument arguments = Some (rr_name b)"
  shows "remote_target st arguments = None"
proof -
  have "split_once (CHR '':'') (rr_name b) = Some (as_host st, rr_local b)"
    using assms(1,2) by (auto simp: well_built_def qualify_def name_ok_def split_once_append)
  with assms(3) show ?thesis by (simp add: remote_target_def)
qed

lemma state_root_served:
  assumes "well_built st"
  shows "state_root st n = Inr b \<longleftrightarrow> \<not> is_pattern n \<and> b \<in> set (as_roots st) \<and> rr_name b = n"
proof -
  have "find (\<lambda>x. rr_name x = n) (as_roots st) = Some b \<longleftrightarrow> b \<in> set (as_roots st) \<and> rr_name b = n"
    using find_distinct[of rr_name "as_roots st" b] assms find_SomeD[of "\<lambda>x. rr_name x = n" "as_roots st" b]
    by (auto simp: well_built_def)
  then show ?thesis by (auto simp: state_root_def split: option.splits)
qed

section \<open>What an unknown root is told\<close>

definition told :: "kaed_error \<Rightarrow> rstr \<Rightarrow> json option" where
  "told e k = Option.bind (edata e) (\<lambda>d. json_get d k)"

lemmas told_simps = told_def root_data_def map_of_obj_extend with_data_def not_found_def new_error_def

lemma explain_peer_told:
  "code (explain_peer st n h p) = NotFound"
  "told (explain_peer st n h p) ''target_host'' = Some (JStr h)"
  "told (explain_peer st n h p) ''reason'' = Some (JStr (case pr_status p of
      Active \<Rightarrow> ''peer_routing_unavailable'' | Deferred \<Rightarrow> ''host_deferred'' | Unreachable \<Rightarrow> ''host_unreachable''))"
  "told (explain_peer st n h p) ''this_host'' = Some (JStr (as_host st))"
  "told (explain_peer st n h p) ''ref'' = (if pr_status p = Deferred then Some (opt_str (pr_reference p)) else None)"
  by (cases "pr_status p"; simp add: explain_peer_def told_simps)+

section \<open>The properties\<close>

text \<open>C27: Admission is exact. A request is admitted exactly when the name it declares is on the allow-list
  and, under enforced pinning, the node it was seen to come from is one the identity is pinned to, where an
  unresolved node counts as the node unknown; it then acts under the declared name and no other. A request
  is refused with 401 exactly when its declared name is missing or unlisted. An Authorization header never
  changes whether, or as whom, a request is admitted; it is only named in the 401 of a request that declared
  nothing. The hop marker is passed on as it came and takes no part in the decision.\<close>
theorem auth_exact:
  "(fst (auth_middleware we ttl t d out a rq cache) = Admitted author nd fwd \<longleftrightarrow>
      (\<exists>i. caller_identity a rq = Some i \<and> author = id_author i
         \<and> (au_enforce_nodes a \<and> id_nodes i \<noteq> [] \<longrightarrow> nd \<in> set (id_nodes i)))
      \<and> nd = node_name (seen_node we ttl t d out a rq cache)
      \<and> fwd = nonblank_header (rq_headers rq) HOP_HEADER)
   \<and> (fst (auth_middleware we ttl t d out a rq cache) = Admitted author nd fwd \<longrightarrow>
        nonblank_header (rq_headers rq) AGENT_HEADER = Some author \<and> author \<in> id_author ` set (au_identities a))
   \<and> ((\<exists>w. fst (auth_middleware we ttl t d out a rq cache) = Refused_401 w) \<longleftrightarrow>
        (\<forall>name i. nonblank_header (rq_headers rq) AGENT_HEADER = Some name \<and> i \<in> set (au_identities a)
           \<longrightarrow> id_author i \<noteq> name))
   \<and> (fst (auth_middleware we ttl t d out a (without_bearer rq) cache) = Admitted author nd fwd \<longleftrightarrow>
        fst (auth_middleware we ttl t d out a rq cache) = Admitted author nd fwd)
   \<and> (fst (auth_middleware we ttl t d out a rq cache) = Refused_401 Bearer_retired \<longrightarrow>
        nonblank_header (rq_headers rq) AGENT_HEADER = None \<and> map_of (rq_headers rq) ''authorization'' \<noteq> None)"
proof -
  let ?v = "\<lambda>rq. fst (auth_middleware we ttl t d out a rq cache)"
  have ex: "?v rq = Admitted author nd fwd \<longleftrightarrow>
      (\<exists>i. caller_identity a rq = Some i \<and> author = id_author i
         \<and> (au_enforce_nodes a \<and> id_nodes i \<noteq> [] \<longrightarrow> nd \<in> set (id_nodes i)))
      \<and> nd = node_name (seen_node we ttl t d out a rq cache)
      \<and> fwd = nonblank_header (rq_headers rq) HOP_HEADER" for rq
    by (cases "caller_identity a rq") (auto simp: auth_cases Let_def)
  have who: "caller_identity a rq = Some i \<Longrightarrow>
      nonblank_header (rq_headers rq) AGENT_HEADER = Some (id_author i) \<and> i \<in> set (au_identities a)" for i
    by (auto simp: caller_identity_Some dest: find_SomeD)
  have r: "(\<exists>w. ?v rq = Refused_401 w) \<longleftrightarrow> caller_identity a rq = None"
    by (cases "caller_identity a rq") (auto simp: auth_cases Let_def)
  have n: "caller_identity a rq = None \<longleftrightarrow>
      (\<forall>name i. nonblank_header (rq_headers rq) AGENT_HEADER = Some name \<and> i \<in> set (au_identities a) \<longrightarrow> id_author i \<noteq> name)"
    by (cases "nonblank_header (rq_headers rq) AGENT_HEADER") (auto simp: caller_identity_def find_eq_None)
  have b: "?v rq = Refused_401 Bearer_retired \<longrightarrow>
      nonblank_header (rq_headers rq) AGENT_HEADER = None \<and> map_of (rq_headers rq) ''authorization'' \<noteq> None"
    by (cases "caller_identity a rq") (auto simp: auth_cases Let_def unauthorized_def split: if_splits)
  have w: "?v (without_bearer rq) = Admitted author nd fwd \<longleftrightarrow> ?v rq = Admitted author nd fwd"
    unfolding ex identity_without_bearer seen_without_bearer hop_without_bearer ..
  from ex[of rq] who r n b w show ?thesis by blast
qed

definition demo_whois :: whois_env where
  "demo_whois = \<lparr>wh_json = (\<lambda>_. None), wh_lossy = id, wh_ip = Some\<rparr>"

definition demo_auth :: auth_state where
  "demo_auth =
     \<lparr>au_identities = [\<lparr>id_author = ''claude'', id_nodes = []\<rparr>], au_spec = [(''claude'', [])], au_whois = False,
      au_enforce_nodes = True\<rparr>"

definition demo_request :: request where
  "demo_request = \<lparr>rq_headers = [(AGENT_HEADER, '' claude''), (HOP_HEADER, ''kai'')], rq_peer_ip = None\<rparr>"

theorem auth_exact_witness:
  "fst (auth_middleware demo_whois 300 0 0 None demo_auth demo_request Map.empty) = Admitted ''claude'' ''unknown'' (Some ''kai'')"
proof -
  have h: "nonblank_header (rq_headers demo_request) AGENT_HEADER = Some ''claude''"
    "nonblank_header (rq_headers demo_request) HOP_HEADER = Some ''kai''"
    unfolding demo_request_def by code_simp+
  have i: "caller_identity demo_auth demo_request = Some \<lparr>id_author = ''claude'', id_nodes = []\<rparr>"
    unfolding caller_identity_def h by (simp add: demo_auth_def)
  have s: "node_name (seen_node demo_whois 300 0 0 None demo_auth demo_request Map.empty) = ''unknown''"
    by (simp add: seen_node_def demo_auth_def node_name_def UNKNOWN_NODE_def split: option.splits)
  show ?thesis using i h(2) s by (intro auth_exact[THEN conjunct1, THEN iffD2]) (auto simp: demo_auth_def)
qed

text \<open>C28: Where a call goes, on an instance built from a validated configuration. A call is proxied exactly
  when its root is no pattern and its host part names another host that is declared, not deferred and has a
  URL; a root served here is found under its qualified name and never proxied, and a call is never both
  proxied and servable here. Where every URL declared here leads to the host it is declared for, the receiving host answers
  itself: no call takes a second hop, whatever the hosts declare about each other.\<close>
theorem calls_routed:
  assumes "build_app r = Inr (st, a)" "valid_resolved ce fs r"
  shows "(remote_target st arguments = Some (p, n) \<longleftrightarrow>
        root_argument arguments = Some n \<and> \<not> is_pattern n \<and> (\<exists>l. split_once (CHR '':'') n = Some (pr_host p, l))
        \<and> (\<exists>ps. rs_peers r = Some ps \<and> p \<in> set ps) \<and> pr_status p \<noteq> Deferred \<and> pr_url p \<noteq> None)
    \<and> (b \<in> set (rs_roots r) \<and> \<not> is_pattern (rr_name b) \<longrightarrow> state_root st (rr_name b) = Inr b)
    \<and> (state_root st n = Inr b \<and> root_argument arguments = Some n \<longrightarrow> remote_target st arguments = None)
    \<and> ((\<forall>ps q u h. rs_peers r = Some ps \<and> q \<in> set ps \<and> pr_url q = Some u \<and> net u = Some h \<longrightarrow> as_host h = pr_host q)
        \<longrightarrow> forwards net arguments st st' \<longrightarrow> \<not> forwards net arguments st' st'')"
proof -
  note wb = build_well_built[OF assms]
  have st: "as_host st = rs_host r" "as_roots st = rs_roots r" "fl_declared (as_fleet st) = rs_peers r"
    using assms(1) by (auto simp: build_app_def fleet_new_def split: if_splits)
  have "routable (as_fleet st) (pr_host p) = Some p \<and> pr_host p \<noteq> as_host st \<longleftrightarrow>
      (\<exists>ps. rs_peers r = Some ps \<and> p \<in> set ps) \<and> pr_status p \<noteq> Deferred \<and> pr_url p \<noteq> None"
  proof
    assume "routable (as_fleet st) (pr_host p) = Some p \<and> pr_host p \<noteq> as_host st"
    then show "(\<exists>ps. rs_peers r = Some ps \<and> p \<in> set ps) \<and> pr_status p \<noteq> Deferred \<and> pr_url p \<noteq> None"
      using routable_declared[of "as_fleet st" "pr_host p" p] by (simp add: st)
  next
    assume d: "(\<exists>ps. rs_peers r = Some ps \<and> p \<in> set ps) \<and> pr_status p \<noteq> Deferred \<and> pr_url p \<noteq> None"
    then obtain ps where ps: "rs_peers r = Some ps" "p \<in> set ps" by (elim exE conjE)
    have v: "distinct (map pr_host ps)" "valid_peer (as_host st) p"
      using wb ps by (auto simp: well_built_def st)
    then have "find (\<lambda>q. pr_host q = pr_host p) ps = Some p" using find_distinct[OF v(1) ps(2)] by simp
    with d ps v(2) show "routable (as_fleet st) (pr_host p) = Some p \<and> pr_host p \<noteq> as_host st"
      by (simp add: routable_def find_peer_def st valid_peer_def)
  qed
  with remote_target_Some[of st arguments p n] have 1: "remote_target st arguments = Some (p, n) \<longleftrightarrow>
        root_argument arguments = Some n \<and> \<not> is_pattern n \<and> (\<exists>l. split_once (CHR '':'') n = Some (pr_host p, l))
        \<and> (\<exists>ps. rs_peers r = Some ps \<and> p \<in> set ps) \<and> pr_status p \<noteq> Deferred \<and> pr_url p \<noteq> None"
    by argo
  have 2: "b \<in> set (rs_roots r) \<and> \<not> is_pattern (rr_name b) \<longrightarrow> state_root st (rr_name b) = Inr b"
    using state_root_served[OF wb] by (simp add: st)
  have 3: "state_root st n = Inr b \<and> root_argument arguments = Some n \<longrightarrow> remote_target st arguments = None"
  proof
    assume "state_root st n = Inr b \<and> root_argument arguments = Some n"
    with state_root_served[OF wb, of n b] have "b \<in> set (as_roots st)" "root_argument arguments = Some (rr_name b)"
      by simp_all
    then show "remote_target st arguments = None" by (rule own_root_local[OF wb])
  qed
  have 4: "\<not> forwards net arguments st' st''"
    if honest: "\<forall>ps q u h. rs_peers r = Some ps \<and> q \<in> set ps \<and> pr_url q = Some u \<and> net u = Some h
         \<longrightarrow> as_host h = pr_host q" and f: "forwards net arguments st st'"
  proof
    assume "forwards net arguments st' st''"
    then obtain p2 n2 where p2: "remote_target st' arguments = Some (p2, n2)"
      unfolding forwards_def by (elim exE conjE)
    obtain p1 n1 u where p1: "remote_target st arguments = Some (p1, n1)" "pr_url p1 = Some u" "net u = Some st'"
      using f unfolding forwards_def by (elim exE conjE)
    obtain ps where ps: "rs_peers r = Some ps" "p1 \<in> set ps"
      using p1(1) routable_declared[of "as_fleet st" "pr_host p1" p1] by (auto simp: remote_target_Some st)
    have "as_host st' = pr_host p1" using honest ps p1(2,3) by blast
    with p1(1) p2 show False by (auto simp: remote_target_Some)
  qed
  show ?thesis by (intro conjI 1 2 3) (intro impI, rule 4, assumption+)
qed

theorem calls_routed_witness:
  "\<exists>r st a. resolve demo_ce demo_fs demo_config (Some ''/c/k/config.toml'') = Inr r \<and> build_app r = Inr (st, a)
     \<and> remote_target st (Some (JObj [(''root'', JStr ''kubs0:src'')])) = Some (demo_peer, ''kubs0:src'')"
proof -
  obtain r where r: "resolve demo_ce demo_fs demo_config (Some ''/c/k/config.toml'') = Inr r"
    "rs_peers r = Some [demo_peer]" "map rr_name (rs_roots r) = [''kai:src'']"
    "rs_identities r = [\<lparr>id_author = ''claude'', id_nodes = []\<rparr>]"
    using demo_resolves by (elim exE conjE)
  have "real_dir demo_fs (ce_cwd demo_ce)" by (simp add: demo_ce_def)
  note v = resolved_valid[OF r(1) demo_tables this, THEN conjunct1]
  have "rs_roots r \<noteq> []" using r(3) by auto
  with r(4) obtain st a where b: "build_app r = Inr (st, a)" by (auto simp: build_app_def)
  have s: "split_once (CHR '':'') ''kubs0:src'' = Some (pr_host demo_peer, ''src'')" "\<not> is_pattern ''kubs0:src''"
    unfolding demo_peer_def by code_simp+
  have p: "pr_status demo_peer \<noteq> Deferred" "pr_url demo_peer \<noteq> None" by (simp_all add: demo_peer_def)
  have "remote_target st (Some (JObj [(''root'', JStr ''kubs0:src'')])) = Some (demo_peer, ''kubs0:src'')"
    by (rule calls_routed[OF b v, THEN conjunct1, THEN iffD2]) (use s p r(2) in \<open>simp add: root_argument_def\<close>)
  with r(1) b show ?thesis by blast
qed

text \<open>Without that: two hosts whose URLs for a third lead to each other pass a call back and forth, as the
  hop marker plays no part in the routing of a call.\<close>

theorem crossed_urls_loop:
  assumes "as_host st \<noteq> ''c''" "as_host st' \<noteq> ''c''"
    and "routable (as_fleet st) ''c'' = Some p" "pr_url p = Some u" "net u = Some st'"
    and "routable (as_fleet st') ''c'' = Some p'" "pr_url p' = Some u'" "net u' = Some st"
  shows "forwards net (Some (JObj [(''root'', JStr ''c:x'')])) st st' \<and> forwards net (Some (JObj [(''root'', JStr ''c:x'')])) st' st"
proof -
  have s: "split_once (CHR '':'') ''c:x'' = Some (''c'', ''x'')" "\<not> is_pattern ''c:x''" by code_simp+
  with assms show ?thesis by (auto simp: forwards_def remote_target_def root_argument_def)
qed

text \<open>A root whose local name holds a pattern character passes validation and is out of reach of every tool
  but a search over a pattern.\<close>

theorem pattern_root_unreachable:
  assumes "b \<in> set (as_roots st)" "is_pattern (rr_name b)"
  shows "\<exists>e. state_root st (rr_name b) = Inl e \<and> code e = InvalidInput"
  using assms by (simp add: state_root_def invalid_input_def new_error_def)

text \<open>C30: The answer to an unknown root is true. It is an invalid input exactly for a pattern, and otherwise
  not found, with this host and the reason; a suggestion is a root that is served; the reason is
  unknown_root only for this host, fleet_undeclared only without a fleet, host_never_declared only for a
  host the fleet does not name, and a status only of the peer that is declared with it, whose reference is
  given when it is deferred. A caller whose call was not proxied is only told that routing is not configured
  when the peer indeed has no URL.\<close>
theorem unknown_root_explained:
  assumes "state_root st n = Inl e"
  shows "if is_pattern n then code e = InvalidInput
    else code e = NotFound \<and> told e ''this_host'' = Some (JStr (as_host st))
      \<and> (\<forall>m. told e ''did_you_mean'' = Some (JStr m) \<longrightarrow> (\<exists>b\<in>set (as_roots st). rr_name b = m \<and> rr_local b = n))
      \<and> (told e ''reason'' = Some (JStr ''unqualified_root'') \<longleftrightarrow> CHR '':'' \<notin> set n)
      \<and> (\<forall>h l. split_once (CHR '':'') n = Some (h, l) \<longrightarrow>
           told e ''target_host'' = Some (JStr h)
           \<and> (told e ''reason'' = Some (JStr ''unknown_root'') \<longleftrightarrow> h = as_host st)
           \<and> (h \<noteq> as_host st \<longrightarrow>
                (told e ''reason'' = Some (JStr ''fleet_undeclared'') \<longleftrightarrow> fl_declared (as_fleet st) = None)
              \<and> (told e ''reason'' = Some (JStr ''host_never_declared'') \<longleftrightarrow>
                   fl_declared (as_fleet st) \<noteq> None \<and> find_peer (as_fleet st) h = None)
              \<and> (told e ''reason'' = Some (JStr ''host_deferred'') \<longleftrightarrow>
                   (\<exists>p. find_peer (as_fleet st) h = Some p \<and> pr_status p = Deferred
                      \<and> told e ''ref'' = Some (opt_str (pr_reference p))))
              \<and> (told e ''reason'' = Some (JStr ''host_unreachable'') \<longleftrightarrow>
                   (\<exists>p. find_peer (as_fleet st) h = Some p \<and> pr_status p = Unreachable))
              \<and> (told e ''reason'' = Some (JStr ''peer_routing_unavailable'')
                   \<and> root_argument arguments = Some n \<and> remote_target st arguments = None \<longrightarrow>
                   (\<exists>p. find_peer (as_fleet st) h = Some p \<and> pr_status p = Active \<and> pr_url p = None))))"
proof (cases "is_pattern n")
  case True
  with assms show ?thesis by (auto simp: state_root_def invalid_input_def new_error_def)
next
  case False
  then have e: "e = explain_unknown_root st n" using assms by (simp add: state_root_def split: option.splits)
  show ?thesis
  proof (cases "split_once (CHR '':'') n")
    case None
    then have colon: "CHR '':'' \<notin> set n" by simp
    show ?thesis
    proof (cases "find (\<lambda>b. rr_local b = n) (as_roots st)")
      case (Some b)
      have "e = with_data (root_data st n [(''reason'', JStr ''unqualified_root''), (''did_you_mean'', JStr (rr_name b))])
          (not_found (Msg ''root names are host-qualified'' [rr_name b, n]))"
        by (simp add: e explain_unknown_root_def None Some)
      then show ?thesis using find_SomeD[OF Some] by (auto simp: False colon None told_simps)
    next
      case none: None
      have "e = with_data (root_data st n [(''reason'', JStr ''unqualified_root'')])
          (not_found (Msg ''unknown root; roots are named host:root'' [n, as_host st]))"
        by (simp add: e explain_unknown_root_def None none)
      then show ?thesis by (simp add: False colon None told_simps)
    qed
  next
    case (Some hl)
    obtain h l where hl: "split_once (CHR '':'') n = Some (h, l)" using Some by (cases hl) auto
    then have colon: "CHR '':'' \<in> set n" by (metis option.distinct(1) split_once_None)
    consider (here) "h = as_host st" | (none) "h \<noteq> as_host st" "fl_declared (as_fleet st) = None"
      | (never) ps where "h \<noteq> as_host st" "fl_declared (as_fleet st) = Some ps" "find (\<lambda>p. pr_host p = h) ps = None"
      | (peer) ps p where "h \<noteq> as_host st" "fl_declared (as_fleet st) = Some ps" "find (\<lambda>p. pr_host p = h) ps = Some p"
      by (metis option.exhaust)
    then show ?thesis
    proof cases
      case here
      then show ?thesis by (simp add: False e colon hl explain_unknown_root_def told_simps)
    next
      case none
      then show ?thesis by (simp add: False e colon hl explain_unknown_root_def find_peer_def told_simps)
    next
      case never
      then show ?thesis by (simp add: False e colon hl explain_unknown_root_def find_peer_def told_simps)
    next
      case peer
      then have x: "e = explain_peer st n h p" "find_peer (as_fleet st) h = Some p"
        by (simp_all add: e hl explain_unknown_root_def find_peer_def)
      have m: "told (explain_peer st n h p) ''did_you_mean'' = None"
        by (cases "pr_status p"; simp add: explain_peer_def told_simps)
      have u: "pr_url p = None" if "pr_status p = Active" "root_argument arguments = Some n" "remote_target st arguments = None"
        using that peer(1) False hl x(2) by (cases "pr_url p") (simp_all add: remote_target_def routable_def)
      show ?thesis
        using u peer(1,2) by (cases "pr_status p"; simp add: False colon hl x m explain_peer_told)
    qed
  qed
qed

theorem unknown_root_explained_witness:
  "\<exists>e. state_root \<lparr>as_host = ''kai'', as_roots = [], as_fleet = fleet_new ''kai'' None, as_limits = default_limits,
        as_secrets = \<lparr>sx_allow_reveal = True, sx_shapes = []\<rparr>\<rparr> ''src'' = Inl e \<and> code e = NotFound"
proof -
  let ?st = "\<lparr>as_host = ''kai'', as_roots = [], as_fleet = fleet_new ''kai'' None, as_limits = default_limits,
        as_secrets = \<lparr>sx_allow_reveal = True, sx_shapes = []\<rparr>\<rparr>"
  have p: "\<not> is_pattern ''src''" by code_simp
  then obtain e where e: "state_root ?st ''src'' = Inl e" by (simp add: state_root_def)
  with unknown_root_explained[OF e] p show ?thesis by auto
qed

end
