(* ===== verification/Kaed_Transport.thy ===== *)
theory Kaed_Transport
  imports Kaed_Server
begin

text \<open>
  Values that cross roots and hosts (\<open>src/server.rs\<close>): the edit with a \<open>value_from\<close> of another root, the
  same on the way to a peer, and the rotation of a value that lives in several places. What peers answer is
  a parameter, one answer per call in the order the calls are made; every call made is logged with its
  peer, author and arguments. The local half runs on the engine and the journal.
\<close>

section \<open>Calls to peers\<close>

record sent =
  sn_peer :: peer
  sn_author :: rstr
  sn_tool :: rstr
  sn_args :: json
  sn_root :: rstr

record hub =
  hb_w :: "journal world"
  hb_sent :: "sent list"

type_synonym answers = "nat \<Rightarrow> call_result res"

type_synonym 'a hub_step = "hub \<Rightarrow> 'a res \<times> hub"

definition hub_bind :: "'a hub_step \<Rightarrow> ('a \<Rightarrow> 'b hub_step) \<Rightarrow> 'b hub_step" where
  "hub_bind m f h = (case m h of (Inl e, h') \<Rightarrow> (Inl e, h') | (Inr x, h') \<Rightarrow> f x h')"

definition hub_ret :: "'a \<Rightarrow> 'a hub_step" where
  "hub_ret x h = (Inr x, h)"

definition hub_res :: "'a res \<Rightarrow> 'a hub_step" where
  "hub_res r h = (r, h)"

definition on_world :: "(journal, 'a) step \<Rightarrow> 'a hub_step" where
  "on_world m h = (let (r, w) = m (hb_w h) in (r, h\<lparr>hb_w := w\<rparr>))"

text \<open>
  One logical call to a peer: one \<open>fleet.call\<close>. The log has one entry per such call, not per HTTP request:
  a call that finds its session dead is sent a second time by \<open>fleet.call\<close> itself, which is the attempt
  loop of the theory of the fleet; the answer is the one the caller of \<open>fleet.call\<close> gets.
\<close>

definition peer_call :: "answers \<Rightarrow> peer \<Rightarrow> rstr \<Rightarrow> rstr \<Rightarrow> json \<Rightarrow> rstr \<Rightarrow> call_result hub_step" where
  "peer_call answers p author tool as r h =
     (answers (length (hb_sent h)),
      h\<lparr>hb_sent := hb_sent h @ [\<lparr>sn_peer = p, sn_author = author, sn_tool = tool, sn_args = as, sn_root = r\<rparr>]\<rparr>)"

text \<open>An audit row whose failure is ignored: \<open>let _ = add_secret_event(..)\<close>.\<close>

definition note_event :: "journal_env \<Rightarrow> secret_event \<Rightarrow> hub \<Rightarrow> hub" where
  "note_event je ev h = h\<lparr>hb_w := snd (log_event je ev (hb_w h))\<rparr>"

text \<open>A result that is itself an error is the error of the call.\<close>

definition unwrap_result :: "call_result \<Rightarrow> json option res" where
  "unwrap_result res =
     (if rs_is_error res = Some True
      then Inl (kaed_error_from_value (case rs_structured res of Some v \<Rightarrow> v | None \<Rightarrow> JNull))
      else Inr (rs_structured res))"

definition serve_ctx :: "app_state \<Rightarrow> rroot \<Rightarrow> rstr \<Rightarrow> rstr \<Rightarrow> secret_ctx" where
  "serve_ctx st b author node =
     \<lparr>cx_root = b, cx_roots = as_roots st, cx_limits = as_limits st, cx_author = author, cx_node = node,
      cx_secrets = as_secrets st\<rparr>"

definition route_to :: "app_state \<Rightarrow> rstr \<Rightarrow> peer res" where
  "route_to st r =
     (case split_once (CHR '':'') r of
        None \<Rightarrow> Inl (explain_unknown_root st r)
      | Some (host, _) \<Rightarrow> ok_or (routable (as_fleet st) host) (explain_unknown_root st r))"

section \<open>Fetching a value\<close>

definition local_value :: "crates \<Rightarrow> fsys \<Rightarrow> limits \<Rightarrow> rroot \<Rightarrow> value_from \<Rightarrow> rstr res" where
  "local_value ck fs lm b vf =
     and_then (load_text ck fs b (vf_path vf) lm) (\<lambda>l.
     and_then
       (case ld_secrecy l of
          ClassifiedDotenv _ file \<Rightarrow> Inr file
        | Plain \<Rightarrow> ok_or (Kaed_Dotenv.parse (ld_content l))
                     (invalid_input (Msg ''value_from source is not dotenv-shaped'' [vf_path vf]))) (\<lambda>file.
     and_then (ok_or (get_entry file (vf_key vf))
                 (not_found (Msg ''value_from source has no key'' [vf_path vf, vf_key vf]))) (\<lambda>e.
     case vf_digest vf of
       None \<Rightarrow> Inr (e_value e)
     | Some d \<Rightarrow>
         if digest_of (cr_h ck) (e_value e) \<noteq> d
         then Inl (with_data
                (JObj [(''reason'', JStr ''digest_mismatch''), (''path'', JStr (vf_path vf)),
                       (''key'', JStr (vf_key vf)), (''expected_digest'', JStr d)])
                (invalid_input (Msg ''value_from digest mismatch'' [vf_key vf, vf_path vf])))
         else Inr (e_value e))))"

definition reveal_args :: "rstr \<Rightarrow> value_from \<Rightarrow> rstr \<Rightarrow> json" where
  "reveal_args src vf destination =
     JObj ([(''root'', JStr src), (''path'', JStr (vf_path vf)), (''key'', JStr (vf_key vf)),
            (''intent'', JStr (''cross-host value_from toward '' @ destination))]
           @ (case vf_digest vf of Some d \<Rightarrow> [(''expected_digest'', JStr d)] | None \<Rightarrow> [])
           @ [(''transport_destination'', JStr destination)])"

definition transport_row ::
  "crates \<Rightarrow> journal_env \<Rightarrow> secret_ctx \<Rightarrow> rstr \<Rightarrow> value_from \<Rightarrow> rstr \<Rightarrow> rstr \<Rightarrow> secret_event" where
  "transport_row ck je cx src vf v destination =
     secret_row je cx ''transport'' src (vf_path vf) (vf_key vf) None (floor_digest (cr_h ck) v) True
       (Some destination) None None"

definition fetch_secret_value ::
  "crates \<Rightarrow> journal_env \<Rightarrow> answers \<Rightarrow> app_state \<Rightarrow> rstr \<Rightarrow> rstr \<Rightarrow> value_from \<Rightarrow> rstr \<Rightarrow> rstr \<Rightarrow> bool \<Rightarrow> rstr hub_step" where
  "fetch_secret_value ck je answers st author node vf src destination leaves_host =
     (case find (\<lambda>b. rr_name b = src) (as_roots st) of
        Some b \<Rightarrow> (\<lambda>h.
          case local_value ck (w_fs (hb_w h)) (as_limits st) b vf of
            Inl e \<Rightarrow> (Inl e, h)
          | Inr v \<Rightarrow>
              (Inr v,
               if leaves_host
               then note_event je (transport_row ck je (serve_ctx st b author node) src vf v destination) h
               else h))
      | None \<Rightarrow>
          hub_bind (hub_res (route_to st src)) (\<lambda>p.
          hub_bind (peer_call answers p author ''secret_reveal'' (reveal_args src vf destination) src) (\<lambda>res.
          hub_bind (hub_res (unwrap_result res)) (\<lambda>payload.
          hub_res (ok_or (Option.bind (Option.bind payload (\<lambda>v. json_get v ''value'')) as_str)
                     (internal_error (Msg ''answered secret_reveal without a value'' [pr_host p])))))))"

section \<open>The edit\<close>

text \<open>A reference to another root is replaced by its value before the engine runs; others stay.\<close>

definition pull_op ::
  "crates \<Rightarrow> journal_env \<Rightarrow> answers \<Rightarrow> app_state \<Rightarrow> rstr \<Rightarrow> rstr \<Rightarrow> rstr \<Rightarrow> edit_op \<Rightarrow> edit_op hub_step" where
  "pull_op ck je answers st author node r op =
     (case op of
        EnvSet path key v (Some vf) comment \<Rightarrow>
          (case vf_root vf of
             Some src \<Rightarrow>
               if src \<noteq> r
               then hub_bind (fetch_secret_value ck je answers st author node vf src (r @ ''/'' @ path) False)
                      (\<lambda>fetched. hub_ret (EnvSet path key (Some fetched) None comment))
               else hub_ret op
           | None \<Rightarrow> hub_ret op)
      | _ \<Rightarrow> hub_ret op)"

fun pull_ops ::
  "crates \<Rightarrow> journal_env \<Rightarrow> answers \<Rightarrow> app_state \<Rightarrow> rstr \<Rightarrow> rstr \<Rightarrow> rstr \<Rightarrow> edit_op list \<Rightarrow> edit_op list hub_step" where
  "pull_ops ck je answers st author node r [] = hub_ret []"
| "pull_ops ck je answers st author node r (op # ops) =
     hub_bind (pull_op ck je answers st author node r op) (\<lambda>op'.
     hub_bind (pull_ops ck je answers st author node r ops) (\<lambda>ops'. hub_ret (op' # ops')))"

definition serve_edit ::
  "crates \<Rightarrow> journal_env \<Rightarrow> answers \<Rightarrow> app_state \<Rightarrow> rstr \<Rightarrow> rstr \<Rightarrow> rstr \<Rightarrow> edit_request \<Rightarrow> edit_outcome hub_step" where
  "serve_edit ck je answers st author node r req =
     hub_bind (pull_ops ck je answers st author node r (er_ops req)) (\<lambda>ops.
     hub_bind (hub_res (state_root st r)) (\<lambda>b.
     on_world (apply_txn ck (as_node je node) b (req\<lparr>er_ops := ops\<rparr>) (as_limits st) author)))"

section \<open>The edit on its way to a peer\<close>

text \<open>Serde's reading of a \<open>ValueFrom\<close>: the fields by name, no others, an optional one may be null.\<close>

definition opt_field :: "json \<Rightarrow> rstr \<Rightarrow> rstr option option" where
  "opt_field j k =
     (case json_get j k of
        None \<Rightarrow> Some None
      | Some JNull \<Rightarrow> Some None
      | Some (JStr s) \<Rightarrow> Some (Some s)
      | Some _ \<Rightarrow> None)"

definition value_from_of :: "json \<Rightarrow> value_from option" where
  "value_from_of j =
     (case j of
        JObj m \<Rightarrow>
          if set (map fst m) \<subseteq> {''root'', ''path'', ''key'', ''digest''}
          then (case (opt_field j ''root'', Option.bind (json_get j ''path'') as_str,
                      Option.bind (json_get j ''key'') as_str, opt_field j ''digest'') of
                  (Some r, Some p, Some k, Some d) \<Rightarrow> Some \<lparr>vf_root = r, vf_path = p, vf_key = k, vf_digest = d\<rparr>
                | _ \<Rightarrow> None)
          else None
      | _ \<Rightarrow> None)"

text \<open>The source a raw operation must be resolved from before it can be forwarded to \<open>target_host\<close>.\<close>

definition foreign_source :: "rstr \<Rightarrow> json \<Rightarrow> (json \<times> rstr) option" where
  "foreign_source target_host op =
     (if Option.bind (json_get op ''op'') as_str \<noteq> Some ''env_set'' then None
      else (case json_get op ''value_from'' of
              None \<Rightarrow> None
            | Some vj \<Rightarrow>
                (case Option.bind (json_get vj ''root'') as_str of
                   None \<Rightarrow> None
                 | Some src \<Rightarrow>
                     (case split_once (CHR '':'') src of
                        Some (h, _) \<Rightarrow> if h = target_host then None else Some (vj, src)
                      | None \<Rightarrow> Some (vj, src)))))"

fun obj_without :: "rstr \<Rightarrow> json \<Rightarrow> json" where
  "obj_without k (JObj m) = JObj (filter (\<lambda>(k', _). k' \<noteq> k) m)"
| "obj_without k j = j"

fun obj_with :: "rstr \<Rightarrow> json \<Rightarrow> json \<Rightarrow> json" where
  "obj_with k v (JObj m) = JObj (obj_insert k v m)"
| "obj_with k v j = j"

definition resolve_raw_op ::
  "crates \<Rightarrow> journal_env \<Rightarrow> answers \<Rightarrow> app_state \<Rightarrow> rstr \<Rightarrow> rstr \<Rightarrow> rstr \<Rightarrow> rstr \<Rightarrow> json \<Rightarrow> json hub_step" where
  "resolve_raw_op ck je answers st author node target_host target_root op =
     (case foreign_source target_host op of
        None \<Rightarrow> hub_ret op
      | Some (vj, src) \<Rightarrow>
          hub_bind (hub_res (ok_or (value_from_of vj) (invalid_input (Msg ''malformed value_from'' [])))) (\<lambda>vf.
          let op_path = (case Option.bind (json_get op ''path'') as_str of Some q \<Rightarrow> q | None \<Rightarrow> []) in
          hub_bind (fetch_secret_value ck je answers st author node vf src (target_root @ ''/'' @ op_path) True) (\<lambda>fetched.
          hub_ret (obj_without ''value_from'' (obj_with ''value'' (JStr fetched) op)))))"

fun resolve_raw_ops ::
  "crates \<Rightarrow> journal_env \<Rightarrow> answers \<Rightarrow> app_state \<Rightarrow> rstr \<Rightarrow> rstr \<Rightarrow> rstr \<Rightarrow> rstr \<Rightarrow> json list \<Rightarrow> json list hub_step" where
  "resolve_raw_ops ck je answers st author node th tr [] = hub_ret []"
| "resolve_raw_ops ck je answers st author node th tr (op # ops) =
     hub_bind (resolve_raw_op ck je answers st author node th tr op) (\<lambda>op'.
     hub_bind (resolve_raw_ops ck je answers st author node th tr ops) (\<lambda>ops'. hub_ret (op' # ops')))"

definition resolve_proxied_value_froms ::
  "crates \<Rightarrow> journal_env \<Rightarrow> answers \<Rightarrow> app_state \<Rightarrow> rstr \<Rightarrow> rstr \<Rightarrow> rstr \<Rightarrow> rstr \<Rightarrow> json \<Rightarrow> json hub_step" where
  "resolve_proxied_value_froms ck je answers st author node target_host target_root as =
     (case Option.bind (json_get as ''ops'') as_array of
        None \<Rightarrow> hub_ret as
      | Some ops \<Rightarrow>
          hub_bind (resolve_raw_ops ck je answers st author node target_host target_root ops) (\<lambda>ops'.
          hub_ret (obj_with ''ops'' (JArr ops') as)))"

text \<open>The forwarding half of \<open>call_tool\<close>; a failure on the way is the result of the call.\<close>

definition forward_call ::
  "crates \<Rightarrow> journal_env \<Rightarrow> answers \<Rightarrow> app_state \<Rightarrow> rstr \<Rightarrow> rstr \<Rightarrow> rstr \<Rightarrow> json \<Rightarrow> peer \<times> rstr \<Rightarrow> call_result hub_step" where
  "forward_call ck je answers st author node tool as = (\<lambda>(p, r).
     hub_bind (if tool = ''edit'' then resolve_proxied_value_froms ck je answers st author node (pr_host p) r as
               else hub_ret as) (\<lambda>as'.
     peer_call answers p author tool as' r))"

section \<open>Rotating a value in several places\<close>

record rotate_call =
  rc_root :: rstr
  rc_path :: rstr
  rc_key :: rstr
  rc_version :: "rstr option"
  rc_shape :: "rstr option"
  rc_also :: "also_target list"
  rc_intent :: "rstr option"

definition also_local :: "rstr \<Rightarrow> also_target \<Rightarrow> bool" where
  "also_local r t \<longleftrightarrow> (case at_root t of None \<Rightarrow> True | Some x \<Rightarrow> x = r)"

definition also_same_host :: "app_state \<Rightarrow> also_target \<Rightarrow> bool" where
  "also_same_host st t \<longleftrightarrow>
     (case Option.bind (at_root t) (split_once (CHR '':'')) of Some (h, _) \<Rightarrow> h = as_host st | None \<Rightarrow> False)"

definition edit_args :: "app_state \<Rightarrow> rstr \<Rightarrow> rstr \<Rightarrow> rstr \<Rightarrow> rstr \<Rightarrow> rstr \<Rightarrow> rstr option \<Rightarrow> json" where
  "edit_args st r path key version v intent =
     JObj [(''root'', JStr r),
           (''base'', JArr [JObj [(''path'', JStr path), (''version'', JStr version)]]),
           (''ops'', JArr [JObj [(''op'', JStr ''env_set''), (''path'', JStr path), (''key'', JStr key), (''value'', JStr v)]]),
           (''drop_keys'', JArr [JStr key]),
           (''intent'', JStr (case intent of Some i \<Rightarrow> i
                              | None \<Rightarrow> ''rotate '' @ key @ '' (propagated from '' @ as_host st @ '')''))]"

definition write_value_to_peer ::
  "answers \<Rightarrow> app_state \<Rightarrow> rstr \<Rightarrow> rstr \<Rightarrow> rstr \<Rightarrow> rstr \<Rightarrow> rstr \<Rightarrow> rstr \<Rightarrow> rstr option \<Rightarrow> unit hub_step" where
  "write_value_to_peer answers st author r path key version v intent =
     hub_bind (hub_res (route_to st r)) (\<lambda>p.
     hub_bind (peer_call answers p author ''edit'' (edit_args st r path key version v intent) r) (\<lambda>res.
     hub_bind (hub_res (unwrap_result res)) (\<lambda>_. hub_ret ())))"

definition target_key :: "rotate_call \<Rightarrow> also_target \<Rightarrow> rstr" where
  "target_key c t = (case at_key t of Some k \<Rightarrow> k | None \<Rightarrow> rc_key c)"

definition push_target :: "rotated_target \<Rightarrow> rotate_result \<Rightarrow> rotate_result" where
  "push_target t out = out\<lparr>ro_targets := ro_targets out @ [t]\<rparr>"

text \<open>One target in another root of this host, written in its own transaction.\<close>

definition rotate_same_host ::
  "crates \<Rightarrow> journal_env \<Rightarrow> app_state \<Rightarrow> rstr \<Rightarrow> rstr \<Rightarrow> rotate_call \<Rightarrow> rstr \<Rightarrow> also_target
    \<Rightarrow> rotate_result \<times> hub \<Rightarrow> rotate_result \<times> hub" where
  "rotate_same_host ck je st author node c v t = (\<lambda>(out, h).
     (let r = the (at_root t); key = target_key c t in
      case state_root st r of
        Inl e \<Rightarrow>
          (push_target \<lparr>rt_root = r, rt_path = at_path t, rt_key = key, rt_applied = False,
                        rt_error = Some (error_json e), rt_txn_id = None\<rparr> out, h)
      | Inr b \<Rightarrow>
          (let cx = serve_ctx st b author node in
           case on_world (write_value_local ck je cx (at_path t) key (at_version t) v (rc_intent c)) h of
             (Inr txn_id, h') \<Rightarrow>
               (push_target \<lparr>rt_root = r, rt_path = at_path t, rt_key = key, rt_applied = True, rt_error = None,
                             rt_txn_id = txn_id\<rparr> out,
                note_event je (secret_row je cx ''rotate'' r (at_path t) key (ro_old_digest out) (ro_new_digest out)
                    False None txn_id (rc_intent c)) h')
           | (Inl e, h') \<Rightarrow>
               (push_target \<lparr>rt_root = r, rt_path = at_path t, rt_key = key, rt_applied = False,
                             rt_error = Some (error_json e), rt_txn_id = None\<rparr> out, h'))))"

text \<open>One target on another host. The row it leaves here carries the intent as the caller wrote it.\<close>

definition rotate_remote ::
  "journal_env \<Rightarrow> answers \<Rightarrow> app_state \<Rightarrow> secret_ctx \<Rightarrow> rotate_call \<Rightarrow> rstr \<Rightarrow> also_target
    \<Rightarrow> rotate_result \<times> hub \<Rightarrow> rotate_result \<times> hub" where
  "rotate_remote je answers st cx c v t = (\<lambda>(out, h).
     (let r = the (at_root t); key = target_key c t in
      case write_value_to_peer answers st (cx_author cx) r (at_path t) key (at_version t) v (rc_intent c) h of
        (Inr _, h') \<Rightarrow>
          (push_target \<lparr>rt_root = r, rt_path = at_path t, rt_key = key, rt_applied = True, rt_error = None,
                        rt_txn_id = None\<rparr> out,
           note_event je ((secret_row je cx ''transport'' (hd_root (ro_handle out)) (rc_path c) (rc_key c)
               (ro_old_digest out) (ro_new_digest out) True (Some (r @ ''/'' @ at_path t)) (ro_txn_id out) None)
               \<lparr>se_intent := rc_intent c\<rparr>) h')
      | (Inl e, h') \<Rightarrow>
          (push_target \<lparr>rt_root = r, rt_path = at_path t, rt_key = key, rt_applied = False,
                        rt_error = Some (error_json e), rt_txn_id = None\<rparr> out, h')))"

definition secret_rotate ::
  "crates \<Rightarrow> journal_env \<Rightarrow> entropy \<Rightarrow> answers \<Rightarrow> app_state \<Rightarrow> rstr \<Rightarrow> rstr \<Rightarrow> rotate_call \<Rightarrow> rotate_result hub_step" where
  "secret_rotate ck je en answers st author node c =
     (case rc_version c of
        None \<Rightarrow> hub_res (Inl (invalid_input (Msg ''rotate needs version'' [])))
      | Some version \<Rightarrow>
          (let elsewhere = filter (\<lambda>t. \<not> also_local (rc_root c) t) (rc_also c) in
           hub_bind (hub_res (state_root st (rc_root c))) (\<lambda>b.
           let cx = serve_ctx st b author node in
           hub_bind (on_world (rotate_local ck je en cx
               \<lparr>rp_path = rc_path c, rp_key = rc_key c, rp_version = version, rp_shape = rc_shape c,
                rp_also = filter (also_local (rc_root c)) (rc_also c), rp_intent = rc_intent c\<rparr>)) (\<lambda>(out, v) h.
           let (out1, h1) = fold (rotate_same_host ck je st author node c v) (filter (also_same_host st) elsewhere) (out, h);
               (out2, h2) = fold (rotate_remote je answers st cx c v) (filter (\<lambda>t. \<not> also_same_host st t) elsewhere) (out1, h1)
           in (Inr out2, h2)))))"

end
