(* ===== verification/Kaed_Transport_Facts.thy ===== *)
theory Kaed_Transport_Facts
  imports Kaed_Transport Kaed_Rotate_Facts Kaed_Server_Facts
begin

text \<open>
  What leaves this host and toward whom: a rotation sends its new value to the hosts of its targets and to
  no others, and reports what became of each; a call on its way to a peer is rewritten only where it names
  a source the peer cannot see.
\<close>

lemma on_world_sent: "on_world m h = (r, h') \<Longrightarrow> hb_sent h' = hb_sent h"
  by (auto simp: on_world_def split: prod.splits)

lemma note_event_sent [simp]: "hb_sent (note_event je ev h) = hb_sent h"
  by (simp add: note_event_def)

lemma hub_bind_Inl: "hub_bind m f h = (Inl e, h') \<Longrightarrow>
    m h = (Inl e, h') \<or> (\<exists>x h1. m h = (Inr x, h1) \<and> f x h1 = (Inl e, h'))"
  by (auto simp: hub_bind_def split: prod.splits sum.splits)

lemma hub_bind_Inr: "hub_bind m f h = (Inr y, h') \<longleftrightarrow> (\<exists>x h1. m h = (Inr x, h1) \<and> f x h1 = (Inr y, h'))"
  by (auto simp: hub_bind_def split: prod.splits sum.splits)

lemma hub_res_bind [simp]:
  "hub_bind (hub_res (Inr x)) f = f x" "hub_bind (hub_res (Inl e)) f = (\<lambda>h. (Inl e, h))"
  by (simp_all add: hub_bind_def hub_res_def fun_eq_iff)

lemma hub_ret_simps [simp]: "hub_ret x h = (Inr x, h)" "hub_bind (hub_ret x) f = f x"
  by (simp_all add: hub_ret_def hub_bind_def fun_eq_iff)

lemma hub_res_apply [simp]: "hub_res r h = (r, h)"
  by (simp add: hub_res_def)

section \<open>Rotation\<close>

definition accepted :: "call_result res \<Rightarrow> bool" where
  "accepted a \<longleftrightarrow> (\<exists>res. a = Inr res \<and> rs_is_error res \<noteq> Some True)"

text \<open>The call a target on another host is written with, when its root is routable.\<close>

definition rotate_sends :: "app_state \<Rightarrow> rstr \<Rightarrow> rotate_call \<Rightarrow> rstr \<Rightarrow> also_target \<Rightarrow> sent list" where
  "rotate_sends st author c v t =
     (case route_to st (the (at_root t)) of
        Inl _ \<Rightarrow> []
      | Inr p \<Rightarrow> [\<lparr>sn_peer = p, sn_author = author, sn_tool = ''edit'',
                  sn_args = edit_args st (the (at_root t)) (at_path t) (target_key c t) (at_version t) v (rc_intent c),
                  sn_root = the (at_root t)\<rparr>])"

definition same_place :: "rotate_call \<Rightarrow> also_target \<Rightarrow> rotated_target \<Rightarrow> bool" where
  "same_place c t x \<longleftrightarrow> rt_root x = the (at_root t) \<and> rt_path x = at_path t \<and> rt_key x = target_key c t
     \<and> (rt_applied x \<longleftrightarrow> rt_error x = None)"

lemma write_value_sent:
  assumes "write_value_to_peer answers st author r path key version v intent h = (res, h')"
  shows "case route_to st r of
      Inl e \<Rightarrow> res = Inl e \<and> h' = h
    | Inr p \<Rightarrow> h' = h\<lparr>hb_sent := hb_sent h @ [\<lparr>sn_peer = p, sn_author = author, sn_tool = ''edit'',
          sn_args = edit_args st r path key version v intent, sn_root = r\<rparr>]\<rparr>
        \<and> (res = Inr () \<longleftrightarrow> accepted (answers (length (hb_sent h))))"
proof (cases "route_to st r")
  case (Inl e)
  with assms show ?thesis by (simp add: write_value_to_peer_def)
next
  case (Inr p)
  show ?thesis
  proof (cases "answers (length (hb_sent h))")
    case (Inl e)
    with assms \<open>route_to st r = Inr p\<close> show ?thesis
      by (auto simp: write_value_to_peer_def peer_call_def hub_bind_def accepted_def)
  next
    case (Inr res')
    with assms \<open>route_to st r = Inr p\<close> show ?thesis
      by (cases "rs_is_error res' = Some True")
        (auto simp: write_value_to_peer_def peer_call_def hub_bind_def unwrap_result_def accepted_def)
  qed
qed

text \<open>
  What became of a target in another root of this host: its own edit of the file ran in the world \<open>w\<close>, and
  the row says what that edit returned. Where it went through, the file it was written to holds the new
  value, in a world without lies of the environment, and a row stands in the audit stream.
\<close>

definition file_holds ::
  "crates \<Rightarrow> rroot \<Rightarrow> limits \<Rightarrow> rstr \<Rightarrow> rstr \<Rightarrow> rstr \<Rightarrow> rstr \<Rightarrow> fsys \<Rightarrow> fsys \<Rightarrow> bool" where
  "file_holds ck b lm path key version v fs fs' \<longleftrightarrow>
     (\<exists>l f. load_text ck fs b path lm = Inr l \<and> ld_version l = version
        \<and> fs_nodes fs' (ld_abs l) = Some (FileN (render f) (perm_bits (ld_mode l)))
        \<and> Kaed_Dotenv.parse (render f) = Some f \<and> map_option e_value (get_entry f key) = Some v)"

definition same_host_result ::
  "crates \<Rightarrow> journal_env \<Rightarrow> app_state \<Rightarrow> rstr \<Rightarrow> rstr \<Rightarrow> rotate_call \<Rightarrow> rstr \<Rightarrow> rstr option \<times> rstr option
     \<Rightarrow> also_target \<Rightarrow> rotated_target \<Rightarrow> journal world \<Rightarrow> journal world \<Rightarrow> bool" where
  "same_host_result ck je st author node c v digests t x w w' \<longleftrightarrow> same_place c t x \<and>
     (case state_root st (the (at_root t)) of
        Inl e \<Rightarrow> \<not> rt_applied x \<and> rt_error x = Some (error_json e) \<and> rt_txn_id x = None \<and> w' = w
      | Inr b \<Rightarrow>
          (let cx = serve_ctx st b author node in
           case write_value_local ck je cx (at_path t) (target_key c t) (at_version t) v (rc_intent c) w of
             (Inl e, w1) \<Rightarrow> \<not> rt_applied x \<and> rt_error x = Some (error_json e) \<and> rt_txn_id x = None \<and> w' = w1
           | (Inr n, w1) \<Rightarrow> rt_applied x \<and> rt_txn_id x = n
               \<and> w' = snd (log_event je (secret_row je cx ''rotate'' (rt_root x) (rt_path x) (rt_key x)
                             (fst digests) (snd digests) False None n (rc_intent c)) w1)
               \<and> (storable v \<and> real_dir (w_fs w) (rr_path b) \<and> honest w
                    \<and> (\<forall>l. load_text ck (w_fs w) b (at_path t) (as_limits st) = Inr l \<longrightarrow> unmarked_path (ld_abs l)) \<longrightarrow>
                    file_holds ck b (as_limits st) (rt_path x) (rt_key x) (at_version t) v (w_fs w) (w_fs w'))))"

lemma write_value_holds:
  assumes "write_value_local ck je cx path key version v intent w = (Inr n, w')"
    and "storable v" "real_dir (w_fs w) (rr_path (cx_root cx))" "honest w"
    and "\<forall>l. load_text ck (w_fs w) (cx_root cx) path (cx_limits cx) = Inr l \<longrightarrow> unmarked_path (ld_abs l)"
  shows "file_holds ck (cx_root cx) (cx_limits cx) path key version v (w_fs w) (w_fs w')"
proof -
  obtain eo where a: "apply_txn ck (bare_recorder je) (cx_root cx)
      (set_one path version key v None (case intent of Some i \<Rightarrow> i | None \<Rightarrow> ''rotate '' @ key @ '' (cross-root, same host)'')
         False [key]) (cx_limits cx) (cx_author cx) w = (Inr eo, w')"
    using assms(1) by (auto simp: write_value_local_def set_one_def bind_step_Inr ret_def)
  show ?thesis
  proof (rule set_one_effect[OF a assms(2-5)])
    fix l f f'
    assume l: "load_text ck (w_fs w) (cx_root cx) path (cx_limits cx) = Inr l" "ld_version l = version"
      "env_set f key (Some v) None = Inr f'" "Kaed_Dotenv.parse (render f') = Some f'"
      "fs_nodes (w_fs w') (ld_abs l) = Some (FileN (render f') (perm_bits (ld_mode l)))"
    have "map_option e_value (get_entry f' key) = Some v" using env_set_get[OF l(3)] by blast
    with l show ?thesis unfolding file_holds_def by blast
  qed
qed

lemma snd_log_event_fs: "w_fs (snd (log_event je e w)) = w_fs w"
  using log_event_fs[of je e w] by (cases "log_event je e w") simp

lemma rotate_same_host_step:
  assumes "rotate_same_host ck je st author node c v t (out, h) = (out', h')"
  shows "hb_sent h' = hb_sent h \<and> ro_old_digest out' = ro_old_digest out \<and> ro_new_digest out' = ro_new_digest out
    \<and> (\<exists>x. ro_targets out' = ro_targets out @ [x]
         \<and> same_host_result ck je st author node c v (ro_old_digest out, ro_new_digest out) t x (hb_w h) (hb_w h'))"
proof (cases "state_root st (the (at_root t))")
  case (Inl e)
  with assms show ?thesis
    by (auto simp: rotate_same_host_def push_target_def same_place_def same_host_result_def Let_def)
next
  case (Inr b)
  let ?cx = "serve_ctx st b author node"
  obtain r w1 where w: "write_value_local ck je ?cx (at_path t) (target_key c t) (at_version t) v (rc_intent c) (hb_w h) = (r, w1)"
    by fastforce
  have cx: "cx_root ?cx = b" "cx_limits ?cx = as_limits st" by (simp_all add: serve_ctx_def)
  show ?thesis
  proof (cases r)
    case (Inl e)
    with assms Inr w show ?thesis
      by (auto simp: rotate_same_host_def on_world_def push_target_def same_place_def same_host_result_def Let_def)
  next
    case (Inr n)
    note hold = write_value_holds[OF w[unfolded Inr], unfolded cx]
    from assms \<open>state_root st (the (at_root t)) = Inr b\<close> w Inr hold show ?thesis
      by (auto simp: rotate_same_host_def on_world_def push_target_def same_place_def same_host_result_def
          note_event_def snd_log_event_fs Let_def)
  qed
qed

text \<open>Targets handled one after the other, each in the world the one before has left.\<close>

inductive in_turn :: "('t \<Rightarrow> 'x \<Rightarrow> 'w \<Rightarrow> 'w \<Rightarrow> bool) \<Rightarrow> 't list \<Rightarrow> 'x list \<Rightarrow> 'w \<Rightarrow> 'w \<Rightarrow> bool"
  for R where
  all_handled: "in_turn R [] [] w w"
| one_more: "R t x w w1 \<Longrightarrow> in_turn R ts xs w1 w2 \<Longrightarrow> in_turn R (t # ts) (x # xs) w w2"

lemma in_turn_all2:
  assumes "in_turn R ts xs w w'" "\<And>t x w w'. R t x w w' \<Longrightarrow> P t x"
  shows "list_all2 P ts xs"
  using assms(1) by (induction rule: in_turn.induct) (simp_all add: assms(2))

lemma rotate_same_hosts:
  assumes "fold (rotate_same_host ck je st author node c v) ts (out, h) = (out', h')"
  shows "hb_sent h' = hb_sent h \<and> ro_old_digest out' = ro_old_digest out \<and> ro_new_digest out' = ro_new_digest out
    \<and> (\<exists>xs. ro_targets out' = ro_targets out @ xs
         \<and> in_turn (same_host_result ck je st author node c v (ro_old_digest out, ro_new_digest out)) ts xs (hb_w h) (hb_w h'))"
  using assms
proof (induction ts arbitrary: out h)
  case Nil
  then show ?case by (simp add: in_turn.all_handled)
next
  case (Cons t ts)
  obtain o1 h1 where s: "rotate_same_host ck je st author node c v t (out, h) = (o1, h1)" by fastforce
  with Cons.prems have f: "fold (rotate_same_host ck je st author node c v) ts (o1, h1) = (out', h')" by simp
  from rotate_same_host_step[OF s] obtain x where x: "hb_sent h1 = hb_sent h"
    "ro_old_digest o1 = ro_old_digest out" "ro_new_digest o1 = ro_new_digest out" "ro_targets o1 = ro_targets out @ [x]"
    "same_host_result ck je st author node c v (ro_old_digest out, ro_new_digest out) t x (hb_w h) (hb_w h1)"
    by (elim exE conjE)
  from Cons.IH[OF f] obtain xs where "hb_sent h' = hb_sent h1" "ro_old_digest out' = ro_old_digest o1"
    "ro_new_digest out' = ro_new_digest o1" "ro_targets out' = ro_targets o1 @ xs"
    "in_turn (same_host_result ck je st author node c v (ro_old_digest o1, ro_new_digest o1)) ts xs (hb_w h1) (hb_w h')"
    by (elim exE conjE)
  with x show ?case by (intro conjI exI[of _ "x # xs"]) (auto intro: in_turn.one_more)
qed

text \<open>
  What became of a target on another host: not applied when its root cannot be routed, and otherwise
  applied exactly when the call made for it, the one with number \<open>k\<close>, was answered with a success.
\<close>

definition remote_result :: "answers \<Rightarrow> app_state \<Rightarrow> rotate_call \<Rightarrow> nat \<Rightarrow> also_target \<Rightarrow> rotated_target \<Rightarrow> bool" where
  "remote_result answers st c k t x \<longleftrightarrow> same_place c t x \<and> rt_txn_id x = None \<and>
     (case route_to st (the (at_root t)) of
        Inl e \<Rightarrow> \<not> rt_applied x \<and> rt_error x = Some (error_json e)
      | Inr p \<Rightarrow> rt_applied x \<longleftrightarrow> accepted (answers k))"

lemma rotate_remote_step:
  assumes "rotate_remote je answers st cx c v t (out, h) = (out', h')"
  shows "hb_sent h' = hb_sent h @ rotate_sends st (cx_author cx) c v t
    \<and> (\<exists>x. ro_targets out' = ro_targets out @ [x] \<and> remote_result answers st c (length (hb_sent h)) t x)"
proof -
  obtain r h1 where w: "write_value_to_peer answers st (cx_author cx) (the (at_root t)) (at_path t) (target_key c t)
      (at_version t) v (rc_intent c) h = (r, h1)" by fastforce
  note s = write_value_sent[OF w]
  show ?thesis
  proof (cases "route_to st (the (at_root t))")
    case (Inl e)
    with s w assms show ?thesis
      by (auto simp: rotate_remote_def push_target_def same_place_def rotate_sends_def remote_result_def Let_def)
  next
    case (Inr p)
    have sent: "hb_sent h1 = hb_sent h @ rotate_sends st (cx_author cx) c v t" using s Inr by (simp add: rotate_sends_def)
    have "hb_sent h' = hb_sent h1 \<and> (\<exists>x. ro_targets out' = ro_targets out @ [x] \<and> same_place c t x
        \<and> rt_txn_id x = None \<and> (rt_applied x \<longleftrightarrow> r = Inr ()))"
      using w assms by (cases r) (auto simp: rotate_remote_def push_target_def same_place_def Let_def)
    with s Inr sent show ?thesis by (auto simp: remote_result_def)
  qed
qed

lemma rotate_remotes:
  assumes "fold (rotate_remote je answers st cx c v) ts (out, h) = (out', h')"
  shows "hb_sent h' = hb_sent h @ concat (map (rotate_sends st (cx_author cx) c v) ts)
    \<and> (\<exists>xs. ro_targets out' = ro_targets out @ xs \<and> length xs = length ts
         \<and> (\<forall>i<length ts. remote_result answers st c
              (length (hb_sent h) + length (concat (map (rotate_sends st (cx_author cx) c v) (take i ts)))) (ts ! i) (xs ! i)))"
  using assms
proof (induction ts arbitrary: out h)
  case (Cons t ts)
  obtain o1 h1 where s: "rotate_remote je answers st cx c v t (out, h) = (o1, h1)" by fastforce
  with Cons.prems have f: "fold (rotate_remote je answers st cx c v) ts (o1, h1) = (out', h')" by simp
  from rotate_remote_step[OF s] obtain x where x: "hb_sent h1 = hb_sent h @ rotate_sends st (cx_author cx) c v t"
    "ro_targets o1 = ro_targets out @ [x]" "remote_result answers st c (length (hb_sent h)) t x"
    by (elim exE conjE)
  from Cons.IH[OF f] obtain xs where xs: "hb_sent h' = hb_sent h1 @ concat (map (rotate_sends st (cx_author cx) c v) ts)"
    "ro_targets out' = ro_targets o1 @ xs" "length xs = length ts"
    "\<forall>i<length ts. remote_result answers st c
       (length (hb_sent h1) + length (concat (map (rotate_sends st (cx_author cx) c v) (take i ts)))) (ts ! i) (xs ! i)"
    by (elim exE conjE)
  have "remote_result answers st c
      (length (hb_sent h) + length (concat (map (rotate_sends st (cx_author cx) c v) (take i (t # ts)))))
      ((t # ts) ! i) ((x # xs) ! i)" if "i < length (t # ts)" for i
    using that x(1,3) xs(4) by (cases i) (simp_all add: add.assoc)
  with x xs show ?case by (intro conjI exI[of _ "x # xs"]) simp_all
qed simp

text \<open>The call for a target stands in the log at its number.\<close>

lemma sends_at:
  assumes "i < length ts" "f (ts ! i) = [y]"
  shows "(xs @ concat (map f ts)) ! (length xs + length (concat (map f (take i ts)))) = y"
proof -
  have "concat (map f ts) = concat (map f (take i ts)) @ f (ts ! i) @ concat (map f (drop (Suc i) ts))"
    using id_take_nth_drop[OF assms(1)] by (metis concat.simps(2) concat_append list.simps(9) map_append)
  with assms(2) show ?thesis by (simp add: nth_append)
qed

lemma rotate_local_targets:
  assumes "rotate_local ck je en cx p w = (Inr (out, v), w')"
  shows "(\<exists>sh. mint en sh = Inr v)"
    "map (\<lambda>x. (rt_root x, rt_path x, rt_key x)) (ro_targets out) = map (\<lambda>(q, k). (rr_name (cx_root cx), q, k)) (asked p)"
    "\<forall>x\<in>set (ro_targets out). rt_applied x \<and> rt_error x = None"
proof -
  obtain sh rn and eo :: edit_outcome where a: "mint en sh = Inr v"
    "fold_res (rotate_also cx p v) (rp_also p) (rotate_start cx p v) = Inr rn"
    "ro_targets out = map (\<lambda>t. t\<lparr>rt_txn_id := eo_txn_id eo\<rparr>) (rn_targets rn)"
    using assms by (rule rotate_Inr) (rule that; assumption)
  have "gathered_for cx v [(rp_path p, rp_key p)] (rotate_start cx p v)" by (simp add: gathered_for_def rotate_start_def)
  from rotate_gathered[OF a(2) this] have g: "rn_targets rn = map (\<lambda>(p, k). rotated cx p k) (asked p)"
    by (simp add: asked_def gathered_for_def)
  show "\<exists>sh. mint en sh = Inr v" using a(1) ..
  show "map (\<lambda>x. (rt_root x, rt_path x, rt_key x)) (ro_targets out) = map (\<lambda>(q, k). (rr_name (cx_root cx), q, k)) (asked p)"
    by (simp add: a(3) g rotated_def split_def comp_def)
  show "\<forall>x\<in>set (ro_targets out). rt_applied x \<and> rt_error x = None"
    by (auto simp: a(3) g rotated_def)
qed

definition rotate_params_of :: "rotate_call \<Rightarrow> rstr \<Rightarrow> rotate_params" where
  "rotate_params_of c version =
     \<lparr>rp_path = rc_path c, rp_key = rc_key c, rp_version = version, rp_shape = rc_shape c,
      rp_also = filter (also_local (rc_root c)) (rc_also c), rp_intent = rc_intent c\<rparr>"

text \<open>The targets beside the primary's root: in the other roots of this host, and on other hosts.\<close>

definition same_host_targets :: "app_state \<Rightarrow> rotate_call \<Rightarrow> also_target list" where
  "same_host_targets st c = filter (\<lambda>t. \<not> also_local (rc_root c) t \<and> also_same_host st t) (rc_also c)"

definition remote_targets :: "app_state \<Rightarrow> rotate_call \<Rightarrow> also_target list" where
  "remote_targets st c = filter (\<lambda>t. \<not> also_local (rc_root c) t \<and> \<not> also_same_host st t) (rc_also c)"

lemma route_to_Inr: "route_to st r = Inr p \<Longrightarrow> \<exists>l. split_once (CHR '':'') r = Some (pr_host p, l)"
  by (auto simp: route_to_def split: option.splits dest: routable_declared)

lemma sends_to:
  "\<forall>s\<in>set (concat (map (rotate_sends st author c v) (remote_targets st c))).
      sn_author s = author \<and> sn_tool s = ''edit''
    \<and> (\<exists>t\<in>set (rc_also c). at_root t = Some (sn_root s)
         \<and> (\<exists>l. split_once (CHR '':'') (sn_root s) = Some (pr_host (sn_peer s), l)))"
proof -
  have "sn_author s = author \<and> sn_tool s = ''edit'' \<and> (\<exists>t\<in>set (rc_also c). at_root t = Some (sn_root s)
      \<and> (\<exists>l. split_once (CHR '':'') (sn_root s) = Some (pr_host (sn_peer s), l)))"
    if tm: "t \<in> set (remote_targets st c)" and sm: "s \<in> set (rotate_sends st author c v t)" for t s
  proof -
    have "t \<in> set (rc_also c)" "at_root t \<noteq> None" using tm by (auto simp: remote_targets_def also_local_def split: option.splits)
    moreover obtain p where "route_to st (the (at_root t)) = Inr p"
      using sm by (cases "route_to st (the (at_root t))") (simp_all add: rotate_sends_def)
    ultimately show ?thesis using sm route_to_Inr by (fastforce simp: rotate_sends_def)
  qed
  then show ?thesis by (simp only: set_concat set_map) blast
qed

lemma rotate_unfold:
  assumes "secret_rotate ck je en answers st author node c h = (r, h')"
  obtains (refused) e where "r = Inl e" "hb_sent h' = hb_sent h"
  | (went) version b out v h0 out1 h1 out2 where "rc_version c = Some version" "state_root st (rc_root c) = Inr b"
      "on_world (rotate_local ck je en (serve_ctx st b author node) (rotate_params_of c version)) h = (Inr (out, v), h0)"
      "fold (rotate_same_host ck je st author node c v) (same_host_targets st c) (out, h0) = (out1, h1)"
      "fold (rotate_remote je answers st (serve_ctx st b author node) c v) (remote_targets st c) (out1, h1) = (out2, h')"
      "r = Inr out2"
proof (cases "rc_version c")
  case None
  with assms show thesis by (intro refused) (auto simp: secret_rotate_def)
next
  case (Some version)
  note version = Some
  show thesis
  proof (cases "state_root st (rc_root c)")
    case (Inl e)
    with assms version show thesis by (intro refused) (auto simp: secret_rotate_def Let_def)
  next
    case (Inr b)
    obtain x h0 where x: "on_world (rotate_local ck je en (serve_ctx st b author node) (rotate_params_of c version)) h = (x, h0)"
      by fastforce
    show thesis
    proof (cases x)
      case (Inl e)
      with assms version Inr x on_world_sent[OF x] show thesis
        by (intro refused) (auto simp: secret_rotate_def Let_def hub_bind_def rotate_params_of_def)
    next
      case (Inr ov)
      obtain out v where ov: "ov = (out, v)" by fastforce
      obtain out1 h1 where f1: "fold (rotate_same_host ck je st author node c v) (same_host_targets st c) (out, h0) = (out1, h1)"
        by fastforce
      obtain out2 h2 where f2: "fold (rotate_remote je answers st (serve_ctx st b author node) c v) (remote_targets st c) (out1, h1)
          = (out2, h2)" by fastforce
      have "secret_rotate ck je en answers st author node c h = (Inr out2, h2)"
        using version \<open>state_root st (rc_root c) = Inr b\<close> x Inr ov f1 f2
        by (simp add: secret_rotate_def Let_def hub_bind_def rotate_params_of_def same_host_targets_def remote_targets_def)
      with assms have "r = Inr out2" "h' = h2" by simp_all
      with version \<open>state_root st (rc_root c) = Inr b\<close> x Inr ov f1 f2 show thesis by (intro went) simp_all
    qed
  qed
qed

text \<open>C25: A rotation over several places. When the primary is refused nothing leaves this host. Otherwise a
  value is minted, and what is sent to peers is exactly one edit per target on another host whose root is
  routable, in the order asked, under the author of the caller and to the host the target names, with the
  new value for that file, key and version; a host that no target names hears nothing. The answer lists
  every target once, in order, and says of each what became of it. The targets of the primary's root are
  those of its one transaction, all applied. A target in another root of this host is applied exactly when
  its own edit, run in the world its predecessors left, went through; it then carries the transaction
  of that edit, its file holds the new value and its audit row follows; otherwise it carries the error of
  that edit. A target on another host is applied exactly when its root is routable and the one call
  made for it, which is found in the log at its place, was answered with a success. An error is given
  exactly where a target was not applied.\<close>
theorem rotate_everywhere:
  assumes "secret_rotate ck je en answers st author node c h = (r, h')"
  defines "here \<equiv> same_host_targets st c" and "there \<equiv> remote_targets st c"
  shows "case r of
      Inl e \<Rightarrow> hb_sent h' = hb_sent h
    | Inr out \<Rightarrow> \<exists>b v sh version first w0 w1 xs ys.
        state_root st (rc_root c) = Inr b \<and> rc_version c = Some version \<and> mint en sh = Inr v
      \<and> rotate_local ck je en (serve_ctx st b author node) (rotate_params_of c version) (hb_w h) = (Inr (first, v), w0)
      \<and> hb_sent h' = hb_sent h @ concat (map (rotate_sends st author c v) there)
      \<and> (\<forall>s\<in>set (concat (map (rotate_sends st author c v) there)).
            sn_author s = author \<and> sn_tool s = ''edit''
          \<and> (\<exists>t\<in>set (rc_also c). at_root t = Some (sn_root s)
               \<and> (\<exists>l. split_once (CHR '':'') (sn_root s) = Some (pr_host (sn_peer s), l))))
      \<and> map (\<lambda>x. (rt_root x, rt_path x, rt_key x)) (ro_targets out)
          = map (\<lambda>(q, k). (rr_name b, q, k)) (asked (rotate_params_of c version))
            @ map (\<lambda>t. (the (at_root t), at_path t, target_key c t)) (here @ there)
      \<and> (\<forall>x\<in>set (ro_targets out). rt_applied x \<longleftrightarrow> rt_error x = None)
      \<and> ro_targets out = ro_targets first @ xs @ ys
      \<and> (\<forall>x\<in>set (ro_targets first). rt_applied x)
      \<and> in_turn (same_host_result ck je st author node c v (ro_old_digest first, ro_new_digest first)) here xs w0 w1
      \<and> length ys = length there
      \<and> (\<forall>i<length there.
           let k = length (hb_sent h) + length (concat (map (rotate_sends st author c v) (take i there))) in
           remote_result answers st c k (there ! i) (ys ! i)
         \<and> (\<forall>p. route_to st (the (at_root (there ! i))) = Inr p \<longrightarrow> rotate_sends st author c v (there ! i) = [hb_sent h' ! k]))"
  using assms(1)
proof (cases rule: rotate_unfold)
  case (refused e)
  then show ?thesis by simp
next
  case (went version b out v h0 out1 h1 out2)
  let ?sends = "rotate_sends st author c v"
  obtain w0 where l: "rotate_local ck je en (serve_ctx st b author node) (rotate_params_of c version) (hb_w h) = (Inr (out, v), w0)"
    and w0: "hb_w h0 = w0"
    using went(3) by (auto simp: on_world_def split: prod.splits)
  note t0 = rotate_local_targets[OF l]
  obtain xs where xs: "hb_sent h1 = hb_sent h0" "ro_targets out1 = ro_targets out @ xs"
    "in_turn (same_host_result ck je st author node c v (ro_old_digest out, ro_new_digest out)) here xs w0 (hb_w h1)"
    using rotate_same_hosts[OF went(4)] unfolding w0 here_def by (elim exE conjE)
  obtain ys where ys: "hb_sent h' = hb_sent h1 @ concat (map ?sends there)"
    "ro_targets out2 = ro_targets out1 @ ys" "length ys = length there"
    "\<forall>i<length there. remote_result answers st c (length (hb_sent h1) + length (concat (map ?sends (take i there)))) (there ! i) (ys ! i)"
    using rotate_remotes[OF went(5)] unfolding there_def by (elim exE conjE) (simp add: serve_ctx_def)
  have h0: "hb_sent h0 = hb_sent h" by (rule on_world_sent[OF went(3)])
  have places: "list_all2 (same_place c) ts zs \<Longrightarrow>
      map (\<lambda>x. (rt_root x, rt_path x, rt_key x)) zs = map (\<lambda>t. (the (at_root t), at_path t, target_key c t)) ts
      \<and> (\<forall>x\<in>set zs. rt_applied x \<longleftrightarrow> rt_error x = None)" for ts zs
    by (induction rule: list_all2_induct) (auto simp: same_place_def)
  have pxs: "list_all2 (same_place c) here xs" by (rule in_turn_all2[OF xs(3)]) (simp add: same_host_result_def)
  have pys: "list_all2 (same_place c) there ys" using ys(3,4) by (simp add: list_all2_conv_all_nth remote_result_def)
  have who: "\<forall>s\<in>set (concat (map ?sends there)).
            sn_author s = author \<and> sn_tool s = ''edit''
          \<and> (\<exists>t\<in>set (rc_also c). at_root t = Some (sn_root s)
               \<and> (\<exists>l. split_once (CHR '':'') (sn_root s) = Some (pr_host (sn_peer s), l)))"
    using sends_to unfolding there_def by simp
  have name: "rr_name (cx_root (serve_ctx st b author node)) = rr_name b" by (simp add: serve_ctx_def)
  obtain sh where sh: "mint en sh = Inr v" using t0(1) ..
  have tg: "map (\<lambda>x. (rt_root x, rt_path x, rt_key x)) (ro_targets out2)
          = map (\<lambda>(q, k). (rr_name b, q, k)) (asked (rotate_params_of c version))
            @ map (\<lambda>t. (the (at_root t), at_path t, target_key c t)) (here @ there)"
    using t0(2) places[OF pxs] places[OF pys] by (simp add: ys(2) xs(2) name)
  have ap: "\<forall>x\<in>set (ro_targets out2). rt_applied x \<longleftrightarrow> rt_error x = None"
    using t0(3) places[OF pxs] places[OF pys] by (auto simp: ys(2) xs(2))
  have sent: "hb_sent h' = hb_sent h @ concat (map ?sends there)" by (simp add: ys(1) xs(1) h0)
  have remote: "let k = length (hb_sent h) + length (concat (map ?sends (take i there))) in
      remote_result answers st c k (there ! i) (ys ! i)
      \<and> (\<forall>p. route_to st (the (at_root (there ! i))) = Inr p \<longrightarrow> ?sends (there ! i) = [hb_sent h' ! k])"
    if "i < length there" for i
    unfolding Let_def
  proof (intro conjI allI impI)
    show "remote_result answers st c (length (hb_sent h) + length (concat (map ?sends (take i there)))) (there ! i) (ys ! i)"
      using ys(4) that by (simp add: xs(1) h0)
    fix p assume "route_to st (the (at_root (there ! i))) = Inr p"
    then obtain y where y: "?sends (there ! i) = [y]" by (simp add: rotate_sends_def)
    show "?sends (there ! i) = [hb_sent h' ! (length (hb_sent h) + length (concat (map ?sends (take i there))))]"
      unfolding sent sends_at[of i there ?sends y "hb_sent h", OF that y] by (rule y)
  qed
  have tg2: "ro_targets out2 = ro_targets out @ xs @ ys" by (simp add: ys(2) xs(2))
  have first: "\<forall>x\<in>set (ro_targets out). rt_applied x" using t0(3) by blast
  have rem: "\<forall>i<length there. let k = length (hb_sent h) + length (concat (map ?sends (take i there))) in
      remote_result answers st c k (there ! i) (ys ! i)
      \<and> (\<forall>p. route_to st (the (at_root (there ! i))) = Inr p \<longrightarrow> ?sends (there ! i) = [hb_sent h' ! k])"
    using remote by blast
  show ?thesis
    unfolding went(6) sum.case
    by (rule exI[of _ b], rule exI[of _ v], rule exI[of _ sh], rule exI[of _ version], rule exI[of _ out],
      rule exI[of _ w0], rule exI[of _ "hb_w h1"], rule exI[of _ xs], rule exI[of _ ys])
      (intro conjI went(1,2) sh l sent who tg ap tg2 first xs(3) ys(3) rem)
qed

definition demo_state :: app_state where
  "demo_state =
     \<lparr>as_host = ''h'', as_roots = [demo_root], as_fleet = fleet_new ''h'' (Some [demo_peer]),
      as_limits = default_limits, as_secrets = \<lparr>sx_allow_reveal = True, sx_shapes = [(''tok'', Hex 24)]\<rparr>\<rparr>"

definition demo_rotate_call :: rotate_call where
  "demo_rotate_call =
     \<lparr>rc_root = ''r'', rc_path = ''.env'', rc_key = ''K'', rc_version = Some (version_of zero_hash demo_bytes),
      rc_shape = Some ''tok'', rc_also = [\<lparr>at_root = Some ''kubs0:src'', at_path = ''.env'', at_key = None, at_version = ''v''\<rparr>],
      rc_intent = None\<rparr>"

theorem rotate_everywhere_witness:
  "\<exists>out h'. secret_rotate demo_ck demo_je digits_entropy (\<lambda>_. Inl (internal_error (Msg ''down'' []))) demo_state ''me'' ''h''
       demo_rotate_call \<lparr>hb_w = demo_with (empty_journal 30 0), hb_sent = []\<rparr> = (Inr out, h')
     \<and> map (\<lambda>s. pr_host (sn_peer s)) (hb_sent h') = [''kubs0''] \<and> map rt_root (ro_targets out) = [''r'', ''kubs0:src'']
     \<and> map rt_applied (ro_targets out) = [True, False]"
proof -
  let ?a = "\<lambda>_. Inl (internal_error (Msg ''down'' [])) :: call_result res"
  let ?h = "\<lparr>hb_w = demo_with (empty_journal 30 0), hb_sent = []\<rparr>"
  let ?t = "\<lparr>at_root = Some ''kubs0:src'', at_path = ''.env'', at_key = None, at_version = ''v''\<rparr>"
  have sp: "split_once (CHR '':'') ''kubs0:src'' = Some (''kubs0'', ''src'')" "\<not> is_pattern ''r''" by code_simp+
  have rm: "remote_targets demo_state demo_rotate_call = [?t]" "same_host_targets demo_state demo_rotate_call = []"
    by (simp_all add: remote_targets_def same_host_targets_def demo_rotate_call_def also_local_def also_same_host_def sp
        demo_state_def)
  have rt: "route_to demo_state ''kubs0:src'' = Inr demo_peer"
    by (simp add: route_to_def sp demo_state_def routable_def find_peer_def fleet_new_def demo_peer_def)
  have cx: "serve_ctx demo_state demo_root ''me'' ''h'' = demo_cx"
    by (simp add: serve_ctx_def demo_state_def demo_cx_def)
  have st: "state_root demo_state (rc_root demo_rotate_call) = Inr demo_root"
    by (simp add: state_root_def sp demo_rotate_call_def demo_state_def demo_root_def)
  obtain out w' where l: "rotate_local demo_ck demo_je digits_entropy demo_cx demo_rotate (demo_with (empty_journal 30 0))
     = (Inr (out, demo_minted), w')" using demo_rotate_runs by (elim exE)
  obtain r h' where r: "secret_rotate demo_ck demo_je digits_entropy ?a demo_state ''me'' ''h'' demo_rotate_call ?h = (r, h')"
    by fastforce
  have v: "rc_version demo_rotate_call = Some (version_of zero_hash demo_bytes)"
    "\<lparr>rp_path = rc_path demo_rotate_call, rp_key = rc_key demo_rotate_call, rp_version = version_of zero_hash demo_bytes,
      rp_shape = rc_shape demo_rotate_call, rp_also = filter (also_local (rc_root demo_rotate_call)) (rc_also demo_rotate_call),
      rp_intent = rc_intent demo_rotate_call\<rparr> = demo_rotate"
    by (simp_all add: demo_rotate_call_def demo_rotate_def also_local_def)
  have ow: "on_world (rotate_local demo_ck demo_je digits_entropy demo_cx demo_rotate) ?h
      = (Inr (out, demo_minted), ?h\<lparr>hb_w := w'\<rparr>)"
    using l by (simp add: on_world_def)
  have "\<exists>x. r = Inr x"
    using r by (auto simp: secret_rotate_def v st cx hub_bind_def ow Let_def split: prod.splits)
  then obtain x where x: "r = Inr x" ..
  obtain b y version w0 w1 xs ys and first :: rotate_result where e: "state_root demo_state (rc_root demo_rotate_call) = Inr b" "rc_version demo_rotate_call = Some version"
    "hb_sent h' = hb_sent ?h @ concat (map (rotate_sends demo_state ''me'' demo_rotate_call y) (remote_targets demo_state demo_rotate_call))"
    "map (\<lambda>x. (rt_root x, rt_path x, rt_key x)) (ro_targets x)
        = map (\<lambda>(q, k). (rr_name b, q, k)) (asked (rotate_params_of demo_rotate_call version))
          @ map (\<lambda>t. (the (at_root t), at_path t, target_key demo_rotate_call t))
              (same_host_targets demo_state demo_rotate_call @ remote_targets demo_state demo_rotate_call)"
    and f: "ro_targets x = ro_targets first @ xs @ ys" "\<forall>z\<in>set (ro_targets first). rt_applied z"
    "in_turn (same_host_result demo_ck demo_je demo_state ''me'' ''h'' demo_rotate_call y
       (ro_old_digest first, ro_new_digest first)) (same_host_targets demo_state demo_rotate_call) xs w0 w1"
    "length ys = length (remote_targets demo_state demo_rotate_call)"
    "\<forall>i<length (remote_targets demo_state demo_rotate_call).
       let k = length (hb_sent ?h) + length (concat (map (rotate_sends demo_state ''me'' demo_rotate_call y)
                 (take i (remote_targets demo_state demo_rotate_call)))) in
       remote_result ?a demo_state demo_rotate_call k (remote_targets demo_state demo_rotate_call ! i) (ys ! i)
     \<and> (\<forall>p. route_to demo_state (the (at_root (remote_targets demo_state demo_rotate_call ! i))) = Inr p \<longrightarrow>
          rotate_sends demo_state ''me'' demo_rotate_call y (remote_targets demo_state demo_rotate_call ! i) = [hb_sent h' ! k])"
    using rotate_everywhere[OF r] unfolding x sum.case by (elim exE conjE)
  have a: "asked (rotate_params_of demo_rotate_call version) = [(''.env'', ''K'')]"
    by (simp add: asked_def rotate_params_of_def demo_rotate_call_def also_local_def)
  have b: "b = demo_root" using e(1) st by simp
  have "map fst (map (\<lambda>x. (rt_root x, rt_path x, rt_key x)) (ro_targets x)) = [''r'', ''kubs0:src'']"
    unfolding e(4) a b rm by (simp add: demo_root_def)
  then have "map rt_root (ro_targets x) = [''r'', ''kubs0:src'']" by (simp add: comp_def)
  moreover have "map rt_applied (ro_targets x) = [True, False]"
  proof -
    have xs: "xs = []" using f(3) unfolding rm by (auto elim: in_turn.cases)
    obtain z where z: "ys = [z]" using f(4) unfolding rm by (auto simp: length_Suc_conv)
    have "\<not> rt_applied z" using f(5) unfolding rm z by (simp add: remote_result_def rt accepted_def Let_def)
    moreover have "length (ro_targets x) = 2" using \<open>map rt_root (ro_targets x) = [''r'', ''kubs0:src'']\<close>
      by (metis length_map length_Cons list.size(3) numeral_2_eq_2)
    ultimately show ?thesis using f(1,2) xs z by (cases "ro_targets first") auto
  qed
  moreover have "map (\<lambda>s. pr_host (sn_peer s)) (hb_sent h') = [''kubs0'']"
    unfolding e(3) rm by (simp add: rotate_sends_def rt demo_peer_def)
  ultimately show ?thesis using r x by (intro exI[of _ x] exI[of _ h'] conjI) simp_all
qed

section \<open>References on their way to a peer\<close>

definition op_path_of :: "json \<Rightarrow> rstr" where
  "op_path_of op = (case Option.bind (json_get op ''path'') as_str of Some q \<Rightarrow> q | None \<Rightarrow> [])"

definition reveal_call :: "peer \<Rightarrow> rstr \<Rightarrow> rstr \<Rightarrow> value_from \<Rightarrow> rstr \<Rightarrow> sent" where
  "reveal_call p author src vf destination =
     \<lparr>sn_peer = p, sn_author = author, sn_tool = ''secret_reveal'', sn_args = reveal_args src vf destination, sn_root = src\<rparr>"

definition events_of :: "hub \<Rightarrow> secret_event list" where
  "events_of h = map ev_event (j_events (w_journal (hb_w h)))"

definition quiet_hub :: "hub \<Rightarrow> bool" where
  "quiet_hub h \<longleftrightarrow> j_faults (w_journal (hb_w h)) = []"

text \<open>Where a fetched value comes from: a file of a root served here, or the answer of the source's host.\<close>

definition sourced ::
  "crates \<Rightarrow> journal_env \<Rightarrow> answers \<Rightarrow> app_state \<Rightarrow> rstr \<Rightarrow> rstr \<Rightarrow> hub \<Rightarrow> hub \<Rightarrow> value_from \<Rightarrow> rstr \<Rightarrow> rstr \<Rightarrow> rstr \<Rightarrow> bool" where
  "sourced ck je answers st author node h h' vf src destination v \<longleftrightarrow>
     (case find (\<lambda>b. rr_name b = src) (as_roots st) of
        Some b \<Rightarrow> local_value ck (w_fs (hb_w h)) (as_limits st) b vf = Inr v
          \<and> (quiet_hub h \<longrightarrow> transport_row ck je (serve_ctx st b author node) src vf v destination \<in> set (events_of h'))
      | None \<Rightarrow> \<exists>p i res. route_to st src = Inr p \<and> length (hb_sent h) \<le> i \<and> i < length (hb_sent h')
          \<and> hb_sent h' ! i = reveal_call p author src vf destination \<and> answers i = Inr res
          \<and> rs_is_error res \<noteq> Some True
          \<and> Option.bind (Option.bind (rs_structured res) (\<lambda>j. json_get j ''value'')) as_str = Some v)"

text \<open>What a fetch leaves behind: the files as they were, the log and the audit trail extended.\<close>

definition only_reveals :: "rstr \<Rightarrow> hub \<Rightarrow> hub \<Rightarrow> bool" where
  "only_reveals author h h' \<longleftrightarrow>
     w_fs (hb_w h') = w_fs (hb_w h) \<and> (quiet_hub h \<longrightarrow> quiet_hub h')
     \<and> (\<exists>ss. hb_sent h' = hb_sent h @ ss \<and> (\<forall>s\<in>set ss. sn_tool s = ''secret_reveal'' \<and> sn_author s = author))
     \<and> (\<exists>es. events_of h' = events_of h @ es)"

lemma only_reveals_refl [simp]: "only_reveals author h h"
  by (simp add: only_reveals_def)

lemma only_reveals_trans: "only_reveals author h h1 \<Longrightarrow> only_reveals author h1 h2 \<Longrightarrow> only_reveals author h h2"
  unfolding only_reveals_def by (elim conjE exE) (simp add: ball_Un)

lemma note_event_facts:
  "w_fs (hb_w (note_event je ev h)) = w_fs (hb_w h)"
  "\<exists>es. events_of (note_event je ev h) = events_of h @ es"
  "quiet_hub h \<Longrightarrow> quiet_hub (note_event je ev h) \<and> ev \<in> set (events_of (note_event je ev h))"
proof -
  let ?j = "w_journal (hb_w h)"
  obtain ok j0 where s: "statement ?j = (ok, j0)" by fastforce
  have j0: "j_events j0 = j_events ?j" 
  proof (cases "j_faults ?j")
    case Nil
    with s show ?thesis by (simp add: statement_def)
  next
    case (Cons x xs)
    with s have "j0 = ?j\<lparr>j_faults := xs\<rparr>" by (simp add: statement_def)
    then show ?thesis by simp
  qed
  have qs: "statement ?j = (True, ?j)" if "quiet_hub h" using that by (simp add: quiet_hub_def quiet_statement)
  have n: "hb_w (note_event je ev h) = (hb_w h)\<lparr>w_journal := snd (add_secret_event je ev ?j)\<rparr>"
    by (simp add: note_event_def log_event_def split_def Let_def)
  show "w_fs (hb_w (note_event je ev h)) = w_fs (hb_w h)" by (simp add: n)
  show "\<exists>es. events_of (note_event je ev h) = events_of h @ es"
    by (simp add: events_of_def n add_secret_event_def s j0 Let_def)
  show "quiet_hub (note_event je ev h) \<and> ev \<in> set (events_of (note_event je ev h))" if "quiet_hub h"
  proof
    show "quiet_hub (note_event je ev h)" using quiet_event that by (simp add: quiet_hub_def n)
    show "ev \<in> set (events_of (note_event je ev h))"
      by (simp add: events_of_def n add_secret_event_def qs[OF that] Let_def)
  qed
qed

lemma fetch_reveals:
  assumes "fetch_secret_value ck je answers st author node vf src destination True h = (r, h')"
  shows "only_reveals author h h'" "\<And>v. r = Inr v \<Longrightarrow> sourced ck je answers st author node h h' vf src destination v"
proof -
  have "only_reveals author h h' \<and> (\<forall>v. r = Inr v \<longrightarrow> sourced ck je answers st author node h h' vf src destination v)"
  proof (cases "find (\<lambda>b. rr_name b = src) (as_roots st)")
    case (Some b)
    show ?thesis
    proof (cases "local_value ck (w_fs (hb_w h)) (as_limits st) b vf")
      case (Inl e)
      with assms Some show ?thesis by (auto simp: fetch_secret_value_def)
    next
      case (Inr v)
      with assms Some have "r = Inr v"
        "h' = note_event je (transport_row ck je (serve_ctx st b author node) src vf v destination) h"
        by (simp_all add: fetch_secret_value_def)
      with Some Inr show ?thesis by (simp add: only_reveals_def sourced_def note_event_facts)
    qed
  next
    case None
    show ?thesis
    proof (cases "route_to st src")
      case (Inl e)
      with assms None show ?thesis by (auto simp: fetch_secret_value_def)
    next
      case (Inr p)
      let ?a = "answers (length (hb_sent h))"
      have h': "h' = h\<lparr>hb_sent := hb_sent h @ [reveal_call p author src vf destination]\<rparr>"
        using assms None Inr
        by (auto simp: fetch_secret_value_def hub_bind_def peer_call_def reveal_call_def split: sum.splits)
      have v: "\<exists>res. ?a = Inr res \<and> rs_is_error res \<noteq> Some True
          \<and> Option.bind (Option.bind (rs_structured res) (\<lambda>j. json_get j ''value'')) as_str = Some v" if "r = Inr v" for v
        using assms None Inr that
        by (auto simp: fetch_secret_value_def hub_bind_def peer_call_def unwrap_result_def split: sum.splits if_splits)
      have "only_reveals author h h'" by (simp add: only_reveals_def h' quiet_hub_def events_of_def reveal_call_def)
      moreover have "sourced ck je answers st author node h h' vf src destination v" if r: "r = Inr v" for v
      proof -
        obtain res where res: "?a = Inr res" "rs_is_error res \<noteq> Some True"
          "Option.bind (Option.bind (rs_structured res) (\<lambda>j. json_get j ''value'')) as_str = Some v"
          using v[OF r] by (elim exE conjE)
        show ?thesis unfolding sourced_def None option.case
          by (intro exI[of _ p] exI[of _ "length (hb_sent h)"] exI[of _ res] conjI Inr res) (simp_all add: h')
      qed
      ultimately show ?thesis by blast
    qed
  qed
  then show "only_reveals author h h'" "\<And>v. r = Inr v \<Longrightarrow> sourced ck je answers st author node h h' vf src destination v"
    by blast+
qed

lemma sourced_between:
  assumes "sourced ck je answers st author node h1 h2 vf src d v" "only_reveals author h h1" "only_reveals author h2 h3"
  shows "sourced ck je answers st author node h h3 vf src d v"
proof -
  obtain ss where a: "w_fs (hb_w h1) = w_fs (hb_w h)" "quiet_hub h \<longrightarrow> quiet_hub h1" "hb_sent h1 = hb_sent h @ ss"
    using assms(2) unfolding only_reveals_def by (elim exE conjE)
  obtain ts es where b: "hb_sent h3 = hb_sent h2 @ ts" "events_of h3 = events_of h2 @ es"
    using assms(3) unfolding only_reveals_def by (elim exE conjE)
  show ?thesis
  proof (cases "find (\<lambda>b. rr_name b = src) (as_roots st)")
    case (Some x)
    with assms(1) a b show ?thesis by (auto simp: sourced_def)
  next
    case None
    then obtain p i res where x: "route_to st src = Inr p" "length (hb_sent h1) \<le> i" "i < length (hb_sent h2)"
      "hb_sent h2 ! i = reveal_call p author src vf d" "answers i = Inr res" "rs_is_error res \<noteq> Some True"
      "Option.bind (Option.bind (rs_structured res) (\<lambda>j. json_get j ''value'')) as_str = Some v"
      using assms(1) unfolding sourced_def None option.case by (elim exE conjE)
    show ?thesis unfolding sourced_def None option.case
      by (intro exI[of _ p] exI[of _ i] exI[of _ res] conjI x) (use x a b in \<open>simp_all add: nth_append\<close>)
  qed
qed

text \<open>One raw operation: forwarded as it is, or with the value in place of the reference.\<close>

definition settled ::
  "crates \<Rightarrow> journal_env \<Rightarrow> answers \<Rightarrow> app_state \<Rightarrow> rstr \<Rightarrow> rstr \<Rightarrow> rstr \<Rightarrow> rstr \<Rightarrow> hub \<Rightarrow> hub \<Rightarrow> json \<Rightarrow> json \<Rightarrow> bool" where
  "settled ck je answers st author node th tr h h' op op' \<longleftrightarrow>
     (case foreign_source th op of
        None \<Rightarrow> op' = op
      | Some (vj, src) \<Rightarrow> \<exists>vf v. value_from_of vj = Some vf
          \<and> op' = obj_without ''value_from'' (obj_with ''value'' (JStr v) op)
          \<and> sourced ck je answers st author node h h' vf src (tr @ ''/'' @ op_path_of op) v)"

lemma raw_op_settled:
  assumes "resolve_raw_op ck je answers st author node th tr op h = (r, h')"
  shows "only_reveals author h h' \<and> (\<forall>op'. r = Inr op' \<longrightarrow> settled ck je answers st author node th tr h h' op op')"
proof (cases "foreign_source th op")
  case None
  with assms show ?thesis by (auto simp: resolve_raw_op_def settled_def)
next
  case (Some vs)
  obtain vj src where vs: "vs = (vj, src)" by fastforce
  show ?thesis
  proof (cases "value_from_of vj")
    case None
    with assms Some vs show ?thesis by (auto simp: resolve_raw_op_def)
  next
    case (Some vf)
    obtain x h1 where f: "fetch_secret_value ck je answers st author node vf src (tr @ ''/'' @ op_path_of op) True h = (x, h1)"
      by fastforce
    have "h' = h1 \<and> r = (case x of Inl e \<Rightarrow> Inl e | Inr v \<Rightarrow> Inr (obj_without ''value_from'' (obj_with ''value'' (JStr v) op)))"
      using assms \<open>foreign_source th op = Some vs\<close> vs Some f
      by (cases x) (auto simp: resolve_raw_op_def hub_bind_def op_path_of_def Let_def)
    with fetch_reveals[OF f] \<open>foreign_source th op = Some vs\<close> vs Some show ?thesis
      by (cases x) (auto simp: settled_def)
  qed
qed

lemma settled_between:
  "settled ck je answers st author node th tr h1 h2 op op' \<Longrightarrow> only_reveals author h h1 \<Longrightarrow> only_reveals author h2 h3 \<Longrightarrow>
   settled ck je answers st author node th tr h h3 op op'"
  by (cases "foreign_source th op") (auto simp: settled_def intro: sourced_between)

lemma raw_ops_settled:
  assumes "resolve_raw_ops ck je answers st author node th tr ops h = (r, h')"
  shows "only_reveals author h h'
    \<and> (\<forall>ops'. r = Inr ops' \<longrightarrow> list_all2 (settled ck je answers st author node th tr h h') ops ops')"
  using assms
proof (induction ops arbitrary: h r)
  case (Cons op ops)
  obtain x h1 where x: "resolve_raw_op ck je answers st author node th tr op h = (x, h1)" by fastforce
  note a = raw_op_settled[OF x]
  show ?case
  proof (cases x)
    case (Inl e)
    with Cons.prems x a show ?thesis by (auto simp: hub_bind_def)
  next
    case (Inr op')
    obtain y h2 where y: "resolve_raw_ops ck je answers st author node th tr ops h1 = (y, h2)" by fastforce
    have e: "h' = h2 \<and> r = (case y of Inl e \<Rightarrow> Inl e | Inr ops' \<Rightarrow> Inr (op' # ops'))"
      using Cons.prems x Inr y by (cases y) (auto simp: hub_bind_def)
    note b = Cons.IH[OF y[folded e[THEN conjunct1]]]
    have t: "only_reveals author h h1" "only_reveals author h1 h'" using a b by auto
    have s: "settled ck je answers st author node th tr h h' op op'"
      using a Inr settled_between[of ck je answers st author node th tr h h1 op op' h h'] t(2) by simp
    have l: "list_all2 (settled ck je answers st author node th tr h h') ops ops'" if "y = Inr ops'" for ops'
      using b that settled_between[OF _ t(1) only_reveals_refl] by (auto intro: list_all2_mono)
    show ?thesis using only_reveals_trans[OF t] s l e by (cases y) auto
  qed
qed simp

lemma obj_without_get: "json_get (obj_without k j) k = None"
  by (cases j) (auto simp: map_of_eq_None_iff)

lemma settled_clean: "settled ck je answers st author node th tr h h' op op' \<Longrightarrow> foreign_source th op' = None"
proof (cases "foreign_source th op")
  case (Some vs)
  assume "settled ck je answers st author node th tr h h' op op'"
  then have "json_get op' ''value_from'' = None"
    using Some obj_without_get by (auto simp: settled_def split: prod.splits)
  then show ?thesis by (simp add: foreign_source_def)
qed (simp add: settled_def)

lemma local_value_Inr:
  assumes "local_value ck fs lm b vf = Inr v"
  shows "\<exists>l f e. load_text ck fs b (vf_path vf) lm = Inr l \<and> get_entry f (vf_key vf) = Some e \<and> e_value e = v
    \<and> (\<forall>d. vf_digest vf = Some d \<longrightarrow> digest_of (cr_h ck) v = d)"
proof -
  obtain l f e where a: "load_text ck fs b (vf_path vf) lm = Inr l" "get_entry f (vf_key vf) = Some e"
    "(case vf_digest vf of
       None \<Rightarrow> Inr (e_value e)
     | Some d \<Rightarrow>
         if digest_of (cr_h ck) (e_value e) \<noteq> d
         then Inl (with_data
                (JObj [(''reason'', JStr ''digest_mismatch''), (''path'', JStr (vf_path vf)),
                       (''key'', JStr (vf_key vf)), (''expected_digest'', JStr d)])
                (invalid_input (Msg ''value_from digest mismatch'' [vf_key vf, vf_path vf])))
         else Inr (e_value e)) = Inr v"
    using assms unfolding local_value_def and_then_Inr ok_or_simps by (elim exE conjE)
  then show ?thesis
    by (intro exI[of _ l] exI[of _ f] exI[of _ e] conjI a) (auto split: option.splits if_splits)
qed

text \<open>C26: References on their way to a peer. When an edit is forwarded, every operation whose reference
  names a root of another host carries the value instead and no such reference is left; every other
  operation and every other argument is passed on as it came. The value is the one that a file of a root
  served here holds under that key, readable through every policy layer and of the digest the reference
  gives, and then the transport stands in the audit trail as long as the journal takes its statements; or
  it is what the host of the source answered to a reveal under the caller's name. Nothing but such reveals
  is sent before the edit, which goes last and to the peer that was addressed, and no file here changes.\<close>
theorem references_resolved:
  assumes "forward_call ck je answers st author node ''edit'' as (p, r) h = (x, h')"
    and "json_get as ''ops'' = Some (JArr ops)"
  shows "(only_reveals author h h' \<and> (\<exists>e. x = Inl e))
    \<or> (\<exists>h1 ops'. only_reveals author h h1
         \<and> h' = h1\<lparr>hb_sent := hb_sent h1 @ [\<lparr>sn_peer = p, sn_author = author, sn_tool = ''edit'',
                sn_args = obj_with ''ops'' (JArr ops') as, sn_root = r\<rparr>]\<rparr>
         \<and> list_all2 (settled ck je answers st author node (pr_host p) r h h1) ops ops'
         \<and> (\<forall>op\<in>set ops'. foreign_source (pr_host p) op = None)
         \<and> (\<forall>k. k \<noteq> ''ops'' \<longrightarrow> json_get (obj_with ''ops'' (JArr ops') as) k = json_get as k))"
proof -
  obtain y h1 where y: "resolve_raw_ops ck je answers st author node (pr_host p) r ops h = (y, h1)" by fastforce
  note a = raw_ops_settled[OF y]
  show ?thesis
  proof (cases y)
    case (Inl e)
    with assms y have "x = Inl e \<and> h' = h1"
      by (simp add: forward_call_def resolve_proxied_value_froms_def hub_bind_def)
    with a show ?thesis by blast
  next
    case (Inr ops')
    with assms y have h': "h' = h1\<lparr>hb_sent := hb_sent h1 @ [\<lparr>sn_peer = p, sn_author = author, sn_tool = ''edit'',
                sn_args = obj_with ''ops'' (JArr ops') as, sn_root = r\<rparr>]\<rparr>"
      by (simp add: forward_call_def resolve_proxied_value_froms_def hub_bind_def peer_call_def)
    have l: "list_all2 (settled ck je answers st author node (pr_host p) r h h1) ops ops'" using a Inr by simp
    then have "\<forall>op\<in>set ops'. foreign_source (pr_host p) op = None"
      by (induction rule: list_all2_induct) (auto intro: settled_clean)
    moreover have "\<forall>k. k \<noteq> ''ops'' \<longrightarrow> json_get (obj_with ''ops'' (JArr ops') as) k = json_get as k"
      by (cases as) auto
    ultimately show ?thesis using a h' l by blast
  qed
qed

definition demo_forward :: json where
  "demo_forward =
     JObj [(''root'', JStr ''kubs0:src''),
           (''ops'', JArr [JObj [(''op'', JStr ''env_set''), (''path'', JStr ''.env''), (''key'', JStr ''K''),
              (''value_from'', JObj [(''root'', JStr ''r''), (''path'', JStr ''.env''), (''key'', JStr ''K'')])]])]"

theorem references_resolved_witness:
  "\<exists>h' s. forward_call demo_ck demo_je (\<lambda>_. Inr \<lparr>rs_content = JNull, rs_is_error = None, rs_structured = None\<rparr>) demo_state
        ''me'' ''h'' ''edit'' demo_forward (demo_peer, ''kubs0:src'') \<lparr>hb_w = demo_with (empty_journal 30 0), hb_sent = []\<rparr>
      = (Inr \<lparr>rs_content = JNull, rs_is_error = None, rs_structured = None\<rparr>, h')
     \<and> last (hb_sent h') = s \<and> sn_tool s = ''edit''
     \<and> (\<exists>op. json_get (sn_args s) ''ops'' = Some (JArr [op]) \<and> json_get op ''value'' = Some (JStr ''v'')
          \<and> json_get op ''value_from'' = None)"
proof -
  let ?res = "\<lparr>rs_content = JNull, rs_is_error = None, rs_structured = None\<rparr> :: call_result"
  let ?a = "\<lambda>_. Inr ?res :: call_result res"
  let ?h = "\<lparr>hb_w = demo_with (empty_journal 30 0), hb_sent = []\<rparr>"
  let ?vj = "JObj [(''root'', JStr ''r''), (''path'', JStr ''.env''), (''key'', JStr ''K'')]"
  let ?vf = "\<lparr>vf_root = Some ''r'', vf_path = ''.env'', vf_key = ''K'', vf_digest = None\<rparr>"
  let ?op = "JObj [(''op'', JStr ''env_set''), (''path'', JStr ''.env''), (''key'', JStr ''K''), (''value_from'', ?vj)]"
  have ops: "json_get demo_forward ''ops'' = Some (JArr [?op])" by (simp add: demo_forward_def)
  have sp: "split_once (CHR '':'') ''r'' = None" by simp
  have fs: "foreign_source (pr_host demo_peer) ?op = Some (?vj, ''r'')" by (simp add: foreign_source_def sp)
  have vf: "value_from_of ?vj = Some ?vf" by (simp add: value_from_of_def opt_field_def)
  have root: "find (\<lambda>b. rr_name b = ''r'') (as_roots demo_state) = Some demo_root"
    by (simp add: demo_state_def demo_root_def)
  have get: "get_entry demo_env ''K'' = Some \<lparr>e_export = False, e_key = ''K'', e_value = ''v''\<rparr>"
    unfolding demo_env_def by code_simp
  have w: "w_fs (hb_w ?h) = demo_fs" "as_limits demo_state = default_limits"
    by (simp_all add: demo_with_def demo_state_def)
  have lv: "local_value demo_ck (w_fs (hb_w ?h)) (as_limits demo_state) demo_root ?vf = Inr ''v''"
    unfolding w by (simp add: local_value_def demo_sealed_load demo_sealed_def get)
  obtain h1 where f: "fetch_secret_value demo_ck demo_je ?a demo_state ''me'' ''h'' ?vf ''r'' (''kubs0:src'' @ ''/'' @ ''.env'') True ?h
      = (Inr ''v'', h1)"
    unfolding fetch_secret_value_def root option.case lv sum.case by blast
  obtain x h' where x: "forward_call demo_ck demo_je ?a demo_state ''me'' ''h'' ''edit'' demo_forward (demo_peer, ''kubs0:src'') ?h
      = (x, h')" by fastforce
  have r: "resolve_raw_op demo_ck demo_je ?a demo_state ''me'' ''h'' (pr_host demo_peer) ''kubs0:src'' ?op ?h
      = (Inr (obj_without ''value_from'' (obj_with ''value'' (JStr ''v'') ?op)), h1)"
    unfolding resolve_raw_op_def fs using f by (simp add: vf hub_bind_def)
  have xr: "x = Inr ?res"
    using x r by (simp add: forward_call_def resolve_proxied_value_froms_def ops hub_bind_def peer_call_def)
  obtain h2 ops' where e:
    "h' = h2\<lparr>hb_sent := hb_sent h2 @ [\<lparr>sn_peer = demo_peer, sn_author = ''me'', sn_tool = ''edit'',
        sn_args = obj_with ''ops'' (JArr ops') demo_forward, sn_root = ''kubs0:src''\<rparr>]\<rparr>"
    "list_all2 (settled demo_ck demo_je ?a demo_state ''me'' ''h'' (pr_host demo_peer) ''kubs0:src'' ?h h2) [?op] ops'"
    using references_resolved[OF x ops] unfolding xr by (elim disjE exE conjE) simp_all
  from e(2) obtain op where op: "ops' = [op]"
    "settled demo_ck demo_je ?a demo_state ''me'' ''h'' (pr_host demo_peer) ''kubs0:src'' ?h h2 ?op op"
    by (auto simp: list_all2_Cons1)
  obtain v where v: "op = obj_without ''value_from'' (obj_with ''value'' (JStr v) ?op)"
    "sourced demo_ck demo_je ?a demo_state ''me'' ''h'' ?h h2 ?vf ''r'' (''kubs0:src'' @ ''/'' @ op_path_of ?op) v"
    using op(2) by (auto simp: settled_def fs vf)
  have "v = ''v''" using v(2) lv by (simp add: sourced_def root)
  with v(1) have "json_get op ''value'' = Some (JStr ''v'')" "json_get op ''value_from'' = None" by simp_all
  moreover have "json_get (obj_with ''ops'' (JArr ops') demo_forward) ''ops'' = Some (JArr [op])"
    by (simp add: demo_forward_def op(1))
  ultimately show ?thesis
    using x xr by (intro exI[of _ h'] exI[of _ "last (hb_sent h')"] conjI exI[of _ op]) (simp_all add: e(1))
qed

end
