(* ===== verification/Spec2Isabelle.thy ===== *)
theory Spec2Isabelle
  imports Kaed_Engine_Facts Kaed_Dotenv_Facts Kaed_Reorder_Facts Kaed_Redaction_Facts Kaed_Shapes
    Kaed_Leak Kaed_Policy Kaed_Fs_Facts Kaed_Read Kaed_History_Facts Kaed_Query_Facts Kaed_Rotate_Facts Kaed_Occurrences Kaed_Fleet_Facts
    Kaed_Config_Facts Kaed_Server_Facts Kaed_Transport_Facts
begin

text \<open>
  kaed is a server that lets agents read and edit files below configured roots. Reads are shaped and
  budgeted, dotenv files of classified paths are only served sealed, edits are transactions with
  declared base versions, and every transaction is journalled so that it can be queried and reverted.
  This library models the program's own logic (the Rust crate under src/src) and proves what makes it
  correct. File names below are relative to src/src.

  Conventions. A Rust string is the list of its UTF-8 bytes (rstr); a result is a sum whose left side
  is the error value of errors.rs, with the prose of a message reduced to a template tag and its
  arguments while codes, JSON data and branches are kept. Integers are unbounded where the code cannot
  reach the end of its type, saturating where the code saturates, and words in the minting of shapes.
  Third-party crates are parameters: the record crates holds SHA-256, the glob matcher, the gitignore
  matcher, the unified diff and the diff statistics; what is relied on is a named hypothesis (hex_hash:
  a digest is 64 lower-case hexadecimal digits; fills: the random source delivers the bytes asked for;
  a digest lookup that is a finite map; tables_sorted: a
  BTreeMap is read in the order of its keys). Every theorem with hypotheses has a witness at a concrete input.

  The base.
  Kaed_Prelude: byte strings with the operations of str that the code uses, results and their combinators,
  the state transformer step with bind_step, list and map lemmas, the named collections.
  Kaed_Errors (errors.rs): codes, JSON values, constructors and the payload of an error.
  Kaed_Ordmap: the locale ordered_map, what the code relies on of BTreeMap, interpreted on the sorted
  association lists the model uses.

  Text and secrets.
  Kaed_Addr (addr.rs): lines, range replacement, anchors.
  Kaed_Secrets (secrets.rs): digests, the entropy floor as integer arithmetic and its equivalence with
  the real-valued estimate, placeholders, sealing of free text.
  Kaed_Shapes (shapes.rs): the shape grammar, minting, detection; the 128 bits of a UUID are words.
  Kaed_Dotenv (dotenv.rs) with Kaed_Dotenv_Facts, Kaed_Reorder_Facts and Kaed_Redaction_Facts: the parser, the
  two renderings, the typed operations, the resolution of placeholders and the vanish guard. The facts
  are the round trip of parsing and rendering, the effect of each operation on the parsed file, and
  that a redacted rendering depends on values through their seals only.
  Kaed_Leak (leak.rs): the three passes of the write-time leak scan, with soundness and completeness
  relative to the lines the diff calls added.

  Files.
  Kaed_Policy (deny.rs, policy.rs): the deny list, the classifier, the kaedignore chain and its cache.
  The locale closed_layer states that a layer closes its matches downwards; deny list and classifier
  interpret it.
  Kaed_Fs (fsops.rs, perm.rs) with Kaed_Fs_Facts: an explicit file system (nodes by absolute path, symbolic
  links, permission bits), canonicalisation with link fuel (40, the limit of the kernel; a chain beyond
  it is the error ELOOP), the jail, loading, staging. Kaed_Read (fsops.rs): the shaped read, the page
  slicer with its byte budget, read_many; the budget is one of the body, and numbered lines get their
  numbers on top of it, as in the code. Kaed_Enumerate (fsops.rs) with Kaed_Enumerate_Facts: stat, list and
  the filter that list and search give their walk. The walker of the crate ignore is a parameter, a
  tree of what it finds; what is relied on of it (walks) is that it finds paths strictly below the
  directory and follows no links. Kaed_Search (search.rs) with Kaed_Search_Facts: the loop over the files and
  the sink; the regular expression engine is a parameter that reports events, of which only is relied
  on (greps) that after-context follows a match. The facts reduce the stateful sink with its budget to
  a plain grouping of events.

  The edit engine (txn.rs).
  Kaed_Txn: requests, buffers, the nine operations. Kaed_Engine: base verification, the guards, staging,
  journalling, promotion, failure recording, over a world that holds the file system, the journal, a
  supply of temporary names and a list of faults that decides which system call fails.
  Kaed_Engine_Facts: what each phase leaves alone. Kaed_Engine_Inv: the invariant of the buffers through
  base and operations (the inductive relation op_effect). Kaed_Engine_Commit: how the world ends in
  each outcome of a commit. Kaed_Engine_Props: the properties of a transaction as a whole; confined says
  where a transaction may leave a new node that is not a target, namely as a directory made above one or
  as the temporary of one.
  Kaed_Engine_Live: without injected faults and with room on disk the commit goes through.

  The journal (journal.rs).
  Kaed_Recorder: the locale txn_recorder, the contract between the engine and whatever stores its
  transactions, with the engine's consequences proved once inside it. Kaed_Journal: tables, statements,
  queries, blob retention, the digest index. Kaed_Journal_Facts and Kaed_Audit: every method as a step of
  a machine (jstep) whose environment moves the clock and fails database writes; the table invariant
  journal_ok by rule induction; the append-only audit trail; the interpretation of txn_recorder on the
  journal. The reads of the journal do not fail in the model, its writes do.
  Kaed_History (history.rs) with Kaed_History_Facts and Kaed_Query_Facts: the merged query, selectors, diffs
  and revert as a new transaction. The search for failures by path looks at a window of rows only, and
  the completeness of a query is stated up to it.

  The secret verbs (secret_tool.rs).
  Kaed_Secret_Tool: describe, generate, rotate, the cross-root write and reveal, over engine and journal.
  Kaed_Secret_Facts and Kaed_Rotate_Facts: what they did to files, journal and answer; one_txn_more is what
  a successful edit adds to the journal. Kaed_Occurrences:
  the search for a digest over all roots.

  The fleet (fleet.rs).
  Kaed_Fleet with Kaed_Fleet_Facts: the session pool, the call with its one retry, observed health, the errors
  of the hop, and the merge of a search. Calls interleave as steps of an inductive relation (fleet_step)
  whose environment decides connects, answers and dying transports; the facts are the invariant of the
  pool by induction over reachable states, a measure on each call, and the accounting of the merge.
  Both locks are held for the whole of a pool operation on one slot, which is why each is one step.

  Start-up and the server (config.rs, whois.rs, server.rs).
  Kaed_Config: the configuration file as records, the scan for retired fields, and resolve, which turns it into
  the runtime view; the process environment, the TOML reader and the glob compiler are parameters.
  Kaed_Config_Facts: valid_resolved is the type of that view, and whatever resolves has it, which is where the
  hypotheses of other parts about roots (real_dir, qualified names, shapes) come from in the server.
  Kaed_Server: the node a request came from with its cache (whois.rs), the authentication of a request, the
  address book (AppState::root and explain_unknown_root) and the routing of a call. Kaed_Transport: values
  that cross roots and hosts, namely the edit with references, its rewriting on the way to a peer, and the
  rotation over several places; what peers answer is a parameter, one answer per logical call, and every such
  call is logged once; the attempts it takes on the wire are the steps of Kaed_Fleet. Kaed_Server_Facts and Kaed_Transport_Facts: who is admitted, where a call goes, what an unknown
  root is told, and what leaves this host.

  How the parts meet. An edit goes from a request through the jail (Kaed_Fs), the operations (Kaed_Dotenv,
  Kaed_Addr), the guards (Kaed_Dotenv, Kaed_Leak) to the commit; the commit calls the recorder, which is the
  journal in the server and the no-op recorder in tests; revert and the secret verbs build requests and
  call the same engine, so that edit_effect and edit_jail hold for them too.

  Fuel and bounds. Canonicalisation and directory walks use fuel, never the theorems: the fuel is the
  number of links the kernel follows, and running out is an error value that the code also reports. All
  other recursions are structural or have a measure. Sizes are natural numbers, byte budgets are cut
  exactly where the code cuts them.

  Not modelled.
  server.rs: the parameter structs and the dispatch of the tools that only pass their arguments on, the roots
  listing, the fan-out of a fleet search up to its merge, and the MCP and HTTP framing, which belong to
  rmcp and axum. config.rs: the TOML deserializer.
  main.rs, lib.rs and version.rs: process start-up, command line, build constants.
  Opening, permissions and schema migration of the journal database: SQLite and file system set-up.
  The lookup of user and group names through libc in perm.rs.
\<close>

end
